(* ===== verification/Knot_Prelude.thy ===== *)
theory Knot_Prelude
  imports Main
begin

text \<open>
  Shared vocabulary of the development: the collections that carry the component proofs
  (\<open>knot_defs\<close> for definitions that are unfolded together, \<open>io_simps\<close> for the
  equations of the effect combinators), result values, the contract of a state machine that
  several components instantiate, and the list, option and map lemmas that they share.
\<close>

named_theorems knot_defs \<open>definitions unfolded together in component proofs\<close>
named_theorems ok_iff \<open>when fallible code without effects succeeds\<close>
named_theorems io_simps \<open>equations of the effect combinators\<close>

section \<open>Results of operations that have effects\<close>

text \<open>
  A Rust operation ends in one of three ways: it returns \<open>Ok\<close>, it returns \<open>Err\<close>, or the
  process never gets to the end of it, because it dies (a crash, a power cut) or because it
  panics. The first two are values that the caller sees; the third one stops every caller.
\<close>

datatype halt = Died | Panicked

datatype ('e, 'a) outcome = Done 'a | Raise 'e | Halt halt

fun map_raise :: "('e \<Rightarrow> 'f) \<Rightarrow> ('e, 'a) outcome \<Rightarrow> ('f, 'a) outcome" where
  "map_raise f (Done a) = Done a"
| "map_raise f (Raise e) = Raise (f e)"
| "map_raise f (Halt h) = Halt h"

fun map_done :: "('a \<Rightarrow> 'b) \<Rightarrow> ('e, 'a) outcome \<Rightarrow> ('e, 'b) outcome" where
  "map_done f (Done a) = Done (f a)"
| "map_done f (Raise e) = Raise e"
| "map_done f (Halt h) = Halt h"

lemma map_raise_eq_Done [simp]: "map_raise f r = Done a \<longleftrightarrow> r = Done a"
  by (cases r) auto

lemma map_done_eq_Done: "map_done f r = Done b \<longleftrightarrow> (\<exists>a. r = Done a \<and> b = f a)"
  by (cases r) auto

section \<open>Fallible code without effects\<close>

text \<open>
  A \<open>Result\<close> of code that does no I/O is a sum, \<open>Inl\<close> the error. \<open>and_then\<close> is \<open>?\<close> before more code,
  \<open>ensure_that\<close> an early return under a condition, \<open>for_each\<close> a loop whose body may return early. The
  equations in \<open>ok_iff\<close> read off when such code succeeds.
\<close>

definition and_then :: "'e + 'a \<Rightarrow> ('a \<Rightarrow> 'e + 'b) \<Rightarrow> 'e + 'b" where
  "and_then m f = (case m of Inl e \<Rightarrow> Inl e | Inr a \<Rightarrow> f a)"

definition ensure_that :: "bool \<Rightarrow> 'e \<Rightarrow> 'e + unit" where
  "ensure_that p e = (if p then Inr () else Inl e)"

fun for_each :: "('a \<Rightarrow> 'e + unit) \<Rightarrow> 'a list \<Rightarrow> 'e + unit" where
  "for_each f [] = Inr ()"
| "for_each f (x # xs) = and_then (f x) (\<lambda>_. for_each f xs)"

definition if_some :: "('a \<Rightarrow> 'e + unit) \<Rightarrow> 'a option \<Rightarrow> 'e + unit" where
  "if_some f x = (case x of None \<Rightarrow> Inr () | Some a \<Rightarrow> f a)"

text \<open>\<open>map_err\<close>.\<close>

definition map_error :: "('e \<Rightarrow> 'f) \<Rightarrow> 'e + 'a \<Rightarrow> 'f + 'a" where
  "map_error f r = (case r of Inl e \<Rightarrow> Inl (f e) | Inr a \<Rightarrow> Inr a)"

lemma and_then_Inr [ok_iff]: "and_then m f = Inr b \<longleftrightarrow> (\<exists>a. m = Inr a \<and> f a = Inr b)"
  by (auto simp: and_then_def split: sum.split)

lemma and_then_simps [simp]: "and_then (Inr a) f = f a" "and_then (Inl e) f = Inl e"
  by (simp_all add: and_then_def)

lemma and_then_cong [fundef_cong]:
  "m = m' \<Longrightarrow> (\<And>a. m' = Inr a \<Longrightarrow> f a = f' a) \<Longrightarrow> and_then m f = and_then m' f'"
  by (auto simp: and_then_def split: sum.split)

lemma ensure_that_Inr [ok_iff]: "ensure_that p e = Inr u \<longleftrightarrow> p"
  by (simp add: ensure_that_def)

lemma for_each_Inr [ok_iff]: "for_each f xs = Inr u \<longleftrightarrow> (\<forall>x \<in> set xs. f x = Inr ())"
  by (induction xs) (auto simp: and_then_Inr)

lemma if_some_Inr [ok_iff]: "if_some f x = Inr u \<longleftrightarrow> (\<forall>a. x = Some a \<longrightarrow> f a = Inr ())"
  by (auto simp: if_some_def split: option.split)

lemma map_error_Inr [ok_iff]: "map_error f r = Inr a \<longleftrightarrow> r = Inr a"
  by (cases r) (auto simp: map_error_def)

section \<open>State machines with an invariant\<close>

text \<open>
  The contract that the stateful components share: a step function on a state, a predicate
  that every step keeps, and a quantity that no step lowers. What a client gets is the same
  for all of them: both facts hold over any sequence of steps.
\<close>

locale machine =
  fixes step :: "'op \<Rightarrow> 's \<Rightarrow> 's"
    and inv :: "'s \<Rightarrow> bool"
  assumes step_inv: "inv s \<Longrightarrow> inv (step op s)"
begin

lemma run_inv: "inv s \<Longrightarrow> inv (fold step ops s)"
  by (induction ops arbitrary: s) (auto intro: step_inv)

end

locale ranked_machine = machine +
  fixes rank :: "'b \<Rightarrow> nat"
  assumes step_rank: "inv s \<Longrightarrow> rank s \<le> rank (step op s)"
begin

lemma run_rank: "inv s \<Longrightarrow> rank s \<le> rank (fold step ops s)"
proof (induction ops arbitrary: s)
  case Nil
  then show ?case by simp
next
  case (Cons op ops)
  from Cons.prems have "rank s \<le> rank (step op s)" and "inv (step op s)"
    by (auto intro: step_rank step_inv)
  with Cons.IH [of "step op s"] show ?case by simp
qed

end

text \<open>
  A machine whose every change of what it shows raises the rank: the rank is a stamp, and two
  states of one run with the same stamp show the same.
\<close>

locale stamped_machine = ranked_machine +
  fixes view :: "'b \<Rightarrow> 'v"
  assumes step_view: "inv s \<Longrightarrow> view (step op s) \<noteq> view s \<Longrightarrow> rank s < rank (step op s)"
begin

lemma run_view: "inv s \<Longrightarrow> rank (fold step ops s) = rank s \<Longrightarrow> view (fold step ops s) = view s"
proof (induction ops arbitrary: s)
  case Nil
  then show ?case by simp
next
  case (Cons op ops)
  let ?t = "step op s"
  from Cons.prems(1) have t: "inv ?t" by (rule step_inv)
  from Cons.prems(1) have "rank s \<le> rank ?t" by (rule step_rank)
  moreover from t have "rank ?t \<le> rank (fold step ops ?t)" by (rule run_rank)
  ultimately have "rank ?t = rank s" and "rank (fold step ops ?t) = rank ?t"
    using Cons.prems(2) by simp_all
  with step_view [OF Cons.prems(1)] Cons.IH [OF t] show ?case by fastforce
qed

end

section \<open>Lists\<close>

lemma take_drop_append: "i \<le> j \<Longrightarrow> take (j - i) (drop i xs) @ drop j xs = drop i xs"
  by (metis append_take_drop_id drop_drop le_add_diff_inverse2)

lemma takeWhile_all: "(\<And>x. x \<in> set xs \<Longrightarrow> P x) \<Longrightarrow> takeWhile P xs = xs"
  by (simp add: takeWhile_eq_all_conv)

lemma find_Some_in: "find P xs = Some x \<Longrightarrow> x \<in> set xs \<and> P x"
  by (induction xs) (auto split: if_splits)

lemma find_None_all: "find P xs = None \<longleftrightarrow> (\<forall>x \<in> set xs. \<not> P x)"
  by (auto simp: find_None_iff)

text \<open>The first successful image of a list (Rust's \<open>find_map\<close>).\<close>

fun find_map :: "('a \<Rightarrow> 'b option) \<Rightarrow> 'a list \<Rightarrow> 'b option" where
  "find_map f [] = None"
| "find_map f (x # xs) = (case f x of Some y \<Rightarrow> Some y | None \<Rightarrow> find_map f xs)"

lemma find_map_Some:
  "find_map f xs = Some y \<Longrightarrow> \<exists>x \<in> set xs. f x = Some y"
  by (induction xs) (auto split: option.splits)

text \<open>Collecting a list of options: all of them, or nothing (\<open>collect::<Option<Vec<_>>>\<close>).\<close>

fun collect_options :: "'a option list \<Rightarrow> 'a list option" where
  "collect_options [] = Some []"
| "collect_options (None # xs) = None"
| "collect_options (Some x # xs) = map_option ((#) x) (collect_options xs)"

lemma collect_options_Some: "collect_options xs = Some ys \<longleftrightarrow> xs = map Some ys"
  by (induction xs arbitrary: ys rule: collect_options.induct) (auto simp: Cons_eq_map_conv)

end
