(* ===== verification/Knot_Text.thy ===== *)
theory Knot_Text
  imports Knot_Prelude
begin

text \<open>
  The text model. A Rust \<open>str\<close> is a sequence of bytes that is well-formed UTF-8, and its
  offsets count bytes. Here a text is a HOL \<open>string\<close>, one \<open>char\<close> per byte, so that
  \<open>length\<close> is \<open>str::len\<close> and slicing is \<open>take\<close> and \<open>drop\<close>. The functions of
  \<open>core::str\<close> that the sources call are written out over it: characters and their code
  points, boundaries, trimming, splitting, and the ASCII helpers.
\<close>

section \<open>Bytes and characters\<close>

definition byte :: "char \<Rightarrow> nat" where
  "byte c = of_char c"

lemma byte_less [simp]: "byte c < 256"
  unfolding byte_def by (rule nat_of_char_less_256)

definition is_cont_byte :: "char \<Rightarrow> bool" where
  "is_cont_byte c \<longleftrightarrow> 128 \<le> byte c \<and> byte c < 192"

text \<open>\<open>str::is_char_boundary\<close>.\<close>

definition is_char_boundary :: "string \<Rightarrow> nat \<Rightarrow> bool" where
  "is_char_boundary s i \<longleftrightarrow>
     (if i = 0 then True
      else if length s \<le> i then i = length s
      else \<not> is_cont_byte (s ! i))"

text \<open>\<open>str::get(a..b)\<close>: the slice, when both ends are boundaries in order.\<close>

definition str_get :: "string \<Rightarrow> nat \<Rightarrow> nat \<Rightarrow> string option" where
  "str_get s a b =
     (if a \<le> b \<and> is_char_boundary s a \<and> is_char_boundary s b
      then Some (take (b - a) (drop a s)) else None)"

lemma is_char_boundary_le: "is_char_boundary s i \<Longrightarrow> i \<le> length s"
  by (auto simp: is_char_boundary_def split: if_splits)

lemma is_char_boundary_0 [simp]: "is_char_boundary s 0"
  and is_char_boundary_length [simp]: "is_char_boundary s (length s)"
  by (simp_all add: is_char_boundary_def)

text \<open>The width of a character is read off its first byte.\<close>

definition utf8_width :: "char \<Rightarrow> nat" where
  "utf8_width c =
     (if byte c < 128 then 1 else if byte c < 224 then 2 else if byte c < 240 then 3 else 4)"

lemma utf8_width_pos [simp]: "0 < utf8_width c"
  by (simp add: utf8_width_def)

text \<open>The characters of a text, each as its bytes (\<open>char_indices\<close> without the indices).\<close>

fun str_chars :: "string \<Rightarrow> string list" where
  "str_chars [] = []"
| "str_chars (c # cs) =
     (c # take (utf8_width c - 1) cs) # str_chars (drop (utf8_width c - 1) cs)"

lemma concat_str_chars [simp]: "concat (str_chars s) = s"
  by (induction s rule: str_chars.induct) simp_all

lemma str_chars_nonempty: "g \<in> set (str_chars s) \<Longrightarrow> g \<noteq> []"
  by (induction s rule: str_chars.induct) auto

lemma str_chars_eq_Nil [simp]: "str_chars s = [] \<longleftrightarrow> s = []"
  by (cases s) auto

text \<open>The code point of one character, from its bytes.\<close>

fun code_point :: "string \<Rightarrow> nat" where
  "code_point [a] = byte a"
| "code_point [a, b] = (byte a mod 32) * 64 + byte b mod 64"
| "code_point [a, b, c] = (byte a mod 16) * 4096 + (byte b mod 64) * 64 + byte c mod 64"
| "code_point [a, b, c, d] =
     (byte a mod 8) * 262144 + (byte b mod 64) * 4096 + (byte c mod 64) * 64 + byte d mod 64"
| "code_point _ = 0"

definition code_points :: "string \<Rightarrow> nat list" where
  "code_points s = map code_point (str_chars s)"

text \<open>
  Well-formed UTF-8, as \<open>str::from_utf8\<close> decides it: the lead byte fixes how many
  continuation bytes follow, overlong forms, surrogates and values above U+10FFFF are refused.
\<close>

fun utf8_group_ok :: "string \<Rightarrow> bool" where
  "utf8_group_ok [a] \<longleftrightarrow> byte a < 128"
| "utf8_group_ok [a, b] \<longleftrightarrow> 194 \<le> byte a \<and> byte a < 224 \<and> is_cont_byte b"
| "utf8_group_ok [a, b, c] \<longleftrightarrow>
     224 \<le> byte a \<and> byte a < 240 \<and> is_cont_byte b \<and> is_cont_byte c \<and>
     (byte a = 224 \<longrightarrow> 160 \<le> byte b) \<and> (byte a = 237 \<longrightarrow> byte b < 160)"
| "utf8_group_ok [a, b, c, d] \<longleftrightarrow>
     240 \<le> byte a \<and> byte a < 245 \<and> is_cont_byte b \<and> is_cont_byte c \<and> is_cont_byte d \<and>
     (byte a = 240 \<longrightarrow> 144 \<le> byte b) \<and> (byte a = 244 \<longrightarrow> byte b < 144)"
| "utf8_group_ok _ \<longleftrightarrow> False"

definition utf8_valid :: "string \<Rightarrow> bool" where
  "utf8_valid s \<longleftrightarrow> list_all utf8_group_ok (str_chars s)"

text \<open>A run of ASCII bytes is its own list of characters.\<close>

lemma str_chars_ascii: "(\<forall>c \<in> set s. byte c < 128) \<Longrightarrow> str_chars s = map (\<lambda>c. [c]) s"
  by (induction s) (auto simp: utf8_width_def)

lemma utf8_valid_ascii: "(\<forall>c \<in> set s. byte c < 128) \<Longrightarrow> utf8_valid s"
  by (auto simp: utf8_valid_def str_chars_ascii list_all_iff)

section \<open>Character classes\<close>

text \<open>The Unicode property \<open>White_Space\<close> (\<open>char::is_whitespace\<close>) and the general
  category \<open>Cc\<close> (\<open>char::is_control\<close>).\<close>

definition is_whitespace :: "nat \<Rightarrow> bool" where
  "is_whitespace n \<longleftrightarrow>
     (if n < 256 then 9 \<le> n \<and> n \<le> 13 \<or> n = 32 \<or> n = 133 \<or> n = 160
      else n = 5760 \<or> 8192 \<le> n \<and> n \<le> 8202 \<or> n = 8232 \<or> n = 8233 \<or> n = 8239 \<or>
        n = 8287 \<or> n = 12288)"

definition is_control :: "nat \<Rightarrow> bool" where
  "is_control n \<longleftrightarrow> n < 32 \<or> 127 \<le> n \<and> n < 160"

definition is_ascii_digit :: "char \<Rightarrow> bool" where
  "is_ascii_digit c \<longleftrightarrow> 48 \<le> byte c \<and> byte c \<le> 57"

definition is_ascii_upper :: "char \<Rightarrow> bool" where
  "is_ascii_upper c \<longleftrightarrow> 65 \<le> byte c \<and> byte c \<le> 90"

definition is_ascii_lower :: "char \<Rightarrow> bool" where
  "is_ascii_lower c \<longleftrightarrow> 97 \<le> byte c \<and> byte c \<le> 122"

definition is_ascii_alphanumeric :: "char \<Rightarrow> bool" where
  "is_ascii_alphanumeric c \<longleftrightarrow> is_ascii_digit c \<or> is_ascii_upper c \<or> is_ascii_lower c"

definition is_ascii_punctuation :: "char \<Rightarrow> bool" where
  "is_ascii_punctuation c \<longleftrightarrow>
     33 \<le> byte c \<and> byte c \<le> 47 \<or> 58 \<le> byte c \<and> byte c \<le> 64 \<or>
     91 \<le> byte c \<and> byte c \<le> 96 \<or> 123 \<le> byte c \<and> byte c \<le> 126"

definition ascii_lower :: "char \<Rightarrow> char" where
  "ascii_lower c = (if is_ascii_upper c then char_of (byte c + 32) else c)"

definition to_ascii_lowercase :: "string \<Rightarrow> string" where
  "to_ascii_lowercase s = map ascii_lower s"

definition eq_ignore_ascii_case :: "string \<Rightarrow> string \<Rightarrow> bool" where
  "eq_ignore_ascii_case s t \<longleftrightarrow> to_ascii_lowercase s = to_ascii_lowercase t"

lemma byte_char_of [simp]: "n < 256 \<Longrightarrow> byte (char_of n) = n"
  by (simp add: byte_def)

lemma ascii_lower_idem [simp]: "ascii_lower (ascii_lower c) = ascii_lower c"
  by (auto simp: ascii_lower_def is_ascii_upper_def)

lemma to_ascii_lowercase_idem [simp]:
  "to_ascii_lowercase (to_ascii_lowercase s) = to_ascii_lowercase s"
  by (simp add: to_ascii_lowercase_def)

lemma length_to_ascii_lowercase [simp]: "length (to_ascii_lowercase s) = length s"
  by (simp add: to_ascii_lowercase_def)

section \<open>Trimming and splitting\<close>

definition ws_char :: "string \<Rightarrow> bool" where
  "ws_char g \<longleftrightarrow> is_whitespace (code_point g)"

definition trim_start :: "string \<Rightarrow> string" where
  "trim_start s = concat (dropWhile ws_char (str_chars s))"

definition trim_end :: "string \<Rightarrow> string" where
  "trim_end s = concat (rev (dropWhile ws_char (rev (str_chars s))))"

definition str_trim :: "string \<Rightarrow> string" where
  "str_trim s =
     concat (rev (dropWhile ws_char (rev (dropWhile ws_char (str_chars s)))))"

text \<open>\<open>split_inclusive\<close>: pieces that keep their terminator.\<close>

fun split_inclusive :: "(char \<Rightarrow> bool) \<Rightarrow> string \<Rightarrow> string list" where
  "split_inclusive p [] = []"
| "split_inclusive p (c # cs) =
     (if p c then [c] # split_inclusive p cs
      else case split_inclusive p cs of [] \<Rightarrow> [[c]] | l # ls \<Rightarrow> (c # l) # ls)"

lemma concat_split_inclusive [simp]: "concat (split_inclusive p s) = s"
  by (induction s) (auto split: list.splits)

lemma split_inclusive_nonempty: "l \<in> set (split_inclusive p s) \<Longrightarrow> l \<noteq> []"
  by (induction s arbitrary: l) (auto split: list.splits if_splits)

text \<open>\<open>split\<close>: pieces between separators, always at least one.\<close>

fun split_on :: "char \<Rightarrow> string \<Rightarrow> string list" where
  "split_on d [] = [[]]"
| "split_on d (c # cs) =
     (if c = d then [] # split_on d cs
      else case split_on d cs of [] \<Rightarrow> [[c]] | l # ls \<Rightarrow> (c # l) # ls)"

lemma split_on_nonempty [simp]: "split_on d s \<noteq> []"
  by (cases s) (auto split: list.splits)

text \<open>\<open>str::lines\<close>: pieces ended by a line feed, each without it and without one carriage
  return before it; a last piece that has no line feed is kept whole.\<close>

definition nl :: char where "nl = CHR 0x0A"
definition cr :: char where "cr = CHR 0x0D"
definition tab :: char where "tab = CHR 0x09"

definition strip_line :: "string \<Rightarrow> string" where
  "strip_line l =
     (if l \<noteq> [] \<and> last l = nl
      then (let b = butlast l in if b \<noteq> [] \<and> last b = cr then butlast b else b)
      else l)"

definition str_lines :: "string \<Rightarrow> string list" where
  "str_lines s = map strip_line (split_inclusive (\<lambda>c. c = nl) s)"

text \<open>\<open>str::find\<close> for a byte pattern: the offset of its first occurrence.\<close>

fun starts_with :: "string \<Rightarrow> string \<Rightarrow> bool" where
  "starts_with s [] \<longleftrightarrow> True"
| "starts_with [] (p # ps) \<longleftrightarrow> False"
| "starts_with (c # cs) (p # ps) \<longleftrightarrow> c = p \<and> starts_with cs ps"

lemma starts_with_iff: "starts_with s p \<longleftrightarrow> (\<exists>t. s = p @ t)"
  by (induction s p rule: starts_with.induct) auto

definition ends_with :: "string \<Rightarrow> string \<Rightarrow> bool" where
  "ends_with s p \<longleftrightarrow> starts_with (rev s) (rev p)"

fun str_find :: "string \<Rightarrow> string \<Rightarrow> nat option" where
  "str_find pat [] = (if pat = [] then Some 0 else None)"
| "str_find pat (c # cs) =
     (if starts_with (c # cs) pat then Some 0 else map_option Suc (str_find pat cs))"

lemma str_find_Some:
  "str_find pat s = Some i \<Longrightarrow> i \<le> length s \<and> starts_with (drop i s) pat"
  by (induction s arbitrary: i) (auto split: if_splits)

definition str_contains :: "string \<Rightarrow> string \<Rightarrow> bool" where
  "str_contains s pat \<longleftrightarrow> str_find pat s \<noteq> None"

text \<open>\<open>split_whitespace\<close>: maximal runs of characters that are not white space.\<close>

fun split_groups :: "string list \<Rightarrow> string \<Rightarrow> string list" where
  "split_groups [] acc = (if acc = [] then [] else [acc])"
| "split_groups (g # gs) acc =
     (if ws_char g then (if acc = [] then split_groups gs [] else acc # split_groups gs [])
      else split_groups gs (acc @ g))"

definition split_whitespace :: "string \<Rightarrow> string list" where
  "split_whitespace s = split_groups (str_chars s) []"

text \<open>Decimal digits of a number (\<open>Display\<close> for the unsigned integers).\<close>

fun nat_str :: "nat \<Rightarrow> string" where
  "nat_str n =
     (if n < 10 then [char_of (48 + n)] else nat_str (n div 10) @ [char_of (48 + n mod 10)])"

declare nat_str.simps [simp del]

end
