(* ===== verification/Knot_FileSystem.thy ===== *)
theory Knot_FileSystem
  imports Knot_Text
begin

text \<open>
  The part of \<open>std::fs\<close> that the sources use, as a state that the operations pass along.
  Paths are absolute lists of components. A directory entry is a name of a regular file (an
  inode number, so that hard links and replacement are visible), a directory, or a symbolic
  link. The state carries a schedule: one tick per system call, saying what other processes
  did just before the call and whether the call goes through, fails, or is the point at which
  the process dies; a write that fails or dies has written some prefix. An exhausted schedule
  means undisturbed success. Nothing in this theory models a definition of the repository; it
  is the world in which the modelled operations run.
\<close>

section \<open>State\<close>

type_synonym path = "string list"
type_synonym bytes = string

datatype entry = Name nat | Folder | Link path

record inode =
  content :: bytes
  readonly :: bool

datatype io_kind = NotFound | AlreadyExists | PermissionDenied | InvalidInput | NotADirectory
  | IsADirectory | FilesystemLoop | FileTooLarge | OtherError

text \<open>What another process can do to the tree between two of our calls.\<close>

datatype external =
    ExtWrite path bytes
  | ExtReplace path bytes
  | ExtRemove path
  | ExtReadonly path bool

datatype fate = Go | Fail io_kind nat | Die nat

type_synonym tick = "external list \<times> fate"

record fs =
  entries :: "path \<rightharpoonup> entry"
  inodes :: "nat \<rightharpoonup> inode"
  next_inode :: nat
  sched :: "tick list"

type_synonym ('e, 'a) prog = "fs \<Rightarrow> ('e, 'a) outcome \<times> fs"

section \<open>Effect combinators\<close>

definition ret :: "'a \<Rightarrow> ('e, 'a) prog" where
  "ret a = (\<lambda>fs. (Done a, fs))"

definition raise :: "'e \<Rightarrow> ('e, 'a) prog" where
  "raise e = (\<lambda>fs. (Raise e, fs))"

text \<open>Sequencing, with Rust's \<open>?\<close>.\<close>

definition bind :: "('e, 'a) prog \<Rightarrow> ('a \<Rightarrow> ('e, 'b) prog) \<Rightarrow> ('e, 'b) prog" where
  "bind m f = (\<lambda>fs. case m fs of
     (Done a, fs') \<Rightarrow> f a fs'
   | (Raise e, fs') \<Rightarrow> (Raise e, fs')
   | (Halt h, fs') \<Rightarrow> (Halt h, fs'))"

text \<open>A result that is inspected instead of propagated (\<open>match\<close>, \<open>is_err\<close>, \<open>let _ =\<close>).\<close>

definition attempt :: "('e, 'a) prog \<Rightarrow> ('f, 'e + 'a) prog" where
  "attempt m = (\<lambda>fs. case m fs of
     (Done a, fs') \<Rightarrow> (Done (Inr a), fs')
   | (Raise e, fs') \<Rightarrow> (Done (Inl e), fs')
   | (Halt h, fs') \<Rightarrow> (Halt h, fs'))"

definition map_err :: "('e \<Rightarrow> 'f) \<Rightarrow> ('e, 'a) prog \<Rightarrow> ('f, 'a) prog" where
  "map_err f m = (\<lambda>fs. case m fs of (r, fs') \<Rightarrow> (map_raise f r, fs'))"

definition of_sum :: "'e + 'a \<Rightarrow> ('e, 'a) prog" where
  "of_sum r = (case r of Inl e \<Rightarrow> raise e | Inr a \<Rightarrow> ret a)"

text \<open>A panic stops the operation and all its callers.\<close>

definition panic :: "('e, 'a) prog" where
  "panic fs = (Halt Panicked, fs)"

lemma bind_ret [io_simps]: "bind (ret a) f = f a"
  by (simp add: bind_def ret_def)

lemma bind_assoc: "bind (bind m f) g = bind m (\<lambda>a. bind (f a) g)"
  by (auto simp: bind_def fun_eq_iff split: prod.splits outcome.splits)

section \<open>Paths\<close>

text \<open>\<open>Path::parent\<close>, \<open>Path::file_name\<close>, \<open>Path::starts_with\<close>, \<open>Path::strip_prefix\<close>.\<close>

definition path_parent :: "path \<Rightarrow> path option" where
  "path_parent p = (if p = [] then None else Some (butlast p))"

definition path_file_name :: "path \<Rightarrow> string option" where
  "path_file_name p = (if p = [] \<or> last p = ''..'' then None else Some (last p))"

fun path_strip_prefix :: "path \<Rightarrow> path \<Rightarrow> path option" where
  "path_strip_prefix [] p = Some p"
| "path_strip_prefix (r # rs) [] = None"
| "path_strip_prefix (r # rs) (p # ps) = (if r = p then path_strip_prefix rs ps else None)"

lemma path_strip_prefix_Some: "path_strip_prefix r p = Some q \<longleftrightarrow> p = r @ q"
  by (induction r p rule: path_strip_prefix.induct) auto

definition path_starts_with :: "path \<Rightarrow> path \<Rightarrow> bool" where
  "path_starts_with p r \<longleftrightarrow> path_strip_prefix r p \<noteq> None"

text \<open>
  \<open>Path::extension\<close> and \<open>Path::file_stem\<close>: the file name is cut at its last dot, unless
  that dot is its first byte.
\<close>

definition split_at_dot :: "string \<Rightarrow> string \<times> string option" where
  "split_at_dot n =
     (let after = takeWhile (\<lambda>c. c \<noteq> CHR ''.'') (rev n);
          k = length n - length after
      in if length after = length n \<or> k = 1 then (n, None)
         else (take (k - 1) n, Some (rev after)))"

definition path_extension :: "path \<Rightarrow> string option" where
  "path_extension p = Option.bind (path_file_name p) (\<lambda>n. snd (split_at_dot n))"

definition path_file_stem :: "path \<Rightarrow> string option" where
  "path_file_stem p = map_option (\<lambda>n. fst (split_at_dot n)) (path_file_name p)"

section \<open>Resolution\<close>

text \<open>
  Resolving a path walks its components and follows symbolic links, at most forty of them in
  one resolution, as Linux does before it reports a loop.
\<close>

definition max_links :: nat where "max_links = 40"

function resolve_from :: "(path \<rightharpoonup> entry) \<Rightarrow> nat \<Rightarrow> path \<Rightarrow> path \<Rightarrow> io_kind + path" where
  "resolve_from es n acc [] = Inr acc"
| "resolve_from es n acc (c # cs) =
     (if c = ''.'' then resolve_from es n acc cs
      else if c = ''..'' then resolve_from es n (butlast acc) cs
      else case es (acc @ [c]) of
        None \<Rightarrow> Inl NotFound
      | Some Folder \<Rightarrow> resolve_from es n (acc @ [c]) cs
      | Some (Name i) \<Rightarrow> if cs = [] then Inr (acc @ [c]) else Inl NotADirectory
      | Some (Link t) \<Rightarrow>
          (case n of 0 \<Rightarrow> Inl FilesystemLoop | Suc m \<Rightarrow> resolve_from es m [] (t @ cs)))"
  by pat_completeness auto
termination
  by (relation "measures [\<lambda>(es, n, acc, cs). n, \<lambda>(es, n, acc, cs). length cs]") auto

definition resolve :: "fs \<Rightarrow> path \<Rightarrow> io_kind + path" where
  "resolve fs p = resolve_from (entries fs) max_links [] p"

text \<open>Calls that act on a directory entry resolve the directory and leave the last component alone.\<close>

definition locate :: "fs \<Rightarrow> path \<Rightarrow> io_kind + path" where
  "locate fs p =
     (if p = [] \<or> last p = ''.'' \<or> last p = ''..'' then Inl InvalidInput
      else case resolve fs (butlast p) of
        Inl e \<Rightarrow> Inl e
      | Inr d \<Rightarrow> if d = [] \<or> entries fs d = Some Folder then Inr (d @ [last p])
                 else Inl NotADirectory)"

text \<open>The regular file that a resolved path names.\<close>

definition inode_at :: "fs \<Rightarrow> path \<Rightarrow> nat option" where
  "inode_at fs p = (case entries fs p of Some (Name i) \<Rightarrow> Some i | _ \<Rightarrow> None)"

definition file_at :: "fs \<Rightarrow> path \<Rightarrow> inode option" where
  "file_at fs p = Option.bind (inode_at fs p) (inodes fs)"

definition bytes_at :: "fs \<Rightarrow> path \<Rightarrow> bytes option" where
  "bytes_at fs p = map_option content (file_at fs p)"


section \<open>Other processes\<close>

definition set_content :: "nat \<Rightarrow> bytes \<Rightarrow> fs \<Rightarrow> fs" where
  "set_content i b fs =
     (case inodes fs i of None \<Rightarrow> fs
      | Some f \<Rightarrow> fs\<lparr>inodes := (inodes fs)(i \<mapsto> f\<lparr>content := b\<rparr>)\<rparr>)"

definition set_readonly_flag :: "nat \<Rightarrow> bool \<Rightarrow> fs \<Rightarrow> fs" where
  "set_readonly_flag i v fs =
     (case inodes fs i of None \<Rightarrow> fs
      | Some f \<Rightarrow> fs\<lparr>inodes := (inodes fs)(i \<mapsto> f\<lparr>readonly := v\<rparr>)\<rparr>)"

definition new_file :: "path \<Rightarrow> bytes \<Rightarrow> fs \<Rightarrow> fs" where
  "new_file p b fs = fs\<lparr>
     entries := (entries fs)(p \<mapsto> Name (next_inode fs)),
     inodes := (inodes fs)(next_inode fs \<mapsto> \<lparr>content = b, readonly = False\<rparr>),
     next_inode := Suc (next_inode fs)\<rparr>"

fun apply_ext :: "external \<Rightarrow> fs \<Rightarrow> fs" where
  "apply_ext (ExtWrite p b) fs =
     (case inode_at fs p of None \<Rightarrow> fs | Some i \<Rightarrow> set_content i b fs)"
| "apply_ext (ExtReplace p b) fs =
     (if p = [] \<or> entries fs p = Some Folder then fs else new_file p b fs)"
| "apply_ext (ExtRemove p) fs =
     (if entries fs p = Some Folder then fs else fs\<lparr>entries := (entries fs)(p := None)\<rparr>)"
| "apply_ext (ExtReadonly p v) fs =
     (case inode_at fs p of None \<Rightarrow> fs | Some i \<Rightarrow> set_readonly_flag i v fs)"

section \<open>System calls\<close>

text \<open>
  A call takes the next tick: other processes move first, then the call runs, fails, or is
  where the process dies. \<open>part k\<close> is what a call that does not finish leaves behind.
\<close>

definition syscall ::
  "(nat \<Rightarrow> fs \<Rightarrow> fs) \<Rightarrow> (io_kind, 'a) prog \<Rightarrow> (io_kind, 'a) prog" where
  "syscall part op = (\<lambda>fs. case sched fs of
     [] \<Rightarrow> op fs
   | (exts, fate) # rest \<Rightarrow>
       let fs' = (fold apply_ext exts fs)\<lparr>sched := rest\<rparr>
       in case fate of
            Go \<Rightarrow> op fs'
          | Fail e k \<Rightarrow> (Raise e, part k fs')
          | Die k \<Rightarrow> (Halt Died, part k fs'))"

definition simple_call :: "(io_kind, 'a) prog \<Rightarrow> (io_kind, 'a) prog" where
  "simple_call op = syscall (\<lambda>_ fs. fs) op"

record metadata =
  meta_is_file :: bool
  meta_is_dir :: bool
  meta_readonly :: bool
  meta_len :: nat

definition metadata_of :: "fs \<Rightarrow> path \<Rightarrow> metadata" where
  "metadata_of fs p = (case file_at fs p of
     Some f \<Rightarrow> \<lparr>meta_is_file = True, meta_is_dir = False,
                meta_readonly = readonly f, meta_len = length (content f)\<rparr>
   | None \<Rightarrow> \<lparr>meta_is_file = False, meta_is_dir = p = [] \<or> entries fs p = Some Folder,
                meta_readonly = False, meta_len = 0\<rparr>)"

definition fs_metadata :: "path \<Rightarrow> (io_kind, metadata) prog" where
  "fs_metadata p = simple_call (\<lambda>fs. case resolve fs p of
     Inl e \<Rightarrow> (Raise e, fs) | Inr q \<Rightarrow> (Done (metadata_of fs q), fs))"

text \<open>The metadata of the entry itself; a symbolic link is neither a file nor a directory.\<close>

definition fs_symlink_metadata :: "path \<Rightarrow> (io_kind, metadata) prog" where
  "fs_symlink_metadata p = simple_call (\<lambda>fs. case locate fs p of
     Inl e \<Rightarrow> (if p = [] then (Done (metadata_of fs []), fs) else (Raise e, fs))
   | Inr q \<Rightarrow> (case entries fs q of
       None \<Rightarrow> (Raise NotFound, fs) | Some _ \<Rightarrow> (Done (metadata_of fs q), fs)))"

definition fs_canonicalize :: "path \<Rightarrow> (io_kind, path) prog" where
  "fs_canonicalize p = simple_call (\<lambda>fs. case resolve fs p of
     Inl e \<Rightarrow> (Raise e, fs) | Inr q \<Rightarrow> (Done q, fs))"

text \<open>An open file is the inode it was opened on.\<close>

definition fs_open :: "path \<Rightarrow> (io_kind, nat) prog" where
  "fs_open p = simple_call (\<lambda>fs. case resolve fs p of
     Inl e \<Rightarrow> (Raise e, fs)
   | Inr q \<Rightarrow> (case inode_at fs q of
       None \<Rightarrow> (Raise IsADirectory, fs) | Some i \<Rightarrow> (Done i, fs)))"

definition fs_read_to_end :: "nat \<Rightarrow> (io_kind, bytes) prog" where
  "fs_read_to_end i = simple_call (\<lambda>fs. case inodes fs i of
     None \<Rightarrow> (Raise OtherError, fs) | Some f \<Rightarrow> (Done (content f), fs))"

definition fs_read :: "path \<Rightarrow> (io_kind, bytes) prog" where
  "fs_read p = bind (fs_open p) fs_read_to_end"

text \<open>\<open>OpenOptions::new().write(true).create_new(true).open(p)\<close>.\<close>

definition fs_create_new :: "path \<Rightarrow> (io_kind, nat) prog" where
  "fs_create_new p = simple_call (\<lambda>fs. case locate fs p of
     Inl e \<Rightarrow> (Raise e, fs)
   | Inr q \<Rightarrow> (if entries fs q = None then (Done (next_inode fs), new_file q [] fs)
              else (Raise AlreadyExists, fs)))"

text \<open>\<open>write_all\<close> on a file that was just created; a call cut short has written a prefix.\<close>

definition fs_write_all :: "nat \<Rightarrow> bytes \<Rightarrow> (io_kind, unit) prog" where
  "fs_write_all i b = syscall (\<lambda>k. set_content i (take k b)) (\<lambda>fs. (Done (), set_content i b fs))"

definition fs_sync :: "nat \<Rightarrow> (io_kind, unit) prog" where
  "fs_sync i = simple_call (ret ())"

definition fs_set_readonly :: "path \<Rightarrow> bool \<Rightarrow> (io_kind, unit) prog" where
  "fs_set_readonly p v = simple_call (\<lambda>fs. case resolve fs p of
     Inl e \<Rightarrow> (Raise e, fs)
   | Inr q \<Rightarrow> (case inode_at fs q of
       None \<Rightarrow> (Done (), fs) | Some i \<Rightarrow> (Done (), set_readonly_flag i v fs)))"

text \<open>\<open>rename\<close> of a file: the destination entry is replaced in one step.\<close>

definition fs_rename :: "path \<Rightarrow> path \<Rightarrow> (io_kind, unit) prog" where
  "fs_rename a b = simple_call (\<lambda>fs. case (locate fs a, locate fs b) of
     (Inl e, _) \<Rightarrow> (Raise e, fs)
   | (_, Inl e) \<Rightarrow> (Raise e, fs)
   | (Inr p, Inr q) \<Rightarrow> (case entries fs p of
       None \<Rightarrow> (Raise NotFound, fs)
     | Some n \<Rightarrow>
         if entries fs q = Some Folder then (Raise IsADirectory, fs)
         else if p = q \<or> entries fs q = Some n then (Done (), fs)
         else (Done (), fs\<lparr>entries := (entries fs)(p := None, q \<mapsto> n)\<rparr>)))"

text \<open>\<open>hard_link\<close>: never replaces an existing entry.\<close>

definition fs_hard_link :: "path \<Rightarrow> path \<Rightarrow> (io_kind, unit) prog" where
  "fs_hard_link a b = simple_call (\<lambda>fs. case (locate fs a, locate fs b) of
     (Inl e, _) \<Rightarrow> (Raise e, fs)
   | (_, Inl e) \<Rightarrow> (Raise e, fs)
   | (Inr p, Inr q) \<Rightarrow> (case entries fs p of
       None \<Rightarrow> (Raise NotFound, fs)
     | Some n \<Rightarrow>
         if entries fs q \<noteq> None then (Raise AlreadyExists, fs)
         else (Done (), fs\<lparr>entries := (entries fs)(q \<mapsto> n)\<rparr>)))"

definition fs_remove_file :: "path \<Rightarrow> (io_kind, unit) prog" where
  "fs_remove_file p = simple_call (\<lambda>fs. case locate fs p of
     Inl e \<Rightarrow> (Raise e, fs)
   | Inr q \<Rightarrow> (case entries fs q of
       None \<Rightarrow> (Raise NotFound, fs)
     | Some Folder \<Rightarrow> (Raise IsADirectory, fs)
     | Some _ \<Rightarrow> (Done (), fs\<lparr>entries := (entries fs)(q := None)\<rparr>)))"


section \<open>Reasoning about calls\<close>

text \<open>
  \<open>wp m Q fs\<close>: running \<open>m\<close> from \<open>fs\<close> ends in an outcome and a state that satisfy
  \<open>Q\<close>. A state is \<open>calm\<close> when no other process moves during the rest of the schedule; calls
  may still fail or be the last thing that happens.
\<close>

definition wp :: "('e, 'a) prog \<Rightarrow> (('e, 'a) outcome \<Rightarrow> fs \<Rightarrow> bool) \<Rightarrow> fs \<Rightarrow> bool" where
  "wp m Q fs \<longleftrightarrow> (case m fs of (r, fs') \<Rightarrow> Q r fs')"

definition calm :: "fs \<Rightarrow> bool" where
  "calm fs \<longleftrightarrow> (\<forall>t \<in> set (sched fs). fst t = [])"

lemma wpD: "wp m Q fs \<Longrightarrow> m fs = (r, fs') \<Longrightarrow> Q r fs'"
  by (simp add: wp_def)

lemma wpI: "(\<And>r fs'. m fs = (r, fs') \<Longrightarrow> Q r fs') \<Longrightarrow> wp m Q fs"
  by (simp add: wp_def split: prod.splits)

lemma wp_mono: "wp m Q fs \<Longrightarrow> (\<And>r fs'. Q r fs' \<Longrightarrow> R r fs') \<Longrightarrow> wp m R fs"
  by (auto simp: wp_def split: prod.splits)

lemma wp_ret [io_simps]: "wp (ret a) Q fs = Q (Done a) fs"
  by (simp add: wp_def ret_def)

lemma wp_raise [io_simps]: "wp (raise e) Q fs = Q (Raise e) fs"
  by (simp add: wp_def raise_def)

lemma wp_bind [io_simps]:
  "wp (bind m f) Q fs =
     wp m (\<lambda>r fs'. case r of Done a \<Rightarrow> wp (f a) Q fs'
                           | Raise e \<Rightarrow> Q (Raise e) fs' | Halt h \<Rightarrow> Q (Halt h) fs') fs"
  by (auto simp: wp_def bind_def split: prod.splits outcome.splits)

lemma wp_attempt [io_simps]:
  "wp (attempt m) Q fs =
     wp m (\<lambda>r fs'. case r of Done a \<Rightarrow> Q (Done (Inr a)) fs'
                           | Raise e \<Rightarrow> Q (Done (Inl e)) fs' | Halt h \<Rightarrow> Q (Halt h) fs') fs"
  by (auto simp: wp_def attempt_def split: prod.splits outcome.splits)

lemma wp_map_err [io_simps]: "wp (map_err f m) Q fs = wp m (\<lambda>r. Q (map_raise f r)) fs"
  by (auto simp: wp_def map_err_def split: prod.splits)

lemma calm_sched [simp]: "calm (fs\<lparr>entries := e\<rparr>) = calm fs" "calm (fs\<lparr>inodes := n\<rparr>) = calm fs"
  "calm (fs\<lparr>next_inode := k\<rparr>) = calm fs"
  by (simp_all add: calm_def)

lemma calm_set_content [simp]: "calm (set_content i b fs) = calm fs"
  by (simp add: set_content_def split: option.splits)

lemma calm_set_readonly_flag [simp]: "calm (set_readonly_flag i b fs) = calm fs"
  by (simp add: set_readonly_flag_def split: option.splits)

lemma calm_new_file [simp]: "calm (new_file p b fs) = calm fs"
  by (simp add: new_file_def calm_def)

lemma resolve_sched [simp]: "resolve (fs\<lparr>sched := ts\<rparr>) p = resolve fs p"
  by (simp add: resolve_def)

lemma locate_sched [simp]: "locate (fs\<lparr>sched := ts\<rparr>) p = locate fs p"
  by (simp add: locate_def split: sum.split)

lemma inode_at_sched [simp]: "inode_at (fs\<lparr>sched := ts\<rparr>) p = inode_at fs p"
  by (simp add: inode_at_def)

lemma file_at_sched [simp]: "file_at (fs\<lparr>sched := ts\<rparr>) p = file_at fs p"
  by (simp add: file_at_def)

lemma bytes_at_sched [simp]: "bytes_at (fs\<lparr>sched := ts\<rparr>) p = bytes_at fs p"
  by (simp add: bytes_at_def)

lemma metadata_of_sched [simp]: "metadata_of (fs\<lparr>sched := ts\<rparr>) p = metadata_of fs p"
  by (simp add: metadata_of_def split: option.split)

text \<open>A call in a calm state: it is the operation, or nothing but the partial effect.\<close>

lemma wp_syscall:
  assumes "calm fs"
    and "\<And>ts. calm (fs\<lparr>sched := ts\<rparr>) \<Longrightarrow> wp op Q (fs\<lparr>sched := ts\<rparr>)"
    and "\<And>ts e k. calm (fs\<lparr>sched := ts\<rparr>) \<Longrightarrow> Q (Raise e) (part k (fs\<lparr>sched := ts\<rparr>))"
    and "\<And>ts k. calm (fs\<lparr>sched := ts\<rparr>) \<Longrightarrow> Q (Halt Died) (part k (fs\<lparr>sched := ts\<rparr>))"
  shows "wp (syscall part op) Q fs"
proof (cases "sched fs")
  case Nil
  then have "fs\<lparr>sched := []\<rparr> = fs" by (cases fs) simp
  with assms(1) assms(2) [of "[]"] have "wp op Q fs" by simp
  with Nil show ?thesis by (simp add: wp_def syscall_def)
next
  case (Cons t rest)
  obtain exts fate where t: "t = (exts, fate)" by force
  have "exts = []" and calm: "calm (fs\<lparr>sched := rest\<rparr>)"
    using assms(1) Cons t by (auto simp: calm_def)
  with Cons t assms(2-4) [OF calm] show ?thesis
    by (cases fate) (auto simp: wp_def syscall_def Let_def)
qed

lemma wp_simple_call:
  assumes "calm fs"
    and "\<And>ts. calm (fs\<lparr>sched := ts\<rparr>) \<Longrightarrow> wp op Q (fs\<lparr>sched := ts\<rparr>)"
    and "\<And>ts e. calm (fs\<lparr>sched := ts\<rparr>) \<Longrightarrow> Q (Raise e) (fs\<lparr>sched := ts\<rparr>)"
    and "\<And>ts. calm (fs\<lparr>sched := ts\<rparr>) \<Longrightarrow> Q (Halt Died) (fs\<lparr>sched := ts\<rparr>)"
  shows "wp (simple_call op) Q fs"
  unfolding simple_call_def by (rule wp_syscall) (use assms in auto)

text \<open>What a tree holds, up to the schedule.\<close>

definition same_tree :: "fs \<Rightarrow> fs \<Rightarrow> bool" where
  "same_tree fs fs' \<longleftrightarrow>
     entries fs' = entries fs \<and> inodes fs' = inodes fs \<and> next_inode fs' = next_inode fs"

lemma same_tree_refl [simp]: "same_tree fs fs"
  by (simp add: same_tree_def)

lemma same_tree_trans: "same_tree a b \<Longrightarrow> same_tree b c \<Longrightarrow> same_tree a c"
  by (simp add: same_tree_def)

lemma same_tree_sched [simp]: "same_tree fs (fs\<lparr>sched := ts\<rparr>)"
  by (simp add: same_tree_def)

lemma same_tree_observe:
  assumes "same_tree fs fs'"
  shows "resolve fs' p = resolve fs p" "locate fs' p = locate fs p"
    "inode_at fs' p = inode_at fs p" "file_at fs' p = file_at fs p" "bytes_at fs' p = bytes_at fs p"
  using assms by (simp_all add: same_tree_def resolve_def locate_def inode_at_def file_at_def
      bytes_at_def split: sum.split)

text \<open>Calls that only look.\<close>

definition looks :: "('e, 'a) prog \<Rightarrow> bool" where
  "looks m \<longleftrightarrow> (\<forall>fs. calm fs \<longrightarrow> wp m (\<lambda>r fs'. calm fs' \<and> same_tree fs fs') fs)"

lemma wp_looks:
  assumes "looks m" and "calm fs"
    and "\<And>r fs'. m fs = (r, fs') \<Longrightarrow> calm fs' \<Longrightarrow> same_tree fs fs' \<Longrightarrow> Q r fs'"
  shows "wp m Q fs"
  using assms by (auto simp: looks_def wp_def split: prod.splits)

lemma wp_same_state: "snd (op fs) = fs \<Longrightarrow> (\<And>r. Q r fs) \<Longrightarrow> wp op Q fs"
  by (auto simp: wp_def split: prod.splits)

lemma looks_simple_call:
  assumes "\<And>fs. snd (op fs) = fs"
  shows "looks (simple_call op)"
  unfolding looks_def
proof (intro allI impI)
  fix fs :: fs assume "calm fs"
  then show "wp (simple_call op) (\<lambda>r fs'. calm fs' \<and> same_tree fs fs') fs"
    by (rule wp_simple_call) (auto intro!: wp_same_state assms)
qed

lemma looksI:
  assumes "\<And>fs r fs'. calm fs \<Longrightarrow> m fs = (r, fs') \<Longrightarrow> calm fs' \<and> same_tree fs fs'"
  shows "looks m"
  using assms by (auto simp: looks_def wp_def split: prod.splits)

lemma looksD: "looks m \<Longrightarrow> calm fs \<Longrightarrow> m fs = (r, fs') \<Longrightarrow> calm fs' \<and> same_tree fs fs'"
  by (auto simp: looks_def wp_def split: prod.splits)

lemma looks_bind:
  assumes m: "looks m" and f: "\<And>a. looks (f a)"
  shows "looks (bind m f)"
proof (rule looksI)
  fix fs r fs' assume calm: "calm fs" and run: "bind m f fs = (r, fs')"
  obtain r1 fs1 where m1: "m fs = (r1, fs1)" by force
  with m calm have "calm fs1" and "same_tree fs fs1" by (auto dest: looksD)
  with run m1 show "calm fs' \<and> same_tree fs fs'"
    by (auto simp: bind_def split: outcome.splits dest: looksD [OF f] intro: same_tree_trans)
qed

lemma looks_ret [simp, intro]: "looks (ret a)"
  and looks_raise [simp, intro]: "looks (raise e)"
  by (simp_all add: looks_def io_simps)

lemma looks_attempt: "looks m \<Longrightarrow> looks (attempt m)"
  unfolding looks_def wp_attempt by (auto simp: wp_def split: prod.splits outcome.splits)

lemma looks_map_err: "looks m \<Longrightarrow> looks (map_err f m)"
  unfolding looks_def wp_map_err by (auto simp: wp_def split: prod.splits)

lemma looks_calls [simp, intro]:
  "looks (fs_metadata p)" "looks (fs_symlink_metadata p)" "looks (fs_canonicalize p)"
  "looks (fs_open p)" "looks (fs_read_to_end i)" "looks (fs_sync i)"
  unfolding fs_metadata_def fs_symlink_metadata_def fs_canonicalize_def fs_open_def
    fs_read_to_end_def fs_sync_def
  by (rule looks_simple_call, simp add: ret_def split: sum.splits option.splits)+

lemma looks_read [simp, intro]: "looks (fs_read p)"
  unfolding fs_read_def by (rule looks_bind) auto

text \<open>Resolution is stable when entries are only added.\<close>

lemma resolve_from_mono:
  "resolve_from es n acc p = Inr q \<Longrightarrow> es \<subseteq>\<^sub>m es' \<Longrightarrow> resolve_from es' n acc p = Inr q"
proof (induction es n acc p rule: resolve_from.induct)
  case (1 es n acc)
  then show ?case by simp
next
  case (2 es n acc c cs)
  show ?case
  proof (cases "c = ''.'' \<or> c = ''..''")
    case True
    with 2 show ?thesis by auto
  next
    case False
    with 2 obtain e where e: "es (acc @ [c]) = Some e"
      by (auto split: option.splits)
    with \<open>es \<subseteq>\<^sub>m es'\<close> have e': "es' (acc @ [c]) = Some e"
      by (metis domI map_le_def)
    from 2 False e e' show ?thesis
      by (auto split: entry.splits nat.splits if_splits)
  qed
qed

lemma locate_mono:
  assumes "locate fs p = Inr q" and "entries fs \<subseteq>\<^sub>m entries fs'"
  shows "locate fs' p = Inr q"
proof -
  have "entries fs x = Some e \<Longrightarrow> entries fs' x = Some e" for x e
    using assms(2) by (metis domI map_le_def)
  with assms show ?thesis
    by (auto simp: locate_def resolve_def split: if_splits sum.splits dest: resolve_from_mono)
qed


text \<open>A tree is well formed when every name has its inode and new inodes are fresh.\<close>

definition wf_fs :: "fs \<Rightarrow> bool" where
  "wf_fs fs \<longleftrightarrow> (\<forall>p i. entries fs p = Some (Name i) \<longrightarrow> i < next_inode fs \<and> inodes fs i \<noteq> None)"

definition inode_bytes :: "fs \<Rightarrow> nat \<Rightarrow> bytes option" where
  "inode_bytes fs i = map_option content (inodes fs i)"

lemma bytes_at_inode:
  "bytes_at fs p = (case inode_at fs p of None \<Rightarrow> None | Some i \<Rightarrow> inode_bytes fs i)"
  by (simp add: bytes_at_def file_at_def inode_bytes_def split: option.splits)

lemma same_tree_inode_bytes: "same_tree fs fs' \<Longrightarrow> inode_bytes fs' i = inode_bytes fs i"
  by (simp add: same_tree_def inode_bytes_def)

lemma inode_bytes_set_content: "inodes fs i \<noteq> None \<Longrightarrow>
    inode_bytes (set_content i b fs) j = (if j = i then Some b else inode_bytes fs j)"
  by (auto simp: inode_bytes_def set_content_def)

lemma entries_set_content [simp]: "entries (set_content i b fs) = entries fs"
  and next_inode_set_content [simp]: "next_inode (set_content i b fs) = next_inode fs"
  by (simp_all add: set_content_def split: option.splits)

lemma entries_set_readonly_flag [simp]: "entries (set_readonly_flag i v fs) = entries fs"
  and next_inode_set_readonly_flag [simp]:
    "next_inode (set_readonly_flag i v fs) = next_inode fs"
  and inode_bytes_set_readonly_flag [simp]: "inode_bytes (set_readonly_flag i v fs) j = inode_bytes fs j"
  by (simp_all add: set_readonly_flag_def inode_bytes_def split: option.splits)

lemma inode_bytes_sched [simp]: "inode_bytes (fs\<lparr>sched := ts\<rparr>) i = inode_bytes fs i"
  by (simp add: inode_bytes_def)

section \<open>The calls in a calm state\<close>

lemma wp_create_new:
  assumes "calm fs" and "locate fs p = Inr q"
    and "\<And>fs'. calm fs' \<Longrightarrow> entries fs q = None \<Longrightarrow> same_tree (new_file q [] fs) fs'
          \<Longrightarrow> Q (Done (next_inode fs)) fs'"
    and "\<And>e fs'. calm fs' \<Longrightarrow> same_tree fs fs' \<Longrightarrow> Q (Raise e) fs'"
    and "\<And>fs'. calm fs' \<Longrightarrow> same_tree fs fs' \<Longrightarrow> Q (Halt Died) fs'"
  shows "wp (fs_create_new p) Q fs"
  unfolding fs_create_new_def
  by (rule wp_simple_call)
    (use assms in \<open>auto simp: wp_def new_file_def same_tree_def calm_def\<close>)

lemma wp_hard_link:
  assumes "calm fs" and "locate fs a = Inr p" and "locate fs b = Inr q"
    and "entries fs p = Some n"
    and "\<And>fs'. calm fs' \<Longrightarrow> entries fs q = None \<Longrightarrow>
          same_tree (fs\<lparr>entries := (entries fs)(q \<mapsto> n)\<rparr>) fs' \<Longrightarrow> Q (Done ()) fs'"
    and "\<And>e fs'. calm fs' \<Longrightarrow> same_tree fs fs' \<Longrightarrow> Q (Raise e) fs'"
    and "\<And>fs'. calm fs' \<Longrightarrow> same_tree fs fs' \<Longrightarrow> Q (Halt Died) fs'"
  shows "wp (fs_hard_link a b) Q fs"
  unfolding fs_hard_link_def
  by (rule wp_simple_call) (use assms in \<open>auto simp: wp_def same_tree_def calm_def\<close>)

lemma wp_rename:
  assumes "calm fs" and "locate fs a = Inr p" and "locate fs b = Inr q"
    and "entries fs p = Some n" and "p \<noteq> q" and "entries fs q \<noteq> Some n"
    and "\<And>fs'. calm fs' \<Longrightarrow> same_tree (fs\<lparr>entries := (entries fs)(p := None, q \<mapsto> n)\<rparr>) fs'
          \<Longrightarrow> Q (Done ()) fs'"
    and "\<And>e fs'. calm fs' \<Longrightarrow> same_tree fs fs' \<Longrightarrow> Q (Raise e) fs'"
    and "\<And>fs'. calm fs' \<Longrightarrow> same_tree fs fs' \<Longrightarrow> Q (Halt Died) fs'"
  shows "wp (fs_rename a b) Q fs"
  unfolding fs_rename_def
  by (rule wp_simple_call) (use assms in \<open>auto simp: wp_def same_tree_def calm_def\<close>)

lemma wp_remove_file:
  assumes "calm fs" and "locate fs a = Inr p"
    and "\<And>fs'. calm fs' \<Longrightarrow> same_tree (fs\<lparr>entries := (entries fs)(p := None)\<rparr>) fs'
          \<Longrightarrow> Q (Done ()) fs'"
    and "\<And>e fs'. calm fs' \<Longrightarrow> same_tree fs fs' \<Longrightarrow> Q (Raise e) fs'"
    and "\<And>fs'. calm fs' \<Longrightarrow> same_tree fs fs' \<Longrightarrow> Q (Halt Died) fs'"
  shows "wp (fs_remove_file a) Q fs"
  unfolding fs_remove_file_def
  by (rule wp_simple_call)
    (use assms in \<open>auto simp: wp_def same_tree_def calm_def split: option.splits entry.splits\<close>)


section \<open>Canonical paths\<close>

text \<open>What resolution returns needs no resolving: every directory on the way is a real one.\<close>

definition plain :: "string \<Rightarrow> bool" where
  "plain c \<longleftrightarrow> c \<noteq> ''.'' \<and> c \<noteq> ''..''"

definition real_directory :: "(path \<rightharpoonup> entry) \<Rightarrow> path \<Rightarrow> bool" where
  "real_directory es p \<longleftrightarrow>
     (\<forall>c \<in> set p. plain c) \<and> (\<forall>k. 0 < k \<and> k \<le> length p \<longrightarrow> es (take k p) = Some Folder)"

lemma real_directory_Nil [simp]: "real_directory es []"
  by (simp add: real_directory_def)

lemma real_directory_butlast: "real_directory es p \<Longrightarrow> real_directory es (butlast p)"
  by (auto simp: real_directory_def take_butlast dest: in_set_butlastD)

lemma real_directory_snoc:
  "real_directory es (p @ [c]) \<longleftrightarrow> real_directory es p \<and> plain c \<and> es (p @ [c]) = Some Folder"
proof
  assume "real_directory es (p @ [c])"
  then have r: "\<forall>d \<in> set (p @ [c]). plain d"
    "\<And>k. 0 < k \<Longrightarrow> k \<le> Suc (length p) \<Longrightarrow> es (take k (p @ [c])) = Some Folder"
    by (auto simp: real_directory_def)
  have "es (take k p) = Some Folder" if "0 < k" "k \<le> length p" for k
    using r(2) [of k] that by simp
  with r(1) r(2) [of "Suc (length p)"]
  show "real_directory es p \<and> plain c \<and> es (p @ [c]) = Some Folder"
    by (auto simp: real_directory_def)
next
  assume "real_directory es p \<and> plain c \<and> es (p @ [c]) = Some Folder"
  then show "real_directory es (p @ [c])"
    by (auto simp: real_directory_def le_Suc_eq)
qed

lemma real_directory_mid:
  assumes "real_directory es (acc @ c # cs)"
  shows "plain c" and "es (acc @ [c]) = Some Folder"
proof -
  show "plain c" using assms by (simp add: real_directory_def)
  have "es (take (Suc (length acc)) (acc @ c # cs)) = Some Folder"
    using assms unfolding real_directory_def
    by (elim conjE allE [of _ "Suc (length acc)"]) simp
  then show "es (acc @ [c]) = Some Folder" by simp
qed

definition resolved :: "(path \<rightharpoonup> entry) \<Rightarrow> path \<Rightarrow> bool" where
  "resolved es q \<longleftrightarrow>
     real_directory es q \<or>
     (q \<noteq> [] \<and> real_directory es (butlast q) \<and> plain (last q) \<and> (\<exists>i. es q = Some (Name i)))"

lemma resolve_from_resolved:
  "resolve_from es n acc p = Inr q \<Longrightarrow> real_directory es acc \<Longrightarrow> resolved es q"
proof (induction es n acc p rule: resolve_from.induct)
  case (1 es n acc)
  then show ?case by (simp add: resolved_def)
next
  case (2 es n acc c cs)
  show ?case
  proof (cases "c = ''.'' \<or> c = ''..''")
    case True
    with 2 real_directory_butlast [OF "2.prems"(2)] show ?thesis by auto
  next
    case False
    with 2 obtain e where e: "es (acc @ [c]) = Some e"
      by (auto split: option.splits)
    show ?thesis
    proof (cases e)
      case (Name i)
      with 2 False e show ?thesis
        by (auto simp: resolved_def plain_def split: if_splits)
    next
      case Folder
      with 2 False e show ?thesis
        by (auto simp: real_directory_snoc plain_def)
    next
      case (Link t)
      with 2 False e show ?thesis
        by (auto split: nat.splits)
    qed
  qed
qed

lemma resolve_from_real_directory:
  "real_directory es (acc @ p) \<Longrightarrow> resolve_from es n acc p = Inr (acc @ p)"
proof (induction p arbitrary: acc)
  case Nil
  then show ?case by simp
next
  case (Cons c cs)
  from Cons.prems have "plain c" and "es (acc @ [c]) = Some Folder"
    by (auto dest: real_directory_mid)
  with \<open>plain c\<close> Cons.IH [of "acc @ [c]"] Cons.prems show ?case by (simp add: plain_def)
qed

lemma resolve_from_append:
  "resolve_from es n acc p = Inr (acc @ p) \<Longrightarrow> real_directory es (acc @ p) \<Longrightarrow>
    resolve_from es n acc (p @ cs) = resolve_from es n (acc @ p) cs"
proof (induction p arbitrary: acc)
  case Nil
  then show ?case by simp
next
  case (Cons c ds)
  from Cons.prems(2) have "plain c" and "es (acc @ [c]) = Some Folder"
    by (auto dest: real_directory_mid)
  with \<open>plain c\<close> Cons.IH [of "acc @ [c]"] Cons.prems show ?case
    by (simp add: plain_def resolve_from_real_directory)
qed

lemma resolve_canonical:
  assumes "resolve fs p = Inr q"
  shows "resolve fs q = Inr q" and "q \<noteq> [] \<Longrightarrow> locate fs q = Inr q"
proof -
  from assms have "resolved (entries fs) q"
    by (auto simp: resolve_def intro: resolve_from_resolved)
  moreover have 1: "resolve fs d = Inr d" if "real_directory (entries fs) d" for d
    using that resolve_from_real_directory [of "entries fs" "[]" d] by (simp add: resolve_def)
  moreover have "resolve fs q = Inr q"
    if "q \<noteq> []" "real_directory (entries fs) (butlast q)" "plain (last q)"
       "entries fs q = Some (Name i)" for i
  proof -
    have "resolve_from (entries fs) max_links [] (butlast q @ [last q])
        = resolve_from (entries fs) max_links (butlast q) [last q]"
      using that(2) resolve_from_append [of "entries fs" max_links "[]" "butlast q" "[last q]"]
        resolve_from_real_directory [of "entries fs" "[]" "butlast q"] by simp
    with that show ?thesis by (simp add: resolve_def plain_def)
  qed
  ultimately show "resolve fs q = Inr q" by (auto simp: resolved_def)
  assume "q \<noteq> []"
  then obtain d c where q: "q = d @ [c]" by (cases q rule: rev_exhaust) auto
  with \<open>resolved (entries fs) q\<close> have "real_directory (entries fs) d" "plain c"
    by (auto simp: resolved_def real_directory_snoc)
  moreover from this have "d = [] \<or> entries fs d = Some Folder"
    by (cases d rule: rev_exhaust) (auto simp: real_directory_snoc)
  ultimately show "locate fs q = Inr q"
    using 1 [of d] q by (auto simp: locate_def plain_def)
qed


section \<open>Runs that return\<close>

lemma bind_Done [io_simps]:
  "bind m f fs = (Done b, fs') \<longleftrightarrow> (\<exists>a fs1. m fs = (Done a, fs1) \<and> f a fs1 = (Done b, fs'))"
  by (auto simp: bind_def split: prod.splits outcome.splits)

lemma map_err_Done [io_simps]: "map_err f m fs = (Done a, fs') \<longleftrightarrow> m fs = (Done a, fs')"
  by (auto simp: map_err_def split: prod.splits)

lemma ret_Done [io_simps]: "ret a fs = (r, fs') \<longleftrightarrow> r = Done a \<and> fs' = fs"
  by (auto simp: ret_def)

lemma raise_Done [io_simps]: "raise e fs = (r, fs') \<longleftrightarrow> r = Raise e \<and> fs' = fs"
  by (auto simp: raise_def)

lemma attempt_Done [io_simps]:
  "attempt m fs = (Done x, fs') \<longleftrightarrow>
     (case x of Inr a \<Rightarrow> m fs = (Done a, fs') | Inl e \<Rightarrow> m fs = (Raise e, fs'))"
  by (auto simp: attempt_def split: prod.splits outcome.splits sum.splits)

lemma bind_attempt_Done:
  "bind (attempt m) f fs = (Done b, fs') \<longleftrightarrow>
     (\<exists>a fs1. m fs = (Done a, fs1) \<and> f (Inr a) fs1 = (Done b, fs')) \<or>
     (\<exists>e fs1. m fs = (Raise e, fs1) \<and> f (Inl e) fs1 = (Done b, fs'))"
  by (auto simp: bind_def attempt_def split: prod.splits outcome.splits)

lemma simple_call_Done:
  assumes "calm fs" and "simple_call op fs = (Done a, fs')"
  obtains ts where "calm (fs\<lparr>sched := ts\<rparr>)" and "op (fs\<lparr>sched := ts\<rparr>) = (Done a, fs')"
proof -
  have "wp (simple_call op) (\<lambda>r fs'. \<forall>a. r = Done a \<longrightarrow>
      (\<exists>ts. calm (fs\<lparr>sched := ts\<rparr>) \<and> op (fs\<lparr>sched := ts\<rparr>) = (Done a, fs'))) fs"
    using assms(1) by (rule wp_simple_call) (auto simp: wp_def split: prod.splits)
  with assms(2) that show ?thesis by (auto simp: wp_def)
qed

lemma fs_open_Done:
  assumes "calm fs" and "fs_open p fs = (Done i, fs')"
  shows "\<exists>q. resolve fs p = Inr q \<and> inode_at fs q = Some i"
  by (rule simple_call_Done [OF assms(1) assms(2) [unfolded fs_open_def]])
    (auto split: sum.splits option.splits)

lemma fs_read_to_end_Done:
  assumes "calm fs" and "fs_read_to_end i fs = (Done b, fs')"
  shows "inode_bytes fs i = Some b"
  by (rule simple_call_Done [OF assms(1) assms(2) [unfolded fs_read_to_end_def]])
    (auto simp: inode_bytes_def split: option.splits)

lemma fs_metadata_Done:
  assumes "calm fs" and "fs_metadata p fs = (Done m, fs')"
  shows "\<exists>q. resolve fs p = Inr q \<and> m = metadata_of fs q"
  by (rule simple_call_Done [OF assms(1) assms(2) [unfolded fs_metadata_def]])
    (auto split: sum.splits)

lemma fs_canonicalize_Done:
  assumes "calm fs" and "fs_canonicalize p fs = (Done q, fs')"
  shows "resolve fs p = Inr q"
  by (rule simple_call_Done [OF assms(1) assms(2) [unfolded fs_canonicalize_def]])
    (auto split: sum.splits)

lemma fs_read_Done:
  assumes "calm fs" and "fs_read p fs = (Done b, fs')"
  shows "\<exists>q. resolve fs p = Inr q \<and> bytes_at fs q = Some b"
proof -
  from assms(2) obtain i fs1 where 1: "fs_open p fs = (Done i, fs1)"
    and 2: "fs_read_to_end i fs1 = (Done b, fs')"
    by (auto simp: fs_read_def io_simps)
  from looks_calls(4) assms(1) 1 have "calm fs1 \<and> same_tree fs fs1" by (rule looksD)
  then have same: "calm fs1" "same_tree fs fs1" by auto
  from fs_open_Done [OF assms(1) 1] fs_read_to_end_Done [OF same(1) 2] show ?thesis
    by (auto simp: bytes_at_inode same_tree_inode_bytes [OF same(2)])
qed

section \<open>Calm is kept\<close>

definition keeps_calm :: "('e, 'a) prog \<Rightarrow> bool" where
  "keeps_calm m \<longleftrightarrow> (\<forall>fs. calm fs \<longrightarrow> calm (snd (m fs)))"

lemma keeps_calmD: "keeps_calm m \<Longrightarrow> calm fs \<Longrightarrow> m fs = (r, fs') \<Longrightarrow> calm fs'"
  by (force simp: keeps_calm_def)

lemma looks_keeps_calm: "looks m \<Longrightarrow> keeps_calm m"
  by (auto simp: keeps_calm_def dest: looksD [OF _ _ surjective_pairing])

lemma keeps_calm_bind: "keeps_calm m \<Longrightarrow> (\<And>a. keeps_calm (f a)) \<Longrightarrow> keeps_calm (bind m f)"
  by (auto simp: keeps_calm_def bind_def split: prod.splits outcome.splits)

lemma keeps_calm_attempt: "keeps_calm m \<Longrightarrow> keeps_calm (attempt m)"
  by (auto simp: keeps_calm_def attempt_def split: prod.splits outcome.splits)

lemma keeps_calm_map_err: "keeps_calm m \<Longrightarrow> keeps_calm (map_err f m)"
  by (auto simp: keeps_calm_def map_err_def split: prod.splits)

lemma keeps_calm_ret [simp, intro]: "keeps_calm (ret a)"
  and keeps_calm_raise [simp, intro]: "keeps_calm (raise e)"
  by (simp_all add: keeps_calm_def ret_def raise_def)

lemma keeps_calm_syscall:
  assumes "\<And>fs. calm fs \<Longrightarrow> calm (snd (op fs))" and "\<And>k fs. calm fs \<Longrightarrow> calm (part k fs)"
  shows "keeps_calm (syscall part op)"
  unfolding keeps_calm_def
proof (intro allI impI)
  fix fs :: fs assume "calm fs"
  then have "wp (syscall part op) (\<lambda>r. calm) fs"
    by (rule wp_syscall) (use assms in \<open>auto simp: wp_def split: prod.split\<close>, metis snd_conv)
  then show "calm (snd (syscall part op fs))" by (simp add: wp_def split: prod.splits)
qed

lemma keeps_calm_looks_calls [simp, intro]:
  "keeps_calm (fs_metadata p)" "keeps_calm (fs_sync i)" "keeps_calm (fs_canonicalize p)"
  by (auto intro: looks_keeps_calm)

lemma keeps_calm_calls [simp, intro]:
  "keeps_calm (fs_create_new p)" "keeps_calm (fs_write_all i b)" "keeps_calm (fs_set_readonly p v)"
  "keeps_calm (fs_rename p q)" "keeps_calm (fs_hard_link p q)" "keeps_calm (fs_remove_file p)"
  unfolding fs_create_new_def fs_write_all_def fs_set_readonly_def fs_rename_def fs_hard_link_def
    fs_remove_file_def simple_call_def
  by (rule keeps_calm_syscall; auto split: sum.split option.split entry.split)+

lemma bind_Done_elim:
  assumes "bind m f fs = (Done b, fs')"
  obtains a fs1 where "m fs = (Done a, fs1)" and "f a fs1 = (Done b, fs')"
  using assms by (auto simp: bind_Done)

section \<open>Results whatever the machine does\<close>

text \<open>
  What a program's result satisfies when it returns, from any tree and under any schedule.
\<close>

definition ensures :: "('e, 'a) prog \<Rightarrow> ('a \<Rightarrow> bool) \<Rightarrow> bool" where
  "ensures m P \<longleftrightarrow> (\<forall>fs x fs'. m fs = (Done x, fs') \<longrightarrow> P x)"

lemma ensuresI: "(\<And>fs x fs'. m fs = (Done x, fs') \<Longrightarrow> P x) \<Longrightarrow> ensures m P"
  by (simp add: ensures_def)

lemma ensuresD: "ensures m P \<Longrightarrow> m fs = (Done x, fs') \<Longrightarrow> P x"
  unfolding ensures_def by blast

lemma ensures_ret [simp]: "ensures (ret x) P \<longleftrightarrow> P x"
  by (simp add: ensures_def ret_def)

lemma ensures_raise [simp]: "ensures (raise e) P"
  by (simp add: ensures_def raise_def)

lemma ensures_panic [simp]: "ensures panic P"
  by (simp add: ensures_def panic_def)

lemma ensures_map_err [simp]: "ensures (map_err f m) P = ensures m P"
  by (simp add: ensures_def map_err_Done)

lemma ensures_mono: "ensures m P \<Longrightarrow> (\<And>a. P a \<Longrightarrow> Q a) \<Longrightarrow> ensures m Q"
  unfolding ensures_def by blast

lemma ensures_True [simp]: "ensures m (\<lambda>_. True)"
  by (simp add: ensures_def)

lemma ensures_bind: "ensures m R \<Longrightarrow> (\<And>a. R a \<Longrightarrow> ensures (f a) P) \<Longrightarrow> ensures (bind m f) P"
  unfolding ensures_def bind_Done by blast

lemma ensures_bind_any: "(\<And>a. ensures (f a) P) \<Longrightarrow> ensures (bind m f) P"
  by (auto simp: ensures_def bind_Done)

lemma ensures_attempt: "ensures m (\<lambda>a. P (Inr a)) \<Longrightarrow> (\<And>e. P (Inl e)) \<Longrightarrow> ensures (attempt m) P"
  by (auto simp: ensures_def attempt_def split: prod.splits outcome.splits)

section \<open>A sample tree\<close>

text \<open>One directory with one document in it; used to show that the statements apply.\<close>

definition sample_path :: path where
  "sample_path = [''notes'', ''field.djot'']"

definition sample_fs :: fs where
  "sample_fs = \<lparr>
     entries = [[''notes''] \<mapsto> Folder, sample_path \<mapsto> Name 0],
     inodes = [0 \<mapsto> \<lparr>content = ''old'', readonly = False\<rparr>],
     next_inode = 1, sched = []\<rparr>"

lemma sample_fs_facts:
  shows sample_wf: "wf_fs sample_fs" and sample_calm: "calm sample_fs"
    and sample_resolve: "resolve sample_fs sample_path = Inr sample_path"
    and sample_locate: "locate sample_fs sample_path = Inr sample_path"
    and sample_bytes: "bytes_at sample_fs sample_path = Some ''old''"
  by (simp_all add: sample_fs_def sample_path_def wf_fs_def calm_def resolve_def locate_def
      bytes_at_def file_at_def inode_at_def split: if_splits)

end
