(* ===== verification/Doc_Format.thy ===== *)
theory Doc_Format
  imports Knot_FileSystem
begin

text \<open>
  \<open>knot-document/src/writer.rs\<close>, the formats: how a path and a media type name one, which
  formats the source editor may open, and which are edited as native protocol text.
\<close>

datatype document_format = Knot | Markdown | Djot | Scroll | Gemtext | Micron | Json

text \<open>\<open>DocumentFormat::from_path\<close>; \<open>to_str\<close> refuses a name that is not UTF-8.\<close>

definition from_extension :: "string \<Rightarrow> document_format option" where
  "from_extension e =
     (if e = ''knot'' then Some Knot
      else if e = ''md'' \<or> e = ''markdown'' then Some Markdown
      else if e = ''djot'' then Some Djot
      else if e = ''scroll'' then Some Scroll
      else if e = ''gmi'' \<or> e = ''gemini'' then Some Gemtext
      else if e = ''mu'' \<or> e = ''micron'' then Some Micron
      else if e = ''json'' then Some Json
      else None)"

definition from_path :: "path \<Rightarrow> document_format option" where
  "from_path p =
     (case path_extension p of
        None \<Rightarrow> None
      | Some e \<Rightarrow> if utf8_valid e then from_extension (to_ascii_lowercase e) else None)"

fun media_type :: "document_format \<Rightarrow> string" where
  "media_type Knot = ''text/vnd.knot''"
| "media_type Markdown = ''text/markdown''"
| "media_type Djot = ''text/djot''"
| "media_type Scroll = ''text/scroll''"
| "media_type Gemtext = ''text/gemini''"
| "media_type Micron = ''text/plain''"
| "media_type Json = ''application/vnd.knot.document+json''"

definition from_media_type :: "string \<Rightarrow> document_format option" where
  "from_media_type v =
     (if v = ''text/vnd.knot'' then Some Knot
      else if v = ''text/markdown'' then Some Markdown
      else if v = ''text/djot'' then Some Djot
      else if v = ''text/scroll'' \<or> v = ''text/x-scroll'' then Some Scroll
      else if v = ''text/gemini'' \<or> v = ''text/x-gemini'' then Some Gemtext
      else if v = ''application/vnd.knot.document+json'' \<or> v = ''application/json'' then Some Json
      else None)"

definition native_source :: "document_format \<Rightarrow> bool" where
  "native_source f \<longleftrightarrow> f = Scroll \<or> f = Gemtext \<or> f = Micron"

fun preview_content_type :: "document_format \<Rightarrow> string option" where
  "preview_content_type Scroll = Some ''text/scroll''"
| "preview_content_type Gemtext = Some ''text/gemini''"
| "preview_content_type Micron = None"
| "preview_content_type f = Some (media_type f)"

text \<open>The formats that \<open>KnotEditor::open\<close>, \<open>save_as\<close> and the recovery path accept.\<close>

definition editable_format :: "document_format \<Rightarrow> bool" where
  "editable_format f \<longleftrightarrow> f = Knot \<or> f = Djot \<or> f = Scroll \<or> f = Gemtext \<or> f = Micron"

lemma native_source_editable: "native_source f \<Longrightarrow> editable_format f"
  by (auto simp: native_source_def editable_format_def)

lemma from_media_type_inverse:
  "from_media_type (media_type f) = (if f = Micron then None else Some f)"
  by (cases f) (simp_all add: from_media_type_def)

lemma preview_content_type_native: "native_source f \<Longrightarrow> f \<noteq> Micron \<Longrightarrow>
    preview_content_type f = Some (media_type f)"
  by (cases f) (auto simp: native_source_def)

text \<open>The names under which a document is shown (\<open>document_view.rs\<close>).\<close>

fun knot_document_format_label :: "document_format \<Rightarrow> string" where
  "knot_document_format_label Djot = ''Djot''"
| "knot_document_format_label Scroll = ''Scrolltext''"
| "knot_document_format_label Gemtext = ''Gemtext''"
| "knot_document_format_label Micron = ''Micron''"
| "knot_document_format_label Knot = ''legacy .knot''"
| "knot_document_format_label Markdown = ''Markdown''"
| "knot_document_format_label Json = ''JSON''"

definition uses_note_highlighting :: "bool \<Rightarrow> document_format \<Rightarrow> bool" where
  "uses_note_highlighting enabled f \<longleftrightarrow> enabled \<and> (f = Djot \<or> f = Knot)"

end
