(* ===== verification/Doc_Writer.thy ===== *)
theory Doc_Writer
  imports Doc_Format
begin

text \<open>
  \<open>knot-document/src/writer.rs\<close>, the writes (the Unix branch of every \<open>cfg\<close>): replacing a
  file through a sibling temporary, and creating one without clobbering. The process id is an
  argument; an \<open>io::Error\<close> is its kind, and a message built by \<open>format!\<close> is the
  constructor that names its template.
\<close>

section \<open>Operations\<close>

datatype save_outcome = Unchanged | Written

datatype message =
    CouldNotRead path io_kind
  | CouldNotInspect path io_kind
  | CouldNotResolve path io_kind
  | CouldNotWrite path io_kind
  | CouldNotPrepare path io_kind
  | CouldNotCreate path io_kind
  | CouldNotResolveSaved path io_kind
  | NotUtf8 path
  | UnsupportedFormat path
  | Text string

text \<open>\<open>.knot-write-{pid}-{nonce}.tmp\<close>\<close>

definition temporary_name :: "nat \<Rightarrow> nat \<Rightarrow> string" where
  "temporary_name pid nonce =
     ''.knot-write-'' @ nat_str pid @ ''-'' @ nat_str nonce @ ''.tmp''"

fun reserve_temporary :: "nat \<Rightarrow> path \<Rightarrow> nat list \<Rightarrow> (io_kind, path \<times> nat) prog" where
  "reserve_temporary pid parent [] = raise AlreadyExists"
| "reserve_temporary pid parent (nonce # nonces) =
     (let candidate = parent @ [temporary_name pid nonce]
      in bind (attempt (fs_create_new candidate)) (\<lambda>r. case r of
           Inr file \<Rightarrow> ret (candidate, file)
         | Inl e \<Rightarrow> if e = AlreadyExists then reserve_temporary pid parent nonces else raise e))"

definition create_sibling_temporary :: "nat \<Rightarrow> path \<Rightarrow> (io_kind, path \<times> nat) prog" where
  "create_sibling_temporary pid p =
     (case path_parent p of
        None \<Rightarrow> raise InvalidInput
      | Some parent \<Rightarrow> reserve_temporary pid parent [0..<128])"

definition replace_temporary ::
  "path \<Rightarrow> path \<Rightarrow> (path \<Rightarrow> path \<Rightarrow> (io_kind, unit) prog) \<Rightarrow> (io_kind, unit) prog" where
  "replace_temporary target temporary rename = rename temporary target"

text \<open>The fallible middle of a replacement: fill the temporary, copy the permissions, rename.\<close>

definition fill_and_rename :: "path \<Rightarrow> path \<Rightarrow> nat \<Rightarrow> bytes \<Rightarrow> (io_kind, unit) prog" where
  "fill_and_rename p temporary file contents =
     bind (fs_write_all file contents) (\<lambda>_.
     bind (fs_sync file) (\<lambda>_.
     bind (attempt (fs_metadata p)) (\<lambda>metadata.
     bind (case metadata of Inr m \<Rightarrow> fs_set_readonly temporary (meta_readonly m)
                          | Inl _ \<Rightarrow> ret ()) (\<lambda>_.
     replace_temporary p temporary fs_rename))))"

text \<open>What both writes do with the result of their fallible middle: on an error the temporary is
  removed, whatever comes of that, and the error is returned.\<close>

definition settle :: "path \<Rightarrow> (io_kind, unit) prog \<Rightarrow> (io_kind, unit) prog" where
  "settle temporary body =
     bind (attempt body) (\<lambda>result. case result of
       Inl e \<Rightarrow> bind (attempt (fs_remove_file temporary)) (\<lambda>_. raise e)
     | Inr _ \<Rightarrow> ret ())"

definition replace_bytes_atomically :: "nat \<Rightarrow> path \<Rightarrow> bytes \<Rightarrow> (io_kind, unit) prog" where
  "replace_bytes_atomically pid p contents =
     bind (create_sibling_temporary pid p) (\<lambda>(temporary, file).
       settle temporary (fill_and_rename p temporary file contents))"

text \<open>The fallible middle of a creation: fill the temporary, link it under the new name.\<close>

definition fill_and_link :: "path \<Rightarrow> path \<Rightarrow> nat \<Rightarrow> bytes \<Rightarrow> (io_kind, unit) prog" where
  "fill_and_link p temporary file contents =
     bind (fs_write_all file contents) (\<lambda>_.
     bind (fs_sync file) (\<lambda>_.
     bind (fs_hard_link temporary p) (\<lambda>_.
     bind (attempt (fs_remove_file temporary)) (\<lambda>_. ret ()))))"

definition create_bytes_new :: "nat \<Rightarrow> path \<Rightarrow> bytes \<Rightarrow> (message, unit) prog" where
  "create_bytes_new pid p contents =
     bind (map_err (CouldNotPrepare p) (create_sibling_temporary pid p)) (\<lambda>(temporary, file).
       map_err (CouldNotCreate p)
         (settle temporary (fill_and_link p temporary file contents)))"

definition write_if_distinct ::
  "nat \<Rightarrow> path \<Rightarrow> bytes \<Rightarrow> bytes \<Rightarrow> (message, save_outcome) prog" where
  "write_if_distinct pid p before after =
     (if before = after then ret Unchanged
      else bind (map_err (CouldNotWrite p) (replace_bytes_atomically pid p after))
             (\<lambda>_. ret Written))"

text \<open>The address of a file: \<open>file://\<close> and its canonical path.\<close>

definition path_display :: "path \<Rightarrow> string" where
  "path_display p = (if p = [] then ''/'' else concat (map (\<lambda>c. CHR ''/'' # c) p))"

definition file_address :: "path \<Rightarrow> (message, string) prog" where
  "file_address p =
     bind (map_err (CouldNotResolve p) (fs_canonicalize p))
       (\<lambda>q. ret (''file://'' @ path_display q))"


section \<open>Reserving a temporary\<close>

definition is_temporary :: "nat \<Rightarrow> path \<Rightarrow> bool" where
  "is_temporary pid p \<longleftrightarrow> p \<noteq> [] \<and> (\<exists>n < 128. last p = temporary_name pid n)"

lemma temporary_name_not_dots [simp]:
  "temporary_name pid n \<noteq> ''.''" "temporary_name pid n \<noteq> ''..''"
  by (simp_all add: temporary_name_def)

lemma locate_child:
  assumes "locate fs (d @ [x]) = Inr t" and "y \<noteq> ''.''" and "y \<noteq> ''..''"
  shows "locate fs (d @ [y]) = Inr (butlast t @ [y])"
  using assms by (auto simp: locate_def split: if_splits sum.splits)

lemma locate_same_directory:
  assumes "locate fs p = Inr t" and "y \<noteq> ''.''" and "y \<noteq> ''..''"
  shows "locate fs (butlast p @ [y]) = Inr (butlast t @ [y])"
proof -
  from assms(1) have "p \<noteq> []" by (auto simp: locate_def)
  then have "p = butlast p @ [last p]" by simp
  with assms(1) have "locate fs (butlast p @ [last p]) = Inr t" by simp
  then show ?thesis using assms(2,3) by (rule locate_child)
qed

lemma locate_last: "locate fs p = Inr t \<Longrightarrow> p \<noteq> [] \<and> t \<noteq> [] \<and> last t = last p"
  by (auto simp: locate_def split: if_splits sum.splits)

lemma wp_reserve_temporary:
  assumes "calm fs" and "locate fs p = Inr t" and "\<forall>n \<in> set ns. n < 128"
    and "\<And>n fs'. n < 128 \<Longrightarrow> calm fs' \<Longrightarrow> entries fs (butlast t @ [temporary_name pid n]) = None
          \<Longrightarrow> same_tree (new_file (butlast t @ [temporary_name pid n]) [] fs) fs'
          \<Longrightarrow> Q (Done (butlast p @ [temporary_name pid n], next_inode fs)) fs'"
    and "\<And>e fs'. calm fs' \<Longrightarrow> same_tree fs fs' \<Longrightarrow> Q (Raise e) fs'"
    and "\<And>fs'. calm fs' \<Longrightarrow> same_tree fs fs' \<Longrightarrow> Q (Halt Died) fs'"
  shows "wp (reserve_temporary pid (butlast p) ns) Q fs"
  using assms
proof (induction ns arbitrary: fs)
  case Nil
  then show ?case by (simp add: io_simps)
next
  case (Cons n ns)
  let ?c = "butlast p @ [temporary_name pid n]"
  have loc: "locate fs ?c = Inr (butlast t @ [temporary_name pid n])"
    using Cons.prems(2) by (rule locate_same_directory) simp_all
  have next_one: "wp (reserve_temporary pid (butlast p) ns) Q fs'"
    if "calm fs'" and same: "same_tree fs fs'" for fs'
  proof (rule Cons.IH)
    show "calm fs'" by fact
    show "locate fs' p = Inr t" using Cons.prems(2) same_tree_observe [OF same] by simp
    show "\<forall>n \<in> set ns. n < 128" using Cons.prems(3) by simp
  next
    fix m fs'' assume "m < 128" "calm fs''" "entries fs' (butlast t @ [temporary_name pid m]) = None"
      "same_tree (new_file (butlast t @ [temporary_name pid m]) [] fs') fs''"
    with same show "Q (Done (butlast p @ [temporary_name pid m], next_inode fs')) fs''"
      using Cons.prems(4) [of m fs''] by (simp add: same_tree_def new_file_def)
  next
    fix e fs'' assume "calm fs''" "same_tree fs' fs''"
    with same show "Q (Raise e) fs''" by (blast intro: Cons.prems(5) same_tree_trans)
  next
    fix fs'' assume "calm fs''" "same_tree fs' fs''"
    with same show "Q (Halt Died) fs''" by (blast intro: Cons.prems(6) same_tree_trans)
  qed
  show ?case
    unfolding reserve_temporary.simps Let_def io_simps
    by (rule wp_create_new [OF Cons.prems(1) loc])
      (use Cons.prems next_one in \<open>auto simp: io_simps\<close>)
qed

section \<open>Staging\<close>

text \<open>
  While a write is under way the tree is the original one with the temporary added, whose
  inode is fresh and holds some bytes.
\<close>

definition staged :: "fs \<Rightarrow> path \<Rightarrow> bytes \<Rightarrow> fs \<Rightarrow> bool" where
  "staged fs0 tmp b fs \<longleftrightarrow>
     calm fs \<and> entries fs0 tmp = None \<and> entries fs = (entries fs0)(tmp \<mapsto> Name (next_inode fs0)) \<and>
     inodes fs (next_inode fs0) \<noteq> None \<and>
     (\<forall>j. inode_bytes fs j = (if j = next_inode fs0 then Some b else inode_bytes fs0 j))"

lemma staged_same_tree: "staged fs0 tmp b fs \<Longrightarrow> calm fs' \<Longrightarrow> same_tree fs fs' \<Longrightarrow> staged fs0 tmp b fs'"
  by (simp add: staged_def same_tree_def inode_bytes_def)

lemma staged_new_file:
  "calm fs' \<Longrightarrow> entries fs0 tmp = None \<Longrightarrow> same_tree (new_file tmp [] fs0) fs' \<Longrightarrow> staged fs0 tmp [] fs'"
  by (auto simp: staged_def same_tree_def inode_bytes_def new_file_def)

lemma staged_locate:
  assumes "staged fs0 tmp b fs" and "locate fs0 p = Inr q"
  shows "locate fs p = Inr q"
proof (rule locate_mono)
  show "entries fs0 \<subseteq>\<^sub>m entries fs"
    using assms(1) by (auto simp: staged_def map_le_def)
qed (rule assms(2))

lemma wp_write_all_staged:
  assumes "staged fs0 tmp b0 fs"
    and "\<And>fs'. staged fs0 tmp b fs' \<Longrightarrow> Q (Done ()) fs'"
    and "\<And>e b' fs'. staged fs0 tmp b' fs' \<Longrightarrow> Q (Raise e) fs'"
    and "\<And>b' fs'. staged fs0 tmp b' fs' \<Longrightarrow> Q (Halt Died) fs'"
  shows "wp (fs_write_all (next_inode fs0) b) Q fs"
proof -
  have put: "staged fs0 tmp b' (set_content (next_inode fs0) b' (fs\<lparr>sched := ts\<rparr>))"
    if "calm (fs\<lparr>sched := ts\<rparr>)" for b' ts
    using assms(1) that
    by (auto simp: staged_def inode_bytes_set_content) (auto simp: set_content_def)
  show ?thesis
    unfolding fs_write_all_def
  proof (rule wp_syscall)
    show "calm fs" using assms(1) by (simp add: staged_def)
  qed (auto simp: wp_def intro: assms(2) [OF put] assms(3) [OF put] assms(4) [OF put])
qed

lemma wp_looks_staged:
  assumes "looks m" and "staged fs0 tmp b fs"
    and "\<And>r fs'. staged fs0 tmp b fs' \<Longrightarrow> Q r fs'"
  shows "wp m Q fs"
  using assms(1)
proof (rule wp_looks)
  show "calm fs" using assms(2) by (simp add: staged_def)
qed (use assms staged_same_tree in blast)

lemma wp_bind_looks_staged:
  assumes "looks m" and "staged fs0 tmp b fs"
    and "\<And>a fs'. staged fs0 tmp b fs' \<Longrightarrow> wp (f a) Q fs'"
    and "\<And>e fs'. staged fs0 tmp b fs' \<Longrightarrow> Q (Raise e) fs'"
    and "\<And>h fs'. staged fs0 tmp b fs' \<Longrightarrow> Q (Halt h) fs'"
  shows "wp (bind m f) Q fs"
  unfolding wp_bind
  by (rule wp_looks_staged [OF assms(1,2)]) (use assms(3-5) in \<open>auto split: outcome.split\<close>)

lemma wp_set_readonly_staged:
  assumes "staged fs0 tmp b fs" and "\<And>r fs'. staged fs0 tmp b fs' \<Longrightarrow> Q r fs'"
  shows "wp (fs_set_readonly p v) Q fs"
proof -
  have keep: "staged fs0 tmp b (fs\<lparr>sched := ts\<rparr>)" if "calm (fs\<lparr>sched := ts\<rparr>)" for ts
    using staged_same_tree [OF assms(1) that] by simp
  have flag: "staged fs0 tmp b (set_readonly_flag i v (fs\<lparr>sched := ts\<rparr>))"
    if "calm (fs\<lparr>sched := ts\<rparr>)" for i ts
    using keep [OF that] by (auto simp: staged_def) (auto simp: set_readonly_flag_def split: option.splits if_splits)
  show ?thesis
    unfolding fs_set_readonly_def
  proof (rule wp_simple_call)
    show "calm fs" using assms(1) by (simp add: staged_def)
  qed (use assms keep flag in \<open>auto simp: wp_def split: sum.splits option.splits\<close>)
qed


section \<open>Replacing a file\<close>

definition others_kept :: "nat \<Rightarrow> path \<Rightarrow> fs \<Rightarrow> fs \<Rightarrow> bool" where
  "others_kept pid t fs fs' \<longleftrightarrow>
     (\<forall>q. q \<noteq> t \<and> \<not> is_temporary pid q \<longrightarrow>
        entries fs' q = entries fs q \<and> bytes_at fs' q = bytes_at fs q)"

lemma staged_bytes:
  assumes "wf_fs fs0" and "staged fs0 tmp b fs" and "q \<noteq> tmp"
  shows "entries fs q = entries fs0 q" "bytes_at fs q = bytes_at fs0 q"
  using assms
  by (auto simp: staged_def bytes_at_inode inode_at_def wf_fs_def split: option.splits entry.splits)

lemma staged_others:
  assumes "wf_fs fs0" and "staged fs0 tmp b fs" and "is_temporary pid tmp"
  shows "others_kept pid t fs0 fs"
  unfolding others_kept_def
proof (intro allI impI)
  fix q assume "q \<noteq> t \<and> \<not> is_temporary pid q"
  with assms(3) have "q \<noteq> tmp" by auto
  then show "entries fs q = entries fs0 q \<and> bytes_at fs q = bytes_at fs0 q"
    using staged_bytes [OF assms(1,2)] by blast
qed

text \<open>The state after the rename: the target names the staged inode, the temporary is gone.\<close>

definition renamed :: "fs \<Rightarrow> path \<Rightarrow> bytes \<Rightarrow> fs \<Rightarrow> bool" where
  "renamed fs0 t b fs \<longleftrightarrow>
     calm fs \<and> entries fs = (entries fs0)(t \<mapsto> Name (next_inode fs0)) \<and>
     (\<forall>j. inode_bytes fs j = (if j = next_inode fs0 then Some b else inode_bytes fs0 j))"

lemma renamed_bytes:
  assumes "wf_fs fs0" and "renamed fs0 t b fs"
  shows "bytes_at fs t = Some b" and "others_kept pid t fs0 fs"
  using assms
  by (auto simp: renamed_def others_kept_def bytes_at_inode inode_at_def wf_fs_def
      split: option.splits entry.splits)

lemma wp_fill_and_rename:
  assumes wf: "wf_fs fs0" and st: "staged fs0 tq b0 fs"
    and p: "locate fs0 p = Inr t" and tmp: "locate fs0 tmp = Inr tq" and neq: "tq \<noteq> t"
    and ok: "\<And>fs'. renamed fs0 t b fs' \<Longrightarrow> Q (Done ()) fs'"
    and err: "\<And>e b' fs'. staged fs0 tq b' fs' \<Longrightarrow> Q (Raise e) fs'"
    and die: "\<And>h b' fs'. staged fs0 tq b' fs' \<Longrightarrow> Q (Halt h) fs'"
  shows "wp (fill_and_rename p tmp (next_inode fs0) b) Q fs"
proof -
  have rename: "wp (replace_temporary p tmp fs_rename) Q fs'" if st': "staged fs0 tq b fs'" for fs'
    unfolding replace_temporary_def
  proof (rule wp_rename)
    show "calm fs'" "entries fs' tq = Some (Name (next_inode fs0))"
      using st' by (auto simp: staged_def)
    show "locate fs' tmp = Inr tq" "locate fs' p = Inr t"
      using staged_locate [OF st'] tmp p by auto
    show "entries fs' t \<noteq> Some (Name (next_inode fs0))"
      using st' neq wf by (auto simp: staged_def wf_fs_def)
  next
    fix fs'' assume "calm fs''" and same:
      "same_tree (fs'\<lparr>entries := (entries fs')(tq := None, t \<mapsto> Name (next_inode fs0))\<rparr>) fs''"
    with st' neq have "renamed fs0 t b fs''"
      by (auto simp: renamed_def staged_def same_tree_def inode_bytes_def fun_eq_iff)
    then show "Q (Done ()) fs''" by (rule ok)
  qed (use st' neq in \<open>auto intro: err die staged_same_tree\<close>)
  have chmod: "wp (bind (case m of Inr m \<Rightarrow> fs_set_readonly tmp (meta_readonly m) | Inl _ \<Rightarrow> ret ())
      (\<lambda>_. replace_temporary p tmp fs_rename)) Q fs'"
    if st': "staged fs0 tq b fs'" for m :: "io_kind + metadata" and fs'
  proof (cases m)
    case (Inl e)
    with st' show ?thesis by (simp add: io_simps rename)
  next
    case (Inr md)
    then show ?thesis
      by (simp add: wp_bind, intro wp_set_readonly_staged [OF st'])
        (auto split: outcome.split intro: rename err die)
  qed
  have meta: "wp (bind (attempt (fs_metadata p)) (\<lambda>m.
      bind (case m of Inr m \<Rightarrow> fs_set_readonly tmp (meta_readonly m) | Inl _ \<Rightarrow> ret ())
        (\<lambda>_. replace_temporary p tmp fs_rename))) Q fs'" if "staged fs0 tq b fs'" for fs'
    by (rule wp_bind_looks_staged [OF _ that]) (auto intro: looks_attempt chmod err die)
  have sync: "wp (bind (fs_sync (next_inode fs0)) (\<lambda>_. bind (attempt (fs_metadata p)) (\<lambda>m.
      bind (case m of Inr m \<Rightarrow> fs_set_readonly tmp (meta_readonly m) | Inl _ \<Rightarrow> ret ())
        (\<lambda>_. replace_temporary p tmp fs_rename)))) Q fs'" if "staged fs0 tq b fs'" for fs'
    by (rule wp_bind_looks_staged [OF _ that]) (auto intro: meta err die)
  show ?thesis
    unfolding fill_and_rename_def wp_bind [of "fs_write_all _ _"]
    by (rule wp_write_all_staged [OF st]) (auto intro: sync err die)
qed

text \<open>The temporary is still there, or it is gone.\<close>

definition cleared :: "fs \<Rightarrow> path \<Rightarrow> bytes \<Rightarrow> fs \<Rightarrow> bool" where
  "cleared fs0 tq b fs \<longleftrightarrow> staged fs0 tq b fs \<or>
     (calm fs \<and> entries fs = entries fs0 \<and>
      (\<forall>j \<noteq> next_inode fs0. inode_bytes fs j = inode_bytes fs0 j))"

lemma wp_remove_staged:
  assumes "staged fs0 tq b fs" and "locate fs0 tmp = Inr tq"
    and "\<And>r fs'. cleared fs0 tq b fs' \<Longrightarrow> Q r fs'"
  shows "wp (fs_remove_file tmp) Q fs"
proof (rule wp_remove_file)
  show "calm fs" using assms(1) by (simp add: staged_def)
  show "locate fs tmp = Inr tq" using assms(1,2) by (rule staged_locate)
next
  fix fs' assume "calm fs'" and "same_tree (fs\<lparr>entries := (entries fs)(tq := None)\<rparr>) fs'"
  then show "Q (Done ()) fs'" using assms(1)
    by (intro assms(3)) (auto simp: cleared_def staged_def same_tree_def inode_bytes_def fun_eq_iff)
qed (use assms(1,3) staged_same_tree in \<open>auto simp: cleared_def\<close>)


lemma wf_inode_at: "wf_fs fs \<Longrightarrow> inode_at fs p = Some i \<Longrightarrow> i \<noteq> next_inode fs"
  by (auto simp: inode_at_def wf_fs_def split: option.splits entry.splits)

text \<open>A failed write clears its temporary away as far as it can; nothing else has changed.\<close>

lemma cleared_elsewhere:
  assumes "wf_fs fs0" and "cleared fs0 tq b fs" and "q \<noteq> tq"
  shows "entries fs q = entries fs0 q" and "bytes_at fs q = bytes_at fs0 q"
proof -
  have "entries fs q = entries fs0 q \<and> bytes_at fs q = bytes_at fs0 q"
  proof (cases "staged fs0 tq b fs")
    case True
    with staged_bytes [OF assms(1) True assms(3)] show ?thesis by simp
  next
    case False
    with assms(2) have same: "entries fs = entries fs0"
      "\<forall>j \<noteq> next_inode fs0. inode_bytes fs j = inode_bytes fs0 j" by (auto simp: cleared_def)
    then have "inode_at fs q = inode_at fs0 q" by (simp add: inode_at_def)
    with same show ?thesis using wf_inode_at [OF assms(1), of q]
      by (auto simp: bytes_at_inode split: option.split)
  qed
  then show "entries fs q = entries fs0 q" and "bytes_at fs q = bytes_at fs0 q" by simp_all
qed

lemma cleared_others:
  assumes "wf_fs fs0" and "is_temporary pid tq" and "entries fs0 tq = None" and "cleared fs0 tq b fs"
  shows "others_kept pid t fs0 fs" and "\<not> is_temporary pid t \<Longrightarrow> bytes_at fs t = bytes_at fs0 t"
    and "\<not> is_temporary pid t \<Longrightarrow> entries fs t = entries fs0 t"
  using cleared_elsewhere [OF assms(1,4)] assms(2) unfolding others_kept_def by metis+

definition atomically_replaced ::
  "nat \<Rightarrow> path \<Rightarrow> bytes \<Rightarrow> fs \<Rightarrow> ('e, 'a) outcome \<Rightarrow> fs \<Rightarrow> bool" where
  "atomically_replaced pid t new fs r fs' \<longleftrightarrow>
     others_kept pid t fs fs' \<and>
     (case r of
        Done _ \<Rightarrow> bytes_at fs' t = Some new
      | Raise _ \<Rightarrow> bytes_at fs' t = bytes_at fs t
      | Halt _ \<Rightarrow> bytes_at fs' t = bytes_at fs t \<or> bytes_at fs' t = Some new)"

lemma atomically_replaced_same_tree:
  assumes "same_tree fs fs'" and "\<forall>a. r \<noteq> Done a"
  shows "atomically_replaced pid t new fs r fs'"
  using assms same_tree_observe(5) [OF assms(1)]
  by (cases r) (simp_all add: atomically_replaced_def others_kept_def same_tree_def)

lemma wp_replace_staged:
  assumes wf: "wf_fs fs0" and st: "staged fs0 tq b0 fs" and p: "locate fs0 p = Inr t"
    and tmp: "locate fs0 tmp = Inr tq" and temp: "is_temporary pid tq" "\<not> is_temporary pid t"
  shows "wp (settle tmp (fill_and_rename p tmp (next_inode fs0) new))
    (atomically_replaced pid t new fs0) fs"
proof -
  have free: "entries fs0 tq = None" using st by (simp add: staged_def)
  have clear: "wp (bind (attempt (fs_remove_file tmp)) (\<lambda>_. raise e))
      (atomically_replaced pid t new fs0) fs'"
    if st': "staged fs0 tq b' fs'" for e :: io_kind and b' fs'
    unfolding wp_bind wp_attempt
    by (rule wp_remove_staged [OF st' tmp])
      (use cleared_others [OF wf temp(1) free] temp(2) in
        \<open>auto simp: atomically_replaced_def wp_raise split: outcome.split\<close>)
  have neq: "tq \<noteq> t" using temp by auto
  have halted: "atomically_replaced pid t new fs0 (Halt h) fs'" if "staged fs0 tq b' fs'" for h b' fs'
    using staged_bytes(2) [OF wf that, of t] staged_others [OF wf that temp(1)] neq
    by (simp add: atomically_replaced_def)
  have replaced: "atomically_replaced pid t new fs0 (Done ()) fs'" if "renamed fs0 t new fs'" for fs'
    using renamed_bytes [OF wf that] by (simp add: atomically_replaced_def)
  show ?thesis
    unfolding settle_def wp_bind [of "attempt _"] wp_attempt
    by (rule wp_fill_and_rename [OF wf st p tmp neq])
      (auto simp: wp_ret replaced intro: clear halted)
qed

lemma wp_replace_bytes_atomically:
  assumes "wf_fs fs" and "calm fs" and "locate fs p = Inr t" and "\<not> is_temporary pid t"
  shows "wp (replace_bytes_atomically pid p new) (atomically_replaced pid t new fs) fs"
proof -
  have t: "p \<noteq> []" "last t = last p" using locate_last [OF assms(3)] by auto
  let ?Q = "atomically_replaced pid t new fs"
  let ?rest = "\<lambda>(temporary, file). settle temporary (fill_and_rename p temporary file new)"
  have "wp (reserve_temporary pid (butlast p) [0..<128]) (\<lambda>r fs'. case r of
       Done a \<Rightarrow> wp (?rest a) ?Q fs' | Raise e \<Rightarrow> ?Q (Raise e) fs' | Halt h \<Rightarrow> ?Q (Halt h) fs') fs"
  proof (rule wp_reserve_temporary [OF assms(2,3)])
    fix n fs1
    let ?tq = "butlast t @ [temporary_name pid n]"
    assume n: "n < 128" and 1: "calm fs1" "entries fs ?tq = None"
      "same_tree (new_file ?tq [] fs) fs1"
    have "locate fs (butlast p @ [temporary_name pid n]) = Inr ?tq"
      using assms(3) by (rule locate_same_directory) simp_all
    with n wp_replace_staged [OF assms(1) staged_new_file [OF 1] assms(3) _ _ assms(4)]
    show "case Done (butlast p @ [temporary_name pid n], next_inode fs) of
       Done a \<Rightarrow> wp (?rest a) ?Q fs1 | Raise e \<Rightarrow> ?Q (Raise e) fs1 | Halt h \<Rightarrow> ?Q (Halt h) fs1"
      by (auto simp: is_temporary_def)
  qed (auto intro: atomically_replaced_same_tree)
  then show ?thesis
    using t by (simp add: replace_bytes_atomically_def create_sibling_temporary_def
        path_parent_def wp_bind)
qed

text \<open>
  C2: Replacing a file is atomic. Whatever call fails, and wherever the process dies, the
  target holds either its old bytes or all of the new ones: the new ones when the operation
  returns, the old ones when it reports an error. Nothing else in the tree changes but the
  operation's own temporaries.
\<close>
theorem replace_bytes_atomically_safe:
  assumes "wf_fs fs" and "calm fs" and "locate fs p = Inr t" and "\<not> is_temporary pid t"
    and "replace_bytes_atomically pid p new fs = (r, fs')"
  shows "atomically_replaced pid t new fs r fs'"
  using wp_replace_bytes_atomically [OF assms(1-4)] assms(5) by (rule wpD)

theorem replace_bytes_atomically_safe_witness:
  "\<exists>fs'. replace_bytes_atomically 7 sample_path ''new'' sample_fs = (Done (), fs') \<and>
     bytes_at fs' sample_path = Some ''new''"
proof -
  have "fst (replace_bytes_atomically 7 sample_path ''new'' sample_fs) = Done ()" by code_simp
  then obtain fs' where run: "replace_bytes_atomically 7 sample_path ''new'' sample_fs = (Done (), fs')"
    by (metis prod.collapse)
  have "\<not> is_temporary 7 sample_path"
    by (simp add: is_temporary_def temporary_name_def sample_path_def)
  from replace_bytes_atomically_safe [OF sample_wf sample_calm sample_locate this run] run
  show ?thesis by (simp add: atomically_replaced_def)
qed


section \<open>Creating a file\<close>

text \<open>After the link the target names the staged inode; the temporary may still name it too.\<close>

definition linked :: "fs \<Rightarrow> path \<Rightarrow> path \<Rightarrow> bytes \<Rightarrow> fs \<Rightarrow> bool" where
  "linked fs0 tq t b fs \<longleftrightarrow>
     calm fs \<and> entries fs0 t = None \<and> entries fs t = Some (Name (next_inode fs0)) \<and>
     (\<forall>q. q \<noteq> tq \<and> q \<noteq> t \<longrightarrow> entries fs q = entries fs0 q) \<and>
     (\<forall>j. inode_bytes fs j = (if j = next_inode fs0 then Some b else inode_bytes fs0 j))"

definition created ::
  "nat \<Rightarrow> path \<Rightarrow> bytes \<Rightarrow> fs \<Rightarrow> ('e, 'a) outcome \<Rightarrow> fs \<Rightarrow> bool" where
  "created pid t new fs r fs' \<longleftrightarrow>
     others_kept pid t fs fs' \<and>
     (let same = (entries fs' t = entries fs t \<and> bytes_at fs' t = bytes_at fs t);
          fresh = (entries fs t = None \<and> bytes_at fs' t = Some new)
      in case r of Done _ \<Rightarrow> fresh | Raise _ \<Rightarrow> same | Halt _ \<Rightarrow> same \<or> fresh)"

lemma linked_created:
  assumes "wf_fs fs0" and "linked fs0 tq t b fs" and "is_temporary pid tq"
    and "\<not> is_temporary pid t" and "\<forall>e. r \<noteq> Raise e"
  shows "created pid t b fs0 r fs"
proof -
  have "bytes_at fs t = Some b"
    using assms(2) by (simp add: linked_def bytes_at_inode inode_at_def)
  moreover have "others_kept pid t fs0 fs"
    unfolding others_kept_def
  proof (intro allI impI)
    fix q assume "q \<noteq> t \<and> \<not> is_temporary pid q"
    with assms(2,3) have "entries fs q = entries fs0 q" by (auto simp: linked_def)
    then show "entries fs q = entries fs0 q \<and> bytes_at fs q = bytes_at fs0 q"
      using assms(2) wf_inode_at [OF assms(1), of q]
      by (auto simp: bytes_at_inode inode_at_def linked_def split: option.split entry.split)
  qed
  ultimately show ?thesis
    using assms(2,5) by (cases r) (simp_all add: created_def linked_def)
qed

lemma created_same_tree:
  assumes "same_tree fs fs'" and "\<forall>a. r \<noteq> Done a"
  shows "created pid t new fs r fs'"
  using assms same_tree_observe(5) [OF assms(1)]
  by (cases r) (simp_all add: created_def others_kept_def same_tree_def)

lemma wp_unlink_temporary:
  assumes "linked fs0 tq t b fs" and "locate fs tmp = Inr tq" and "tq \<noteq> t"
    and "\<And>r fs'. linked fs0 tq t b fs' \<Longrightarrow> \<forall>e. r \<noteq> Raise e \<Longrightarrow> Q r fs'"
  shows "wp (bind (attempt (fs_remove_file tmp)) (\<lambda>_. ret ())) Q fs"
proof -
  have calm: "calm fs" using assms(1) by (simp add: linked_def)
  have keep: "linked fs0 tq t b fs'" if "calm fs'" "same_tree fs fs'" for fs'
    using assms(1) that by (simp add: linked_def same_tree_def inode_bytes_def)
  have gone: "linked fs0 tq t b fs'"
    if "calm fs'" "same_tree (fs\<lparr>entries := (entries fs)(tq := None)\<rparr>) fs'" for fs'
    using assms(1,3) that by (auto simp: linked_def same_tree_def inode_bytes_def)
  show ?thesis
    unfolding wp_bind wp_attempt
    by (rule wp_remove_file [OF calm assms(2)]) (auto simp: wp_ret intro: assms(4) keep gone)
qed

lemma wp_fill_and_link:
  assumes wf: "wf_fs fs0" and st: "staged fs0 tq b0 fs"
    and p: "locate fs0 p = Inr t" and tmp: "locate fs0 tmp = Inr tq" and neq: "tq \<noteq> t"
    and ok: "\<And>r fs'. linked fs0 tq t b fs' \<Longrightarrow> \<forall>e. r \<noteq> Raise e \<Longrightarrow> Q r fs'"
    and err: "\<And>e b' fs'. staged fs0 tq b' fs' \<Longrightarrow> Q (Raise e) fs'"
    and die: "\<And>h b' fs'. staged fs0 tq b' fs' \<Longrightarrow> Q (Halt h) fs'"
  shows "wp (fill_and_link p tmp (next_inode fs0) b) Q fs"
proof -
  have link: "wp (bind (fs_hard_link tmp p) (\<lambda>_. bind (attempt (fs_remove_file tmp)) (\<lambda>_. ret ()))) Q fs'"
    if st': "staged fs0 tq b fs'" for fs'
    unfolding wp_bind [of "fs_hard_link _ _"]
  proof (rule wp_hard_link)
    show "calm fs'" "entries fs' tq = Some (Name (next_inode fs0))"
      using st' by (auto simp: staged_def)
    show "locate fs' tmp = Inr tq" "locate fs' p = Inr t"
      using staged_locate [OF st'] tmp p by auto
  next
    fix fs'' assume 1: "calm fs''" "entries fs' t = None"
      "same_tree (fs'\<lparr>entries := (entries fs')(t \<mapsto> Name (next_inode fs0))\<rparr>) fs''"
    with st' neq have "linked fs0 tq t b fs''"
      by (auto simp: linked_def staged_def same_tree_def inode_bytes_def)
    moreover have "locate fs'' tmp = Inr tq"
      by (rule locate_mono [OF staged_locate [OF st' tmp]])
        (use 1 in \<open>auto simp: same_tree_def map_le_def\<close>)
    ultimately show "case Done () of
        Done a \<Rightarrow> wp (bind (attempt (fs_remove_file tmp)) (\<lambda>_. ret ())) Q fs''
      | Raise e \<Rightarrow> Q (Raise e) fs'' | Halt h \<Rightarrow> Q (Halt h) fs''"
      by (simp add: wp_unlink_temporary [OF _ _ neq ok])
  qed (auto intro: err die staged_same_tree [OF st'])
  have sync: "wp (bind (fs_sync (next_inode fs0)) (\<lambda>_. bind (fs_hard_link tmp p)
      (\<lambda>_. bind (attempt (fs_remove_file tmp)) (\<lambda>_. ret ())))) Q fs'"
    if "staged fs0 tq b fs'" for fs'
    by (rule wp_bind_looks_staged [OF _ that]) (auto intro: link err die)
  show ?thesis
    unfolding fill_and_link_def wp_bind [of "fs_write_all _ _"]
    by (rule wp_write_all_staged [OF st]) (auto intro: sync err die)
qed


lemma wp_create_staged:
  assumes wf: "wf_fs fs0" and st: "staged fs0 tq b0 fs" and p: "locate fs0 p = Inr t"
    and tmp: "locate fs0 tmp = Inr tq" and temp: "is_temporary pid tq" "\<not> is_temporary pid t"
  shows "wp (settle tmp (fill_and_link p tmp (next_inode fs0) new)) (created pid t new fs0) fs"
proof -
  have free: "entries fs0 tq = None" using st by (simp add: staged_def)
  have clear: "wp (bind (attempt (fs_remove_file tmp)) (\<lambda>_. raise e)) (created pid t new fs0) fs'"
    if st': "staged fs0 tq b' fs'" for e :: io_kind and b' fs'
    unfolding wp_bind wp_attempt
    by (rule wp_remove_staged [OF st' tmp])
      (use cleared_others [OF wf temp(1) free] temp(2) in
        \<open>auto simp: created_def wp_raise split: outcome.split\<close>)
  have neq: "tq \<noteq> t" using temp by auto
  have halted: "created pid t new fs0 (Halt h) fs'" if "staged fs0 tq b' fs'" for h b' fs'
    using staged_bytes [OF wf that, of t] staged_others [OF wf that temp(1)] neq
    by (simp add: created_def)
  show ?thesis
    unfolding settle_def wp_bind [of "attempt _"] wp_attempt
    by (rule wp_fill_and_link [OF wf st p tmp neq])
      (auto simp: wp_ret intro: clear halted linked_created [OF wf _ temp] split: outcome.split)
qed

lemma created_map_raise [simp]: "created pid t new fs (map_raise f r) = created pid t new fs r"
  by (cases r) (simp_all add: created_def fun_eq_iff)

lemma wp_create_bytes_new:
  assumes "wf_fs fs" and "calm fs" and "locate fs p = Inr t" and "\<not> is_temporary pid t"
  shows "wp (create_bytes_new pid p new) (created pid t new fs) fs"
proof -
  have t: "p \<noteq> []" "last t = last p" using locate_last [OF assms(3)] by auto
  let ?Q = "created pid t new fs"
  let ?rest = "\<lambda>(temporary, file). map_err (CouldNotCreate p)
     (settle temporary (fill_and_link p temporary file new))"
  have "wp (reserve_temporary pid (butlast p) [0..<128]) (\<lambda>r fs'.
      case map_raise (CouldNotPrepare p) r of
       Done a \<Rightarrow> wp (?rest a) ?Q fs' | Raise e \<Rightarrow> ?Q (Raise e) fs' | Halt h \<Rightarrow> ?Q (Halt h) fs') fs"
  proof (rule wp_reserve_temporary [OF assms(2,3)])
    fix n fs1
    let ?tq = "butlast t @ [temporary_name pid n]"
    assume n: "n < 128" and 1: "calm fs1" "entries fs ?tq = None"
      "same_tree (new_file ?tq [] fs) fs1"
    have "locate fs (butlast p @ [temporary_name pid n]) = Inr ?tq"
      using assms(3) by (rule locate_same_directory) simp_all
    with n wp_create_staged [OF assms(1) staged_new_file [OF 1] assms(3) _ _ assms(4)]
    show "case map_raise (CouldNotPrepare p)
          (Done (butlast p @ [temporary_name pid n], next_inode fs)) of
       Done a \<Rightarrow> wp (?rest a) ?Q fs1 | Raise e \<Rightarrow> ?Q (Raise e) fs1 | Halt h \<Rightarrow> ?Q (Halt h) fs1"
      by (auto simp: is_temporary_def wp_map_err)
  qed (auto intro: created_same_tree)
  then show ?thesis
    using t by (simp add: create_bytes_new_def create_sibling_temporary_def
        path_parent_def wp_bind wp_map_err)
qed

text \<open>
  Save As never clobbers. Creating a file succeeds only where nothing was, and then the new
  name holds all of the bytes; an error leaves the target as it was, and a process that dies
  leaves either of the two. Nothing else in the tree changes but the operation's own
  temporaries.
\<close>
theorem create_bytes_new_safe:
  assumes "wf_fs fs" and "calm fs" and "locate fs p = Inr t" and "\<not> is_temporary pid t"
    and "create_bytes_new pid p new fs = (r, fs')"
  shows "created pid t new fs r fs'"
  using wp_create_bytes_new [OF assms(1-4)] assms(5) by (rule wpD)

definition other_path :: path where
  "other_path = [''notes'', ''other.djot'']"

theorem create_bytes_new_safe_witness:
  "\<exists>fs'. create_bytes_new 7 other_path ''new'' sample_fs = (Done (), fs') \<and>
     bytes_at fs' other_path = Some ''new''"
proof -
  have "fst (create_bytes_new 7 other_path ''new'' sample_fs) = Done ()" by code_simp
  then obtain fs' where run: "create_bytes_new 7 other_path ''new'' sample_fs = (Done (), fs')"
    by (metis prod.collapse)
  have "\<not> is_temporary 7 other_path" and "locate sample_fs other_path = Inr other_path"
    by (simp add: is_temporary_def temporary_name_def other_path_def) code_simp
  from create_bytes_new_safe [OF sample_wf sample_calm this(2,1) run] run
  show ?thesis by (simp add: created_def Let_def)
qed


section \<open>Writes leave a calm schedule calm\<close>

lemma keeps_calm_reserve [simp, intro]: "keeps_calm (reserve_temporary pid d ns)"
  by (induction ns)
    (auto simp: Let_def intro!: keeps_calm_bind keeps_calm_attempt split: sum.split)

lemma keeps_calm_writes [simp, intro]:
  "keeps_calm (replace_bytes_atomically pid p b)" "keeps_calm (create_bytes_new pid p b)"
  "keeps_calm (write_if_distinct pid p b b')"
proof -
  have tmp: "keeps_calm (create_sibling_temporary pid p)"
    by (simp add: create_sibling_temporary_def split: option.split)
  have settle: "keeps_calm (settle t m)" if "keeps_calm m" for t m
    using that by (auto simp: settle_def intro!: keeps_calm_bind keeps_calm_attempt split: sum.split)
  have fill: "keeps_calm (fill_and_rename p t i b)" "keeps_calm (fill_and_link p t i b)" for t i b
    by (auto simp: fill_and_rename_def fill_and_link_def replace_temporary_def
        intro!: keeps_calm_bind keeps_calm_attempt split: sum.split)
  show r: "keeps_calm (replace_bytes_atomically pid p b)" for b
    by (auto simp: replace_bytes_atomically_def intro!: keeps_calm_bind tmp settle fill
        split: prod.split)
  show "keeps_calm (create_bytes_new pid p b)"
    by (auto simp: create_bytes_new_def intro!: keeps_calm_bind keeps_calm_map_err tmp settle fill
        split: prod.split)
  show "keeps_calm (write_if_distinct pid p b b')"
    by (auto simp: write_if_distinct_def intro!: keeps_calm_bind keeps_calm_map_err r)
qed

end
