(* ===== verification/Doc_Editor.thy ===== *)
theory Doc_Editor
  imports Doc_Writer
begin

text \<open>
  \<open>knot-document/src/editor.rs\<close>: one source-first document over the shared text editor, with
  the file it was opened from and the bytes and identity that file had then.

  The shared editor (\<open>knot_editor_host\<close>), its text input (\<open>cambium\<close>) and the file identity
  (\<open>same_file\<close>) are other packages. They are the fields of a record \<open>host\<close> that every
  definition takes, and \<open>host_ok\<close> states what this code relies on.
\<close>

section \<open>The other packages\<close>

datatype caret_affinity = Upstream | Downstream

record caret_position =
  caret_byte :: nat
  affinity :: caret_affinity

record caret_selection =
  anchor :: caret_position
  focus :: caret_position

text \<open>The commands this code builds itself, and any other one.\<close>

datatype 'c text_command = SetSelection caret_selection | Insert string | OtherCommand 'c

record outline_item =
  item_label :: string
  item_level :: nat
  item_start :: nat
  item_end :: nat

text \<open>A fold is a node of the parsed document; this code names five of the node kinds.\<close>

datatype node_kind =
  SectionNode | ListNode | BlockquoteNode | CodeBlockNode | DivNode | OtherNode nat

record fold =
  fold_node :: node_kind
  fold_start :: nat
  fold_end :: nat

record ('ed, 'inp, 'c, 'h) host =
  sh_scratch :: "string \<Rightarrow> string \<Rightarrow> 'ed"
  sh_input :: "'ed \<Rightarrow> 'inp"
  sh_with_input :: "'inp \<Rightarrow> 'ed \<Rightarrow> 'ed"
  sh_apply :: "'c text_command \<Rightarrow> 'ed \<Rightarrow> bool \<times> 'ed"
  sh_is_dirty :: "'ed \<Rightarrow> bool"
  sh_accept_saved :: "string \<Rightarrow> 'ed \<Rightarrow> 'ed"
  sh_outline :: "'ed \<Rightarrow> outline_item list"
  sh_folds :: "'ed \<Rightarrow> fold list"
  in_text :: "'inp \<Rightarrow> string"
  in_selection :: "'inp \<Rightarrow> caret_selection"
  in_composing :: "'inp \<Rightarrow> bool"
  handle_of :: "nat \<Rightarrow> 'h"

text \<open>
  What the code relies on. A new editor holds the text it was given and is clean. The text
  input is the only source buffer, and swapping inputs swaps exactly that. Accepting a saved
  source leaves the input alone and makes an editor that holds that source clean. A command
  that reports no source change has made none; setting the selection never changes the source.
  A file handle identifies its file.
\<close>

definition host_ok :: "('ed, 'inp, 'c, 'h) host \<Rightarrow> bool" where
  "host_ok h \<longleftrightarrow>
     (\<forall>a s. in_text h (sh_input h (sh_scratch h a s)) = s \<and> \<not> sh_is_dirty h (sh_scratch h a s)) \<and>
     (\<forall>i e. sh_input h (sh_with_input h i e) = i) \<and>
     (\<forall>s e. sh_input h (sh_accept_saved h s e) = sh_input h e) \<and>
     (\<forall>s e. in_text h (sh_input h e) = s \<longrightarrow> \<not> sh_is_dirty h (sh_accept_saved h s e)) \<and>
     (\<forall>c e. \<not> fst (sh_apply h c e) \<longrightarrow>
        in_text h (sh_input h (snd (sh_apply h c e))) = in_text h (sh_input h e)) \<and>
     (\<forall>s e. in_text h (sh_input h (snd (sh_apply h (SetSelection s) e)))
          = in_text h (sh_input h e)) \<and>
     inj (handle_of h)"

section \<open>State\<close>

datatype save_error = ExternalChange | Failed message

record 'h file_baseline =
  base_bytes :: bytes
  base_handle :: 'h

record ('ed, 'h) knot_editor =
  ed_path :: "path option"
  ed_address :: string
  ed_format :: document_format
  ed_editor :: 'ed
  ed_baseline :: "'h file_baseline option"

definition ed_source :: "('ed, 'inp, 'c, 'h) host \<Rightarrow> ('ed, 'h) knot_editor \<Rightarrow> string" where
  "ed_source h e = in_text h (sh_input h (ed_editor e))"

definition ed_selection ::
  "('ed, 'inp, 'c, 'h) host \<Rightarrow> ('ed, 'h) knot_editor \<Rightarrow> caret_selection" where
  "ed_selection h e = in_selection h (sh_input h (ed_editor e))"

definition ed_is_dirty :: "('ed, 'inp, 'c, 'h) host \<Rightarrow> ('ed, 'h) knot_editor \<Rightarrow> bool" where
  "ed_is_dirty h e = sh_is_dirty h (ed_editor e)"

section \<open>Operations\<close>

text \<open>\<open>FileBaseline::observe\<close> and \<open>still_matches\<close>; a handle is made by one more call.\<close>

definition handle_from_file :: "('ed, 'inp, 'c, 'h) host \<Rightarrow> nat \<Rightarrow> (io_kind, 'h) prog" where
  "handle_from_file h fd = simple_call (ret (handle_of h fd))"

definition observe :: "('ed, 'inp, 'c, 'h) host \<Rightarrow> path \<Rightarrow> (message, 'h file_baseline) prog" where
  "observe h p =
     bind (map_err (CouldNotRead p) (fs_open p)) (\<lambda>file.
     bind (map_err (CouldNotRead p) (fs_read_to_end file)) (\<lambda>bs.
     bind (map_err (CouldNotInspect p) (handle_from_file h file)) (\<lambda>hd.
     ret \<lparr>base_bytes = bs, base_handle = hd\<rparr>)))"

definition still_matches ::
  "('ed, 'inp, 'c, 'h) host \<Rightarrow> 'h file_baseline \<Rightarrow> path \<Rightarrow> (message, bool) prog" where
  "still_matches h b p =
     bind (map_err (CouldNotInspect p) (bind (fs_open p) (handle_from_file h))) (\<lambda>hd.
     bind (map_err (CouldNotRead p) (fs_read p)) (\<lambda>bs.
     ret (hd = base_handle b \<and> bs = base_bytes b)))"

definition editor_open ::
  "('ed, 'inp, 'c, 'h) host \<Rightarrow> path \<Rightarrow> (message, ('ed, 'h) knot_editor) prog" where
  "editor_open h requested =
     (case from_path requested of
        None \<Rightarrow> raise (UnsupportedFormat requested)
      | Some f \<Rightarrow>
          if \<not> editable_format f then raise (UnsupportedFormat requested)
          else bind (map_err (CouldNotResolve requested) (fs_canonicalize requested)) (\<lambda>p.
               bind (observe h p) (\<lambda>b.
               if \<not> utf8_valid (base_bytes b) then raise (NotUtf8 p)
               else bind (file_address p) (\<lambda>address.
               ret \<lparr>ed_path = Some p, ed_address = address, ed_format = f,
                    ed_editor = sh_scratch h address (base_bytes b),
                    ed_baseline = Some b\<rparr>))))"

definition editor_scratch_with_format ::
  "('ed, 'inp, 'c, 'h) host \<Rightarrow> string \<Rightarrow> string \<Rightarrow> document_format \<Rightarrow> ('ed, 'h) knot_editor" where
  "editor_scratch_with_format h address source f =
     \<lparr>ed_path = None, ed_address = address, ed_format = f,
      ed_editor = sh_scratch h address source, ed_baseline = None\<rparr>"

definition editor_scratch ::
  "('ed, 'inp, 'c, 'h) host \<Rightarrow> string \<Rightarrow> string \<Rightarrow> ('ed, 'h) knot_editor" where
  "editor_scratch h address source = editor_scratch_with_format h address source Djot"

definition editor_apply ::
  "('ed, 'inp, 'c, 'h) host \<Rightarrow> 'c text_command \<Rightarrow> ('ed, 'h) knot_editor
     \<Rightarrow> bool \<times> ('ed, 'h) knot_editor" where
  "editor_apply h c e =
     (case sh_apply h c (ed_editor e) of (changed, ed) \<Rightarrow> (changed, e\<lparr>ed_editor := ed\<rparr>))"

definition apply_layout_selection ::
  "('ed, 'inp, 'c, 'h) host \<Rightarrow> caret_selection \<Rightarrow> ('ed, 'h) knot_editor
     \<Rightarrow> bool \<times> ('ed, 'h) knot_editor" where
  "apply_layout_selection h sel e = editor_apply h (SetSelection sel) e"

definition is_file_read_only :: "('ed, 'h) knot_editor \<Rightarrow> ('e, bool) prog" where
  "is_file_read_only e =
     (case ed_path e of
        None \<Rightarrow> ret False
      | Some p \<Rightarrow> bind (attempt (fs_metadata p)) (\<lambda>m.
          ret (case m of Inr md \<Rightarrow> meta_readonly md | Inl _ \<Rightarrow> False)))"

definition compare_disk ::
  "('ed, 'inp, 'c, 'h) host \<Rightarrow> ('ed, 'h) knot_editor \<Rightarrow> (message, string \<times> bool) prog" where
  "compare_disk h e =
     (case ed_path e of
        None \<Rightarrow> raise (Text ''scratch Knot editor has no disk target'')
      | Some p \<Rightarrow> (case ed_baseline e of
          None \<Rightarrow> raise (Text ''file document has no disk baseline'')
        | Some b \<Rightarrow> bind (observe h p) (\<lambda>disk.
            let changed = (base_handle disk \<noteq> base_handle b \<or> base_bytes disk \<noteq> base_bytes b)
            in if \<not> utf8_valid (base_bytes disk) then raise (NotUtf8 p)
               else ret (base_bytes disk, changed))))"

text \<open>
  \<open>save_guarded\<close>. The result carries the editor as it is after a success; the editor is
  assigned to only after the last call that can fail, so an error leaves the caller's as it was.
  The second half, once the disk is known to hold the baseline, has a definition of its own.
\<close>

definition save_over_baseline ::
  "('ed, 'inp, 'c, 'h) host \<Rightarrow> nat \<Rightarrow> path \<Rightarrow> 'h file_baseline \<Rightarrow> ('ed, 'h) knot_editor
     \<Rightarrow> (save_error, save_outcome \<times> ('ed, 'h) knot_editor) prog" where
  "save_over_baseline h pid p b e =
     bind (map_err Failed (write_if_distinct pid p (base_bytes b) (ed_source h e))) (\<lambda>oc.
     bind (map_err Failed (observe h p)) (\<lambda>updated.
     if base_bytes updated \<noteq> ed_source h e then raise ExternalChange
     else ret (oc, e\<lparr>ed_editor := sh_accept_saved h (ed_source h e) (ed_editor e),
                    ed_baseline := Some updated\<rparr>)))"

definition save_guarded ::
  "('ed, 'inp, 'c, 'h) host \<Rightarrow> nat \<Rightarrow> ('ed, 'h) knot_editor
     \<Rightarrow> (save_error, save_outcome \<times> ('ed, 'h) knot_editor) prog" where
  "save_guarded h pid e =
     (case ed_path e of
        None \<Rightarrow> raise (Failed (Text ''scratch Knot editor has no save path''))
      | Some p \<Rightarrow>
          if \<not> ed_is_dirty h e then ret (Unchanged, e)
          else (case ed_baseline e of
            None \<Rightarrow> raise (Failed (Text ''file document has no disk baseline''))
          | Some b \<Rightarrow>
              bind (attempt (fs_metadata p)) (\<lambda>m. case m of
                Inl k \<Rightarrow> raise (if k = NotFound then ExternalChange else Failed (CouldNotInspect p k))
              | Inr md \<Rightarrow>
                  if meta_readonly md then raise (Failed (Text ''document target is read-only''))
                  else bind (map_err Failed (still_matches h b p)) (\<lambda>matches_baseline.
                    if \<not> matches_baseline then raise ExternalChange
                    else save_over_baseline h pid p b e))))"

definition editor_save ::
  "('ed, 'inp, 'c, 'h) host \<Rightarrow> nat \<Rightarrow> ('ed, 'h) knot_editor
     \<Rightarrow> (message, save_outcome \<times> ('ed, 'h) knot_editor) prog" where
  "editor_save h pid e =
     map_err (\<lambda>err. case err of
         ExternalChange \<Rightarrow> Text ''file changed on disk since opening''
       | Failed m \<Rightarrow> m) (save_guarded h pid e)"

definition is_current_path :: "('ed, 'h) knot_editor \<Rightarrow> path \<Rightarrow> ('e, bool) prog" where
  "is_current_path e target =
     (case ed_path e of
        None \<Rightarrow> ret False
      | Some p \<Rightarrow>
          if p = target then ret True
          else bind (attempt (fs_canonicalize p)) (\<lambda>a.
               bind (attempt (fs_canonicalize target)) (\<lambda>b.
               ret (case (a, b) of (Inr x, Inr y) \<Rightarrow> x = y | _ \<Rightarrow> False))))"

definition save_as ::
  "('ed, 'inp, 'c, 'h) host \<Rightarrow> nat \<Rightarrow> path \<Rightarrow> ('ed, 'h) knot_editor
     \<Rightarrow> (save_error, save_outcome \<times> ('ed, 'h) knot_editor) prog" where
  "save_as h pid target e =
     (case from_path target of
        None \<Rightarrow> raise (Failed (UnsupportedFormat target))
      | Some f \<Rightarrow>
          if \<not> editable_format f then raise (Failed (UnsupportedFormat target))
          else if (native_source (ed_format e) \<or> native_source f) \<and> ed_format e \<noteq> f
          then raise (Failed
            (Text ''Save As cannot convert native protocol source to another format''))
          else bind (is_current_path e target) (\<lambda>current.
            if current then save_guarded h pid e
            else bind (map_err Failed (create_bytes_new pid target (ed_source h e))) (\<lambda>_.
                 bind (map_err (\<lambda>k. Failed (CouldNotResolveSaved target k))
                        (fs_canonicalize target)) (\<lambda>p.
                 bind (map_err Failed (file_address p)) (\<lambda>address.
                 bind (map_err Failed (observe h p)) (\<lambda>b.
                 if base_bytes b \<noteq> ed_source h e then raise ExternalChange
                 else ret (Written, \<lparr>ed_path = Some p, ed_address = address, ed_format = f,
                   ed_editor = sh_accept_saved h (ed_source h e)
                     (sh_with_input h (sh_input h (ed_editor e)) (sh_scratch h address [])),
                   ed_baseline = Some b\<rparr>)))))))"

definition editor_reload ::
  "('ed, 'inp, 'c, 'h) host \<Rightarrow> ('ed, 'h) knot_editor \<Rightarrow> (message, ('ed, 'h) knot_editor) prog" where
  "editor_reload h e =
     (case ed_path e of
        None \<Rightarrow> raise (Text ''scratch Knot editor has no reload path'')
      | Some p \<Rightarrow>
          bind (observe h p) (\<lambda>b.
          if \<not> utf8_valid (base_bytes b) then raise (NotUtf8 p)
          else bind (file_address p) (\<lambda>address.
          ret (e\<lparr>ed_address := address, ed_editor := sh_scratch h address (base_bytes b),
                 ed_baseline := Some b\<rparr>))))"

definition outline_items ::
  "('ed, 'inp, 'c, 'h) host \<Rightarrow> ('ed, 'h) knot_editor \<Rightarrow> outline_item list" where
  "outline_items h e = (if native_source (ed_format e) then [] else sh_outline h (ed_editor e))"

definition editor_folds ::
  "('ed, 'inp, 'c, 'h) host \<Rightarrow> ('ed, 'h) knot_editor \<Rightarrow> fold list" where
  "editor_folds h e = (if native_source (ed_format e) then [] else sh_folds h (ed_editor e))"

section \<open>Observing the file\<close>

lemma host_ok_source:
  assumes "host_ok h"
  shows "in_text h (sh_input h (sh_scratch h a s)) = s" "\<not> sh_is_dirty h (sh_scratch h a s)"
    and "sh_input h (sh_with_input h i ed) = i"
    and "sh_input h (sh_accept_saved h s ed) = sh_input h ed"
    and "in_text h (sh_input h ed) = s \<Longrightarrow> \<not> sh_is_dirty h (sh_accept_saved h s ed)"
    and "\<not> fst (sh_apply h c ed) \<Longrightarrow>
      in_text h (sh_input h (snd (sh_apply h c ed))) = in_text h (sh_input h ed)"
    and "in_text h (sh_input h (snd (sh_apply h (SetSelection sel) ed)))
      = in_text h (sh_input h ed)"
    and "handle_of h x = handle_of h y \<longleftrightarrow> x = y"
  using assms by (auto simp: host_ok_def inj_eq)

lemma looks_handle [simp, intro]: "looks (handle_from_file h fd)"
  unfolding handle_from_file_def by (rule looks_simple_call) (simp add: ret_def)

lemma handle_from_file_Done:
  assumes "calm fs" and "handle_from_file h fd fs = (Done x, fs')"
  shows "x = handle_of h fd"
  by (rule simple_call_Done [OF assms(1) assms(2) [unfolded handle_from_file_def]])
    (auto simp: ret_def)

lemma looks_observe [simp, intro]: "looks (observe h p)"
  unfolding observe_def by (intro looks_bind looks_map_err) auto

lemma looks_still_matches [simp, intro]: "looks (still_matches h b p)"
  unfolding still_matches_def by (intro looks_bind looks_map_err) auto

lemma looks_file_address [simp, intro]: "looks (file_address p)"
  unfolding file_address_def by (intro looks_bind looks_map_err) auto

lemma looks_is_file_read_only [simp, intro]: "looks (is_file_read_only e)"
  unfolding is_file_read_only_def
  by (cases "ed_path e") (auto intro!: looks_bind looks_attempt)

lemma looks_is_current_path [simp, intro]: "looks (is_current_path e p)"
  unfolding is_current_path_def
  by (cases "ed_path e") (auto intro!: looks_bind looks_attempt)

text \<open>What a successful observation says about the tree.\<close>

lemma observe_Done:
  assumes "calm fs" and "observe h p fs = (Done b, fs')"
  shows "\<exists>q i. resolve fs p = Inr q \<and> inode_at fs q = Some i \<and>
    base_handle b = handle_of h i \<and> bytes_at fs q = Some (base_bytes b)"
proof -
  from assms(2) obtain i fs1 bs fs2 x where 1: "fs_open p fs = (Done i, fs1)"
    and 2: "fs_read_to_end i fs1 = (Done bs, fs2)"
    and 3: "handle_from_file h i fs2 = (Done x, fs')"
    and b: "b = \<lparr>base_bytes = bs, base_handle = x\<rparr>"
    by (auto simp: observe_def io_simps)
  from looks_calls(4) assms(1) 1 have s1: "calm fs1 \<and> same_tree fs fs1" by (rule looksD)
  from looks_calls(5) conjunct1 [OF s1] 2 have s2: "calm fs2 \<and> same_tree fs1 fs2" by (rule looksD)
  from fs_open_Done [OF assms(1) 1] fs_read_to_end_Done [OF conjunct1 [OF s1] 2]
    handle_from_file_Done [OF conjunct1 [OF s2] 3] b s1
  show ?thesis by (auto simp: bytes_at_inode same_tree_inode_bytes)
qed

lemma still_matches_Done:
  assumes "calm fs" and "still_matches h b p fs = (Done True, fs')"
  shows "\<exists>q i. resolve fs p = Inr q \<and> inode_at fs q = Some i \<and>
    base_handle b = handle_of h i \<and> bytes_at fs q = Some (base_bytes b)"
proof -
  from assms(2) obtain i fs1 x fs2 bs where 1: "fs_open p fs = (Done i, fs1)"
    and 2: "handle_from_file h i fs1 = (Done x, fs2)"
    and 3: "fs_read p fs2 = (Done bs, fs')"
    and b: "x = base_handle b" "bs = base_bytes b"
    by (auto simp: still_matches_def io_simps)
  from looks_calls(4) assms(1) 1 have s1: "calm fs1 \<and> same_tree fs fs1" by (rule looksD)
  from looks_handle conjunct1 [OF s1] 2 have s2: "calm fs2 \<and> same_tree fs1 fs2" by (rule looksD)
  from s1 s2 have s: "same_tree fs fs2" by (blast intro: same_tree_trans)
  from fs_open_Done [OF assms(1) 1] handle_from_file_Done [OF conjunct1 [OF s1] 2]
    fs_read_Done [OF conjunct1 [OF s2] 3] b
  show ?thesis by (auto simp: same_tree_observe [OF s])
qed

section \<open>Saving\<close>

text \<open>The disk still holds the baseline: same file, same bytes.\<close>

definition baseline_on_disk ::
  "('ed, 'inp, 'c, 'h) host \<Rightarrow> 'h file_baseline \<Rightarrow> path \<Rightarrow> fs \<Rightarrow> bool" where
  "baseline_on_disk h b p fs \<longleftrightarrow>
     (\<exists>q i. resolve fs p = Inr q \<and> inode_at fs q = Some i \<and>
        base_handle b = handle_of h i \<and> bytes_at fs q = Some (base_bytes b))"

lemma baseline_on_disk_same_tree:
  "same_tree fs fs' \<Longrightarrow> baseline_on_disk h b p fs' = baseline_on_disk h b p fs"
  by (simp add: baseline_on_disk_def same_tree_observe)

text \<open>The write at the heart of a guarded save.\<close>

definition saved_over ::
  "nat \<Rightarrow> path \<Rightarrow> bytes \<Rightarrow> bytes \<Rightarrow> fs \<Rightarrow> ('e, 'a) outcome \<Rightarrow> fs \<Rightarrow> bool" where
  "saved_over pid t old new fs r fs' \<longleftrightarrow>
     calm fs' \<and> others_kept pid t fs fs' \<and>
     (bytes_at fs' t = bytes_at fs t \<or> bytes_at fs t = Some old \<and> bytes_at fs' t = Some new) \<and>
     (\<forall>a. r = Done a \<longrightarrow> bytes_at fs' t = Some new)"


lemma saved_over_same_tree:
  assumes "calm fs'" and "same_tree fs fs'" and "\<forall>a. r \<noteq> Done a"
  shows "saved_over pid t old new fs r fs'"
  using assms same_tree_observe(5) [OF assms(2)]
  by (simp add: saved_over_def others_kept_def same_tree_def)

lemma others_kept_same_tree:
  assumes "same_tree a b"
  shows "others_kept pid t b c = others_kept pid t a c"
    and "others_kept pid t c b = others_kept pid t c a"
  using assms by (simp_all add: others_kept_def same_tree_observe [OF assms])
    (simp_all add: same_tree_def)

lemma saved_over_from_same_tree:
  "same_tree a b \<Longrightarrow> saved_over pid t old new b r fs' = saved_over pid t old new a r fs'"
  unfolding saved_over_def by (simp add: others_kept_same_tree(1) same_tree_observe(5))

lemma saved_over_to_same_tree:
  "same_tree a b \<Longrightarrow> calm b \<Longrightarrow> saved_over pid t old new fs r a \<Longrightarrow> saved_over pid t old new fs r b"
  unfolding saved_over_def by (simp add: others_kept_same_tree(2) same_tree_observe(5))

lemma saved_over_weaken:
  "saved_over pid t old new fs r fs' \<Longrightarrow> (\<And>a. r' = Done a \<Longrightarrow> \<exists>a'. r = Done a') \<Longrightarrow>
    saved_over pid t old new fs r' fs'"
  unfolding saved_over_def by blast

lemma wf_same_tree: "same_tree a b \<Longrightarrow> wf_fs b = wf_fs a"
  by (simp add: wf_fs_def same_tree_def)

text \<open>The write and the observation after it, from a tree that still holds the baseline.\<close>

lemma wp_save_write:
  assumes wf: "wf_fs fs" and calm: "calm fs" and loc: "locate fs p = Inr t"
    and tmp: "\<not> is_temporary pid t" and old: "bytes_at fs t = Some old"
  shows "wp (write_if_distinct pid p old new) (saved_over pid t old new fs) fs"
proof (cases "old = new")
  case True
  with calm old show ?thesis
    by (simp add: write_if_distinct_def io_simps saved_over_def others_kept_def)
next
  case False
  have "wp (replace_bytes_atomically pid p new)
      (\<lambda>r fs'. calm fs' \<and> atomically_replaced pid t new fs r fs') fs"
    using wp_replace_bytes_atomically [OF wf calm loc tmp, of new]
      keeps_calm_writes(1) [of pid p new] calm
    by (auto simp: wp_def keeps_calm_def split: prod.splits)
  moreover have "saved_over pid t old new fs r fs'"
    if "calm fs' \<and> atomically_replaced pid t new fs r fs'" for r :: "(io_kind, unit) outcome" and fs'
    using that old by (cases r) (auto simp: saved_over_def atomically_replaced_def)
  ultimately have "wp (replace_bytes_atomically pid p new) (saved_over pid t old new fs) fs"
    by (rule wp_mono)
  then have "wp (replace_bytes_atomically pid p new) (\<lambda>r fs'. case map_raise (CouldNotWrite p) r of
      Done a \<Rightarrow> saved_over pid t old new fs (Done Written :: (message, save_outcome) outcome) fs'
    | Raise e \<Rightarrow> saved_over pid t old new fs (Raise e) fs'
    | Halt h \<Rightarrow> saved_over pid t old new fs (Halt h) fs') fs"
    by (rule wp_mono) (auto split: outcome.split elim!: saved_over_weaken)
  with False show ?thesis
    by (simp add: write_if_distinct_def io_simps wp_ret cong: outcome.case_cong)
qed

lemma wp_save_over_baseline:
  assumes "wf_fs fs" and "calm fs" and "locate fs p = Inr t" and "\<not> is_temporary pid t"
    and "bytes_at fs t = Some (base_bytes b)"
  shows "wp (save_over_baseline h pid p b e) (saved_over pid t (base_bytes b) (ed_source h e) fs) fs"
proof -
  let ?Q = "saved_over pid t (base_bytes b) (ed_source h e) fs"
  have observe: "wp (bind (map_err Failed (observe h p)) (\<lambda>updated.
      if base_bytes updated \<noteq> ed_source h e then raise ExternalChange
      else ret (oc, e\<lparr>ed_editor := sh_accept_saved h (ed_source h e) (ed_editor e),
                     ed_baseline := Some updated\<rparr>))) ?Q fs2"
    if w: "?Q (Done oc :: (message, save_outcome) outcome) fs2" for oc fs2
    unfolding wp_bind wp_map_err
  proof (rule wp_looks [OF looks_observe])
    show "calm fs2" using w by (simp add: saved_over_def)
  next
    fix r fs3 assume "calm fs3" "same_tree fs2 fs3"
    from this(2,1) w have "?Q (Done oc :: (message, save_outcome) outcome) fs3"
      by (rule saved_over_to_same_tree)
    then show "case map_raise Failed r of
        Done a \<Rightarrow> wp (if base_bytes a \<noteq> ed_source h e then raise ExternalChange
          else ret (oc, e\<lparr>ed_editor := sh_accept_saved h (ed_source h e) (ed_editor e),
                         ed_baseline := Some a\<rparr>)) ?Q fs3
      | Raise err \<Rightarrow> ?Q (Raise err) fs3 | Halt hl \<Rightarrow> ?Q (Halt hl) fs3"
      by (auto simp: wp_raise wp_ret split: outcome.split elim!: saved_over_weaken)
  qed
  show ?thesis
    unfolding save_over_baseline_def wp_bind [of "map_err Failed (write_if_distinct _ _ _ _)"]
      wp_map_err
    using wp_save_write [OF assms]
    by (rule wp_mono) (auto split: outcome.split intro: observe elim!: saved_over_weaken)
qed

lemma wp_save_guarded:
  assumes wf: "wf_fs fs" and calm: "calm fs"
    and p: "ed_path e = Some p" and canonical: "resolve fs p = Inr p" "p \<noteq> []"
    and tmp: "\<not> is_temporary pid p"
    and dirty: "ed_is_dirty h e" and b: "ed_baseline e = Some b"
  shows "wp (save_guarded h pid e) (\<lambda>r fs'.
    saved_over pid p (base_bytes b) (ed_source h e) fs r fs' \<and>
    (\<not> baseline_on_disk h b p fs \<longrightarrow> same_tree fs fs' \<and> (\<forall>x. r \<noteq> Done x))) fs"
    (is "wp _ ?Q fs")
proof -
  have raised: "?Q (Raise x) fs'" and halted: "?Q (Halt y) fs'"
    if "calm fs'" "same_tree fs fs'" for x y fs'
    using that by (simp_all add: saved_over_same_tree)
  have check: "wp (bind (map_err Failed (still_matches h b p)) (\<lambda>ok.
      if \<not> ok then raise ExternalChange else save_over_baseline h pid p b e)) ?Q fs1"
    if c1: "calm fs1" and s1: "same_tree fs fs1" for fs1
    unfolding wp_bind wp_map_err
  proof (rule wp_looks [OF looks_still_matches c1])
    fix r fs2 assume run: "still_matches h b p fs1 = (r, fs2)" and c2: "calm fs2" "same_tree fs1 fs2"
    with s1 have s2: "same_tree fs fs2" by (blast intro: same_tree_trans)
    have go: "wp (save_over_baseline h pid p b e) ?Q fs2" if "r = Done True"
    proof -
      have disk: "baseline_on_disk h b p fs"
        using still_matches_Done [of fs1 h b p fs2] c1 run that
        by (simp add: baseline_on_disk_def same_tree_observe [OF s1])
      with canonical have "bytes_at fs2 p = Some (base_bytes b)" "locate fs2 p = Inr p"
        using resolve_canonical(2) [OF canonical]
        by (auto simp: baseline_on_disk_def same_tree_observe [OF s2])
      with wp_save_over_baseline [of fs2 p p pid b h e] wf c2 tmp wf_same_tree [OF s2]
      have "wp (save_over_baseline h pid p b e)
          (saved_over pid p (base_bytes b) (ed_source h e) fs2) fs2" by simp
      then show ?thesis
        by (rule wp_mono) (simp add: disk saved_over_from_same_tree [OF s2])
    qed
    show "case map_raise Failed r of
        Done ok \<Rightarrow> wp (if \<not> ok then raise ExternalChange else save_over_baseline h pid p b e) ?Q fs2
      | Raise err \<Rightarrow> ?Q (Raise err) fs2 | Halt hl \<Rightarrow> ?Q (Halt hl) fs2"
    proof (cases "r = Done True")
      case True
      with go show ?thesis by simp
    next
      case False
      show ?thesis
      proof (cases r)
        case (Done ok)
        with \<open>r \<noteq> Done True\<close> have "ok = False" by simp
        with Done raised [OF c2(1) s2, of ExternalChange] show ?thesis by (simp add: wp_raise)
      next
        case (Raise x)
        with raised [OF c2(1) s2] show ?thesis by simp
      next
        case (Halt x)
        with halted [OF c2(1) s2] show ?thesis by simp
      qed
    qed
  qed
  have "wp (bind (attempt (fs_metadata p)) (\<lambda>m. case m of
      Inl k \<Rightarrow> raise (if k = NotFound then ExternalChange else Failed (CouldNotInspect p k))
    | Inr md \<Rightarrow>
        if meta_readonly md then raise (Failed (Text ''document target is read-only''))
        else bind (map_err Failed (still_matches h b p)) (\<lambda>ok.
          if \<not> ok then raise ExternalChange else save_over_baseline h pid p b e))) ?Q fs"
    unfolding wp_bind [of "attempt _"] wp_attempt
    by (rule wp_looks [OF looks_calls(1) calm])
      (simp add: wp_raise check raised halted del: split_paired_All split: outcome.split)
  with p dirty b show ?thesis by (simp add: save_guarded_def)
qed

section \<open>Save As\<close>

definition names_current :: "fs \<Rightarrow> ('ed, 'h) knot_editor \<Rightarrow> path \<Rightarrow> bool" where
  "names_current fs e target \<longleftrightarrow>
     (\<exists>p. ed_path e = Some p \<and>
        (p = target \<or> (\<exists>q. resolve fs p = Inr q \<and> resolve fs target = Inr q)))"

lemma is_current_path_Done:
  assumes "calm fs" and "is_current_path e target fs = (Done True, fs')"
  shows "names_current fs e target"
proof (cases "ed_path e")
  case None
  with assms(2) show ?thesis by (simp add: is_current_path_def ret_def)
next
  case (Some p)
  show ?thesis
  proof (cases "p = target")
    case True
    with Some show ?thesis by (simp add: names_current_def)
  next
    case False
    with Some assms(2) obtain x fs1 where 1: "fs_canonicalize p fs = (Done x, fs1)"
      and 2: "\<exists>fs2. fs_canonicalize target fs1 = (Done x, fs2)"
      by (auto simp: is_current_path_def io_simps attempt_def bind_def ret_def
          split: prod.splits outcome.splits sum.splits)
    from looks_calls(3) assms(1) 1 have s: "calm fs1 \<and> same_tree fs fs1" by (rule looksD)
    from 2 obtain fs2 where 2: "fs_canonicalize target fs1 = (Done x, fs2)" ..
    from fs_canonicalize_Done [OF assms(1) 1] fs_canonicalize_Done [OF conjunct1 [OF s] 2] s Some
    show ?thesis by (auto simp: names_current_def same_tree_observe)
  qed
qed

text \<open>
  A save to a new name either did nothing to the target or made a new file of it; when it
  succeeded it made the file.
\<close>

definition saved_as :: "nat \<Rightarrow> path \<Rightarrow> bytes \<Rightarrow> fs \<Rightarrow> bool \<Rightarrow> fs \<Rightarrow> bool" where
  "saved_as pid t new fs ok fs' \<longleftrightarrow>
     others_kept pid t fs fs' \<and>
     (entries fs t = None \<and> bytes_at fs' t = Some new \<or>
      \<not> ok \<and> entries fs' t = entries fs t \<and> bytes_at fs' t = bytes_at fs t)"

lemma saved_as_same_tree:
  "same_tree a b \<Longrightarrow> saved_as pid t new fs ok a \<Longrightarrow> saved_as pid t new fs ok b"
  "same_tree a b \<Longrightarrow> saved_as pid t new b ok fs' = saved_as pid t new a ok fs'"
  unfolding saved_as_def
  by (simp_all add: others_kept_same_tree same_tree_observe(5)) (simp_all add: same_tree_def)

lemma saved_as_same: "same_tree fs fs' \<Longrightarrow> saved_as pid t new fs False fs'"
  using same_tree_observe(5) [of fs fs']
  by (simp add: saved_as_def others_kept_def same_tree_def)

lemma saved_as_weaken: "saved_as pid t new fs True fs' \<Longrightarrow> saved_as pid t new fs ok fs'"
  by (auto simp: saved_as_def)

lemma created_saved_as:
  "created pid t new fs r fs' \<Longrightarrow> saved_as pid t new fs (\<exists>a. r = Done a) fs'"
  by (cases r) (auto simp: created_def saved_as_def Let_def)

text \<open>The second half of \<open>save_as\<close>, from the tree in which the target has been created.\<close>

lemma wp_saved_as_adopt:
  assumes "calm fs1" and "saved_as pid t src fs True fs1"
  shows "wp (bind (map_err f (fs_canonicalize target)) (\<lambda>p.
      bind (map_err g (file_address p)) (\<lambda>address.
      bind (map_err g (observe h p)) (\<lambda>b.
      if base_bytes b \<noteq> src then raise x else ret (k p address b)))))
    (\<lambda>r fs'. calm fs' \<and> saved_as pid t src fs (\<exists>a. r = Done a) fs') fs1"
proof -
  have "looks (bind (map_err f (fs_canonicalize target)) (\<lambda>p.
      bind (map_err g (file_address p)) (\<lambda>address.
      bind (map_err g (observe h p)) (\<lambda>b.
      if base_bytes b \<noteq> src then raise x else ret (k p address b)))))"
    by (intro looks_bind looks_map_err) auto
  then show ?thesis
    by (rule wp_looks) (use assms in \<open>auto intro: saved_as_weaken saved_as_same_tree(1)\<close>)
qed

lemma wp_save_as:
  assumes "wf_fs fs" and "calm fs" and "locate fs target = Inr t" and "\<not> is_temporary pid t"
    and "\<not> names_current fs e target"
  shows "wp (save_as h pid target e)
    (\<lambda>r fs'. calm fs' \<and> saved_as pid t (ed_source h e) fs (\<exists>x. r = Done x) fs') fs"
    (is "wp _ ?Q fs")
proof -
  have refuse: "wp (raise m) ?Q fs" for m
    using assms(2) by (simp add: wp_raise saved_as_same)
  have make: "wp (bind (map_err Failed (create_bytes_new pid target (ed_source h e))) (\<lambda>_.
      bind (map_err f (fs_canonicalize target)) (\<lambda>p.
      bind (map_err Failed (file_address p)) (\<lambda>address.
      bind (map_err Failed (observe h p)) (\<lambda>b.
      if base_bytes b \<noteq> ed_source h e then raise ExternalChange else ret (k p address b)))))) ?Q fs1"
    if c1: "calm fs1" and s1: "same_tree fs fs1"
    for fs1 f and k :: "_ \<Rightarrow> _ \<Rightarrow> _ \<Rightarrow> save_outcome \<times> ('a, 'b) knot_editor"
  proof -
    have "wp (create_bytes_new pid target (ed_source h e)) (created pid t (ed_source h e) fs1) fs1"
      using assms(1,3,4) c1 s1
      by (intro wp_create_bytes_new) (simp_all add: wf_same_tree same_tree_observe)
    then have "wp (create_bytes_new pid target (ed_source h e))
        (\<lambda>r fs'. calm fs' \<and> saved_as pid t (ed_source h e) fs (\<exists>a. r = Done a) fs') fs1"
      using keeps_calmD [OF keeps_calm_writes(2) c1]
      by (auto simp: wp_def saved_as_same_tree(2) [OF s1, symmetric]
          dest!: created_saved_as split: prod.splits)
    then show ?thesis
      unfolding wp_bind [of "map_err Failed (create_bytes_new _ _ _)"] wp_map_err
    proof (rule wp_mono)
      fix r :: "(message, unit) outcome" and fs'
      assume *: "calm fs' \<and> saved_as pid t (ed_source h e) fs (\<exists>a. r = Done a) fs'"
      show "case map_raise Failed r of
          Done _ \<Rightarrow> wp (bind (map_err f (fs_canonicalize target)) (\<lambda>p.
            bind (map_err Failed (file_address p)) (\<lambda>address.
            bind (map_err Failed (observe h p)) (\<lambda>b.
            if base_bytes b \<noteq> ed_source h e then raise ExternalChange
            else ret (k p address b))))) ?Q fs'
        | Raise x \<Rightarrow> ?Q (Raise x) fs' | Halt x \<Rightarrow> ?Q (Halt x) fs'"
        using * by (cases r) (auto intro: wp_saved_as_adopt simp del: split_paired_Ex)
    qed
  qed
  have rest: "wp (bind (is_current_path e target) (\<lambda>current.
      if current then m else k)) ?Q fs" if k: "\<And>fs1. calm fs1 \<Longrightarrow> same_tree fs fs1 \<Longrightarrow> wp k ?Q fs1" for m k
    unfolding wp_bind
    by (rule wp_looks [OF looks_is_current_path assms(2)])
      (use assms(5) in \<open>auto dest: is_current_path_Done [OF assms(2)] simp: k saved_as_same simp del: split_paired_Ex split: outcome.split\<close>)
  show ?thesis
    unfolding save_as_def
    by (cases "from_path target") (simp_all add: refuse rest make del: split_paired_Ex)
qed

section \<open>A sample host\<close>

text \<open>An editor that is its text and the text last saved; it shows that \<open>host_ok\<close> can hold.\<close>

definition start_caret :: caret_position where
  "start_caret = \<lparr>caret_byte = 0, affinity = Downstream\<rparr>"

type_synonym plain_input = "string \<times> caret_selection"
type_synonym plain_editor = "plain_input \<times> string"

definition plain_insert :: "string \<Rightarrow> plain_input \<Rightarrow> plain_input" where
  "plain_insert t i = (case i of (s, sel) \<Rightarrow>
     let lo = min (caret_byte (anchor sel)) (caret_byte (focus sel));
         hi = max (caret_byte (anchor sel)) (caret_byte (focus sel));
         caret = \<lparr>caret_byte = lo + length t, affinity = Downstream\<rparr>
     in (take lo s @ t @ drop hi s, \<lparr>anchor = caret, focus = caret\<rparr>))"

definition plain_host :: "(plain_editor, plain_input, unit, nat) host" where
  "plain_host = \<lparr>
     sh_scratch = (\<lambda>a s. ((s, \<lparr>anchor = start_caret, focus = start_caret\<rparr>), s)),
     sh_input = fst, sh_with_input = (\<lambda>i e. (i, snd e)),
     sh_apply = (\<lambda>c e. case c of
         Insert t \<Rightarrow> (fst (plain_insert t (fst e)) \<noteq> fst (fst e), (plain_insert t (fst e), snd e))
       | SetSelection sel \<Rightarrow> (False, ((fst (fst e), sel), snd e))
       | OtherCommand _ \<Rightarrow> (False, e)),
     sh_is_dirty = (\<lambda>e. fst (fst e) \<noteq> snd e), sh_accept_saved = (\<lambda>s e. (fst e, s)),
     sh_outline = (\<lambda>_. []), sh_folds = (\<lambda>_. []), in_text = fst, in_selection = snd,
     in_composing = (\<lambda>_. False), handle_of = id\<rparr>"

lemma plain_host_ok: "host_ok plain_host"
  by (auto simp: host_ok_def plain_host_def inj_def split: text_command.split)

definition sample_editor :: "(plain_editor, nat) knot_editor" where
  "sample_editor = \<lparr>ed_path = Some sample_path, ed_address = ''file:///notes/field.djot'',
     ed_format = Djot,
     ed_editor = ((''new'', \<lparr>anchor = start_caret, focus = start_caret\<rparr>), ''old''),
     ed_baseline = Some \<lparr>base_bytes = ''old'', base_handle = 0\<rparr>\<rparr>"

text \<open>What the operations do on the sample tree.\<close>

lemma sample_save:
  "\<exists>e' fs'. save_guarded plain_host 7 sample_editor sample_fs = (Done (Written, e'), fs')"
proof -
  have "case save_guarded plain_host 7 sample_editor sample_fs of
      (Done (oc, e), _) \<Rightarrow> oc = Written | _ \<Rightarrow> False" by code_simp
  then show ?thesis by (auto split: prod.splits outcome.splits)
qed

lemma sample_open: "\<exists>e fs'. editor_open plain_host sample_path sample_fs = (Done e, fs')"
proof -
  have "case editor_open plain_host sample_path sample_fs of
      (Done e, _) \<Rightarrow> ed_path e = Some sample_path | _ \<Rightarrow> False" by code_simp
  then show ?thesis by (auto split: prod.splits outcome.splits)
qed

lemma sample_save_as:
  "\<exists>e' fs'. save_as plain_host 7 other_path sample_editor sample_fs = (Done (Written, e'), fs')"
proof -
  have "case save_as plain_host 7 other_path sample_editor sample_fs of
      (Done (oc, e), _) \<Rightarrow> oc = Written | _ \<Rightarrow> False" by code_simp
  then show ?thesis by (auto split: prod.splits outcome.splits)
qed

lemma sample_editor_facts:
  shows "ed_path sample_editor = Some sample_path" and "ed_is_dirty plain_host sample_editor"
    and "ed_baseline sample_editor = Some \<lparr>base_bytes = ''old'', base_handle = 0\<rparr>"
    and "ed_source plain_host sample_editor = ''new''"
    and "\<not> is_temporary 7 sample_path" and "\<not> is_temporary 7 other_path"
    and "sample_path \<noteq> []" and "locate sample_fs other_path = Inr other_path"
    and "\<not> names_current sample_fs sample_editor other_path"
proof -
  show "\<not> is_temporary 7 sample_path" "\<not> is_temporary 7 other_path"
    by (simp_all add: is_temporary_def temporary_name_def sample_path_def other_path_def)
  show "locate sample_fs other_path = Inr other_path" by code_simp
  have "resolve sample_fs other_path = Inl NotFound" by code_simp
  then show "\<not> names_current sample_fs sample_editor other_path"
    by (auto simp: names_current_def sample_editor_def sample_path_def other_path_def)
qed (simp_all add: sample_editor_def sample_path_def ed_is_dirty_def ed_source_def plain_host_def)

section \<open>Properties\<close>

text \<open>
  A save that reports success left nothing unsaved, whatever else happened on the machine
  meanwhile: the source is the one the user had, the editor is clean, it still belongs to the
  same file in the same format, and if it was dirty its new baseline holds exactly that source.
\<close>
theorem save_guarded_clean:
  assumes "host_ok h" and "save_guarded h pid e fs = (Done (oc, e'), fs')"
  shows "ed_source h e' = ed_source h e \<and> \<not> ed_is_dirty h e' \<and> ed_path e' = ed_path e \<and>
    ed_format e' = ed_format e \<and>
    (ed_is_dirty h e \<longrightarrow> map_option base_bytes (ed_baseline e') = Some (ed_source h e))"
  using assms(2) host_ok_source [OF assms(1)]
  by (auto simp: save_guarded_def save_over_baseline_def io_simps ed_source_def ed_is_dirty_def
      bind_Done attempt_def ret_def raise_def split: option.splits if_splits prod.splits outcome.splits sum.splits)

theorem save_guarded_clean_witness:
  "\<exists>e' fs'. save_guarded plain_host 7 sample_editor sample_fs = (Done (Written, e'), fs') \<and>
     \<not> ed_is_dirty plain_host e' \<and> ed_source plain_host e' = ''new''"
  using sample_save save_guarded_clean [OF plain_host_ok, of 7 sample_editor sample_fs]
  by (fastforce simp: sample_editor_facts)

text \<open>
  C1: A save never overwrites what it has not seen. On a machine whose other programs keep still
  during the save, with calls failing or the process dying anywhere: nothing but the document and
  the operation's own temporaries changes, the document holds its old bytes or, where those were
  the baseline, all of the new ones, and it holds the new ones when the save succeeds. If the
  file on disk is no longer the file and the bytes of the baseline, the save does not succeed and
  changes nothing.
\<close>
theorem save_guarded_safe:
  assumes "wf_fs fs" and "calm fs"
    and "ed_path e = Some p" and "resolve fs p = Inr p" and "p \<noteq> []"
    and "\<not> is_temporary pid p" and "ed_is_dirty h e" and "ed_baseline e = Some b"
    and "save_guarded h pid e fs = (r, fs')"
  shows "saved_over pid p (base_bytes b) (ed_source h e) fs r fs' \<and>
    (\<not> baseline_on_disk h b p fs \<longrightarrow> same_tree fs fs' \<and> (\<forall>x. r \<noteq> Done x))"
  using wp_save_guarded [OF assms(1-8)] assms(9) by (rule wpD)

theorem save_guarded_safe_witness:
  "\<exists>r fs'. save_guarded plain_host 7 sample_editor sample_fs = (r, fs') \<and>
     saved_over 7 sample_path ''old'' ''new'' sample_fs r fs'"
  using save_guarded_safe [OF sample_wf sample_calm sample_editor_facts(1) sample_resolve
      sample_editor_facts(7,5,2,3) surjective_pairing]
  by (auto simp: sample_editor_facts intro!: exI surjective_pairing)

text \<open>
  C22: Save As to a name that is not the document's own never overwrites anything: it succeeds
  only by making a file where there was none, with exactly the source in it, and whatever fails
  the target is untouched or is that new file; the rest of the tree is kept.
\<close>
theorem save_as_safe:
  assumes "wf_fs fs" and "calm fs" and "locate fs target = Inr t" and "\<not> is_temporary pid t"
    and "\<not> names_current fs e target" and "save_as h pid target e fs = (r, fs')"
  shows "saved_as pid t (ed_source h e) fs (\<exists>x. r = Done x) fs'"
  using wpD [OF wp_save_as [OF assms(1-5)] assms(6)] by simp

theorem save_as_safe_witness:
  "\<exists>e' fs'. save_as plain_host 7 other_path sample_editor sample_fs = (Done (Written, e'), fs') \<and>
     bytes_at fs' other_path = Some ''new''"
  using sample_save_as save_as_safe [OF sample_wf sample_calm sample_editor_facts(8,6,9)]
  by (fastforce simp: sample_editor_facts saved_as_def)

text \<open>
  Opening a document reads it and nothing else. The editor is clean, holds exactly the bytes
  of the file, which are UTF-8, knows the canonical path, and its baseline is the file on disk;
  the tree is as it was.
\<close>
theorem editor_open_faithful:
  assumes "host_ok h" and "calm fs" and "editor_open h requested fs = (Done e, fs')"
  shows "same_tree fs fs' \<and> \<not> ed_is_dirty h e \<and> utf8_valid (ed_source h e) \<and>
    editable_format (ed_format e) \<and>
    (\<exists>p b. resolve fs requested = Inr p \<and> ed_path e = Some p \<and> ed_baseline e = Some b \<and>
       base_bytes b = ed_source h e \<and> baseline_on_disk h b p fs)"
proof -
  from assms(3) obtain f p fs1 b fs2 address where "editable_format f"
    and 1: "fs_canonicalize requested fs = (Done p, fs1)" and 2: "observe h p fs1 = (Done b, fs2)"
    and u: "utf8_valid (base_bytes b)" and 3: "file_address p fs2 = (Done address, fs')"
    and e: "e = \<lparr>ed_path = Some p, ed_address = address, ed_format = f,
      ed_editor = sh_scratch h address (base_bytes b), ed_baseline = Some b\<rparr>"
    by (auto simp: editor_open_def io_simps ret_def raise_def split: option.splits if_splits)
  from looks_calls(3) assms(2) 1 have s1: "calm fs1 \<and> same_tree fs fs1" by (rule looksD)
  from looks_observe conjunct1 [OF s1] 2 have s2: "calm fs2 \<and> same_tree fs1 fs2" by (rule looksD)
  from looks_file_address conjunct1 [OF s2] 3 have s3: "calm fs' \<and> same_tree fs2 fs'" by (rule looksD)
  have "baseline_on_disk h b p fs1"
    using observe_Done [OF conjunct1 [OF s1] 2] by (simp add: baseline_on_disk_def)
  then have "baseline_on_disk h b p fs"
    by (simp add: baseline_on_disk_same_tree [OF conjunct2 [OF s1]])
  moreover from fs_canonicalize_Done [OF assms(2) 1] have "resolve fs requested = Inr p" by simp
  moreover have "same_tree fs fs'" using s1 s2 s3 by (blast intro: same_tree_trans)
  ultimately show ?thesis
    using u \<open>editable_format f\<close> host_ok_source(1,2) [OF assms(1)]
    by (simp add: e ed_source_def ed_is_dirty_def)
qed

theorem editor_open_faithful_witness:
  "\<exists>e fs'. editor_open plain_host sample_path sample_fs = (Done e, fs') \<and>
     same_tree sample_fs fs' \<and> ed_path e = Some sample_path"
  using sample_open editor_open_faithful [OF plain_host_ok sample_calm, of sample_path]
  by (fastforce simp: sample_resolve)

end
