(* ===== verification/Doc_Session.thy ===== *)
theory Doc_Session
  imports Doc_Editor "HOL-Library.Word"
begin

text \<open>
  \<open>knot-document/src/document_surface.rs\<close>: one selected document, its write posture, what its
  last save did, and the intents a host dispatches to it; with the source version of
  \<open>source_edit.rs\<close> that the session advances, and the labels and the message handling of
  \<open>document_view.rs\<close>.

  An operation that can refuse returns its result beside the session, because a refusal is
  recorded in the session. A counter that would overflow panics.
\<close>

section \<open>Types\<close>

datatype source_kind = FileSource | ScratchSource

record document_source =
  src_kind :: source_kind
  src_address :: string

datatype write_posture = FileTarget | Scratch | ReadOnly

datatype last_save = SaveWritten | SaveUnchanged | SaveRefused | SaveFailedOutcome

datatype refusal = ScratchHasNoSaveTarget | RefusedReadOnly | RefusedExternalChange

datatype intent_error = Refused refusal | SaveFailed message

record document_snapshot =
  snap_source :: document_source
  display_label :: string
  snap_format :: document_format
  snap_text :: string
  snap_selection :: caret_selection
  snap_dirty :: bool
  snap_posture :: write_posture
  snap_last_save :: "last_save option"
  snap_refusal :: "refusal option"
  snap_failure :: "message option"

record disk_comparison =
  cmp_address :: string
  buffer_text :: string
  disk_text :: string
  disk_changed :: bool

record outline_snapshot =
  os_address :: string
  os_source :: string
  os_items :: "outline_item list"

datatype fold_kind = FoldSection | FoldList | FoldBlockquote | FoldCodeBlock | FoldDiv

record fold_item =
  fi_kind :: fold_kind
  fi_start :: nat
  fi_end :: nat

record fold_snapshot =
  fs_address :: string
  fs_source :: string
  fs_items :: "fold_item list"

text \<open>The rendered document of a preview is another package's.\<close>

record 'doc preview_snapshot =
  ps_address :: string
  ps_source :: string
  ps_document :: 'doc
  ps_headings :: "outline_item list"

datatype 'c intent = Edit "'c text_command" | Save | SaveAs path | Reload

record source_version =
  sv_instance :: "64 word"
  sv_revision :: "64 word"

record ('ed, 'h) session =
  se_editor :: "('ed, 'h) knot_editor"
  se_version :: source_version
  se_posture :: write_posture
  se_last_save :: "last_save option"
  se_refusal :: "refusal option"
  se_failure :: "message option"

section \<open>Source version\<close>

text \<open>
  A panic stops the operation and its callers. The instance counter is the process's, so making
  a version takes it and gives it back.
\<close>

definition version_new :: "64 word \<Rightarrow> ('e, source_version \<times> 64 word) prog" where
  "version_new next =
     (if next = - 1 then panic else ret (\<lparr>sv_instance = next, sv_revision = 0\<rparr>, next + 1))"

definition version_advance :: "source_version \<Rightarrow> ('e, source_version) prog" where
  "version_advance v =
     (if sv_revision v = - 1 then panic else ret (v\<lparr>sv_revision := sv_revision v + 1\<rparr>))"

definition session_advance :: "('ed, 'h) session \<Rightarrow> ('e, ('ed, 'h) session) prog" where
  "session_advance s = bind (version_advance (se_version s)) (\<lambda>v. ret (s\<lparr>se_version := v\<rparr>))"

text \<open>\<open>SourceStamp\<close> is another package's type; this code fills its three fields.\<close>

record source_stamp =
  stamp_document :: string
  stamp_instance :: "64 word"
  stamp_revision :: "64 word"

definition source_stamp_of :: "('ed, 'h) session \<Rightarrow> source_stamp" where
  "source_stamp_of s = \<lparr>stamp_document = ed_address (se_editor s),
     stamp_instance = sv_instance (se_version s), stamp_revision = sv_revision (se_version s)\<rparr>"

section \<open>Making a session\<close>

definition fresh_session ::
  "('ed, 'h) knot_editor \<Rightarrow> write_posture \<Rightarrow> 64 word
     \<Rightarrow> ('e, ('ed, 'h) session \<times> 64 word) prog" where
  "fresh_session e posture next = bind (version_new next) (\<lambda>(v, next').
     ret (\<lparr>se_editor = e, se_version = v, se_posture = posture, se_last_save = None,
           se_refusal = None, se_failure = None\<rparr>, next'))"

definition open_with_posture ::
  "('ed, 'inp, 'c, 'h) host \<Rightarrow> path \<Rightarrow> write_posture \<Rightarrow> 64 word
     \<Rightarrow> (message, ('ed, 'h) session \<times> 64 word) prog" where
  "open_with_posture h p posture next =
     bind (editor_open h p) (\<lambda>e.
     bind (if posture = FileTarget then is_file_read_only e else ret False) (\<lambda>ro.
     fresh_session e (if posture = FileTarget \<and> ro then ReadOnly else posture) next))"

definition session_scratch ::
  "('ed, 'inp, 'c, 'h) host \<Rightarrow> string \<Rightarrow> string \<Rightarrow> 64 word
     \<Rightarrow> ('e, ('ed, 'h) session \<times> 64 word) prog" where
  "session_scratch h address source next = fresh_session (editor_scratch h address source) Scratch next"

definition read_only_with_format ::
  "('ed, 'inp, 'c, 'h) host \<Rightarrow> string \<Rightarrow> string \<Rightarrow> document_format \<Rightarrow> 64 word
     \<Rightarrow> ('e, ('ed, 'h) session \<times> 64 word) prog" where
  "read_only_with_format h address source f next =
     fresh_session (editor_scratch_with_format h address source f) ReadOnly next"

definition recovery_candidate ::
  "('ed, 'inp, 'c, 'h) host \<Rightarrow> string \<Rightarrow> string \<Rightarrow> document_format \<Rightarrow> caret_selection \<Rightarrow> 64 word
     \<Rightarrow> (message, ('ed, 'h) session \<times> 64 word) prog" where
  "recovery_candidate h address source f sel next =
     (if f \<notin> {Knot, Djot, Scroll, Gemtext, Micron}
      then raise (Text ''recovery format is not editable by Knot'')
      else if \<not> is_char_boundary source (caret_byte (anchor sel))
            \<or> \<not> is_char_boundary source (caret_byte (focus sel))
      then raise (Text ''recovery selection is outside the source or not a UTF-8 boundary'')
      else bind (fresh_session (editor_scratch_with_format h address [] f) Scratch next) (\<lambda>(s, next').
        let e1 = snd (editor_apply h (Insert source) (se_editor s));
            e2 = snd (apply_layout_selection h sel e1)
        in if ed_selection h e2 \<noteq> sel
           then raise (Text ''recovery selection cannot be represented exactly'')
           else ret (s\<lparr>se_editor := e2\<rparr>, next')))"

section \<open>Reading a session\<close>

definition recovery_observation ::
  "('ed, 'inp, 'c, 'h) host \<Rightarrow> ('ed, 'h) session
     \<Rightarrow> string \<times> document_format \<times> caret_selection \<times> bool \<times> write_posture \<times> string" where
  "recovery_observation h s =
     (ed_source h (se_editor s), ed_format (se_editor s), ed_selection h (se_editor s),
      ed_is_dirty h (se_editor s), se_posture s, ed_address (se_editor s))"

definition snapshot ::
  "('ed, 'inp, 'c, 'h) host \<Rightarrow> ('ed, 'h) session \<Rightarrow> document_snapshot" where
  "snapshot h s =
     (let e = se_editor s; p = ed_path e
      in \<lparr>snap_source = \<lparr>src_kind = (if p \<noteq> None then FileSource else ScratchSource),
                        src_address = ed_address e\<rparr>,
          display_label = (case Option.bind p path_file_name of
              Some name \<Rightarrow> if utf8_valid name then name else ed_address e
            | None \<Rightarrow> ed_address e),
          snap_format = ed_format e, snap_text = ed_source h e, snap_selection = ed_selection h e,
          snap_dirty = ed_is_dirty h e, snap_posture = se_posture s,
          snap_last_save = se_last_save s, snap_refusal = se_refusal s,
          snap_failure = se_failure s\<rparr>)"

definition session_compare_disk ::
  "('ed, 'inp, 'c, 'h) host \<Rightarrow> ('ed, 'h) session \<Rightarrow> (message, disk_comparison) prog" where
  "session_compare_disk h s = bind (compare_disk h (se_editor s)) (\<lambda>(text, changed).
     ret \<lparr>cmp_address = ed_address (se_editor s), buffer_text = ed_source h (se_editor s),
          disk_text = text, disk_changed = changed\<rparr>)"

definition take_outline ::
  "('ed, 'inp, 'c, 'h) host \<Rightarrow> ('ed, 'h) session \<Rightarrow> outline_snapshot" where
  "take_outline h s =
     \<lparr>os_address = ed_address (se_editor s), os_source = ed_source h (se_editor s),
      os_items = outline_items h (se_editor s)\<rparr>"

definition preview_snapshot ::
  "('ed, 'inp, 'c, 'h) host \<Rightarrow> (('ed, 'h) knot_editor \<Rightarrow> message + 'doc) \<Rightarrow> ('ed, 'h) session
     \<Rightarrow> message + 'doc preview_snapshot" where
  "preview_snapshot h preview s = (case preview (se_editor s) of
       Inl e \<Rightarrow> Inl e
     | Inr d \<Rightarrow> Inr \<lparr>ps_address = ed_address (se_editor s), ps_source = ed_source h (se_editor s),
                   ps_document = d, ps_headings = outline_items h (se_editor s)\<rparr>)"

text \<open>\<open>fold_items\<close>; a node kind that cannot fold is \<open>unreachable!\<close>, here \<open>None\<close>.\<close>

fun fold_kind_of :: "node_kind \<Rightarrow> fold_kind option" where
  "fold_kind_of SectionNode = Some FoldSection"
| "fold_kind_of ListNode = Some FoldList"
| "fold_kind_of BlockquoteNode = Some FoldBlockquote"
| "fold_kind_of CodeBlockNode = Some FoldCodeBlock"
| "fold_kind_of DivNode = Some FoldDiv"
| "fold_kind_of (OtherNode n) = None"

definition fold_items ::
  "('ed, 'inp, 'c, 'h) host \<Rightarrow> ('ed, 'h) session \<Rightarrow> fold_item list option" where
  "fold_items h s = collect_options (map (\<lambda>f.
     map_option (\<lambda>k. \<lparr>fi_kind = k, fi_start = fold_start f, fi_end = fold_end f\<rparr>)
       (fold_kind_of (fold_node f))) (editor_folds h (se_editor s)))"

definition take_folds ::
  "('ed, 'inp, 'c, 'h) host \<Rightarrow> ('ed, 'h) session \<Rightarrow> fold_snapshot option" where
  "take_folds h s = map_option (\<lambda>items.
     \<lparr>fs_address = ed_address (se_editor s), fs_source = ed_source h (se_editor s),
      fs_items = items\<rparr>) (fold_items h s)"

section \<open>Selecting\<close>

definition select_source_range ::
  "('ed, 'inp, 'c, 'h) host \<Rightarrow> string \<Rightarrow> string \<Rightarrow> nat \<Rightarrow> nat \<Rightarrow> string \<Rightarrow> ('ed, 'h) session
     \<Rightarrow> (string + unit) \<times> ('ed, 'h) session" where
  "select_source_range h address text a b kind s =
     (let src = ed_source h (se_editor s)
      in if address \<noteq> ed_address (se_editor s) \<or> text \<noteq> src
         then (Inl (kind @ '' snapshot is stale for this document source''), s)
         else if a > b \<or> b > length src \<or> \<not> is_char_boundary src a \<or> \<not> is_char_boundary src b
         then (Inl (kind @ '' range is not a valid source span''), s)
         else (Inr (), s\<lparr>se_editor := snd (apply_layout_selection h
           \<lparr>anchor = \<lparr>caret_byte = a, affinity = Downstream\<rparr>,
            focus = \<lparr>caret_byte = b, affinity = Upstream\<rparr>\<rparr> (se_editor s))\<rparr>))"

definition select_outline_item ::
  "('ed, 'inp, 'c, 'h) host \<Rightarrow> outline_snapshot \<Rightarrow> nat \<Rightarrow> ('ed, 'h) session
     \<Rightarrow> (string + unit) \<times> ('ed, 'h) session" where
  "select_outline_item h snap i s =
     (if os_items snap \<noteq> outline_items h (se_editor s)
      then (Inl ''outline snapshot items do not match this document source'', s)
      else if i \<ge> length (os_items snap)
      then (Inl (''outline item index '' @ nat_str i @ '' is out of range''), s)
      else let item = os_items snap ! i
           in select_source_range h (os_address snap) (os_source snap)
                (item_start item) (item_end item) ''outline item'' s)"

definition select_preview_heading ::
  "('ed, 'inp, 'c, 'h) host \<Rightarrow> 'doc preview_snapshot \<Rightarrow> nat \<Rightarrow> ('ed, 'h) session
     \<Rightarrow> (string + unit) \<times> ('ed, 'h) session" where
  "select_preview_heading h snap i s =
     (if ps_headings snap \<noteq> outline_items h (se_editor s)
      then (Inl ''preview headings do not match this document source'', s)
      else if i \<ge> length (ps_headings snap)
      then (Inl (''preview heading index '' @ nat_str i @ '' is out of range''), s)
      else let item = ps_headings snap ! i
           in select_source_range h (ps_address snap) (ps_source snap)
                (item_start item) (item_end item) ''preview heading'' s)"

text \<open>\<open>None\<close> where the fold rows cannot be computed.\<close>

definition select_fold_item ::
  "('ed, 'inp, 'c, 'h) host \<Rightarrow> fold_snapshot \<Rightarrow> nat \<Rightarrow> ('ed, 'h) session
     \<Rightarrow> ((string + unit) \<times> ('ed, 'h) session) option" where
  "select_fold_item h snap i s = map_option (\<lambda>items.
     if fs_items snap \<noteq> items
     then (Inl ''fold snapshot items do not match this document source'', s)
     else if i \<ge> length (fs_items snap)
     then (Inl (''fold item index '' @ nat_str i @ '' is out of range''), s)
     else let item = fs_items snap ! i
          in select_source_range h (fs_address snap) (fs_source snap)
               (fi_start item) (fi_end item) ''fold item'' s) (fold_items h s)"

definition select_source_span ::
  "('ed, 'inp, 'c, 'h) host \<Rightarrow> string \<Rightarrow> string \<Rightarrow> nat \<Rightarrow> nat \<Rightarrow> ('ed, 'h) session
     \<Rightarrow> (string + unit) \<times> ('ed, 'h) session" where
  "select_source_span h address text a b s = select_source_range h address text a b ''source span'' s"

section \<open>Intents\<close>

definition record_save_outcome :: "save_outcome \<Rightarrow> ('ed, 'h) session \<Rightarrow> ('ed, 'h) session" where
  "record_save_outcome oc s =
     s\<lparr>se_last_save := Some (case oc of Written \<Rightarrow> SaveWritten | Unchanged \<Rightarrow> SaveUnchanged),
       se_refusal := None, se_failure := None\<rparr>"

definition record_save_failure ::
  "message \<Rightarrow> ('ed, 'h) session \<Rightarrow> (intent_error + unit) \<times> ('ed, 'h) session" where
  "record_save_failure m s =
     (Inl (SaveFailed m),
      s\<lparr>se_last_save := Some SaveFailedOutcome, se_refusal := None, se_failure := Some m\<rparr>)"

definition refuse_write ::
  "refusal \<Rightarrow> ('ed, 'h) session \<Rightarrow> (intent_error + unit) \<times> ('ed, 'h) session" where
  "refuse_write r s =
     (Inl (Refused r),
      s\<lparr>se_last_save := Some SaveRefused, se_refusal := Some r, se_failure := None\<rparr>)"

definition refuse_read_only_edit :: "('ed, 'h) session \<Rightarrow> ('ed, 'h) session" where
  "refuse_read_only_edit s = s\<lparr>se_refusal := Some RefusedReadOnly, se_failure := None\<rparr>"

text \<open>The result of a save that ran, recorded the same way by \<open>save\<close> and \<open>save_as\<close>.\<close>

definition record_save_error ::
  "save_error \<Rightarrow> ('ed, 'h) session \<Rightarrow> (intent_error + unit) \<times> ('ed, 'h) session" where
  "record_save_error err s = (case err of
       ExternalChange \<Rightarrow> refuse_write RefusedExternalChange s
     | Failed m \<Rightarrow> record_save_failure m s)"

definition session_save ::
  "('ed, 'inp, 'c, 'h) host \<Rightarrow> nat \<Rightarrow> ('ed, 'h) session
     \<Rightarrow> ('e, (intent_error + unit) \<times> ('ed, 'h) session) prog" where
  "session_save h pid s =
     bind (if se_posture s = ReadOnly then ret True else is_file_read_only (se_editor s)) (\<lambda>ro.
     if ro then ret (refuse_write RefusedReadOnly s)
     else if ed_path (se_editor s) = None then ret (refuse_write ScratchHasNoSaveTarget s)
     else bind (attempt (save_guarded h pid (se_editor s))) (\<lambda>r. case r of
         Inr (oc, e) \<Rightarrow> ret (Inr (), record_save_outcome oc (s\<lparr>se_editor := e\<rparr>))
       | Inl err \<Rightarrow> ret (record_save_error err s)))"

definition session_save_as ::
  "('ed, 'inp, 'c, 'h) host \<Rightarrow> nat \<Rightarrow> path \<Rightarrow> ('ed, 'h) session
     \<Rightarrow> ('e, (intent_error + unit) \<times> ('ed, 'h) session) prog" where
  "session_save_as h pid target s =
     (if se_posture s = ReadOnly then ret (refuse_write RefusedReadOnly s)
      else bind (attempt (save_as h pid target (se_editor s))) (\<lambda>r. case r of
          Inr (oc, e) \<Rightarrow>
            bind (if ed_address e \<noteq> ed_address (se_editor s)
                  then session_advance (s\<lparr>se_editor := e\<rparr>) else ret (s\<lparr>se_editor := e\<rparr>)) (\<lambda>s'.
            ret (Inr (), record_save_outcome oc (s'\<lparr>se_posture := FileTarget\<rparr>)))
        | Inl err \<Rightarrow> ret (record_save_error err s)))"

definition session_reload ::
  "('ed, 'inp, 'c, 'h) host \<Rightarrow> ('ed, 'h) session
     \<Rightarrow> ('e, (intent_error + unit) \<times> ('ed, 'h) session) prog" where
  "session_reload h s =
     (if se_posture s = ReadOnly then ret (refuse_write RefusedReadOnly s)
      else if ed_path (se_editor s) = None
      then ret (Inl (Refused ScratchHasNoSaveTarget),
                s\<lparr>se_refusal := Some ScratchHasNoSaveTarget, se_failure := None\<rparr>)
      else bind (attempt (editor_reload h (se_editor s))) (\<lambda>r. case r of
          Inr e \<Rightarrow> bind (session_advance (s\<lparr>se_editor := e\<rparr>)) (\<lambda>s'.
            ret (Inr (), s'\<lparr>se_last_save := None, se_refusal := None, se_failure := None\<rparr>))
        | Inl m \<Rightarrow> ret (record_save_failure m s)))"

definition session_edit ::
  "('ed, 'inp, 'c, 'h) host \<Rightarrow> 'c text_command \<Rightarrow> ('ed, 'h) session
     \<Rightarrow> ('e, (intent_error + unit) \<times> ('ed, 'h) session) prog" where
  "session_edit h c s =
     (if se_posture s = ReadOnly then ret (Inl (Refused RefusedReadOnly), refuse_read_only_edit s)
      else case editor_apply h c (se_editor s) of (changed, e) \<Rightarrow>
        bind (if changed then session_advance (s\<lparr>se_editor := e\<rparr>) else ret (s\<lparr>se_editor := e\<rparr>)) (\<lambda>s'.
        ret (Inr (), s'\<lparr>se_refusal := None\<rparr>)))"

definition session_apply ::
  "('ed, 'inp, 'c, 'h) host \<Rightarrow> nat \<Rightarrow> 'c intent \<Rightarrow> ('ed, 'h) session
     \<Rightarrow> ('e, (intent_error + document_snapshot) \<times> ('ed, 'h) session) prog" where
  "session_apply h pid i s =
     bind (case i of
         Edit c \<Rightarrow> session_edit h c s
       | Save \<Rightarrow> session_save h pid s
       | SaveAs p \<Rightarrow> session_save_as h pid p s
       | Reload \<Rightarrow> session_reload h s) (\<lambda>(r, s').
     ret (case r of Inl e \<Rightarrow> Inl e | Inr _ \<Rightarrow> Inr (snapshot h s'), s'))"

text \<open>
  \<open>input_mut\<close> lends the text input to the host; what the host does with it is the function
  \<open>f\<close>. A message of the editable view goes to the same input, and the view advances the
  version when the text has changed.
\<close>

definition input_mut ::
  "('ed, 'inp, 'c, 'h) host \<Rightarrow> ('inp \<Rightarrow> 'inp) \<Rightarrow> ('ed, 'h) session
     \<Rightarrow> ('e, (refusal + unit) \<times> ('ed, 'h) session) prog" where
  "input_mut h f s =
     (if se_posture s = ReadOnly then ret (Inl RefusedReadOnly, refuse_read_only_edit s)
      else bind (session_advance s) (\<lambda>s'.
        let e = se_editor s'
        in ret (Inr (), s'\<lparr>se_editor := e\<lparr>ed_editor :=
             sh_with_input h (f (sh_input h (ed_editor e))) (ed_editor e)\<rparr>\<rparr>)))"

definition view_message ::
  "('ed, 'inp, 'c, 'h) host \<Rightarrow> ('inp \<Rightarrow> 'inp) \<Rightarrow> ('ed, 'h) session \<Rightarrow> ('e, ('ed, 'h) session) prog" where
  "view_message h f s =
     (if se_posture s = ReadOnly then ret s
      else let e = se_editor s; before = ed_source h e;
               e' = e\<lparr>ed_editor := sh_with_input h (f (sh_input h (ed_editor e))) (ed_editor e)\<rparr>;
               s' = s\<lparr>se_editor := e'\<rparr>
           in if ed_source h e' \<noteq> before then session_advance s' else ret s')"

section \<open>What the editor operations do to the document\<close>

lemma save_guarded_Done:
  assumes "host_ok h" and "save_guarded h pid e fs = (Done (oc, e'), fs')"
  shows "ed_source h e' = ed_source h e" and "\<not> ed_is_dirty h e'" and "ed_path e' = ed_path e"
    and "ed_address e' = ed_address e" and "ed_format e' = ed_format e"
    and "ed_path e \<noteq> None" and "ed_baseline e \<noteq> None \<Longrightarrow> ed_baseline e' \<noteq> None"
  using assms(2) host_ok_source [OF assms(1)]
  by (auto simp: save_guarded_def save_over_baseline_def io_simps ed_source_def ed_is_dirty_def
      attempt_def ret_def raise_def
      split: option.splits if_splits prod.splits outcome.splits sum.splits)

lemma save_as_Done:
  assumes "host_ok h" and "save_as h pid target e fs = (Done (oc, e'), fs')"
    and "ed_path e = None \<longleftrightarrow> ed_baseline e = None"
  shows "ed_source h e' = ed_source h e \<and> \<not> ed_is_dirty h e' \<and>
    ed_path e' \<noteq> None \<and> ed_baseline e' \<noteq> None"
proof -
  from assms(2) obtain f where "bind (is_current_path e target) (\<lambda>current.
      if current then save_guarded h pid e
      else bind (map_err Failed (create_bytes_new pid target (ed_source h e))) (\<lambda>_.
           bind (map_err (\<lambda>k. Failed (CouldNotResolveSaved target k)) (fs_canonicalize target)) (\<lambda>p.
           bind (map_err Failed (file_address p)) (\<lambda>address.
           bind (map_err Failed (observe h p)) (\<lambda>b.
           if base_bytes b \<noteq> ed_source h e then raise ExternalChange
           else ret (Written, \<lparr>ed_path = Some p, ed_address = address, ed_format = f,
             ed_editor = sh_accept_saved h (ed_source h e)
               (sh_with_input h (sh_input h (ed_editor e)) (sh_scratch h address [])),
             ed_baseline = Some b\<rparr>)))))) fs = (Done (oc, e'), fs')"
    by (auto simp: save_as_def raise_def split: option.splits if_splits)
  then obtain current fs1 where run: "(if current then save_guarded h pid e
      else bind (map_err Failed (create_bytes_new pid target (ed_source h e))) (\<lambda>_.
           bind (map_err (\<lambda>k. Failed (CouldNotResolveSaved target k)) (fs_canonicalize target)) (\<lambda>p.
           bind (map_err Failed (file_address p)) (\<lambda>address.
           bind (map_err Failed (observe h p)) (\<lambda>b.
           if base_bytes b \<noteq> ed_source h e then raise ExternalChange
           else ret (Written, \<lparr>ed_path = Some p, ed_address = address, ed_format = f,
             ed_editor = sh_accept_saved h (ed_source h e)
               (sh_with_input h (sh_input h (ed_editor e)) (sh_scratch h address [])),
             ed_baseline = Some b\<rparr>)))))) fs1 = (Done (oc, e'), fs')"
    by (rule bind_Done_elim)
  show ?thesis
  proof (cases current)
    case True
    with run save_guarded_Done [OF assms(1), of pid e fs1 oc e' fs'] assms(3) show ?thesis by simp
  next
    case False
    with run show ?thesis
      by (auto simp: io_simps ed_source_def ed_is_dirty_def ret_def raise_def
          host_ok_source [OF assms(1)] split: if_splits)
  qed
qed

lemma editor_reload_Done:
  assumes "editor_reload h e fs = (Done e', fs')"
  shows "ed_path e' = ed_path e \<and> ed_path e \<noteq> None \<and> ed_baseline e' \<noteq> None"
  using assms by (auto simp: editor_reload_def io_simps ret_def raise_def split: option.splits if_splits)

section \<open>The session's invariant and its version\<close>

definition session_ok :: "('ed, 'h) session \<Rightarrow> bool" where
  "session_ok s \<longleftrightarrow>
     (se_failure s \<noteq> None \<longrightarrow> se_last_save s = Some SaveFailedOutcome \<and> se_refusal s = None) \<and>
     (se_posture s = FileTarget \<longrightarrow> ed_path (se_editor s) \<noteq> None) \<and>
     (se_posture s = Scratch \<longrightarrow> ed_path (se_editor s) = None) \<and>
     (ed_path (se_editor s) = None \<longleftrightarrow> ed_baseline (se_editor s) = None) \<and>
     (se_refusal s = Some ScratchHasNoSaveTarget \<longrightarrow> ed_path (se_editor s) = None)"

definition session_rank :: "('ed, 'h) session \<Rightarrow> nat" where
  "session_rank s = unat (sv_revision (se_version s))"

definition session_view ::
  "('ed, 'inp, 'c, 'h) host \<Rightarrow> ('ed, 'h) session \<Rightarrow> string \<times> string" where
  "session_view h s = (ed_address (se_editor s), ed_source h (se_editor s))"

text \<open>
  What every operation does to the session: the invariant is kept, the revision does not go
  back, and it goes forward whenever the address or the source is another one.
\<close>

definition evolves ::
  "('ed, 'inp, 'c, 'h) host \<Rightarrow> ('ed, 'h) session \<Rightarrow> ('ed, 'h) session \<Rightarrow> bool" where
  "evolves h s s' \<longleftrightarrow> session_ok s' \<and>
     sv_instance (se_version s') = sv_instance (se_version s) \<and>
     session_rank s \<le> session_rank s' \<and>
     (session_view h s' \<noteq> session_view h s \<longrightarrow> session_rank s < session_rank s')"

lemma unat_add_one: "w \<noteq> - 1 \<Longrightarrow> unat (w + 1) = Suc (unat w)" for w :: "'a::len word"
  using unatSuc [of w] by (simp add: add.commute eq_neg_iff_add_eq_0)

lemma session_advance_ensures:
  "ensures (session_advance s) (\<lambda>s'. session_rank s' = Suc (session_rank s) \<and>
     (\<exists>v. s' = s\<lparr>se_version := v\<rparr> \<and> sv_instance v = sv_instance (se_version s)))"
  by (auto simp: session_advance_def version_advance_def ensures_def bind_def ret_def panic_def
      session_rank_def unat_add_one split: if_splits)

lemma evolves_refl: "session_ok s \<Longrightarrow> evolves h s s"
  by (simp add: evolves_def)

lemma session_ok_version [simp]: "session_ok (s\<lparr>se_version := v\<rparr>) = session_ok s"
  by (simp add: session_ok_def)

text \<open>An operation that advances the version of \<open>s1\<close> and finishes with \<open>k\<close>.\<close>

lemma ensures_advance:
  assumes "se_version s1 = se_version s"
    and "\<And>v. session_ok (k (s1\<lparr>se_version := v\<rparr>)) \<and> se_version (k (s1\<lparr>se_version := v\<rparr>)) = v"
  shows "ensures (bind (session_advance s1) (\<lambda>s2. ret (r, k s2))) (\<lambda>x. evolves h s (snd x))"
proof (rule ensures_bind [OF session_advance_ensures])
  fix s2 assume "session_rank s2 = Suc (session_rank s1) \<and>
    (\<exists>v. s2 = s1\<lparr>se_version := v\<rparr> \<and> sv_instance v = sv_instance (se_version s1))"
  then show "ensures (ret (r, k s2)) (\<lambda>x. evolves h s (snd x))"
    using assms by (auto simp: evolves_def session_rank_def)
qed

lemma evolves_recorded:
  assumes "session_ok s" and "se_version s' = se_version s"
    and "session_view h s' = session_view h s" and "session_ok s'"
  shows "evolves h s s'"
  using assms by (simp add: evolves_def session_rank_def)

lemma session_ok_recorded:
  assumes "session_ok s"
  shows "session_ok (record_save_outcome oc s)" and "session_ok (snd (record_save_failure m s))"
    and "r \<noteq> ScratchHasNoSaveTarget \<or> ed_path (se_editor s) = None \<Longrightarrow>
      session_ok (snd (refuse_write r s))"
    and "session_ok (snd (record_save_error err s))" and "session_ok (refuse_read_only_edit s)"
  using assms by (auto simp: session_ok_def record_save_outcome_def record_save_failure_def
      refuse_write_def record_save_error_def refuse_read_only_edit_def split: save_error.split)

lemma recorded_same [simp]:
  shows "se_version (record_save_outcome oc s) = se_version s"
    and "session_view h (record_save_outcome oc s) = session_view h s"
    and "se_version (snd (record_save_failure m s)) = se_version s"
    and "session_view h (snd (record_save_failure m s)) = session_view h s"
    and "se_version (snd (refuse_write r s)) = se_version s"
    and "session_view h (snd (refuse_write r s)) = session_view h s"
    and "se_version (snd (record_save_error err s)) = se_version s"
    and "session_view h (snd (record_save_error err s)) = session_view h s"
    and "se_version (refuse_read_only_edit s) = se_version s"
    and "session_view h (refuse_read_only_edit s) = session_view h s"
  by (auto simp: record_save_outcome_def record_save_failure_def session_view_def
      refuse_write_def record_save_error_def refuse_read_only_edit_def split: save_error.split)

text \<open>A result that only records something about the session as it was.\<close>

lemma evolves_recordings:
  assumes "session_ok s"
  shows "evolves h s (snd (record_save_failure m s))"
    and "evolves h s (snd (record_save_error err s))"
    and "r \<noteq> ScratchHasNoSaveTarget \<or> ed_path (se_editor s) = None \<Longrightarrow>
      evolves h s (snd (refuse_write r s))"
    and "evolves h s (refuse_read_only_edit s)"
  using session_ok_recorded [OF assms] by (auto intro!: evolves_recorded [OF assms])

lemma session_save_evolves:
  assumes h: "host_ok h" and ok: "session_ok s"
  shows "ensures (session_save h pid s) (\<lambda>x. evolves h s (snd x))"
proof -
  have saved: "evolves h s (record_save_outcome oc (s\<lparr>se_editor := e\<rparr>))"
    if "save_guarded h pid (se_editor s) fs1 = (Done (oc, e), fs2)" for oc e and fs1 fs2 :: fs
  proof -
    note e = save_guarded_Done [OF h that]
    have "session_ok (s\<lparr>se_editor := e\<rparr>)"
      using ok e(3,6,7) by (auto simp: session_ok_def)
    with e(1,4) show ?thesis
      by (intro evolves_recorded [OF ok] session_ok_recorded)
        (simp_all add: session_view_def record_save_outcome_def)
  qed
  have run: "ensures (attempt (save_guarded h pid (se_editor s)))
      (\<lambda>r. case r of Inr (oc, e) \<Rightarrow> evolves h s (record_save_outcome oc (s\<lparr>se_editor := e\<rparr>)) | _ \<Rightarrow> True)"
    by (rule ensures_attempt) (auto intro!: ensuresI saved)
  show ?thesis
    unfolding session_save_def
    by (auto intro!: ensures_bind_any ensures_bind [OF run] evolves_recordings [OF ok]
        split: sum.splits prod.splits)
qed

lemma session_save_as_evolves:
  assumes h: "host_ok h" and ok: "session_ok s"
  shows "ensures (session_save_as h pid target s) (\<lambda>x. evolves h s (snd x))"
proof -
  let ?ok = "\<lambda>e. ed_source h e = ed_source h (se_editor s) \<and> ed_path e \<noteq> None \<and> ed_baseline e \<noteq> None"
  have run: "ensures (attempt (save_as h pid target (se_editor s)))
      (\<lambda>r. case r of Inr (oc, e) \<Rightarrow> ?ok e | _ \<Rightarrow> True)"
    using save_as_Done [OF h] ok
    by (intro ensures_attempt) (auto intro!: ensuresI simp: session_ok_def)
  have adopt: "session_ok (record_save_outcome oc (s\<lparr>se_editor := e, se_version := v, se_posture := FileTarget\<rparr>))"
    "session_ok (record_save_outcome oc (s\<lparr>se_editor := e, se_posture := FileTarget\<rparr>))"
    if "?ok e" for oc e v
    using that ok by (auto simp: session_ok_def record_save_outcome_def)
  have moved: "ensures (bind (session_advance (s\<lparr>se_editor := e\<rparr>)) (\<lambda>s'.
      ret (Inr (), record_save_outcome oc (s'\<lparr>se_posture := FileTarget\<rparr>))))
      (\<lambda>x. evolves h s (snd x))" if "?ok e" for oc e
    using adopt [OF that] by (intro ensures_advance) simp_all
  have stayed: "evolves h s (record_save_outcome oc (s\<lparr>se_editor := e, se_posture := FileTarget\<rparr>))"
    if "?ok e" and "ed_address e = ed_address (se_editor s)" for oc e
    using adopt(2) [OF that(1)] that
    by (intro evolves_recorded ok) (simp_all add: session_view_def record_save_outcome_def)
  show ?thesis
    unfolding session_save_as_def
    by (auto intro!: ensures_bind [OF run] evolves_recordings [OF ok] moved stayed
        simp: bind_ret split: sum.splits prod.splits)
qed

lemma session_reload_evolves:
  assumes ok: "session_ok s"
  shows "ensures (session_reload h s) (\<lambda>x. evolves h s (snd x))"
proof -
  let ?ok = "\<lambda>e. ed_path e = ed_path (se_editor s) \<and> ed_path e \<noteq> None \<and> ed_baseline e \<noteq> None"
  have run: "ensures (attempt (editor_reload h (se_editor s)))
      (\<lambda>r. case r of Inr e \<Rightarrow> ?ok e | _ \<Rightarrow> True)"
    by (rule ensures_attempt) (auto intro!: ensuresI dest: editor_reload_Done)
  have adopt: "ensures (bind (session_advance (s\<lparr>se_editor := e\<rparr>)) (\<lambda>s'.
      ret (Inr (), s'\<lparr>se_last_save := None, se_refusal := None, se_failure := None\<rparr>)))
      (\<lambda>x. evolves h s (snd x))" if "?ok e" for e
    using that ok by (intro ensures_advance) (auto simp: session_ok_def)
  have scratch: "evolves h s (s\<lparr>se_refusal := Some ScratchHasNoSaveTarget, se_failure := None\<rparr>)"
    if "ed_path (se_editor s) = None"
    using that ok by (intro evolves_recorded [OF ok]) (auto simp: session_ok_def session_view_def)
  show ?thesis
    unfolding session_reload_def
    by (auto intro!: ensures_bind [OF run] evolves_recordings [OF ok] adopt scratch split: sum.splits)
qed

lemma session_edit_evolves:
  assumes h: "host_ok h" and ok: "session_ok s"
  shows "ensures (session_edit h c s) (\<lambda>x. evolves h s (snd x))"
proof -
  obtain changed ed where c: "sh_apply h c (ed_editor (se_editor s)) = (changed, ed)"
    by fastforce
  let ?e = "(se_editor s)\<lparr>ed_editor := ed\<rparr>"
  have "session_ok (s\<lparr>se_editor := ?e, se_version := v, se_refusal := None\<rparr>)" for v
    using ok by (auto simp: session_ok_def)
  moreover have "session_ok (s\<lparr>se_editor := ?e, se_refusal := None\<rparr>)"
    using ok by (auto simp: session_ok_def)
  moreover have "\<not> changed \<Longrightarrow> ed_source h ?e = ed_source h (se_editor s)"
    using host_ok_source(6) [OF h, of c "ed_editor (se_editor s)"] c by (simp add: ed_source_def)
  ultimately show ?thesis
    unfolding session_edit_def editor_apply_def c
    by (auto intro!: ensures_advance evolves_recorded [OF ok] evolves_recordings [OF ok]
        simp: bind_ret session_view_def)
qed

lemma session_apply_evolves:
  assumes "host_ok h" and "session_ok s"
  shows "ensures (session_apply h pid i s) (\<lambda>x. evolves h s (snd x))"
  unfolding session_apply_def
  by (rule ensures_bind [where R = "\<lambda>x. evolves h s (snd x)"])
    (auto simp: session_edit_evolves session_save_evolves session_save_as_evolves
      session_reload_evolves assms split: intent.split)

lemma input_mut_evolves:
  assumes "host_ok h" and ok: "session_ok s"
  shows "ensures (input_mut h f s) (\<lambda>x. evolves h s (snd x))"
  using ok by (auto simp: input_mut_def Let_def session_ok_def
      intro!: ensures_advance evolves_recordings)

lemma view_message_evolves:
  assumes "host_ok h" and ok: "session_ok s"
  shows "ensures (view_message h f s) (evolves h s)"
proof -
  let ?s = "s\<lparr>se_editor := (se_editor s)\<lparr>ed_editor :=
    sh_with_input h (f (sh_input h (ed_editor (se_editor s)))) (ed_editor (se_editor s))\<rparr>\<rparr>"
  have ok': "session_ok ?s" using ok by (auto simp: session_ok_def)
  then have "ensures (session_advance ?s) (evolves h s)"
    using session_advance_ensures [of ?s]
    by (auto simp: ensures_def evolves_def session_rank_def; fastforce)
  with ok ok' show ?thesis
    by (auto simp: view_message_def Let_def session_view_def intro: evolves_refl evolves_recorded)
qed

lemma select_source_range_evolves:
  assumes h: "host_ok h" and ok: "session_ok s"
  shows "evolves h s (snd (select_source_range h address text a b kind s))"
proof -
  have "ed_source h (snd (apply_layout_selection h sel e)) = ed_source h e" for sel e
    using host_ok_source(7) [OF h, of sel "ed_editor e"]
    by (auto simp: apply_layout_selection_def editor_apply_def ed_source_def split: prod.splits)
  moreover have "ed_path (snd (apply_layout_selection h sel e)) = ed_path e"
    "ed_baseline (snd (apply_layout_selection h sel e)) = ed_baseline e"
    "ed_address (snd (apply_layout_selection h sel e)) = ed_address e" for sel and e :: "('a, 'd) knot_editor"
    by (simp_all add: apply_layout_selection_def editor_apply_def split: prod.split)
  ultimately show ?thesis
    using ok by (auto simp: select_source_range_def Let_def evolves_refl session_ok_def
        session_view_def intro!: evolves_recorded)
qed

section \<open>Runs\<close>

text \<open>
  Everything a host can do to a session, in any order, on a machine that does what it likes. A
  process that panicked or died stays where it stopped.
\<close>

datatype ('inp, 'c) event =
    Dispatch "'c intent"
  | LendInput "'inp \<Rightarrow> 'inp"
  | ViewMessage "'inp \<Rightarrow> 'inp"
  | SelectRange string string nat nat string

datatype ('ed, 'h) world = Running "('ed, 'h) session" fs | Stopped fs

fun resume :: "('e, ('ed, 'h) session) outcome \<times> fs \<Rightarrow> ('ed, 'h) world" where
  "resume (Done s, fs) = Running s fs"
| "resume (Raise e, fs) = Stopped fs"
| "resume (Halt x, fs) = Stopped fs"

definition event_prog ::
  "('ed, 'inp, 'c, 'h) host \<Rightarrow> nat \<Rightarrow> ('inp, 'c) event \<Rightarrow> ('ed, 'h) session
     \<Rightarrow> (message, ('ed, 'h) session) prog" where
  "event_prog h pid ev s = (case ev of
       Dispatch i \<Rightarrow> bind (session_apply h pid i s) (\<lambda>x. ret (snd x))
     | LendInput f \<Rightarrow> bind (input_mut h f s) (\<lambda>x. ret (snd x))
     | ViewMessage f \<Rightarrow> view_message h f s
     | SelectRange address text a b kind \<Rightarrow>
         ret (snd (select_source_range h address text a b kind s)))"

fun session_step ::
  "('ed, 'inp, 'c, 'h) host \<Rightarrow> nat \<Rightarrow> ('inp, 'c) event \<Rightarrow> ('ed, 'h) world \<Rightarrow> ('ed, 'h) world" where
  "session_step h pid ev (Running s fs) = resume (event_prog h pid ev s fs)"
| "session_step h pid ev (Stopped fs) = Stopped fs"

fun world_ok :: "('ed, 'inp, 'c, 'h) host \<Rightarrow> ('ed, 'h) world \<Rightarrow> bool" where
  "world_ok h (Running s fs) \<longleftrightarrow> host_ok h \<and> session_ok s"
| "world_ok h (Stopped fs) \<longleftrightarrow> True"

fun world_rank :: "('ed, 'h) world \<Rightarrow> nat" where
  "world_rank (Running s fs) = session_rank s"
| "world_rank (Stopped fs) = 2 ^ 64"

fun world_view ::
  "('ed, 'inp, 'c, 'h) host \<Rightarrow> ('ed, 'h) world \<Rightarrow> (string \<times> string \<times> 64 word) option" where
  "world_view h (Running s fs) =
     Some (ed_address (se_editor s), ed_source h (se_editor s), sv_instance (se_version s))"
| "world_view h (Stopped fs) = None"

lemma event_prog_evolves:
  assumes "host_ok h" and "session_ok s"
  shows "ensures (event_prog h pid ev s) (evolves h s)"
  unfolding event_prog_def
  by (auto intro: ensures_bind [OF session_apply_evolves [OF assms]]
      ensures_bind [OF input_mut_evolves [OF assms]]
      simp: view_message_evolves select_source_range_evolves assms split: event.split)

lemma session_step_Running:
  assumes "host_ok h" and "session_ok s"
  shows "(\<exists>s' fs'. session_step h pid ev (Running s fs) = Running s' fs' \<and> evolves h s s') \<or>
    (\<exists>fs'. session_step h pid ev (Running s fs) = Stopped fs')"
proof (cases "event_prog h pid ev s fs")
  case (Pair r fs')
  with ensuresD [OF event_prog_evolves [OF assms], of pid ev fs] show ?thesis by (cases r) auto
qed

lemma session_rank_less: "session_rank s < 2 ^ 64"
  unfolding session_rank_def using unsigned_less [of "sv_revision (se_version s)", where 'a = nat] by simp

interpretation sessions: stamped_machine
  "session_step h pid" "world_ok h" world_rank "world_view h"
  for h :: "('ed, 'inp, 'c, 'h) host" and pid
proof
  fix w :: "('ed, 'h) world" and ev :: "('inp, 'c) event"
  assume ok: "world_ok h w"
  show "world_ok h (session_step h pid ev w)"
  proof (cases w)
    case (Running s fs)
    with ok session_step_Running [of h s pid ev fs] show ?thesis by (auto simp: evolves_def)
  qed simp
  show "world_rank w \<le> world_rank (session_step h pid ev w)"
  proof (cases w)
    case (Running s fs)
    with ok session_step_Running [of h s pid ev fs] session_rank_less [of s] show ?thesis
      by (auto simp: evolves_def)
  qed simp
  show "world_rank w < world_rank (session_step h pid ev w)"
    if "world_view h (session_step h pid ev w) \<noteq> world_view h w"
  proof (cases w)
    case (Running s fs)
    with ok that session_step_Running [of h s pid ev fs] session_rank_less [of s] show ?thesis
      by (auto simp: evolves_def session_view_def)
  next
    case (Stopped fs)
    with that show ?thesis by simp
  qed
qed

section \<open>Labels\<close>

fun knot_document_posture_label :: "write_posture \<Rightarrow> string" where
  "knot_document_posture_label FileTarget = ''file target''"
| "knot_document_posture_label Scratch = ''scratch''"
| "knot_document_posture_label ReadOnly = ''read-only''"

fun knot_document_save_outcome_label :: "last_save option \<Rightarrow> string" where
  "knot_document_save_outcome_label None = ''not attempted''"
| "knot_document_save_outcome_label (Some SaveWritten) = ''written''"
| "knot_document_save_outcome_label (Some SaveUnchanged) = ''unchanged''"
| "knot_document_save_outcome_label (Some SaveRefused) = ''refused''"
| "knot_document_save_outcome_label (Some SaveFailedOutcome) = ''failed''"

fun knot_document_refusal_label :: "refusal \<Rightarrow> string" where
  "knot_document_refusal_label ScratchHasNoSaveTarget = ''a new document has no file yet''"
| "knot_document_refusal_label RefusedReadOnly = ''this document is read-only''"
| "knot_document_refusal_label RefusedExternalChange = ''the file changed on disk''"

text \<open>The text of a failure's message is rendered by \<open>show\<close>.\<close>

definition save_outcome_label :: "(message \<Rightarrow> string) \<Rightarrow> document_snapshot \<Rightarrow> string" where
  "save_outcome_label show_message snap =
     (let outcome = ''Save: '' @ knot_document_save_outcome_label (snap_last_save snap)
      in case snap_refusal snap of
           Some r \<Rightarrow> outcome @ '': '' @ knot_document_refusal_label r
         | None \<Rightarrow> (case snap_failure snap of
             Some m \<Rightarrow> outcome @ '' ('' @ show_message m @ '')''
           | None \<Rightarrow> outcome))"

section \<open>Read-only sessions\<close>

definition inert ::
  "('ed, 'inp, 'c, 'h) host \<Rightarrow> ('ed, 'h) session \<Rightarrow> ('ed, 'h) session \<Rightarrow> bool" where
  "inert h s s' \<longleftrightarrow> se_posture s' = ReadOnly \<and> se_version s' = se_version s \<and>
     session_view h s' = session_view h s \<and> ed_path (se_editor s') = ed_path (se_editor s) \<and>
     ed_baseline (se_editor s') = ed_baseline (se_editor s)"

lemma select_source_range_same:
  assumes "host_ok h"
  shows "session_view h (snd (select_source_range h address text a b kind s)) = session_view h s"
    and "se_version (snd (select_source_range h address text a b kind s)) = se_version s"
    and "se_posture (snd (select_source_range h address text a b kind s)) = se_posture s"
    and "ed_path (se_editor (snd (select_source_range h address text a b kind s))) = ed_path (se_editor s)"
    and "ed_baseline (se_editor (snd (select_source_range h address text a b kind s)))
      = ed_baseline (se_editor s)"
  using host_ok_source(7) [OF assms, of _ "ed_editor (se_editor s)"]
  by (auto simp: select_source_range_def apply_layout_selection_def editor_apply_def Let_def
      session_view_def ed_source_def split: prod.splits) (metis snd_conv)+

lemma read_only_step:
  assumes "host_ok h" and "se_posture s = ReadOnly"
  shows "\<exists>s'. event_prog h pid ev s fs = (Done s', fs) \<and> inert h s s'"
proof (cases ev)
  case (Dispatch i)
  with assms(2) show ?thesis
    by (cases i) (simp_all add: event_prog_def session_apply_def session_edit_def session_save_def
        session_save_as_def session_reload_def bind_ret ret_def inert_def refuse_write_def
        refuse_read_only_edit_def session_view_def bind_def)
next
  case (SelectRange address src a b kind)
  with assms select_source_range_same [OF assms(1)] show ?thesis
    by (simp add: event_prog_def ret_def inert_def)
next
  case (LendInput f)
  with assms(2) show ?thesis
    by (simp add: event_prog_def input_mut_def bind_def ret_def inert_def refuse_read_only_edit_def
        session_view_def)
next
  case (ViewMessage f)
  with assms(2) show ?thesis by (simp add: event_prog_def view_message_def ret_def inert_def)
qed

lemma read_only_run:
  assumes "host_ok h" and "se_posture s = ReadOnly"
  shows "\<exists>s'. fold (session_step h pid) evs (Running s fs) = Running s' fs \<and> inert h s s'"
  using assms(2)
proof (induction evs arbitrary: s)
  case Nil
  then show ?case by (simp add: inert_def)
next
  case (Cons ev evs)
  obtain s1 where s1: "event_prog h pid ev s fs = (Done s1, fs)" "inert h s s1"
    using read_only_step [OF assms(1) Cons.prems] by blast
  then have "se_posture s1 = ReadOnly" by (simp add: inert_def)
  from Cons.IH [OF this] obtain s2 where
    "fold (session_step h pid) evs (Running s1 fs) = Running s2 fs" "inert h s1 s2" by blast
  with s1 show ?case by (auto simp: inert_def)
qed

section \<open>What a save reports\<close>

definition save_reported ::
  "('ed, 'inp, 'c, 'h) host \<Rightarrow> ('ed, 'h) session \<Rightarrow> intent_error + unit \<Rightarrow> ('ed, 'h) session \<Rightarrow> bool" where
  "save_reported h s r s' \<longleftrightarrow> (case r of
       Inr _ \<Rightarrow> \<not> ed_is_dirty h (se_editor s') \<and> session_view h s' = session_view h s \<and>
         se_last_save s' \<in> {Some SaveWritten, Some SaveUnchanged} \<and>
         se_refusal s' = None \<and> se_failure s' = None
     | Inl (Refused q) \<Rightarrow> se_editor s' = se_editor s \<and> se_last_save s' = Some SaveRefused \<and>
         se_refusal s' = Some q \<and> se_failure s' = None
     | Inl (SaveFailed m) \<Rightarrow> se_editor s' = se_editor s \<and> se_last_save s' = Some SaveFailedOutcome \<and>
         se_refusal s' = None \<and> se_failure s' = Some m)"

lemma save_reported_refusals:
  shows "save_reported h s (fst (refuse_write q s)) (snd (refuse_write q s))"
    and "save_reported h s (fst (record_save_error err s)) (snd (record_save_error err s))"
  by (auto simp: save_reported_def refuse_write_def record_save_error_def record_save_failure_def
      split: save_error.split)

lemma session_save_reported:
  assumes "host_ok h"
  shows "ensures (session_save h pid s) (\<lambda>(r, s'). save_reported h s r s')"
proof -
  have saved: "save_reported h s (Inr ()) (record_save_outcome oc (s\<lparr>se_editor := e\<rparr>))"
    if "save_guarded h pid (se_editor s) fs1 = (Done (oc, e), fs2)" for oc e and fs1 fs2 :: fs
    using save_guarded_Done [OF assms that]
    by (simp add: save_reported_def session_view_def record_save_outcome_def split: save_outcome.split)
  have run: "ensures (attempt (save_guarded h pid (se_editor s)))
      (\<lambda>r. case r of
        Inr (oc, e) \<Rightarrow> save_reported h s (Inr ()) (record_save_outcome oc (s\<lparr>se_editor := e\<rparr>))
      | _ \<Rightarrow> True)"
    by (rule ensures_attempt) (auto intro!: ensuresI saved)
  show ?thesis
    unfolding session_save_def
    by (auto intro!: ensures_bind_any ensures_bind [OF run] save_reported_refusals
        simp: case_prod_unfold split: sum.splits)
qed

section \<open>A sample session\<close>

definition sample_session :: "(plain_editor, nat) session" where
  "sample_session = \<lparr>se_editor = sample_editor,
     se_version = \<lparr>sv_instance = 1, sv_revision = 0\<rparr>, se_posture = FileTarget,
     se_last_save = None, se_refusal = None, se_failure = None\<rparr>"

lemma sample_session_ok: "session_ok sample_session"
  by (simp add: session_ok_def sample_session_def sample_editor_def)

lemma sample_session_saves:
  "\<exists>s' fs'. session_save plain_host 7 sample_session sample_fs =
     (Done (Inr (), s') :: (message, (intent_error + unit) \<times> (plain_editor, nat) session) outcome, fs')"
proof -
  have "case (session_save plain_host 7 sample_session sample_fs ::
      (message, (intent_error + unit) \<times> (plain_editor, nat) session) outcome \<times> fs) of
      (Done (r, _), _) \<Rightarrow> r = Inr () | _ \<Rightarrow> False" by code_simp
  then show ?thesis by (auto split: prod.splits outcome.splits)
qed

lemma sample_session_runs:
  "\<exists>s' fs'. fold (session_step plain_host 7) [Dispatch (Edit (Insert [])), Dispatch Save]
     (Running sample_session sample_fs) = Running s' fs' \<and>
     source_stamp_of s' = source_stamp_of sample_session"
proof -
  have "case fold (session_step plain_host 7) [Dispatch (Edit (Insert [])), Dispatch Save]
     (Running sample_session sample_fs) of
       Running s' _ \<Rightarrow> source_stamp_of s' = source_stamp_of sample_session | Stopped _ \<Rightarrow> False"
    by code_simp
  then show ?thesis by (auto split: world.splits)
qed

section \<open>Properties\<close>



text \<open>
  A session is never in a state it cannot explain. However it is used, a recorded failure is
  the last save's and stands without a refusal, a session that says it has a file target has a
  file, one that says it is scratch has none, and there is a disk baseline exactly when there is
  a file; and the source version only goes forward.
\<close>
theorem session_ok_kept:
  assumes "host_ok h" and "session_ok s"
    and "fold (session_step h pid) evs (Running s fs) = Running s' fs'"
  shows "session_ok s' \<and> session_rank s \<le> session_rank s'"
  using sessions.run_inv [where h = h and s = "Running s fs" and ops = evs and pid = pid]
    sessions.run_rank [where h = h and s = "Running s fs" and ops = evs and pid = pid] assms
  by simp

theorem session_ok_kept_witness:
  "\<exists>s' fs'. fold (session_step plain_host 7) [Dispatch (Edit (Insert [])), Dispatch Save]
     (Running sample_session sample_fs) = Running s' fs' \<and> session_ok s'"
  using sample_session_runs session_ok_kept [OF plain_host_ok sample_session_ok] by blast

text \<open>
  C24: A read-only session is inert. Nothing that a host dispatches to it, in any order, does any
  I/O or stops the process; its source, its version and its file stay what they were, and it
  stays read-only.
\<close>
theorem read_only_inert:
  assumes "host_ok h" and "se_posture s = ReadOnly"
  shows "\<exists>s'. fold (session_step h pid) evs (Running s fs) = Running s' fs \<and> inert h s s'"
  using assms by (rule read_only_run)

theorem read_only_inert_witness:
  "\<exists>s'. fold (session_step plain_host 7) [Dispatch (Edit (Insert ''x'')), Dispatch Save]
     (Running (sample_session\<lparr>se_posture := ReadOnly\<rparr>) sample_fs) = Running s' sample_fs \<and>
     se_posture s' = ReadOnly"
  using read_only_inert [OF plain_host_ok, of "sample_session\<lparr>se_posture := ReadOnly\<rparr>" 7
      "[Dispatch (Edit (Insert ''x'')), Dispatch Save]" sample_fs]
  by (auto simp: inert_def)

text \<open>
  A save reports what happened. Success leaves a clean editor with the same source and says
  written or unchanged; a refusal or a failure leaves the editor as it was and is recorded, with
  its reason, as the session's last save.
\<close>
theorem save_reports:
  assumes "host_ok h" and "session_save h pid s fs = (Done (r, s'), fs')"
  shows "save_reported h s r s'"
  using ensuresD [OF session_save_reported [OF assms(1)] assms(2)] by simp

theorem save_reports_witness:
  "\<exists>s' fs'. session_save plain_host 7 sample_session sample_fs =
     (Done (Inr (), s') :: (message, (intent_error + unit) \<times> (plain_editor, nat) session) outcome, fs') \<and>
     \<not> ed_is_dirty plain_host (se_editor s')"
proof -
  obtain s' fs' where run: "session_save plain_host 7 sample_session sample_fs =
     (Done (Inr (), s') :: (message, (intent_error + unit) \<times> (plain_editor, nat) session) outcome, fs')"
    using sample_session_saves by blast
  from save_reports [OF plain_host_ok run] run show ?thesis by (auto simp: save_reported_def)
qed

text \<open>
  A range is selected exactly when it was read from this very source: the address and the
  text must be the session's, and the ends must be ordered character boundaries of it. Otherwise
  the session is left alone; either way the source, the version and the file stay.
\<close>
theorem select_source_range_guarded:
  assumes "host_ok h" and "select_source_range h address src a b kind s = (r, s')"
  shows "(r = Inr () \<longleftrightarrow> address = ed_address (se_editor s) \<and> src = ed_source h (se_editor s) \<and>
      a \<le> b \<and> is_char_boundary src a \<and> is_char_boundary src b) \<and>
    (r \<noteq> Inr () \<longrightarrow> s' = s) \<and> session_view h s' = session_view h s \<and> se_version s' = se_version s"
proof -
  have "b \<le> length src" if "is_char_boundary src b" using that by (auto simp: is_char_boundary_def split: if_splits)
  with assms(2) select_source_range_same(1,2) [OF assms(1), of address src a b kind s] show ?thesis
    by (auto simp: select_source_range_def Let_def split: if_splits)
qed

theorem select_source_range_guarded_witness:
  "fst (select_source_range plain_host ''file:///notes/field.djot'' ''new'' 0 2 ''item'' sample_session)
     = Inr () \<and> is_char_boundary ''new'' 2"
proof -
  have "fst (select_source_range plain_host ''file:///notes/field.djot'' ''new'' 0 2 ''item'' sample_session)
      = Inr ()" by code_simp
  with select_source_range_guarded [OF plain_host_ok surjective_pairing,
      of "''file:///notes/field.djot''" "''new''" 0 2 "''item''" sample_session]
  show ?thesis by blast
qed

end
