(* ===== verification/Source_Edit.thy ===== *)
theory Source_Edit
  imports Doc_Session
begin

text \<open>
  \<open>knot-document/src/source_edit.rs\<close>: proposals to replace the selected source, checked against
  the session's stamp and selection, and applied through the session's own edit intent.

  Snapshots, proposals and receipts are values of \<open>mere_source_edit\<close>, another package: the
  record \<open>edit_api\<close> holds the operations this code calls and \<open>edit_api_ok\<close> what it relies on.
\<close>

section \<open>The other package\<close>

record text_edit =
  te_start :: nat
  te_end :: nat
  te_text :: string

record ('snap, 'prop, 'rc) edit_api =
  ea_capture :: "source_stamp \<Rightarrow> string \<Rightarrow> 'snap"
  ea_check :: "'snap \<Rightarrow> source_stamp \<Rightarrow> string \<Rightarrow> string + unit"
  ea_source :: "'snap \<Rightarrow> string"
  ea_propose :: "'snap \<Rightarrow> text_edit list \<Rightarrow> string + 'prop"
  ea_edits :: "'prop \<Rightarrow> text_edit list"
  ea_application :: "'prop \<Rightarrow> source_stamp \<Rightarrow> string \<Rightarrow> string + (string \<times> 'rc)"
  ea_result_revision :: "'rc \<Rightarrow> 64 word"

definition splice_edit :: "string \<Rightarrow> text_edit \<Rightarrow> string" where
  "splice_edit s e = take (te_start e) s @ te_text e @ drop (te_end e) s"

text \<open>
  A snapshot checks against the stamp and the source it was captured from and no other; a
  proposal of one edit applies by splicing it in, and its receipt names a later revision.
\<close>

definition edit_api_ok :: "('snap, 'prop, 'rc) edit_api \<Rightarrow> bool" where
  "edit_api_ok api \<longleftrightarrow>
     (\<forall>b st s. ea_check api b st s = Inr () \<longrightarrow> ea_source api b = s) \<and>
     (\<forall>st s. ea_check api (ea_capture api st s) st s = Inr ()) \<and>
     (\<forall>p st s txt rc e. ea_application api p st s = Inr (txt, rc) \<and> ea_edits api p = [e] \<longrightarrow>
        txt = splice_edit s e \<and> unat (stamp_revision st) < unat (ea_result_revision api rc))"

text \<open>
  Of the host this part needs two more facts: selecting what is selected changes nothing that
  can be seen, and inserting replaces the selected bytes.
\<close>

definition selection_range :: "caret_selection \<Rightarrow> nat \<times> nat" where
  "selection_range sel =
     (min (caret_byte (anchor sel)) (caret_byte (focus sel)),
      max (caret_byte (anchor sel)) (caret_byte (focus sel)))"

definition host_inserts :: "('ed, 'inp, 'c, 'h) host \<Rightarrow> bool" where
  "host_inserts h \<longleftrightarrow>
     (\<forall>e. in_selection h (sh_input h (snd (sh_apply h (SetSelection (in_selection h (sh_input h e))) e)))
        = in_selection h (sh_input h e)) \<and>
     (\<forall>e t. let (lo, hi) = selection_range (in_selection h (sh_input h e)) in
        in_text h (sh_input h (snd (sh_apply h (Insert t) e)))
          = splice_edit (in_text h (sh_input h e)) \<lparr>te_start = lo, te_end = hi, te_text = t\<rparr>)"

section \<open>Operations\<close>

definition source_snapshot ::
  "('snap, 'prop, 'rc) edit_api \<Rightarrow> ('ed, 'inp, 'c, 'h) host \<Rightarrow> ('ed, 'h) session \<Rightarrow> 'snap" where
  "source_snapshot api h s = ea_capture api (source_stamp_of s) (ed_source h (se_editor s))"

definition check_proposal_authority ::
  "('ed, 'inp, 'c, 'h) host \<Rightarrow> ('ed, 'h) session \<Rightarrow> (string, unit) prog" where
  "check_proposal_authority h s =
     bind (if snap_posture (snapshot h s) = ReadOnly then ret True
           else is_file_read_only (se_editor s)) (\<lambda>ro.
     if ro then raise ''this document is read-only''
     else if in_composing h (sh_input h (ed_editor (se_editor s)))
     then raise ''finish the current text composition before applying a proposal''
     else ret ())"

definition checked_selection_range ::
  "('ed, 'inp, 'c, 'h) host \<Rightarrow> caret_selection \<Rightarrow> ('ed, 'h) session
     \<Rightarrow> (string, nat \<times> nat) prog" where
  "checked_selection_range h sel s =
     bind (check_proposal_authority h s) (\<lambda>_.
     if ed_selection h (se_editor s) \<noteq> sel then raise ''source selection changed''
     else (case selection_range sel of (lo, hi) \<Rightarrow>
       if str_get (ed_source h (se_editor s)) lo hi = None
       then raise ''the captured selection is invalid''
       else ret (lo, hi)))"

text \<open>The final slice panics where it is not a slice of the captured source.\<close>

definition selected_source ::
  "('snap, 'prop, 'rc) edit_api \<Rightarrow> ('ed, 'inp, 'c, 'h) host \<Rightarrow> 'snap \<Rightarrow> caret_selection
     \<Rightarrow> ('ed, 'h) session \<Rightarrow> (string, string) prog" where
  "selected_source api h base sel s =
     bind (of_sum (ea_check api base (source_stamp_of s) (ed_source h (se_editor s)))) (\<lambda>_.
     bind (checked_selection_range h sel s) (\<lambda>(lo, hi).
     case str_get (ea_source api base) lo hi of Some t \<Rightarrow> ret t | None \<Rightarrow> panic))"

definition propose_selection_edit ::
  "('snap, 'prop, 'rc) edit_api \<Rightarrow> ('ed, 'inp, 'c, 'h) host \<Rightarrow> 'snap \<Rightarrow> caret_selection \<Rightarrow> string
     \<Rightarrow> ('ed, 'h) session \<Rightarrow> (string, 'prop) prog" where
  "propose_selection_edit api h base sel txt s =
     bind (selected_source api h base sel s) (\<lambda>_.
     case selection_range sel of (lo, hi) \<Rightarrow>
       of_sum (ea_propose api base [\<lparr>te_start = lo, te_end = hi, te_text = txt\<rparr>]))"

text \<open>
  The result carries the session, because a refused edit has recorded its refusal in it. The
  text of that error is the debug print of the intent error.
\<close>

definition apply_source_proposal ::
  "('snap, 'prop, 'rc) edit_api \<Rightarrow> ('ed, 'inp, 'c, 'h) host \<Rightarrow> nat \<Rightarrow> 'prop \<Rightarrow> caret_selection
     \<Rightarrow> ('ed, 'h) session \<Rightarrow> (string, ((intent_error + 'rc) \<times> ('ed, 'h) session)) prog" where
  "apply_source_proposal api h pid prop sel s =
     bind (checked_selection_range h sel s) (\<lambda>(lo, hi).
     case ea_edits api prop of
       [edit] \<Rightarrow>
         if te_start edit \<noteq> lo \<or> te_end edit \<noteq> hi
         then raise ''proposal range does not match the captured selection''
         else bind (of_sum (ea_application api prop (source_stamp_of s) (ed_source h (se_editor s))))
           (\<lambda>(txt, receipt).
           let s1 = s\<lparr>se_editor := snd (editor_apply h (SetSelection sel) (se_editor s))\<rparr>
           in bind (session_apply h pid (Edit (Insert (te_text edit))) s1) (\<lambda>(r, s2).
              case r of
                Inl e \<Rightarrow> ret (Inl e, s2)
              | Inr _ \<Rightarrow>
                  let after = ed_selection h (se_editor s2);
                      e3 = snd (editor_apply h (SetSelection after) (se_editor s2))
                  in ret (Inr receipt, s2\<lparr>se_editor := e3,
                       se_version := (se_version s2)\<lparr>sv_revision := ea_result_revision api receipt\<rparr>\<rparr>)))
     | _ \<Rightarrow> raise ''this editor accepts one selection replacement'')"

section \<open>What the checks establish\<close>

lemma checked_selection_range_ensures:
  "ensures (checked_selection_range h sel s) (\<lambda>(lo, hi).
     se_posture s \<noteq> ReadOnly \<and> \<not> in_composing h (sh_input h (ed_editor (se_editor s))) \<and>
     ed_selection h (se_editor s) = sel \<and> (lo, hi) = selection_range sel \<and>
     str_get (ed_source h (se_editor s)) lo hi \<noteq> None)"
proof -
  have "ensures (check_proposal_authority h s) (\<lambda>_. se_posture s \<noteq> ReadOnly \<and>
      \<not> in_composing h (sh_input h (ed_editor (se_editor s))))"
    unfolding check_proposal_authority_def
    by (rule ensures_bind [where R = "\<lambda>ro. ro \<or> se_posture s \<noteq> ReadOnly"])
      (auto simp: snapshot_def Let_def ensures_def ret_def raise_def split: if_splits)
  then show ?thesis
    unfolding checked_selection_range_def
    by (rule ensures_bind) (auto simp: ensures_def ret_def raise_def split: prod.splits)
qed

lemma ensures_of_sum: "ensures (of_sum r) (\<lambda>x. r = Inr x)"
  by (cases r) (auto simp: of_sum_def)

lemma session_advance_editor:
  "ensures (session_advance s) (\<lambda>s'. se_editor s' = se_editor s)"
  by (rule ensuresI) (use ensuresD [OF session_advance_ensures] in fastforce)

lemma session_edit_ensures:
  assumes "se_posture s \<noteq> ReadOnly"
  shows "ensures (session_apply h pid (Edit c) s) (\<lambda>(r, s'). (\<forall>e. r \<noteq> Inl e) \<and>
    se_editor s' = snd (editor_apply h c (se_editor s)))"
proof -
  have "ensures (session_edit h c s) (\<lambda>(r, s'). r = Inr () \<and>
      se_editor s' = snd (editor_apply h c (se_editor s)))"
    using assms unfolding session_edit_def
    by (auto intro!: ensures_bind [OF session_advance_editor] simp: bind_ret split: prod.split)
  then show ?thesis
    unfolding session_apply_def by (simp, rule ensures_bind) auto
qed

lemma selected_source_ensures:
  assumes "edit_api_ok api"
  shows "ensures (selected_source api h base sel s) (\<lambda>t. ed_selection h (se_editor s) = sel \<and>
    str_get (ed_source h (se_editor s)) (fst (selection_range sel)) (snd (selection_range sel)) = Some t)"
  unfolding selected_source_def
proof (rule ensures_bind [OF ensures_of_sum])
  fix u assume "ea_check api base (source_stamp_of s) (ed_source h (se_editor s)) = Inr u"
  with assms have src: "ea_source api base = ed_source h (se_editor s)"
    by (simp add: edit_api_ok_def)
  show "ensures (bind (checked_selection_range h sel s) (\<lambda>(lo, hi).
      case str_get (ea_source api base) lo hi of Some t \<Rightarrow> ret t | None \<Rightarrow> panic))
    (\<lambda>t. ed_selection h (se_editor s) = sel \<and>
      str_get (ed_source h (se_editor s)) (fst (selection_range sel)) (snd (selection_range sel)) = Some t)"
    by (rule ensures_bind [OF checked_selection_range_ensures])
      (auto simp: src split: option.split, metis fst_conv snd_conv)
qed

lemma apply_source_proposal_ensures:
  assumes h: "host_ok h" and ins: "host_inserts h" and api: "edit_api_ok api"
  shows "ensures (apply_source_proposal api h pid prop sel s) (\<lambda>(r, s'). \<exists>rc edit.
    r = Inr rc \<and> ea_edits api prop = [edit] \<and>
    (te_start edit, te_end edit) = selection_range sel \<and> ed_selection h (se_editor s) = sel \<and>
    se_posture s \<noteq> ReadOnly \<and>
    ed_source h (se_editor s') = splice_edit (ed_source h (se_editor s)) edit \<and>
    (\<exists>txt. ea_application api prop (source_stamp_of s) (ed_source h (se_editor s)) = Inr (txt, rc) \<and>
       ed_source h (se_editor s') = txt) \<and>
    session_rank s < session_rank s')"
  unfolding apply_source_proposal_def
proof (rule ensures_bind [OF checked_selection_range_ensures], clarify, goal_cases)
  case (1 lo hi)
  then have ro: "se_posture s \<noteq> ReadOnly" and range: "(lo, hi) = selection_range (ed_selection h (se_editor s))"
    by simp_all
  let ?sel = "ed_selection h (se_editor s)"
  let ?s1 = "s\<lparr>se_editor := snd (editor_apply h (SetSelection ?sel) (se_editor s))\<rparr>"
  have s1: "ed_source h (se_editor ?s1) = ed_source h (se_editor s)"
      "ed_selection h (se_editor ?s1) = ?sel"
    using host_ok_source(7) [OF h, of ?sel "ed_editor (se_editor s)"] ins
    by (auto simp: editor_apply_def ed_source_def ed_selection_def host_inserts_def split: prod.split)
      (metis snd_conv)+
  have edited: "ed_source h (snd (editor_apply h (Insert t) (se_editor ?s1)))
      = splice_edit (ed_source h (se_editor s)) \<lparr>te_start = lo, te_end = hi, te_text = t\<rparr>" for t
    using ins range s1
    by (auto simp: host_inserts_def ed_source_def ed_selection_def editor_apply_def Let_def
        split: prod.splits) (metis snd_conv)
  have reselect: "ed_source h (snd (editor_apply h (SetSelection x) e)) = ed_source h e" for x e
    using host_ok_source(7) [OF h, of x "ed_editor e"]
    by (auto simp: editor_apply_def ed_source_def split: prod.splits)
  show ?case
  proof (cases "\<exists>edit. ea_edits api prop = [edit]")
    case False
    then show ?thesis by (auto split: list.split)
  next
    case True
    then obtain edit where edit: "ea_edits api prop = [edit]" ..
    have app: "t = splice_edit (ed_source h (se_editor s)) edit \<and>
        unat (sv_revision (se_version s)) < unat (ea_result_revision api rc)"
      if "ea_application api prop (source_stamp_of s) (ed_source h (se_editor s)) = Inr (t, rc)" for t rc
      using api that edit unfolding edit_api_ok_def
      by (fastforce simp: session_rank_def source_stamp_of_def)
    have ro1: "se_posture ?s1 \<noteq> ReadOnly" using ro by simp
    have whole: "ed_source h (snd (editor_apply h (Insert (te_text edit)) (se_editor ?s1)))
        = splice_edit (ed_source h (se_editor s)) edit"
      if "te_start edit = lo" "te_end edit = hi"
      using edited [of "te_text edit"] that by (simp add: splice_edit_def)
    show ?thesis
      using range whole ro
      by (auto simp: edit Let_def session_rank_def reselect dest: app split: sum.split
          intro!: ensures_bind [OF ensures_of_sum] ensures_bind [OF session_edit_ensures [OF ro1]])
  qed
qed

section \<open>A sample of the other package\<close>

type_synonym sample_proposal = "source_stamp \<times> string \<times> text_edit list"

definition sample_api :: "(source_stamp \<times> string, sample_proposal, 64 word) edit_api" where
  "sample_api = \<lparr>
     ea_capture = Pair,
     ea_check = (\<lambda>b st s. if b = (st, s) then Inr () else Inl ''stale''),
     ea_source = snd,
     ea_propose = (\<lambda>b es. Inr (fst b, snd b, es)),
     ea_edits = (\<lambda>p. snd (snd p)),
     ea_application = (\<lambda>p st s. case p of (st0, s0, es) \<Rightarrow>
        if st0 = st \<and> s0 = s \<and> stamp_revision st \<noteq> - 1
        then (case es of [e] \<Rightarrow> Inr (splice_edit s e, stamp_revision st + 1) | _ \<Rightarrow> Inl ''edits'')
        else Inl ''stale''),
     ea_result_revision = id\<rparr>"

lemma sample_api_ok: "edit_api_ok sample_api"
  by (auto simp: edit_api_ok_def sample_api_def unat_add_one split: if_splits list.splits prod.splits)

lemma plain_host_inserts: "host_inserts plain_host"
  by (auto simp: host_inserts_def plain_host_def plain_insert_def selection_range_def splice_edit_def
      Let_def split: prod.splits)

definition sample_proposal :: sample_proposal where
  "sample_proposal = (source_stamp_of sample_session, ''new'',
     [\<lparr>te_start = 0, te_end = 0, te_text = ''re''\<rparr>])"

definition sample_selection :: caret_selection where
  "sample_selection = \<lparr>anchor = start_caret, focus = start_caret\<rparr>"

lemma sample_application:
  "\<exists>rc s' fs'. apply_source_proposal sample_api plain_host 7 sample_proposal sample_selection
     sample_session sample_fs = (Done (Inr rc, s'), fs')"
proof -
  have "case apply_source_proposal sample_api plain_host 7 sample_proposal sample_selection
      sample_session sample_fs of (Done (r, _), _) \<Rightarrow> r = Inr 1 | _ \<Rightarrow> False" by code_simp
  then show ?thesis by (auto split: prod.splits outcome.splits)
qed

lemma sample_selected:
  "\<exists>t fs'. selected_source sample_api plain_host (source_stamp_of sample_session, ''new'')
     sample_selection sample_session sample_fs = (Done t, fs')"
proof -
  have "case selected_source sample_api plain_host (source_stamp_of sample_session, ''new'')
      sample_selection sample_session sample_fs of (Done t, _) \<Rightarrow> t = [] | _ \<Rightarrow> False" by code_simp
  then show ?thesis by (auto split: prod.splits outcome.splits)
qed

section \<open>Properties\<close>

text \<open>
  C32: A proposal that is applied is applied exactly. If the operation returns a receipt, the
  session could be written, the proposal was one edit of the selected range, the new source is
  the old one with that range replaced, which is also the text the proposal was checked to
  produce, and the stamp is newer; once the checks pass the edit is never refused half-way.
\<close>
theorem apply_source_proposal_exact:
  assumes "host_ok h" and "host_inserts h" and "edit_api_ok api"
    and "apply_source_proposal api h pid prop sel s fs = (Done (r, s'), fs')"
  shows "\<exists>rc edit txt. r = Inr rc \<and> ea_edits api prop = [edit] \<and>
    (te_start edit, te_end edit) = selection_range sel \<and> ed_selection h (se_editor s) = sel \<and>
    se_posture s \<noteq> ReadOnly \<and>
    ed_source h (se_editor s') = splice_edit (ed_source h (se_editor s)) edit \<and>
    ea_application api prop (source_stamp_of s) (ed_source h (se_editor s)) = Inr (txt, rc) \<and>
    ed_source h (se_editor s') = txt \<and> session_rank s < session_rank s'"
  using ensuresD [OF apply_source_proposal_ensures [OF assms(1-3)] assms(4)] by blast

theorem apply_source_proposal_exact_witness:
  "\<exists>rc s' fs'. apply_source_proposal sample_api plain_host 7 sample_proposal sample_selection
     sample_session sample_fs = (Done (Inr rc, s'), fs') \<and>
     ed_source plain_host (se_editor s') = ''renew''"
proof -
  obtain rc s' fs' where run: "apply_source_proposal sample_api plain_host 7 sample_proposal
      sample_selection sample_session sample_fs = (Done (Inr rc, s'), fs')"
    using sample_application by blast
  from apply_source_proposal_exact [OF plain_host_ok plain_host_inserts sample_api_ok run] run
  show ?thesis
    by (auto simp: sample_api_def sample_proposal_def splice_edit_def sample_session_def
        sample_editor_facts)
qed

text \<open>
  The source read through a snapshot is the selection of the live document: the selection is
  still the one given, and the bytes returned are the bytes it covers in the session's source.
\<close>
theorem selected_source_exact:
  assumes "edit_api_ok api" and "selected_source api h base sel s fs = (Done t, fs')"
  shows "ed_selection h (se_editor s) = sel \<and>
    str_get (ed_source h (se_editor s)) (fst (selection_range sel)) (snd (selection_range sel)) = Some t"
  using ensuresD [OF selected_source_ensures [OF assms(1)] assms(2)] .

theorem selected_source_exact_witness:
  "\<exists>t fs'. selected_source sample_api plain_host (source_stamp_of sample_session, ''new'')
     sample_selection sample_session sample_fs = (Done t, fs') \<and> str_get ''new'' 0 0 = Some t"
proof -
  obtain t fs' where run: "selected_source sample_api plain_host
      (source_stamp_of sample_session, ''new'') sample_selection sample_session sample_fs = (Done t, fs')"
    using sample_selected by blast
  from selected_source_exact [OF sample_api_ok run] run show ?thesis
    by (simp add: sample_session_def sample_editor_facts sample_selection_def start_caret_def
        selection_range_def)
qed

end
