(* ===== verification/Text_Merge.thy ===== *)
theory Text_Merge
  imports Knot_Text "HOL-Library.Multiset" "HOL-Library.Char_ord" "HOL-Library.List_Lexorder" "HOL-Library.Product_Lexorder"
begin

text \<open>
  \<open>knot-editor/src/djot_merge.rs\<close>: the three-way merge that settles a document two writers
  changed. Scalars merge by equality, text merges by lines, and Djot merges block by block where
  both sides keep the block structure of the base.

  The line diff (\<open>similar\<close>), the Djot parser (\<open>jotdown\<close>) and the causal index
  (\<open>stickleback\<close>) are other packages and appear as arguments.
\<close>

section \<open>Three-way merges\<close>

text \<open>
  What every merge of this file promises: where the sides agree, or one of them is the base,
  the result is the other side, and the sides can be exchanged.
\<close>

fun merge_lists ::
  "('a \<Rightarrow> 'a \<Rightarrow> 'a \<Rightarrow> 'a option) \<Rightarrow> 'a list \<Rightarrow> 'a list \<Rightarrow> 'a list \<Rightarrow> 'a list option" where
  "merge_lists m (b # bs) (l # ls) (r # rs) =
     (case m b l r of None \<Rightarrow> None | Some x \<Rightarrow> map_option ((#) x) (merge_lists m bs ls rs))"
| "merge_lists m _ _ _ = Some []"

locale three_way =
  fixes merge :: "'a \<Rightarrow> 'a \<Rightarrow> 'a \<Rightarrow> 'a option"
  assumes merge_same: "merge b x x = Some x"
    and merge_left_base: "merge b b x = Some x"
    and merge_right_base: "merge b x b = Some x"
    and merge_commute: "merge b l r = merge b r l"
begin

lemma merge_lists_commute: "merge_lists merge bs ls rs = merge_lists merge bs rs ls"
proof (induction bs arbitrary: ls rs)
  case (Cons b bs)
  then show ?case
    by (cases ls; cases rs) (simp_all add: merge_commute [of b] cong: option.case_cong)
qed simp

lemma merge_lists_left_base: "length rs = length bs \<Longrightarrow> merge_lists merge bs bs rs = Some rs"
  by (induction rs bs rule: list_induct2) (simp_all add: merge_left_base)

lemma merge_lists_same: "length ls = length bs \<Longrightarrow> merge_lists merge bs ls ls = Some ls"
  by (induction ls bs rule: list_induct2) (simp_all add: merge_same)

lemma merge_conflict: "merge b l r = None \<Longrightarrow> l \<noteq> r \<and> l \<noteq> b \<and> r \<noteq> b"
  using merge_same merge_left_base merge_right_base by (metis option.distinct(1))

end

definition merge_scalar :: "'a \<Rightarrow> 'a \<Rightarrow> 'a \<Rightarrow> 'a option" where
  "merge_scalar base left right =
     (if left = right then Some left
      else if left = base then Some right
      else if right = base then Some left
      else None)"

interpretation scalar: three_way merge_scalar
  by unfold_locales (auto simp: merge_scalar_def)

section \<open>Line edits\<close>

record line_edit =
  le_start :: nat
  le_end :: nat
  le_lines :: "string list"

text \<open>
  The diff gives its operations as pairs of ranges, of the old lines and of the new ones. The
  code drops those that change nothing and copies the new lines of the others.
\<close>

type_synonym diff = "string list \<Rightarrow> string list \<Rightarrow> ((nat \<times> nat) \<times> nat \<times> nat) list"

definition slice :: "nat \<times> nat \<Rightarrow> 'a list \<Rightarrow> 'a list" where
  "slice r xs = take (snd r - fst r) (drop (fst r) xs)"

definition line_edits :: "diff \<Rightarrow> string list \<Rightarrow> string list \<Rightarrow> line_edit list" where
  "line_edits diff base branch = List.map_filter (\<lambda>(old, new).
     if snd old - fst old \<noteq> snd new - fst new \<or> slice old base \<noteq> slice new branch
     then Some \<lparr>le_start = fst old, le_end = snd old, le_lines = slice new branch\<rparr>
     else None) (diff base branch)"

definition line_edits_conflict :: "line_edit \<Rightarrow> line_edit \<Rightarrow> bool" where
  "line_edits_conflict l r =
     (if l = r then False
      else case (le_start l = le_end l, le_start r = le_end r) of
        (True, True) \<Rightarrow> le_start l = le_start r
      | (True, False) \<Rightarrow> le_start l > le_start r \<and> le_start l < le_end r
      | (False, True) \<Rightarrow> le_start r > le_start l \<and> le_start r < le_end l
      | (False, False) \<Rightarrow> max (le_start l) (le_start r) < min (le_end l) (le_end r))"

definition edit_key :: "line_edit \<Rightarrow> nat \<times> nat \<times> string list" where
  "edit_key e = (le_start e, le_end e, le_lines e)"

text \<open>The loop that writes the output, from a position in the base; it gives up on an edit
  that starts before that position.\<close>

fun splice_lines :: "string list \<Rightarrow> nat \<Rightarrow> line_edit list \<Rightarrow> string list option" where
  "splice_lines base cursor [] = Some (drop cursor base)"
| "splice_lines base cursor (e # es) =
     (if le_start e < cursor then None
      else map_option (\<lambda>rest. slice (cursor, le_start e) base @ le_lines e @ rest)
             (splice_lines base (le_end e) es))"

definition split_lines :: "string \<Rightarrow> string list" where
  "split_lines s = split_inclusive (\<lambda>c. c = nl) s"

definition merge_edits :: "line_edit list \<Rightarrow> line_edit list \<Rightarrow> line_edit list" where
  "merge_edits ls rs = remdups_adj (sort_key edit_key (ls @ rs))"

definition merge_text_lines :: "diff \<Rightarrow> string \<Rightarrow> string \<Rightarrow> string \<Rightarrow> string option" where
  "merge_text_lines diff base left right =
     (if left = right then Some left
      else if left = base then Some right
      else if right = base then Some left
      else let b = split_lines base;
               ls = line_edits diff b (split_lines left);
               rs = line_edits diff b (split_lines right)
           in if \<exists>l \<in> set ls. \<exists>r \<in> set rs. line_edits_conflict l r then None
              else map_option concat (splice_lines b 0 (merge_edits ls rs)))"

section \<open>The line merge is a three-way merge\<close>

lemma edit_key_inj: "edit_key e = edit_key f \<Longrightarrow> e = f"
  by (simp add: edit_key_def)

lemma line_edits_conflict_commute: "line_edits_conflict l r = line_edits_conflict r l"
  by (cases "le_start l = le_end l"; cases "le_start r = le_end r")
    (simp_all add: line_edits_conflict_def max.commute min.commute eq_commute conj_commute)

text \<open>Sorting by a key that identifies the elements forgets their order.\<close>

lemma merge_edits_commute: "merge_edits ls rs = merge_edits rs ls"
proof -
  have "sort_key edit_key (ls @ rs) = sort_key edit_key (rs @ ls)"
    by (rule sort_key_inj_key_eq) (auto intro: inj_onI edit_key_inj)
  then show ?thesis by (simp add: merge_edits_def)
qed

lemma merge_text_lines_commute: "merge_text_lines d b l r = merge_text_lines d b r l"
proof -
  have "(\<exists>x \<in> set xs. \<exists>y \<in> set ys. line_edits_conflict x y) \<longleftrightarrow>
      (\<exists>y \<in> set ys. \<exists>x \<in> set xs. line_edits_conflict y x)" for xs ys
    by (metis line_edits_conflict_commute)
  then show ?thesis by (auto simp: merge_text_lines_def Let_def merge_edits_commute)
qed

interpretation lines: three_way "merge_text_lines diff" for diff
  by unfold_locales (rule merge_text_lines_commute | simp add: merge_text_lines_def)+

section \<open>Edits that a diff can give\<close>

text \<open>
  What the code relies on of a diff: its old ranges tile the base, its new ranges tile the
  branch, and it does not insert twice in one place (adjacent insertions are one operation).
\<close>

fun tiles :: "nat \<Rightarrow> (nat \<times> nat) list \<Rightarrow> nat \<Rightarrow> bool" where
  "tiles a [] b \<longleftrightarrow> a = b"
| "tiles a (r # rs) b \<longleftrightarrow> fst r = a \<and> fst r \<le> snd r \<and> tiles (snd r) rs b"

definition diff_ok :: "diff \<Rightarrow> bool" where
  "diff_ok diff \<longleftrightarrow> (\<forall>base branch.
     tiles 0 (map fst (diff base branch)) (length base) \<and>
     tiles 0 (map snd (diff base branch)) (length branch) \<and>
     distinct (map fst (filter (\<lambda>r. fst r = snd r) (map fst (diff base branch)))))"

text \<open>Edits of one branch: in order, inside the base, and apart.\<close>

fun edits_from :: "nat \<Rightarrow> line_edit list \<Rightarrow> nat \<Rightarrow> bool" where
  "edits_from c [] n \<longleftrightarrow> c \<le> n"
| "edits_from c (e # es) n \<longleftrightarrow> c \<le> le_start e \<and> le_start e \<le> le_end e \<and> edits_from (le_end e) es n"

lemma edits_from_mono: "edits_from c es n \<Longrightarrow> c' \<le> c \<Longrightarrow> edits_from c' es n"
  by (cases es) auto

lemma splice_lines_total: "edits_from c es n \<Longrightarrow> \<exists>out. splice_lines base c es = Some out"
  by (induction es arbitrary: c) auto

text \<open>The edits of one branch splice to that branch, from any point of the tiling.\<close>

lemma slice_drop: "a \<le> b \<Longrightarrow> slice (a, b) xs @ drop b xs = drop a xs"
  by (simp add: slice_def take_drop_append)

lemma slice_join: "a \<le> b \<Longrightarrow> b \<le> c \<Longrightarrow> slice (a, b) xs @ slice (b, c) xs = slice (a, c) xs"
  using take_add [of "b - a" "c - b" "drop a xs"] by (simp add: slice_def)

text \<open>One operation as the edits it gives.\<close>

definition op_edits ::
  "string list \<Rightarrow> string list \<Rightarrow> ((nat \<times> nat) \<times> nat \<times> nat) list \<Rightarrow> line_edit list" where
  "op_edits base branch ops = List.map_filter (\<lambda>(old, new).
     if snd old - fst old \<noteq> snd new - fst new \<or> slice old base \<noteq> slice new branch
     then Some \<lparr>le_start = fst old, le_end = snd old, le_lines = slice new branch\<rparr>
     else None) ops"

lemma line_edits_op_edits: "line_edits diff base branch = op_edits base branch (diff base branch)"
  by (simp add: line_edits_def op_edits_def)

lemma op_edits_simps [simp]:
  "op_edits base branch [] = []"
  "op_edits base branch ((old, new) # ops) =
     (if snd old - fst old \<noteq> snd new - fst new \<or> slice old base \<noteq> slice new branch
      then \<lparr>le_start = fst old, le_end = snd old, le_lines = slice new branch\<rparr>
        # op_edits base branch ops
      else op_edits base branch ops)"
  by (simp_all add: op_edits_def List.map_filter_simps)

lemma tiles_le: "tiles a rs b \<Longrightarrow> a \<le> b"
  by (induction rs arbitrary: a) force+

lemma edits_from_op_edits:
  "tiles a (map fst ops) (length base) \<Longrightarrow> edits_from a (op_edits base branch ops) (length base)"
proof (induction ops arbitrary: a)
  case (Cons op ops)
  obtain old new where op: "op = (old, new)" by (cases op)
  with Cons have IH: "edits_from (snd old) (op_edits base branch ops) (length base)"
    and "fst old = a" "a \<le> snd old" by auto
  then show ?case by (auto simp: op intro: edits_from_mono)
qed simp

lemma splice_op_edits:
  assumes "tiles a (map fst ops) (length base)" and "tiles b (map snd ops) (length branch)"
    and "c \<le> a"
  shows "splice_lines base c (op_edits base branch ops) = Some (slice (c, a) base @ drop b branch)"
  using assms
proof (induction ops arbitrary: a b c)
  case Nil
  then show ?case by (simp add: slice_def)
next
  case (Cons op ops)
  obtain o1 o2 n1 n2 where op: "op = ((o1, o2), n1, n2)" by (metis surj_pair)
  from Cons.prems op have a: "o1 = a" "a \<le> o2" "n1 = b" "b \<le> n2"
    and t: "tiles o2 (map fst ops) (length base)" "tiles n2 (map snd ops) (length branch)" by auto
  show ?case
  proof (cases "o2 - o1 \<noteq> n2 - n1 \<or> slice (o1, o2) base \<noteq> slice (n1, n2) branch")
    case True
    have "slice (o2, o2) base = []" by (simp add: slice_def)
    with Cons.IH [OF t order_refl] True Cons.prems(3) a show ?thesis
      by (simp add: op slice_drop)
  next
    case False
    then have "slice (c, o2) base = slice (c, a) base @ slice (b, n2) branch"
      using a Cons.prems(3) slice_join [of c a o2 base] by simp
    with Cons.IH [OF t, of c] False Cons.prems(3) a show ?thesis
      by (simp add: op slice_drop)
  qed
qed

section \<open>Merged edits are in order\<close>

definition edit_valid :: "nat \<Rightarrow> line_edit \<Rightarrow> bool" where
  "edit_valid n e \<longleftrightarrow> le_start e \<le> le_end e \<and> le_end e \<le> n"

text \<open>Two edits that do not conflict lie one behind the other, in the order of their keys.\<close>

lemma apart_of_no_conflict:
  assumes "edit_valid n e" and "edit_valid n f" and "edit_key e < edit_key f"
    and "\<not> line_edits_conflict e f"
  shows "le_end e \<le> le_start f"
  using assms
  by (cases "le_start e = le_end e"; cases "le_start f = le_end f")
    (auto simp: line_edits_conflict_def edit_valid_def edit_key_def max_def min_def split: if_splits)

lemma sorted_remdups_adj_strict:
  "sorted (map f xs) \<Longrightarrow> inj_on f (set xs) \<Longrightarrow> sorted_wrt (\<lambda>a b. f a < f b) (remdups_adj xs)"
proof (induction xs rule: remdups_adj.induct)
  case (3 x y xs)
  have "inj_on f (set (y # xs))" using 3(4) by (auto simp: inj_on_def)
  moreover have "sorted (map f (y # xs))" using 3(3) by simp
  ultimately have IH: "sorted_wrt (\<lambda>a b. f a < f b) (remdups_adj (y # xs))"
    using 3(1,2) by (cases "x = y") auto
  show ?case
  proof (cases "x = y")
    case True
    with IH show ?thesis by simp
  next
    case False
    then have "f x < f y" using 3(3,4) by (auto simp: inj_on_def order.strict_iff_order)
    moreover have "\<forall>z \<in> set (y # xs). f y \<le> f z" using 3(3) by auto
    ultimately have "\<forall>z \<in> set (remdups_adj (y # xs)). f x < f z" by fastforce
    with IH False show ?thesis by simp
  qed
qed simp_all

lemma merge_edits_facts:
  shows "set (merge_edits ls rs) = set ls \<union> set rs"
    and "sorted_wrt (\<lambda>a b. edit_key a < edit_key b) (merge_edits ls rs)"
  unfolding merge_edits_def
  by (auto intro!: sorted_remdups_adj_strict inj_onI edit_key_inj)

lemma edits_from_sorted:
  assumes "sorted_wrt (\<lambda>a b. edit_key a < edit_key b) es" and "\<forall>e \<in> set es. edit_valid n e"
    and "\<forall>e \<in> set es. \<forall>f \<in> set es. \<not> line_edits_conflict e f"
    and "\<forall>e \<in> set es. c \<le> le_start e" and "c \<le> n"
  shows "edits_from c es n"
  using assms
proof (induction es arbitrary: c)
  case (Cons e es)
  have "\<forall>f \<in> set es. le_end e \<le> le_start f"
    using Cons.prems by (auto intro: apart_of_no_conflict)
  moreover have "le_end e \<le> n" using Cons.prems(2) by (simp add: edit_valid_def)
  ultimately have "edits_from (le_end e) es n" using Cons.prems by (intro Cons.IH) auto
  with Cons.prems show ?case by (simp add: edit_valid_def)
qed simp

text \<open>The edits of one branch are valid and do not conflict with each other.\<close>

lemma edits_from_valid: "edits_from c es n \<Longrightarrow> e \<in> set es \<Longrightarrow> c \<le> le_start e \<and> edit_valid n e"
proof (induction es arbitrary: c)
  case (Cons f es)
  have "edits_from c es n \<Longrightarrow> c \<le> n" for c es
    by (induction es arbitrary: c) (auto intro: order_trans)
  with Cons show ?case by (auto simp: edit_valid_def intro: order_trans)
qed simp

definition insert_points :: "line_edit list \<Rightarrow> nat list" where
  "insert_points es = map le_start (filter (\<lambda>e. le_start e = le_end e) es)"

lemma insert_points_simps [simp]:
  "insert_points [] = []"
  "insert_points (e # es) =
     (if le_start e = le_end e then le_start e # insert_points es else insert_points es)"
  by (simp_all add: insert_points_def)

lemma no_conflict_in_branch:
  "edits_from c es n \<Longrightarrow> distinct (insert_points es) \<Longrightarrow> e \<in> set es \<Longrightarrow> f \<in> set es \<Longrightarrow>
    \<not> line_edits_conflict e f"
proof (induction es arbitrary: c)
  case (Cons g es)
  have behind: "\<not> line_edits_conflict g x" if "x \<in> set es" for x
  proof -
    have "le_end g \<le> le_start x" and "le_start g \<le> le_end g" and "edit_valid n x"
      using Cons.prems(1) that edits_from_valid [of "le_end g" es n x] by auto
    moreover have "le_start g = le_end g \<Longrightarrow> le_start x = le_end x \<Longrightarrow> le_start g \<noteq> le_start x"
      using Cons.prems(2) that by (simp add: insert_points_def image_iff)
    ultimately show ?thesis
      by (cases "le_start g = le_end g"; cases "le_start x = le_end x")
        (auto simp: line_edits_conflict_def edit_valid_def)
  qed
  then have ahead: "\<not> line_edits_conflict x g" if "x \<in> set es" for x
    using that line_edits_conflict_commute [of x g] by simp
  have "\<not> line_edits_conflict g g" by (simp add: line_edits_conflict_def)
  moreover have "distinct (insert_points es)" using Cons.prems(2) by (simp split: if_splits)
  ultimately show ?case using Cons.IH [of "le_end g"] Cons.prems behind ahead by auto
qed simp

lemma insert_points_subset:
  "set (insert_points (op_edits base branch ops)) \<subseteq>
     set (map fst (filter (\<lambda>r. fst r = snd r) (map fst ops)))"
proof (induction ops)
  case (Cons op ops)
  obtain a b new where "op = ((a, b), new)" by (cases op) (metis surj_pair)
  with Cons show ?case by auto
qed simp

lemma insert_points_op_edits:
  "distinct (map fst (filter (\<lambda>r. fst r = snd r) (map fst ops))) \<Longrightarrow>
    distinct (insert_points (op_edits base branch ops))"
proof (induction ops)
  case (Cons op ops)
  obtain a b new where "op = ((a, b), new)" by (cases op) (metis surj_pair)
  with Cons insert_points_subset [of base branch ops] show ?case by (auto split: if_splits)
qed simp

lemma line_edits_facts:
  assumes "diff_ok diff"
  shows "edits_from 0 (line_edits diff base branch) (length base)"
    and "distinct (insert_points (line_edits diff base branch))"
    and "splice_lines base 0 (line_edits diff base branch) = Some branch"
proof -
  let ?ops = "diff base branch"
  from assms have t: "tiles 0 (map fst ?ops) (length base)" "tiles 0 (map snd ?ops) (length branch)"
    and d: "distinct (map fst (filter (\<lambda>r. fst r = snd r) (map fst ?ops)))"
    by (auto simp: diff_ok_def)
  show "edits_from 0 (line_edits diff base branch) (length base)"
    using edits_from_op_edits [OF t(1)] by (simp add: line_edits_op_edits)
  show "distinct (insert_points (line_edits diff base branch))"
    using insert_points_op_edits [OF d] by (simp add: line_edits_op_edits)
  show "splice_lines base 0 (line_edits diff base branch) = Some branch"
    using splice_op_edits [OF t order_refl] by (simp add: line_edits_op_edits slice_def)
qed

lemma merged_edits_from:
  assumes "diff_ok diff"
    and "\<not> (\<exists>l \<in> set (line_edits diff base left). \<exists>r \<in> set (line_edits diff base right).
      line_edits_conflict l r)"
  shows "edits_from 0 (merge_edits (line_edits diff base left) (line_edits diff base right)) (length base)"
proof (rule edits_from_sorted)
  let ?ls = "line_edits diff base left" and ?rs = "line_edits diff base right"
  note l = line_edits_facts [OF assms(1), of base left]
  note r = line_edits_facts [OF assms(1), of base right]
  show "sorted_wrt (\<lambda>a b. edit_key a < edit_key b) (merge_edits ?ls ?rs)"
    by (rule merge_edits_facts)
  show "\<forall>e \<in> set (merge_edits ?ls ?rs). edit_valid (length base) e"
    using edits_from_valid [OF l(1)] edits_from_valid [OF r(1)] by (auto simp: merge_edits_facts)
  show "\<forall>e \<in> set (merge_edits ?ls ?rs). \<forall>f \<in> set (merge_edits ?ls ?rs). \<not> line_edits_conflict e f"
    using assms(2) no_conflict_in_branch [OF l(1,2)] no_conflict_in_branch [OF r(1,2)]
    by (auto simp: merge_edits_facts) (metis line_edits_conflict_commute)
qed simp_all

lemma merge_text_lines_None:
  assumes "diff_ok diff"
  shows "merge_text_lines diff base left right = None \<longleftrightarrow>
    left \<noteq> right \<and> left \<noteq> base \<and> right \<noteq> base \<and>
    (\<exists>l \<in> set (line_edits diff (split_lines base) (split_lines left)).
     \<exists>r \<in> set (line_edits diff (split_lines base) (split_lines right)). line_edits_conflict l r)"
  using splice_lines_total [OF merged_edits_from [OF assms]]
  by (auto simp: merge_text_lines_def Let_def)

section \<open>Djot blocks\<close>

datatype attribute_kind = AttrId | AttrOther

datatype 'c djot_event =
  StartEvent 'c "(attribute_kind \<times> string) list" | EndEvent 'c | OtherEvent

record 'c djot_api =
  dj_parse :: "string \<Rightarrow> ('c djot_event \<times> nat \<times> nat) list"
  dj_section :: "'c \<Rightarrow> string option"
  dj_document :: "'c \<Rightarrow> bool"
  dj_debug :: "'c \<Rightarrow> string"

record block_key =
  bk_section :: "string list"
  bk_identity :: string

record block =
  bl_key :: block_key
  bl_source :: string

record pending_block =
  pb_key :: block_key
  pb_depth :: nat
  pb_start :: nat
  pb_end :: nat

definition explicit_id :: "(attribute_kind \<times> string) list \<Rightarrow> string option" where
  "explicit_id attrs = find_map (\<lambda>(k, v). if k = AttrId then Some v else None) attrs"

definition is_document_or_section :: "'c djot_api \<Rightarrow> 'c \<Rightarrow> bool" where
  "is_document_or_section api c \<longleftrightarrow> dj_document api c \<or> dj_section api c \<noteq> None"

definition is_merge_block :: "'c djot_api \<Rightarrow> 'c \<Rightarrow> bool" where
  "is_merge_block api c \<longleftrightarrow> \<not> (dj_document api c \<or> dj_section api c \<noteq> None)"

definition container_kind :: "'c djot_api \<Rightarrow> 'c \<Rightarrow> string" where
  "container_kind api c =
     takeWhile (\<lambda>x. x \<notin> {CHR '' '', CHR ''{'', CHR ''(''}) (dj_debug api c)"

text \<open>The state of the walk over the parser's events; the top of the stack is its head.\<close>

record 'c block_scan =
  bs_sections :: "string list"
  bs_stack :: "'c list"
  bs_ordinals :: "string list \<times> string \<Rightarrow> nat option"
  bs_pending :: "pending_block option"
  bs_raw :: "pending_block list"

definition scan_start ::
  "'c djot_api \<Rightarrow> 'c \<Rightarrow> (attribute_kind \<times> string) list \<Rightarrow> nat \<times> nat \<Rightarrow> 'c block_scan
     \<Rightarrow> 'c block_scan option" where
  "scan_start api c attrs rng st =
     (let st' = st\<lparr>bs_stack := c # bs_stack st\<rparr>
      in case dj_section api c of
        Some s \<Rightarrow> Some (st'\<lparr>bs_sections := bs_sections st @ [s]\<rparr>)
      | None \<Rightarrow>
          if (case bs_stack st of [] \<Rightarrow> False | p # _ \<Rightarrow> is_document_or_section api p)
             \<and> is_merge_block api c
          then if bs_pending st \<noteq> None then None
            else let kind = container_kind api c; k = (bs_sections st, kind);
                     ordinal = (case bs_ordinals st k of Some n \<Rightarrow> n + 1 | None \<Rightarrow> 0);
                     identity = (case explicit_id attrs of
                         Some i \<Rightarrow> ''id:'' @ i
                       | None \<Rightarrow> kind @ '':'' @ nat_str ordinal)
                 in Some (st'\<lparr>bs_ordinals := (bs_ordinals st)(k \<mapsto> ordinal),
                      bs_pending := Some \<lparr>pb_key = \<lparr>bk_section = bs_sections st,
                          bk_identity = identity\<rparr>,
                        pb_depth = length (bs_stack st) + 1,
                        pb_start = fst rng, pb_end = snd rng\<rparr>\<rparr>)
          else Some st')"

definition scan_end :: "'c djot_api \<Rightarrow> 'c \<Rightarrow> 'c block_scan \<Rightarrow> 'c block_scan option" where
  "scan_end api c st =
     (let st1 = (case bs_pending st of
          Some b \<Rightarrow> if pb_depth b = length (bs_stack st)
            then st\<lparr>bs_raw := bs_raw st @ [b], bs_pending := None\<rparr> else st
        | None \<Rightarrow> st)
      in case bs_stack st1 of
        [] \<Rightarrow> None
      | opened # stack \<Rightarrow>
          if opened \<noteq> c then None
          else if dj_section api c \<noteq> None
          then (if bs_sections st1 = [] then None
                else Some (st1\<lparr>bs_stack := stack, bs_sections := butlast (bs_sections st1)\<rparr>))
          else Some (st1\<lparr>bs_stack := stack\<rparr>))"

definition scan_event ::
  "'c djot_api \<Rightarrow> 'c djot_event \<times> nat \<times> nat \<Rightarrow> 'c block_scan \<Rightarrow> 'c block_scan option" where
  "scan_event api ev st = (case ev of (event, rng) \<Rightarrow>
     let st' = st\<lparr>bs_pending := map_option (\<lambda>b.
           b\<lparr>pb_start := min (pb_start b) (fst rng), pb_end := max (pb_end b) (snd rng)\<rparr>)
         (bs_pending st)\<rparr>
     in case event of
       StartEvent c attrs \<Rightarrow> scan_start api c attrs rng st'
     | EndEvent c \<Rightarrow> scan_end api c st'
     | OtherEvent \<Rightarrow> Some st')"

fun scan_events ::
  "'c djot_api \<Rightarrow> ('c djot_event \<times> nat \<times> nat) list \<Rightarrow> 'c block_scan \<Rightarrow> 'c block_scan option" where
  "scan_events api [] st = Some st"
| "scan_events api (ev # evs) st =
     (case scan_event api ev st of None \<Rightarrow> None | Some st' \<Rightarrow> scan_events api evs st')"

text \<open>Every span is made to reach to the next one, the first from the start, the last to the end.\<close>

fun close_spans :: "nat \<Rightarrow> pending_block list \<Rightarrow> pending_block list" where
  "close_spans n [] = []"
| "close_spans n [b] = [b\<lparr>pb_end := n\<rparr>]"
| "close_spans n (b # c # bs) = b\<lparr>pb_end := pb_start c\<rparr> # close_spans n (c # bs)"

fun partition_spans :: "nat \<Rightarrow> pending_block list \<Rightarrow> pending_block list" where
  "partition_spans n [] = []"
| "partition_spans n (b # bs) = close_spans n (b\<lparr>pb_start := 0\<rparr> # bs)"

definition spans_broken :: "pending_block list \<Rightarrow> bool" where
  "spans_broken raw \<longleftrightarrow>
     (\<exists>(a, b) \<in> set (zip raw (tl raw)). pb_start a > pb_end a \<or> pb_end a > pb_start b) \<or>
     raw \<noteq> [] \<and> pb_start (last raw) > pb_end (last raw)"

text \<open>
  \<open>blocks\<close>: \<open>Raise\<close> is its \<open>None\<close>, and a slice that is not on character boundaries panics.
\<close>

definition cut_blocks :: "string \<Rightarrow> pending_block list \<Rightarrow> (unit, block list) outcome" where
  "cut_blocks src raw =
     (case collect_options (map (\<lambda>b. map_option (\<lambda>t. \<lparr>bl_key = pb_key b, bl_source = t\<rparr>)
             (str_get src (pb_start b) (pb_end b))) raw) of
        Some bs \<Rightarrow> Done bs | None \<Rightarrow> Halt Panicked)"

definition blocks :: "'c djot_api \<Rightarrow> string \<Rightarrow> (unit, block list) outcome" where
  "blocks api src =
     (case scan_events api (dj_parse api src)
        \<lparr>bs_sections = [], bs_stack = [], bs_ordinals = Map.empty, bs_pending = None, bs_raw = []\<rparr> of
        None \<Rightarrow> Raise ()
      | Some st \<Rightarrow>
          if bs_pending st \<noteq> None \<or> bs_stack st \<noteq> [] \<or> bs_raw st = [] then Raise ()
          else let raw = partition_spans (length src) (bs_raw st)
               in if spans_broken raw then Raise () else cut_blocks src raw)"

definition merge_block :: "diff \<Rightarrow> string \<Rightarrow> string \<Rightarrow> string \<Rightarrow> string option" where
  "merge_block diff base left right =
     (if left = right then Some left
      else if left = base then Some right
      else if right = base then Some left
      else merge_text_lines diff base left right)"

fun chain :: "('e, 'a) outcome \<Rightarrow> ('a \<Rightarrow> ('e, 'b) outcome) \<Rightarrow> ('e, 'b) outcome" where
  "chain (Done a) f = f a"
| "chain (Raise e) f = Raise e"
| "chain (Halt h) f = Halt h"

definition merge_same_blocks ::
  "diff \<Rightarrow> block list \<Rightarrow> block list \<Rightarrow> block list \<Rightarrow> (unit, string) outcome" where
  "merge_same_blocks diff bs ls rs =
     (if length bs < 2 \<or> map bl_key bs \<noteq> map bl_key ls \<or> map bl_key bs \<noteq> map bl_key rs
      then Raise ()
      else case merge_lists (merge_block diff)
          (map bl_source bs) (map bl_source ls) (map bl_source rs) of
        None \<Rightarrow> Raise () | Some ms \<Rightarrow> Done (concat ms))"

definition merge_djot_sources ::
  "'c djot_api \<Rightarrow> diff \<Rightarrow> string \<Rightarrow> string \<Rightarrow> string \<Rightarrow> (unit, string) outcome" where
  "merge_djot_sources api diff base left right =
     (if left = right then Done left
      else if left = base then Done right
      else if right = base then Done left
      else chain (blocks api base) (\<lambda>bs. chain (blocks api left) (\<lambda>ls.
           chain (blocks api right) (merge_same_blocks diff bs ls))))"

section \<open>Documents\<close>

record vault_document =
  vd_id :: string
  vd_title :: string
  vd_body :: string
  vd_media_type :: string

definition merge_body ::
  "'c djot_api \<Rightarrow> diff \<Rightarrow> string \<Rightarrow> string \<Rightarrow> string \<Rightarrow> string \<Rightarrow> (unit, string) outcome" where
  "merge_body api diff media base left right =
     (let by_lines = (case merge_text_lines diff base left right of
          None \<Rightarrow> Raise () | Some m \<Rightarrow> Done m)
      in if media = ''text/djot'' \<or> media = ''text/vnd.knot''
         then case merge_djot_sources api diff base left right of
                Raise _ \<Rightarrow> by_lines | r \<Rightarrow> r
         else by_lines)"

definition merge_text_document ::
  "'c djot_api \<Rightarrow> diff \<Rightarrow> vault_document \<Rightarrow> vault_document \<Rightarrow> vault_document
     \<Rightarrow> (unit, vault_document) outcome" where
  "merge_text_document api diff base left right =
     (if vd_id base \<noteq> vd_id left \<or> vd_id base \<noteq> vd_id right then Raise ()
      else case merge_scalar (vd_title base) (vd_title left) (vd_title right) of
        None \<Rightarrow> Raise ()
      | Some title \<Rightarrow>
      (case merge_scalar (vd_media_type base) (vd_media_type left) (vd_media_type right) of
        None \<Rightarrow> Raise ()
      | Some media \<Rightarrow>
          if \<not> starts_with media ''text/'' then Raise ()
          else if \<not> utf8_valid (vd_body base) \<or> \<not> utf8_valid (vd_body left)
                \<or> \<not> utf8_valid (vd_body right) then Raise ()
          else chain (merge_body api diff media (vd_body base) (vd_body left) (vd_body right))
            (\<lambda>body. Done \<lparr>vd_id = vd_id base, vd_title = title, vd_body = body,
                        vd_media_type = media\<rparr>)))"

record 'op document_version =
  dv_writer :: 'op
  dv_operation :: 'op
  dv_document :: "vault_document option"

record 'op automatic_merge =
  am_id :: string
  am_base :: 'op
  am_supersedes :: "'op list"
  am_document :: vault_document

text \<open>
  The versions are the values of a map from writers, in its key order; \<open>before\<close> is the causal
  index's question. The ancestor is the last entry of the history that qualifies.
\<close>

definition common_ancestor ::
  "('op \<Rightarrow> 'op \<Rightarrow> bool) \<Rightarrow> ('op \<times> string \<times> vault_document option) list \<Rightarrow> string \<Rightarrow> 'op \<Rightarrow> 'op
     \<Rightarrow> ('op \<times> vault_document) option" where
  "common_ancestor before history i v w = find_map (\<lambda>(operation, event_id, document).
     case document of
       None \<Rightarrow> None
     | Some d \<Rightarrow> if event_id = i \<and> before operation v \<and> before operation w
                then Some (operation, d) else None) (rev history)"

definition automatic_text_merge ::
  "'c djot_api \<Rightarrow> diff \<Rightarrow> ('op::linorder \<Rightarrow> 'op \<Rightarrow> bool)
     \<Rightarrow> ('op \<times> string \<times> vault_document option) list \<Rightarrow> string \<Rightarrow> 'op document_version list
     \<Rightarrow> (unit, 'op automatic_merge) outcome" where
  "automatic_text_merge api diff before history i versions =
     (case versions of
        [v, w] \<Rightarrow> (case (dv_document v, dv_document w) of
          (Some left, Some right) \<Rightarrow>
            (case common_ancestor before history i (dv_operation v) (dv_operation w) of
               None \<Rightarrow> Raise ()
             | Some (base_op, base) \<Rightarrow> chain (merge_text_document api diff base left right)
                 (\<lambda>d. Done \<lparr>am_id = i, am_base = base_op,
                   am_supersedes = sort [dv_operation v, dv_operation w], am_document = d\<rparr>))
        | _ \<Rightarrow> Raise ())
      | _ \<Rightarrow> Raise ())"

text \<open>A merge that panics settles nothing, and neither does one that declines.\<close>

fun settled :: "('e, 'a) outcome \<Rightarrow> 'a option" where
  "settled (Done a) = Some a"
| "settled (Raise e) = None"
| "settled (Halt h) = None"

section \<open>Blocks partition their source\<close>

lemma map_Some_list_all2: "map f xs = map Some ys \<Longrightarrow> list_all2 (\<lambda>x y. f x = Some y) xs ys"
  by (induction xs arbitrary: ys) (auto simp: Cons_eq_map_conv)

lemma collect_cut:
  assumes "cut_blocks src raw = Done bs"
  shows "list_all2 (\<lambda>b bl. bl_key bl = pb_key b \<and>
    pb_start b \<le> pb_end b \<and> bl_source bl = slice (pb_start b, pb_end b) src) raw bs"
proof -
  have "map (\<lambda>b. map_option (\<lambda>t. \<lparr>bl_key = pb_key b, bl_source = t\<rparr>)
      (str_get src (pb_start b) (pb_end b))) raw = map Some bs"
    using assms by (simp add: cut_blocks_def collect_options_Some split: option.splits)
  then have "list_all2 (\<lambda>b bl. map_option (\<lambda>t. \<lparr>bl_key = pb_key b, bl_source = t\<rparr>)
      (str_get src (pb_start b) (pb_end b)) = Some bl) raw bs"
    by (rule map_Some_list_all2)
  then show ?thesis
    by (rule list_all2_mono) (auto simp: str_get_def slice_def split: if_splits)
qed

lemma close_spans_concat:
  "list_all2 (\<lambda>b t. pb_start b \<le> pb_end b \<and> t = slice (pb_start b, pb_end b) src)
     (close_spans (length src) (b # bs)) ts \<Longrightarrow> concat ts = drop (pb_start b) src"
proof (induction "length src" "b # bs" arbitrary: b bs ts rule: close_spans.induct)
  case (2 b)
  then show ?case by (auto simp: list_all2_Cons1 slice_def)
next
  case (3 b c bs)
  then obtain ts' where ts: "ts = slice (pb_start b, pb_start c) src # ts'" "pb_start b \<le> pb_start c"
    "list_all2 (\<lambda>b t. pb_start b \<le> pb_end b \<and> t = slice (pb_start b, pb_end b) src)
       (close_spans (length src) (c # bs)) ts'"
    by (auto simp: list_all2_Cons1)
  with 3(1) [OF ts(3)] show ?case by (simp add: slice_drop)
qed

lemma blocks_concat:
  assumes "blocks api src = Done bs"
  shows "concat (map bl_source bs) = src \<and> bs \<noteq> []"
proof -
  from assms obtain b raw where cut: "cut_blocks src (partition_spans (length src) (b # raw)) = Done bs"
    by (auto simp: blocks_def Let_def neq_Nil_conv split: option.splits if_splits)
  let ?raw = "partition_spans (length src) (b # raw)"
  have "list_all2 (\<lambda>b t. pb_start b \<le> pb_end b \<and> t = slice (pb_start b, pb_end b) src)
      ?raw (map bl_source bs)"
    using collect_cut [OF cut] by (auto simp: list_all2_map2 elim: list_all2_mono)
  then have "concat (map bl_source bs) = drop (pb_start (b\<lparr>pb_start := 0\<rparr>)) src"
    by (intro close_spans_concat) simp
  moreover have "?raw \<noteq> []" by (cases raw) simp_all
  ultimately show ?thesis using collect_cut [OF cut] by auto
qed

section \<open>The Djot merge and the document merge are symmetric\<close>

lemma merge_block_eq: "merge_block diff = merge_text_lines diff"
  by (intro ext) (simp add: merge_block_def merge_text_lines_def)

lemma settled_and_then: "settled (chain x f) = Option.bind (settled x) (\<lambda>a. settled (f a))"
  by (cases x) simp_all

lemma settled_Some [simp]: "settled x = Some a \<longleftrightarrow> x = Done a"
  by (cases x) auto

lemma merge_lists_swap:
  "merge_lists (merge_block diff) bs ls rs = merge_lists (merge_block diff) bs rs ls"
  unfolding merge_block_eq by (rule lines.merge_lists_commute)

lemma merge_same_blocks_swap: "merge_same_blocks diff bs ls rs = merge_same_blocks diff bs rs ls"
  using merge_lists_swap [of diff "map bl_source bs" "map bl_source ls" "map bl_source rs"]
  by (auto simp: merge_same_blocks_def)

lemma merge_djot_commute:
  "settled (merge_djot_sources api diff b l r) = settled (merge_djot_sources api diff b r l)"
proof -
  have "settled (chain (blocks api l) (\<lambda>ls. chain (blocks api r) (merge_same_blocks diff bs ls)))
      = settled (chain (blocks api r) (\<lambda>ls. chain (blocks api l) (merge_same_blocks diff bs ls)))" for bs
    by (cases "blocks api l"; cases "blocks api r")
      (simp_all add: merge_same_blocks_swap [of diff bs])
  then show ?thesis
    by (simp add: merge_djot_sources_def settled_and_then del: settled_Some)
qed

interpretation djot: three_way "\<lambda>b l r. settled (merge_djot_sources api diff b l r)" for api diff
  by unfold_locales (rule merge_djot_commute | simp add: merge_djot_sources_def)+

text \<open>
  The parser's ranges are offsets of characters. Then no slice panics, and the djot merge gives
  the same outcome for exchanged sides, not only the same document.
\<close>

definition parser_ok :: "'c djot_api \<Rightarrow> bool" where
  "parser_ok api \<longleftrightarrow> (\<forall>src. \<forall>(ev, rng) \<in> set (dj_parse api src). is_char_boundary src (fst rng))"

definition scan_bounded :: "string \<Rightarrow> 'c block_scan \<Rightarrow> bool" where
  "scan_bounded src st \<longleftrightarrow>
     (\<forall>b \<in> set (bs_raw st) \<union> set_option (bs_pending st). is_char_boundary src (pb_start b))"

lemma scan_event_bounded:
  assumes "scan_bounded src st" and "is_char_boundary src (fst rng)"
    and "scan_event api (ev, rng) st = Some st'"
  shows "scan_bounded src st'"
  using assms
  by (auto simp: scan_event_def scan_start_def scan_end_def scan_bounded_def Let_def min_def
      split: djot_event.splits option.splits if_splits list.splits)

lemma scan_events_bounded:
  assumes "scan_bounded src st" and "\<forall>(ev, rng) \<in> set evs. is_char_boundary src (fst rng)"
    and "scan_events api evs st = Some st'"
  shows "scan_bounded src st'"
  using assms
proof (induction evs arbitrary: st)
  case (Cons e evs)
  then show ?case
    by (cases e) (simp split: option.splits; metis scan_event_bounded fst_conv)
qed simp

lemma close_spans_bounds:
  assumes "\<forall>b \<in> set bs. is_char_boundary src (pb_start b)"
  shows "\<forall>b \<in> set (close_spans (length src) bs).
    is_char_boundary src (pb_start b) \<and> is_char_boundary src (pb_end b)"
  using assms by (induction "length src" bs rule: close_spans.induct) auto

lemma ordered_spans:
  assumes "\<not> spans_broken raw" and "b \<in> set raw"
  shows "pb_start b \<le> pb_end b"
  using assms
proof (induction raw)
  case (Cons a raw)
  then show ?case by (cases raw) (auto simp: spans_broken_def split: if_splits)
qed simp

lemma blocks_no_panic:
  assumes "parser_ok api"
  shows "blocks api src \<noteq> Halt h"
proof
  assume halt: "blocks api src = Halt h"
  then obtain st where
    scan: "scan_events api (dj_parse api src) \<lparr>bs_sections = [], bs_stack = [],
      bs_ordinals = Map.empty, bs_pending = None, bs_raw = []\<rparr> = Some st"
    and ok: "\<not> spans_broken (partition_spans (length src) (bs_raw st))"
    and cut: "cut_blocks src (partition_spans (length src) (bs_raw st)) = Halt h"
    by (auto simp: blocks_def Let_def split: option.splits if_splits)
  let ?raw = "partition_spans (length src) (bs_raw st)"
  have "scan_bounded src st"
    using assms by (intro scan_events_bounded [OF _ _ scan]) (auto simp: scan_bounded_def parser_ok_def)
  then have "\<forall>b \<in> set ?raw. is_char_boundary src (pb_start b) \<and> is_char_boundary src (pb_end b)"
    by (cases "bs_raw st") (simp_all only: partition_spans.simps, simp,
        intro close_spans_bounds, auto simp: scan_bounded_def)
  then have "str_get src (pb_start b) (pb_end b) \<noteq> None" if "b \<in> set ?raw" for b
    using that ordered_spans [OF ok that] by (simp add: str_get_def)
  then have "\<exists>bs. map (\<lambda>b. map_option (\<lambda>t. \<lparr>bl_key = pb_key b, bl_source = t\<rparr>)
      (str_get src (pb_start b) (pb_end b))) ?raw = map Some bs"
    by (intro exI [of _ "map (\<lambda>b. \<lparr>bl_key = pb_key b,
          bl_source = the (str_get src (pb_start b) (pb_end b))\<rparr>) ?raw"]) fastforce
  then show False
    using cut by (auto simp: cut_blocks_def collect_options_Some [symmetric] split: option.splits)
qed

lemma merge_djot_outcome:
  assumes "parser_ok api"
  shows "merge_djot_sources api diff b l r = merge_djot_sources api diff b r l"
    and "merge_djot_sources api diff b l r \<noteq> Halt h"
proof -
  show *: "merge_djot_sources api diff b l r \<noteq> Halt h" for l r h
    using blocks_no_panic [OF assms, of b] blocks_no_panic [OF assms, of l] blocks_no_panic [OF assms, of r]
    by (cases "blocks api b"; cases "blocks api l"; cases "blocks api r")
      (auto simp: merge_djot_sources_def merge_same_blocks_def split: option.split)
  show "merge_djot_sources api diff b l r = merge_djot_sources api diff b r l"
    using merge_djot_commute [of api diff b l r] * [of l r] * [of r l]
    by (cases "merge_djot_sources api diff b l r"; cases "merge_djot_sources api diff b r l")
      (auto simp: eq_commute [of _ "Done _"])
qed

lemma merge_text_document_commute:
  assumes "parser_ok api"
  shows "merge_text_document api diff b l r = merge_text_document api diff b r l"
proof -
  have swap: "merge_body api diff media x y z = merge_body api diff media x z y" for media x y z
    unfolding merge_body_def merge_text_lines_commute [of diff x y z]
      merge_djot_outcome(1) [OF assms, of diff x y z] by (rule refl)
  show ?thesis
    unfolding merge_text_document_def
    by (auto simp: scalar.merge_commute [of "vd_title b" "vd_title l"]
        scalar.merge_commute [of "vd_media_type b" "vd_media_type l"]
        swap [of _ "vd_body b" "vd_body l"] split: option.split)
qed

section \<open>Samples\<close>

text \<open>A diff that compares line by line, and a parser that sees one paragraph.\<close>

definition sample_diff :: diff where
  "sample_diff base branch =
     (if length base = length branch
      then map (\<lambda>i. ((i, Suc i), (i, Suc i))) [0..<length base]
      else [((0, length base), (0, length branch))])"

lemma tiles_unit: "a \<le> b \<Longrightarrow> tiles a (map (\<lambda>i. (i, Suc i)) [a..<b]) b"
proof (induction "b - a" arbitrary: a)
  case (Suc n)
  then have "a < b" by simp
  with Suc show ?case by (simp add: upt_conv_Cons)
qed simp

lemma sample_diff_ok: "diff_ok sample_diff"
  using tiles_unit [of 0] by (auto simp: diff_ok_def sample_diff_def comp_def)

definition sample_djot :: "bool djot_api" where
  "sample_djot = \<lparr>
     dj_parse = (\<lambda>s. [(StartEvent True [], 0, 0), (StartEvent False [], 0, length s),
       (EndEvent False, length s, length s), (EndEvent True, length s, length s)]),
     dj_section = (\<lambda>_. None), dj_document = (\<lambda>c. c),
     dj_debug = (\<lambda>c. if c then ''Document'' else ''Paragraph'')\<rparr>"

lemma sample_djot_ok: "parser_ok sample_djot"
  by (simp add: parser_ok_def sample_djot_def)

text \<open>A parser that makes a paragraph of every line.\<close>

fun line_events :: "nat \<Rightarrow> string list \<Rightarrow> (bool djot_event \<times> nat \<times> nat) list" where
  "line_events k [] = [(EndEvent True, k, k)]"
| "line_events k (l # ls) =
     (StartEvent False [], k, k) # (EndEvent False, k + length l, k + length l)
       # line_events (k + length l) ls"

definition line_djot :: "bool djot_api" where
  "line_djot = sample_djot\<lparr>dj_parse := (\<lambda>s.
     (StartEvent True [], 0, 0) # line_events 0 (split_lines s))\<rparr>"

definition abc_base :: string where "abc_base = [CHR ''a'', nl, CHR ''b'', nl]"
definition abc_left :: string where "abc_left = [CHR ''x'', nl, CHR ''b'', nl]"
definition abc_right :: string where "abc_right = [CHR ''a'', nl, CHR ''y'', nl]"

lemma abc_facts:
  "abc_left \<noteq> abc_right" "abc_left \<noteq> abc_base" "abc_right \<noteq> abc_base"
  "merge_text_lines sample_diff abc_base abc_left abc_right = Some [CHR ''x'', nl, CHR ''y'', nl]"
  "merge_djot_sources line_djot sample_diff abc_base abc_left abc_right
     = Done [CHR ''x'', nl, CHR ''y'', nl]"
  "\<exists>bs. blocks sample_djot abc_base = Done bs"
proof -
  show "abc_left \<noteq> abc_right" "abc_left \<noteq> abc_base" "abc_right \<noteq> abc_base"
    by (simp_all add: abc_left_def abc_right_def abc_base_def)
  show "merge_text_lines sample_diff abc_base abc_left abc_right = Some [CHR ''x'', nl, CHR ''y'', nl]"
    by code_simp
  show "merge_djot_sources line_djot sample_diff abc_base abc_left abc_right
     = Done [CHR ''x'', nl, CHR ''y'', nl]" by code_simp
  have "case blocks sample_djot abc_base of Done bs \<Rightarrow> True | _ \<Rightarrow> False" by code_simp
  then show "\<exists>bs. blocks sample_djot abc_base = Done bs" by (auto split: outcome.splits)
qed

definition note_document :: "string \<Rightarrow> vault_document" where
  "note_document body = \<lparr>vd_id = ''n'', vd_title = ''t'', vd_body = body, vd_media_type = ''text/djot''\<rparr>"

lemma sample_automatic:
  "\<exists>m. automatic_text_merge line_djot sample_diff (<) [(1, ''n'', Some (note_document abc_base))] ''n''
     [\<lparr>dv_writer = 0, dv_operation = 3, dv_document = Some (note_document abc_left)\<rparr>,
      \<lparr>dv_writer = 1, dv_operation = 2 :: nat, dv_document = Some (note_document abc_right)\<rparr>] = Done m"
proof -
  have "case automatic_text_merge line_djot sample_diff (<) [(1, ''n'', Some (note_document abc_base))] ''n''
     [\<lparr>dv_writer = 0, dv_operation = 3, dv_document = Some (note_document abc_left)\<rparr>,
      \<lparr>dv_writer = 1, dv_operation = 2 :: nat, dv_document = Some (note_document abc_right)\<rparr>] of
     Done _ \<Rightarrow> True | _ \<Rightarrow> False" by code_simp
  then show ?thesis by (auto split: outcome.splits)
qed

section \<open>Properties\<close>

text \<open>
  C23: A line merge fails exactly where the sides disagree about the same lines. With a diff that
  tiles both texts, the merge returns nothing if and only if all three texts differ and some edit
  of the left conflicts with some edit of the right; its second way out, an edit that starts
  before the output has reached it, is never taken.
\<close>
theorem merge_text_lines_complete:
  assumes "diff_ok diff"
  shows "merge_text_lines diff base left right = None \<longleftrightarrow>
    left \<noteq> right \<and> left \<noteq> base \<and> right \<noteq> base \<and>
    (\<exists>l \<in> set (line_edits diff (split_lines base) (split_lines left)).
     \<exists>r \<in> set (line_edits diff (split_lines base) (split_lines right)). line_edits_conflict l r)"
  using assms by (rule merge_text_lines_None)

theorem merge_text_lines_complete_witness:
  "\<not> (\<exists>l \<in> set (line_edits sample_diff (split_lines abc_base) (split_lines abc_left)).
     \<exists>r \<in> set (line_edits sample_diff (split_lines abc_base) (split_lines abc_right)).
       line_edits_conflict l r)"
  using merge_text_lines_complete [OF sample_diff_ok, of abc_base abc_left abc_right] abc_facts(1-4)
  by simp



text \<open>
  C30: Blocks are the source. The blocks of a Djot text, put together, are exactly that text,
  whatever spans the parser gives; nothing is dropped, repeated or moved.
\<close>
theorem blocks_partition:
  assumes "blocks api src = Done bs"
  shows "concat (map bl_source bs) = src \<and> bs \<noteq> []"
  using assms by (rule blocks_concat)

theorem blocks_partition_witness:
  "\<exists>bs. blocks sample_djot abc_base = Done bs \<and> concat (map bl_source bs) = abc_base"
  using abc_facts(6) blocks_partition [of sample_djot abc_base] by blast

text \<open>
  Settling a document does not depend on which writer is called left. With a parser whose
  ranges are character offsets, exchanging the two sides gives the same document or the same
  refusal, for every format.
\<close>
theorem merge_text_document_symmetric:
  assumes "parser_ok api"
  shows "merge_text_document api diff base left right = merge_text_document api diff base right left"
  using assms by (rule merge_text_document_commute)

theorem merge_text_document_symmetric_witness:
  "merge_text_document sample_djot sample_diff (note_document abc_base) (note_document abc_left)
      (note_document abc_right)
   = merge_text_document sample_djot sample_diff (note_document abc_base) (note_document abc_right)
      (note_document abc_left)"
  by (rule merge_text_document_symmetric [OF sample_djot_ok])

text \<open>
  A document that only one writer changed settles to that writer's document. If one side is
  the base, the other side is taken whole, when its media type is text and the bodies are UTF-8;
  the same where both sides are the same document.
\<close>
theorem merge_text_document_one_sided:
  assumes "vd_id d = vd_id base" and "starts_with (vd_media_type d) ''text/''"
    and "utf8_valid (vd_body d)" and "utf8_valid (vd_body base)"
  shows "merge_text_document api diff base base d = Done d \<and>
    merge_text_document api diff base d base = Done d \<and>
    merge_text_document api diff base d d = Done d"
proof -
  have "merge_body api diff media b b x = Done x" "merge_body api diff media b x b = Done x"
    "merge_body api diff media b x x = Done x" for media b x
    using djot.merge_left_base [of api diff b x] djot.merge_right_base [of api diff b x]
      djot.merge_same [of api diff b x]
    by (simp_all add: merge_body_def Let_def lines.merge_left_base lines.merge_right_base lines.merge_same)
  then show ?thesis
    using assms by (simp add: merge_text_document_def scalar.merge_left_base
        scalar.merge_right_base scalar.merge_same)
qed

theorem merge_text_document_one_sided_witness:
  "merge_text_document sample_djot sample_diff (note_document ''a'') (note_document ''a'')
     (note_document ''b'') = Done (note_document ''b'')"
  using merge_text_document_one_sided [of "note_document ''b''" "note_document ''a''" sample_djot sample_diff]
  by (simp add: note_document_def utf8_valid_def utf8_width_def byte_def)



text \<open>
  An automatic merge stands on a common ancestor. It is made only of exactly two live
  versions, its base is an operation of that very document that happened before both, no later
  entry of the history would do, it supersedes exactly the two versions in order, and its
  document is the merge of the three.
\<close>
theorem automatic_text_merge_sound:
  assumes "automatic_text_merge api diff before history i versions = Done m"
  shows "\<exists>v w left right base. versions = [v, w] \<and> dv_document v = Some left \<and>
    dv_document w = Some right \<and> (am_base m, i, Some base) \<in> set history \<and>
    before (am_base m) (dv_operation v) \<and> before (am_base m) (dv_operation w) \<and>
    merge_text_document api diff base left right = Done (am_document m) \<and> am_id m = i \<and>
    sorted (am_supersedes m) \<and> mset (am_supersedes m) = {#dv_operation v, dv_operation w#}"
proof -
  from assms obtain v w left right base_op base d where v: "versions = [v, w]"
    "dv_document v = Some left" "dv_document w = Some right"
    and anc: "common_ancestor before history i (dv_operation v) (dv_operation w) = Some (base_op, base)"
    and d: "merge_text_document api diff base left right = Done d"
    and m: "m = \<lparr>am_id = i, am_base = base_op,
      am_supersedes = sort [dv_operation v, dv_operation w], am_document = d\<rparr>"
    by (auto simp: automatic_text_merge_def split: list.splits option.splits prod.splits
        elim!: chain.elims)
  from find_map_Some [OF anc [unfolded common_ancestor_def]]
  have "(base_op, i, Some base) \<in> set history \<and> before base_op (dv_operation v) \<and>
      before base_op (dv_operation w)"
    by (auto split: option.splits if_splits)
  with v d show ?thesis by (auto simp: m)
qed

theorem automatic_text_merge_sound_witness:
  "\<exists>m. automatic_text_merge line_djot sample_diff (<) [(1, ''n'', Some (note_document abc_base))] ''n''
     [\<lparr>dv_writer = 0, dv_operation = 3, dv_document = Some (note_document abc_left)\<rparr>,
      \<lparr>dv_writer = 1, dv_operation = 2 :: nat, dv_document = Some (note_document abc_right)\<rparr>] = Done m \<and>
     am_base m < 3 \<and> sorted (am_supersedes m)"
  using sample_automatic automatic_text_merge_sound [of line_djot sample_diff "(<)"
      "[(1 :: nat, ''n'', Some (note_document abc_base))]" "''n''"
      "[\<lparr>dv_writer = 0, dv_operation = 3, dv_document = Some (note_document abc_left)\<rparr>,
        \<lparr>dv_writer = 1, dv_operation = 2, dv_document = Some (note_document abc_right)\<rparr>]"]
  by fastforce

end
