(* ===== verification/Hard_Wrap.thy ===== *)
theory Hard_Wrap
  imports Knot_Text
begin

text \<open>
  \<open>knot-document/src/hard_wrap.rs\<close>: the read-only guess at the column at which the prose of a
  text has been wrapped by hand. The counts and columns stay below the bytes of the source times
  the tab stop, far below the width of a machine word, so they are natural numbers here.
\<close>

section \<open>Lines\<close>

definition tab_stop :: nat where "tab_stop = 8"
definition min_line_column :: nat where "min_line_column = 32"
definition max_source_bytes :: nat where "max_source_bytes = 1024 * 1024"

definition column_width :: "string \<Rightarrow> nat" where
  "column_width line = fold (\<lambda>g column.
     if g = [tab] then column + (tab_stop - column mod tab_stop) else column + 1)
     (str_chars line) 0"

record fence =
  fence_marker :: char
  fence_length :: nat

definition opening_fence :: "string \<Rightarrow> fence option" where
  "opening_fence line =
     (case trim_start line of
        [] \<Rightarrow> None
      | m # rest \<Rightarrow>
          if m \<noteq> CHR ''`'' \<and> m \<noteq> CHR ''~'' \<and> m \<noteq> CHR '':'' then None
          else let n = length (takeWhile (\<lambda>c. c = m) (trim_start line))
               in if n < 3 then None else Some \<lparr>fence_marker = m, fence_length = n\<rparr>)"

definition closes_fence :: "string \<Rightarrow> fence \<Rightarrow> bool" where
  "closes_fence line opening \<longleftrightarrow>
     (let t = trim_start line;
          n = length (takeWhile (\<lambda>c. c = fence_marker opening) t)
      in n \<ge> fence_length opening \<and> str_trim (drop n t) = [])"

definition is_list_marker :: "string \<Rightarrow> bool" where
  "is_list_marker line =
     (case str_chars line of
        [] \<Rightarrow> False
      | g # gs \<Rightarrow>
          if g = ''-'' \<or> g = ''+'' \<or> g = ''*''
          then (case gs of [] \<Rightarrow> False | n # _ \<Rightarrow> ws_char n)
          else if is_ascii_digit (hd g) \<and> length g = 1
          then (let tail = dropWhile is_ascii_digit line
                in starts_with tail ''. '' \<or> starts_with tail '') '')
          else False)"

definition is_reference_definition :: "string \<Rightarrow> bool" where
  "is_reference_definition line \<longleftrightarrow> starts_with line ''['' \<and> str_contains line '']:''"

definition is_footnote_definition :: "string \<Rightarrow> bool" where
  "is_footnote_definition line \<longleftrightarrow> starts_with line ''[^'' \<and> str_contains line '']:''"

definition is_structural :: "string \<Rightarrow> bool" where
  "is_structural line \<longleftrightarrow>
     (let t = trim_start line; indent = length line - length t
      in indent \<ge> 4 \<or> starts_with t ''|'' \<or> starts_with t ''>'' \<or> starts_with t ''#'' \<or>
         starts_with t ''{:'' \<or> is_footnote_definition t \<or> starts_with t ''<'' \<or>
         starts_with t ''---'' \<or> starts_with t ''***'' \<or> starts_with t ''___'' \<or>
         starts_with t ''==='' \<or> starts_with t ''+++'' \<or>
         is_list_marker t \<or> is_reference_definition t)"

section \<open>Paragraphs\<close>

record wrap_scan =
  ws_paragraphs :: "string list list"
  ws_current :: "string list"
  ws_fence :: "fence option"

definition flush :: "wrap_scan \<Rightarrow> wrap_scan" where
  "flush st = (if ws_current st = [] then st
     else st\<lparr>ws_paragraphs := ws_paragraphs st @ [ws_current st], ws_current := []\<rparr>)"

definition strip_cr :: "string \<Rightarrow> string" where
  "strip_cr l = (if l \<noteq> [] \<and> last l = cr then butlast l else l)"

definition scan_line :: "string \<Rightarrow> wrap_scan \<Rightarrow> wrap_scan" where
  "scan_line raw_line st =
     (let line = strip_cr raw_line
      in case ws_fence st of
        Some f \<Rightarrow> if closes_fence line f then st\<lparr>ws_fence := None\<rparr> else st
      | None \<Rightarrow> (case opening_fence line of
          Some f \<Rightarrow> (flush st)\<lparr>ws_fence := Some f\<rparr>
        | None \<Rightarrow> if str_trim line = [] then flush st
                  else st\<lparr>ws_current := ws_current st @ [line]\<rparr>))"

definition scan_lines :: "string list \<Rightarrow> wrap_scan \<Rightarrow> wrap_scan" where
  "scan_lines ls st = fold scan_line ls st"

definition wrap_start :: wrap_scan where
  "wrap_start = \<lparr>ws_paragraphs = [], ws_current = [], ws_fence = None\<rparr>"

section \<open>The measure of a paragraph\<close>

definition near_measure :: "string list \<Rightarrow> nat list" where
  "near_measure paragraph =
     (if length paragraph < 3 then []
      else let widths = map column_width (butlast paragraph);
               median = sort widths ! (length widths div 2);
               near = filter (\<lambda>w. median * 3 div 4 \<le> w \<and> w \<le> median * 5 div 4) widths
           in if length widths < 2 \<or> median < min_line_column then []
              else if length near \<ge> 2 \<and> length near * 2 > length paragraph then near else [])"

definition prose :: "string list list \<Rightarrow> string list list" where
  "prose paragraphs = filter (\<lambda>p. \<not> list_ex is_structural p) paragraphs"

definition measure_paragraphs :: "string list list \<Rightarrow> nat option" where
  "measure_paragraphs paragraphs =
     (let continuations = concat (map near_measure (prose paragraphs));
          prose_line_count = sum_list (map length (prose paragraphs))
      in if continuations = [] then None
         else if length continuations * 2 \<le> prose_line_count then None
         else Some (Max (set continuations)))"

definition plain_characters :: "string \<Rightarrow> bool" where
  "plain_characters s \<longleftrightarrow>
     list_all (\<lambda>n. n \<le> 255 \<and> (is_control n \<longrightarrow> n = 9 \<or> n = 10 \<or> n = 13)) (code_points s)"

definition hard_wrap_column :: "string \<Rightarrow> nat option" where
  "hard_wrap_column source =
     (if length source > max_source_bytes \<or> \<not> plain_characters source then None
      else let st = flush (scan_lines (str_lines source) wrap_start)
           in if ws_fence st \<noteq> None then None else measure_paragraphs (ws_paragraphs st))"

section \<open>Where a column comes from\<close>

text \<open>The lines that can set the column: all but the last of an admitted paragraph.\<close>

definition continuation_lines :: "string \<Rightarrow> string list" where
  "continuation_lines source =
     concat (map butlast (prose (ws_paragraphs (flush (scan_lines (str_lines source) wrap_start)))))"

lemma near_measure_in: "w \<in> set (near_measure p) \<Longrightarrow> w \<in> column_width ` set (butlast p)"
  by (auto simp: near_measure_def Let_def split: if_splits)

lemma near_measure_min: "w \<in> set (near_measure p) \<Longrightarrow> 24 \<le> w"
proof -
  have "24 \<le> m * 3 div 4" if "\<not> m < 32" for m :: nat
    using that by linarith
  then show "w \<in> set (near_measure p) \<Longrightarrow> 24 \<le> w"
    by (auto simp: near_measure_def Let_def min_line_column_def split: if_splits intro: order_trans)
qed

lemma near_measure_majority:
  "length (near_measure p) * 2 > length p \<or> near_measure p = []"
  by (auto simp: near_measure_def Let_def)

lemma measure_paragraphs_Some:
  assumes "measure_paragraphs ps = Some c"
  shows "c \<in> set (concat (map near_measure (prose ps)))"
    and "\<forall>w \<in> set (concat (map near_measure (prose ps))). w \<le> c"
    and "sum_list (map length (prose ps)) < 2 * length (concat (map near_measure (prose ps)))"
proof -
  let ?ws = "concat (map near_measure (prose ps))"
  from assms have "?ws \<noteq> []" "c = Max (set ?ws)"
    "sum_list (map length (prose ps)) < length ?ws * 2"
    by (auto simp: measure_paragraphs_def Let_def split: if_splits)
  then show "c \<in> set ?ws" "\<forall>w \<in> set ?ws. w \<le> c"
    "sum_list (map length (prose ps)) < 2 * length ?ws"
    using Max_in [of "set ?ws"] Max_ge [of "set ?ws"] by auto
qed

section \<open>Fenced text\<close>

lemma scan_fenced:
  assumes "ws_fence st = Some f" and "\<forall>l \<in> set body. \<not> closes_fence (strip_cr l) f"
  shows "scan_lines body st = st"
  using assms by (induction body) (auto simp: scan_lines_def scan_line_def Let_def)

lemma scan_lines_append: "scan_lines (xs @ ys) st = scan_lines ys (scan_lines xs st)"
  by (simp add: scan_lines_def)

lemma scan_block:
  assumes "ws_fence st = None" and "opening_fence (strip_cr a) = Some f"
    and "\<forall>l \<in> set body. \<not> closes_fence (strip_cr l) f" and "closes_fence (strip_cr z) f"
  shows "scan_lines (a # body @ [z]) st = flush st"
proof -
  have "ws_fence (flush st) = None" using assms(1) by (simp add: flush_def)
  then have reset: "(flush st)\<lparr>ws_fence := None\<rparr> = flush st" by (cases "flush st") simp
  have "scan_lines (a # body @ [z]) st = scan_lines (body @ [z]) ((flush st)\<lparr>ws_fence := Some f\<rparr>)"
    using assms(1,2) by (simp add: scan_lines_def scan_line_def Let_def)
  also have "\<dots> = scan_lines [z] ((flush st)\<lparr>ws_fence := Some f\<rparr>)"
    using scan_fenced [OF _ assms(3), of "(flush st)\<lparr>ws_fence := Some f\<rparr>"]
    by (simp add: scan_lines_append)
  also have "\<dots> = flush st"
    using assms(4) reset by (simp add: scan_lines_def scan_line_def Let_def)
  finally show ?thesis .
qed

section \<open>Properties\<close>


text \<open>
  Fenced text is never measured. Reading an opening fence, any lines that do not close it,
  and a line that does, leaves the scan where a blank line would have left it.
\<close>
theorem fenced_text_ignored:
  assumes "ws_fence st = None" and "opening_fence (strip_cr a) = Some f"
    and "\<forall>l \<in> set body. \<not> closes_fence (strip_cr l) f" and "closes_fence (strip_cr z) f"
  shows "scan_lines (a # body @ [z]) st = scan_lines [[]] st"
proof -
  have "opening_fence (strip_cr []) = None" and "str_trim (strip_cr []) = []"
    by (simp_all add: opening_fence_def strip_cr_def trim_start_def str_trim_def)
  then have "scan_lines [[]] st = flush st"
    using assms(1) by (simp add: scan_lines_def scan_line_def Let_def)
  with scan_block [OF assms] show ?thesis by simp
qed

theorem fenced_text_ignored_witness:
  "scan_lines [''```'', ''int x;'', ''```''] wrap_start = scan_lines [[]] wrap_start"
proof -
  have "opening_fence (strip_cr ''```'') = Some \<lparr>fence_marker = CHR ''`'', fence_length = 3\<rparr>"
    and "\<not> closes_fence (strip_cr ''int x;'') \<lparr>fence_marker = CHR ''`'', fence_length = 3\<rparr>"
    and "closes_fence (strip_cr ''```'') \<lparr>fence_marker = CHR ''`'', fence_length = 3\<rparr>"
    by code_simp+
  with fenced_text_ignored [of wrap_start "''```''" _ "[''int x;'']" "''```''"]
  show ?thesis by (simp add: wrap_start_def)
qed

definition wrapped_line :: string where
  "wrapped_line = replicate 40 CHR ''a''"

definition wrapped_sample :: string where
  "wrapped_sample = wrapped_line @ [nl] @ wrapped_line @ [nl] @ wrapped_line @ [nl] @ ''end''"


end
