(* ===== verification/Reference_Pack.thy ===== *)
theory Reference_Pack
  imports Knot_Text
begin

text \<open>
  \<open>reference-data/src/lib.rs\<close> and \<open>validation.rs\<close>: packs of lexical entries as JSON, the validation
  that a pack passes before it is installed, and the look-ups in a validated pack. The JSON codec
  (\<open>serde_json\<close>) and the hash (\<open>blake3\<close>) are other packages; the record \<open>ref_codec\<close> holds what is
  called of them.
\<close>

section \<open>Types\<close>

definition SCHEMA_VERSION :: nat where "SCHEMA_VERSION = 1"
definition USIZE_MAX :: nat where "USIZE_MAX = 2 ^ 64 - 1"

datatype source_key = SourceKey (key_source: string) (key_version: string)

record reference_id =
  rid_source :: string
  rid_version :: string
  rid_entry :: string

definition rid_source_key :: "reference_id \<Rightarrow> source_key" where
  "rid_source_key r = SourceKey (rid_source r) (rid_version r)"

datatype reference_feature = Definitions | Examples | Relations | Pronunciations

record license_info =
  lic_name :: string
  lic_text :: "string option"
  lic_url :: "string option"

record source_manifest =
  sm_id :: string
  sm_version :: string
  sm_label :: string
  sm_language :: string
  sm_features :: "reference_feature list"
  sm_license :: license_info
  sm_attribution :: string
  sm_upstream :: "string option"
  sm_digest :: "string option"

definition manifest_source_key :: "source_manifest \<Rightarrow> source_key" where
  "manifest_source_key m = SourceKey (sm_id m) (sm_version m)"

datatype part_of_speech = Noun | Verb | Adjective | Adverb | OtherPart

datatype relation_kind = Synonym | Antonym | Hypernym | Hyponym | Meronym | Holonym | Derivation
  | RelatedTo

record lexical_relation =
  lr_kind :: relation_kind
  lr_target :: reference_id
  lr_target_sense :: "string option"

record lexical_sense =
  ls_id :: string
  ls_concept_id :: "string option"
  ls_definition :: string
  ls_examples :: "string list"
  ls_relations :: "lexical_relation list"

record pronunciation =
  pr_notation :: string
  pr_value :: string
  pr_variant :: "string option"

record lexical_entry =
  le_id :: reference_id
  le_lemma :: string
  le_language :: string
  le_part_of_speech :: "part_of_speech option"
  le_senses :: "lexical_sense list"
  le_pronunciations :: "pronunciation list"
  le_relations :: "lexical_relation list"

record normalized_pack =
  np_schema_version :: nat
  np_manifest :: source_manifest
  np_entries :: "lexical_entry list"

datatype 'io reference_error = RefIo 'io | RefJson string | RefInvalid string | RefLimit string
  | DigestMismatch | RefBusy | NotInstalled | RefConflict | CommitUncertain 'io

record limits =
  max_pack_bytes :: nat
  max_installed_bytes :: nat
  max_registry_bytes :: nat
  max_sources :: nat
  max_entries :: nat
  max_senses :: nat
  max_relations :: nat
  max_string_bytes :: nat
  max_lemma_bytes :: nat
  max_query_sources :: nat
  max_lookup_results :: nat

definition default_limits :: limits where
  "default_limits = \<lparr>max_pack_bytes = 32 * 1024 * 1024, max_installed_bytes = 128 * 1024 * 1024,
     max_registry_bytes = 1024 * 1024, max_sources = 128, max_entries = 100000, max_senses = 200000,
     max_relations = 500000, max_string_bytes = 16 * 1024, max_lemma_bytes = 256,
     max_query_sources = 16, max_lookup_results = 256\<rparr>"

record ref_codec =
  rc_pack :: "string \<Rightarrow> string + normalized_pack"
  rc_entries :: "lexical_entry list \<Rightarrow> string + string"
  rc_relation :: "lexical_relation \<Rightarrow> string + string"
  rc_feature :: "reference_feature \<Rightarrow> string + string"
  rc_hash :: "string \<Rightarrow> string"

section \<open>Checks of single values\<close>

definition identifier_char :: "char \<Rightarrow> bool" where
  "identifier_char c \<longleftrightarrow> is_ascii_alphanumeric c \<or> c = CHR ''_'' \<or> c = CHR ''-'' \<or> c = CHR ''.''"

definition check_identifier :: "string \<Rightarrow> 'io reference_error + unit" where
  "check_identifier v =
     ensure_that (v \<noteq> [] \<and> length v \<le> 128 \<and> list_ex is_ascii_alphanumeric v \<and> list_all identifier_char v)
       (RefInvalid ''identifier must be 1..128 ASCII letters, digits, '_', '-' or '.', with an alphanumeric character'')"

definition version_identifier :: "string \<Rightarrow> 'io reference_error + unit" where
  "version_identifier v =
     and_then (ensure_that (length v \<le> 128) (RefInvalid ''version identifier is too long'')) (\<lambda>_.
     for_each check_identifier (split_on (CHR ''.'') v))"

definition validate_reference :: "reference_id \<Rightarrow> 'io reference_error + unit" where
  "validate_reference r =
     and_then (check_identifier (rid_source r)) (\<lambda>_.
     and_then (version_identifier (rid_version r)) (\<lambda>_.
     check_identifier (rid_entry r)))"

definition check_language :: "string \<Rightarrow> 'io reference_error + unit" where
  "check_language v =
     ensure_that (\<not> (length v > 64 \<or>
         list_ex (\<lambda>part. part = [] \<or> \<not> list_all is_ascii_alphanumeric part) (split_on (CHR ''-'') v)))
       (RefInvalid ''invalid language tag'')"

definition check_text :: "string \<Rightarrow> nat \<Rightarrow> bool \<Rightarrow> 'io reference_error + unit" where
  "check_text v limit allow_empty =
     (if length v > limit then Inl (RefLimit ''text bytes'')
      else if (\<not> allow_empty \<and> str_trim v = []) \<or>
        list_ex (\<lambda>n. is_control n \<and> n \<noteq> 10 \<and> n \<noteq> 9) (code_points v)
      then Inl (RefInvalid ''empty text or control character'')
      else Inr ())"

definition lower_hex :: "char \<Rightarrow> bool" where
  "lower_hex c \<longleftrightarrow> is_ascii_digit c \<or> (97 \<le> byte c \<and> byte c \<le> 102)"

definition validate_digest :: "string \<Rightarrow> 'io reference_error + unit" where
  "validate_digest v =
     ensure_that (length v = 64 \<and> list_all lower_hex v) (RefInvalid ''digest must be lowercase BLAKE3 hex'')"

definition check_url :: "string \<Rightarrow> limits \<Rightarrow> 'io reference_error + unit" where
  "check_url v lim =
     and_then (check_text v (max_string_bytes lim) False) (\<lambda>_.
     ensure_that ((starts_with v ''https://'' \<or> starts_with v ''http://'') \<and>
         \<not> list_ex is_whitespace (code_points v))
       (RefInvalid ''metadata URL must be HTTP(S) without whitespace''))"

text \<open>The set of encoded features that are already known.\<close>

fun check_features ::
  "ref_codec \<Rightarrow> string set \<Rightarrow> reference_feature list \<Rightarrow> 'io reference_error + unit" where
  "check_features codec seen [] = Inr ()"
| "check_features codec seen (f # fs) =
     (case rc_feature codec f of
        Inl e \<Rightarrow> Inl (RefJson e)
      | Inr s \<Rightarrow> if s \<in> seen then Inl (RefInvalid ''duplicate feature'')
                 else check_features codec (insert s seen) fs)"

definition validate_manifest :: "ref_codec \<Rightarrow> source_manifest \<Rightarrow> limits \<Rightarrow> 'io reference_error + unit" where
  "validate_manifest codec m lim =
     and_then (check_identifier (sm_id m)) (\<lambda>_.
     and_then (version_identifier (sm_version m)) (\<lambda>_.
     and_then (check_language (sm_language m)) (\<lambda>_.
     and_then (check_text (sm_label m) (max_string_bytes lim) False) (\<lambda>_.
     and_then (check_text (lic_name (sm_license m)) (max_string_bytes lim) False) (\<lambda>_.
     and_then (check_text (sm_attribution m) (max_string_bytes lim) False) (\<lambda>_.
     and_then (if_some (\<lambda>v. check_text v (max_string_bytes lim) False) (lic_text (sm_license m))) (\<lambda>_.
     and_then (if_some (\<lambda>v. check_url v lim) (lic_url (sm_license m))) (\<lambda>_.
     and_then (if_some (\<lambda>v. check_url v lim) (sm_upstream m)) (\<lambda>_.
     and_then (if_some validate_digest (sm_digest m)) (\<lambda>_.
     check_features codec {} (sm_features m)))))))))))"

definition require_feature :: "source_manifest \<Rightarrow> reference_feature \<Rightarrow> 'io reference_error + unit" where
  "require_feature m f =
     ensure_that (f \<in> set (sm_features m)) (RefInvalid ''entry data is not declared by source features'')"

section \<open>Validation of a pack\<close>

text \<open>\<open>checked_add\<close> on \<open>usize\<close>.\<close>

definition add_checked :: "nat \<Rightarrow> nat \<Rightarrow> string \<Rightarrow> 'io reference_error + nat" where
  "add_checked n k what = (if n + k \<le> USIZE_MAX then Inr (n + k) else Inl (RefLimit what))"

text \<open>The loop over the senses of an entry: the identifiers seen and the relations counted so far.\<close>

fun check_senses :: "source_manifest \<Rightarrow> limits \<Rightarrow> string set \<Rightarrow> nat \<Rightarrow> lexical_sense list \<Rightarrow>
    'io reference_error + nat" where
  "check_senses m lim seen relations [] = Inr relations"
| "check_senses m lim seen relations (s # ss) =
     and_then (check_identifier (ls_id s)) (\<lambda>_.
     and_then (if_some check_identifier (ls_concept_id s)) (\<lambda>_.
     and_then (ensure_that (ls_id s \<notin> seen) (RefInvalid ''duplicate sense id in entry'')) (\<lambda>_.
     and_then (check_text (ls_definition s) (max_string_bytes lim) False) (\<lambda>_.
     and_then (require_feature m Definitions) (\<lambda>_.
     and_then (for_each (\<lambda>example.
         and_then (check_text example (max_string_bytes lim) False) (\<lambda>_. require_feature m Examples))
       (ls_examples s)) (\<lambda>_.
     and_then (add_checked relations (length (ls_relations s)) ''relations'') (\<lambda>relations.
     check_senses m lim (insert (ls_id s) seen) relations ss)))))))"

definition check_pronunciation ::
  "source_manifest \<Rightarrow> limits \<Rightarrow> pronunciation \<Rightarrow> 'io reference_error + unit" where
  "check_pronunciation m lim p =
     and_then (check_text (pr_notation p) 128 False) (\<lambda>_.
     and_then (check_text (pr_value p) (max_string_bytes lim) False) (\<lambda>_.
     and_then (if_some (\<lambda>v. check_text v (max_string_bytes lim) False) (pr_variant p)) (\<lambda>_.
     require_feature m Pronunciations)))"

record pack_index =
  pi_by_id :: "string \<rightharpoonup> nat"
  pi_by_lemma :: "string \<rightharpoonup> nat list"
  pi_senses :: nat
  pi_relations :: nat

definition index_entry :: "source_manifest \<Rightarrow> limits \<Rightarrow> nat \<Rightarrow> lexical_entry \<Rightarrow> pack_index \<Rightarrow>
    'io reference_error + pack_index" where
  "index_entry m lim index e st =
     and_then (validate_reference (le_id e)) (\<lambda>_.
     and_then (ensure_that (rid_source_key (le_id e) = manifest_source_key m)
       (RefInvalid ''entry source/version differs from manifest'')) (\<lambda>_.
     and_then (ensure_that (pi_by_id st (rid_entry (le_id e)) = None) (RefInvalid ''duplicate entry id'')) (\<lambda>_.
     and_then (check_text (le_lemma e) (max_lemma_bytes lim) False) (\<lambda>_.
     and_then (check_language (le_language e)) (\<lambda>_.
     and_then (ensure_that (\<not> (sm_language m \<noteq> ''mul'' \<and> sm_language m \<noteq> le_language e))
       (RefInvalid ''entry language differs from source'')) (\<lambda>_.
     and_then (add_checked (pi_senses st) (length (le_senses e)) ''senses'') (\<lambda>senses.
     and_then (add_checked (pi_relations st) (length (le_relations e)) ''relations'') (\<lambda>relations.
     and_then (check_senses m lim {} relations (le_senses e)) (\<lambda>relations.
     and_then (for_each (check_pronunciation m lim) (le_pronunciations e)) (\<lambda>_.
     and_then (ensure_that (\<not> senses > max_senses lim) (RefLimit ''senses'')) (\<lambda>_.
     and_then (ensure_that (\<not> relations > max_relations lim) (RefLimit ''relations'')) (\<lambda>_.
     Inr \<lparr>pi_by_id = (pi_by_id st)(rid_entry (le_id e) \<mapsto> index),
       pi_by_lemma = (pi_by_lemma st)(le_lemma e \<mapsto>
         (case pi_by_lemma st (le_lemma e) of None \<Rightarrow> [] | Some v \<Rightarrow> v) @ [index]),
       pi_senses = senses, pi_relations = relations\<rparr>))))))))))))"

fun index_entries :: "source_manifest \<Rightarrow> limits \<Rightarrow> nat \<Rightarrow> lexical_entry list \<Rightarrow> pack_index \<Rightarrow>
    'io reference_error + pack_index" where
  "index_entries m lim index [] st = Inr st"
| "index_entries m lim index (e # es) st =
     and_then (index_entry m lim index e st) (\<lambda>st. index_entries m lim (index + 1) es st)"

definition entry_relations :: "lexical_entry \<Rightarrow> lexical_relation list" where
  "entry_relations e = le_relations e @ concat (map ls_relations (le_senses e))"

definition check_relation :: "normalized_pack \<Rightarrow> (string \<rightharpoonup> nat) \<Rightarrow> lexical_relation \<Rightarrow>
    'io reference_error + unit" where
  "check_relation pack by_id r =
     and_then (require_feature (np_manifest pack) Relations) (\<lambda>_.
     and_then (validate_reference (lr_target r)) (\<lambda>_.
     if rid_source_key (lr_target r) \<noteq> manifest_source_key (np_manifest pack)
     then Inl (RefInvalid ''relation target is outside this pack or missing'')
     else case by_id (rid_entry (lr_target r)) of
         None \<Rightarrow> Inl (RefInvalid ''relation target is outside this pack or missing'')
       | Some i \<Rightarrow> if_some (\<lambda>sense.
           and_then (check_identifier sense) (\<lambda>_.
           ensure_that (list_ex (\<lambda>candidate. ls_id candidate = sense) (le_senses (np_entries pack ! i)))
             (RefInvalid ''relation target sense is missing from target entry''))) (lr_target_sense r)))"

text \<open>The set of encoded relations that are already known.\<close>

fun check_unique :: "ref_codec \<Rightarrow> string set \<Rightarrow> lexical_relation list \<Rightarrow> 'io reference_error + unit" where
  "check_unique codec seen [] = Inr ()"
| "check_unique codec seen (r # rs) =
     (case rc_relation codec r of
        Inl e \<Rightarrow> Inl (RefJson e)
      | Inr s \<Rightarrow> if s \<in> seen then Inl (RefInvalid ''duplicate relation'')
                 else check_unique codec (insert s seen) rs)"

definition check_entry_relations :: "ref_codec \<Rightarrow> normalized_pack \<Rightarrow> (string \<rightharpoonup> nat) \<Rightarrow> lexical_entry \<Rightarrow>
    'io reference_error + unit" where
  "check_entry_relations codec pack by_id e =
     and_then (for_each (check_relation pack by_id) (entry_relations e)) (\<lambda>_.
     for_each (check_unique codec {}) (le_relations e # map ls_relations (le_senses e)))"

definition digest_entries :: "ref_codec \<Rightarrow> lexical_entry list \<Rightarrow> 'io reference_error + string" where
  "digest_entries codec es =
     (case rc_entries codec es of Inl e \<Rightarrow> Inl (RefJson e) | Inr b \<Rightarrow> Inr (rc_hash codec b))"

record validated_pack =
  vp_pack :: normalized_pack
  vp_by_id :: "string \<rightharpoonup> nat"
  vp_by_lemma :: "string \<rightharpoonup> nat list"

definition from_json :: "ref_codec \<Rightarrow> string \<Rightarrow> string option \<Rightarrow> limits \<Rightarrow>
    'io reference_error + validated_pack" where
  "from_json codec bytes expected lim =
     and_then (ensure_that (\<not> length bytes > max_pack_bytes lim) (RefLimit ''pack bytes'')) (\<lambda>_.
     and_then (ensure_that (utf8_valid bytes) (RefInvalid ''pack is not UTF-8'')) (\<lambda>_.
     and_then (case rc_pack codec bytes of Inl e \<Rightarrow> Inl (RefJson e) | Inr p \<Rightarrow> Inr p) (\<lambda>pack.
     and_then (ensure_that (np_schema_version pack = SCHEMA_VERSION)
       (RefInvalid ''unsupported pack schema'')) (\<lambda>_.
     and_then (validate_manifest codec (np_manifest pack) lim) (\<lambda>_.
     and_then (case sm_digest (np_manifest pack) of
         None \<Rightarrow> Inl (RefInvalid ''installed pack requires a digest'') | Some d \<Rightarrow> Inr d) (\<lambda>digest.
     and_then (if_some (\<lambda>x. and_then (validate_digest x) (\<lambda>_. ensure_that (x = digest) DigestMismatch)) expected) (\<lambda>_.
     and_then (ensure_that (\<not> length (np_entries pack) > max_entries lim) (RefLimit ''entries'')) (\<lambda>_.
     and_then (index_entries (np_manifest pack) lim 0 (np_entries pack)
       \<lparr>pi_by_id = Map.empty, pi_by_lemma = Map.empty, pi_senses = 0, pi_relations = 0\<rparr>) (\<lambda>st.
     and_then (for_each (check_entry_relations codec pack (pi_by_id st)) (np_entries pack)) (\<lambda>_.
     and_then (digest_entries codec (np_entries pack)) (\<lambda>found.
     and_then (ensure_that (found = digest) DigestMismatch) (\<lambda>_.
     Inr \<lparr>vp_pack = pack, vp_by_id = pi_by_id st, vp_by_lemma = pi_by_lemma st\<rparr>))))))))))))"

section \<open>Look-ups\<close>

definition vp_manifest :: "validated_pack \<Rightarrow> source_manifest" where
  "vp_manifest p = np_manifest (vp_pack p)"

definition vp_entries :: "validated_pack \<Rightarrow> lexical_entry list" where
  "vp_entries p = np_entries (vp_pack p)"

definition pack_entry :: "validated_pack \<Rightarrow> reference_id \<Rightarrow> lexical_entry option" where
  "pack_entry p r =
     (if rid_source_key r \<noteq> manifest_source_key (np_manifest (vp_pack p)) then None
      else map_option (\<lambda>i. np_entries (vp_pack p) ! i) (vp_by_id p (rid_entry r)))"

fun lookup_indexes :: "lexical_entry list \<Rightarrow> string option \<Rightarrow> nat \<Rightarrow> lexical_entry list \<Rightarrow> nat list \<Rightarrow>
    lexical_entry list" where
  "lookup_indexes es lang limit found [] = found"
| "lookup_indexes es lang limit found (i # ixs) =
     (if (case lang of None \<Rightarrow> False | Some v \<Rightarrow> v \<noteq> le_language (es ! i))
      then lookup_indexes es lang limit found ixs
      else if length found = limit then found
      else lookup_indexes es lang limit (found @ [es ! i]) ixs)"

definition pack_lookup :: "validated_pack \<Rightarrow> string \<Rightarrow> string option \<Rightarrow> nat \<Rightarrow> lexical_entry list" where
  "pack_lookup p lemma' lang limit =
     (case vp_by_lemma p lemma' of
        None \<Rightarrow> []
      | Some ixs \<Rightarrow> lookup_indexes (np_entries (vp_pack p)) lang limit [] ixs)"

section \<open>What the checks accept\<close>

definition identifier_ok :: "string \<Rightarrow> bool" where
  "identifier_ok v \<longleftrightarrow> length v \<le> 128 \<and> (\<exists>c \<in> set v. is_ascii_alphanumeric c) \<and>
     (\<forall>c \<in> set v. identifier_char c)"

definition version_ok :: "string \<Rightarrow> bool" where
  "version_ok v \<longleftrightarrow> length v \<le> 128 \<and> (\<forall>part \<in> set (split_on (CHR ''.'') v). identifier_ok part)"

definition reference_ok :: "reference_id \<Rightarrow> bool" where
  "reference_ok r \<longleftrightarrow>
     identifier_ok (rid_source r) \<and> version_ok (rid_version r) \<and> identifier_ok (rid_entry r)"

definition language_ok :: "string \<Rightarrow> bool" where
  "language_ok v \<longleftrightarrow> length v \<le> 64 \<and>
     (\<forall>part \<in> set (split_on (CHR ''-'') v). part \<noteq> [] \<and> (\<forall>c \<in> set part. is_ascii_alphanumeric c))"

definition text_ok :: "nat \<Rightarrow> string \<Rightarrow> bool" where
  "text_ok limit v \<longleftrightarrow> length v \<le> limit \<and> str_trim v \<noteq> [] \<and>
     (\<forall>n \<in> set (code_points v). is_control n \<longrightarrow> n = 10 \<or> n = 9)"

definition digest_ok :: "string \<Rightarrow> bool" where
  "digest_ok v \<longleftrightarrow> length v = 64 \<and> (\<forall>c \<in> set v. lower_hex c)"

definition url_ok :: "nat \<Rightarrow> string \<Rightarrow> bool" where
  "url_ok limit v \<longleftrightarrow> text_ok limit v \<and> (starts_with v ''https://'' \<or> starts_with v ''http://'') \<and>
     (\<forall>n \<in> set (code_points v). \<not> is_whitespace n)"

definition given_ok :: "('a \<Rightarrow> bool) \<Rightarrow> 'a option \<Rightarrow> bool" where
  "given_ok P x \<longleftrightarrow> (\<forall>a. x = Some a \<longrightarrow> P a)"

text \<open>A list whose elements are encoded differently; so they are different.\<close>

definition encoded_distinct :: "('a \<Rightarrow> string + string) \<Rightarrow> 'a list \<Rightarrow> bool" where
  "encoded_distinct f xs \<longleftrightarrow> (\<exists>ss. map f xs = map Inr ss \<and> distinct ss)"

definition manifest_ok :: "ref_codec \<Rightarrow> limits \<Rightarrow> source_manifest \<Rightarrow> bool" where
  "manifest_ok codec lim m \<longleftrightarrow>
     identifier_ok (sm_id m) \<and> version_ok (sm_version m) \<and> language_ok (sm_language m) \<and>
     text_ok (max_string_bytes lim) (sm_label m) \<and>
     text_ok (max_string_bytes lim) (lic_name (sm_license m)) \<and>
     text_ok (max_string_bytes lim) (sm_attribution m) \<and>
     given_ok (text_ok (max_string_bytes lim)) (lic_text (sm_license m)) \<and>
     given_ok (url_ok (max_string_bytes lim)) (lic_url (sm_license m)) \<and>
     given_ok (url_ok (max_string_bytes lim)) (sm_upstream m) \<and>
     given_ok digest_ok (sm_digest m) \<and> encoded_distinct (rc_feature codec) (sm_features m)"

definition sense_ok :: "source_manifest \<Rightarrow> limits \<Rightarrow> lexical_sense \<Rightarrow> bool" where
  "sense_ok m lim s \<longleftrightarrow> identifier_ok (ls_id s) \<and> given_ok identifier_ok (ls_concept_id s) \<and>
     text_ok (max_string_bytes lim) (ls_definition s) \<and> Definitions \<in> set (sm_features m) \<and>
     (\<forall>x \<in> set (ls_examples s). text_ok (max_string_bytes lim) x \<and> Examples \<in> set (sm_features m))"

definition pronunciation_ok :: "source_manifest \<Rightarrow> limits \<Rightarrow> pronunciation \<Rightarrow> bool" where
  "pronunciation_ok m lim p \<longleftrightarrow> text_ok 128 (pr_notation p) \<and> text_ok (max_string_bytes lim) (pr_value p) \<and>
     given_ok (text_ok (max_string_bytes lim)) (pr_variant p) \<and> Pronunciations \<in> set (sm_features m)"

definition entry_ok :: "source_manifest \<Rightarrow> limits \<Rightarrow> lexical_entry \<Rightarrow> bool" where
  "entry_ok m lim e \<longleftrightarrow> reference_ok (le_id e) \<and> rid_source_key (le_id e) = manifest_source_key m \<and>
     text_ok (max_lemma_bytes lim) (le_lemma e) \<and> language_ok (le_language e) \<and>
     (sm_language m = ''mul'' \<or> le_language e = sm_language m) \<and>
     (\<forall>s \<in> set (le_senses e). sense_ok m lim s) \<and> distinct (map ls_id (le_senses e)) \<and>
     (\<forall>p \<in> set (le_pronunciations e). pronunciation_ok m lim p)"

text \<open>A relation leads to an entry of the same pack, and to a sense of that entry if it names one.\<close>

definition relation_ok :: "normalized_pack \<Rightarrow> lexical_relation \<Rightarrow> bool" where
  "relation_ok pack r \<longleftrightarrow> Relations \<in> set (sm_features (np_manifest pack)) \<and>
     (\<exists>t \<in> set (np_entries pack). le_id t = lr_target r \<and>
        given_ok (\<lambda>s. identifier_ok s \<and> (\<exists>x \<in> set (le_senses t). ls_id x = s)) (lr_target_sense r))"

definition total_of :: "('a \<Rightarrow> 'b list) \<Rightarrow> 'a list \<Rightarrow> nat" where
  "total_of f xs = sum_list (map (\<lambda>x. length (f x)) xs)"

definition pack_acceptable :: "ref_codec \<Rightarrow> limits \<Rightarrow> normalized_pack \<Rightarrow> bool" where
  "pack_acceptable codec lim pack \<longleftrightarrow>
     np_schema_version pack = SCHEMA_VERSION \<and> manifest_ok codec lim (np_manifest pack) \<and>
     length (np_entries pack) \<le> max_entries lim \<and>
     total_of le_senses (np_entries pack) \<le> max_senses lim \<and>
     total_of entry_relations (np_entries pack) \<le> max_relations lim \<and>
     (\<forall>e \<in> set (np_entries pack). entry_ok (np_manifest pack) lim e \<and>
        (\<forall>r \<in> set (entry_relations e). relation_ok pack r) \<and>
        (\<forall>rs \<in> set (le_relations e # map ls_relations (le_senses e)). encoded_distinct (rc_relation codec) rs)) \<and>
     distinct (map (\<lambda>e. rid_entry (le_id e)) (np_entries pack)) \<and>
     (\<exists>b. rc_entries codec (np_entries pack) = Inr b \<and> sm_digest (np_manifest pack) = Some (rc_hash codec b))"

definition index_of :: "lexical_entry list \<Rightarrow> pack_index" where
  "index_of es = \<lparr>
     pi_by_id = map_of (zip (map (\<lambda>e. rid_entry (le_id e)) es) [0..<length es]),
     pi_by_lemma = (\<lambda>l. let ps = filter (\<lambda>i. le_lemma (es ! i) = l) [0..<length es]
        in if ps = [] then None else Some ps),
     pi_senses = total_of le_senses es, pi_relations = total_of entry_relations es\<rparr>"

lemma check_identifier_Inr [ok_iff]: "check_identifier v = Inr u \<longleftrightarrow> identifier_ok v"
  by (auto simp: check_identifier_def ok_iff identifier_ok_def list_ex_iff list_all_iff)

lemma version_identifier_Inr [ok_iff]: "version_identifier v = Inr u \<longleftrightarrow> version_ok v"
  by (auto simp: version_identifier_def ok_iff version_ok_def)

lemma validate_reference_Inr [ok_iff]: "validate_reference r = Inr u \<longleftrightarrow> reference_ok r"
  by (auto simp: validate_reference_def ok_iff reference_ok_def)

lemma check_language_Inr [ok_iff]: "check_language v = Inr u \<longleftrightarrow> language_ok v"
  by (auto simp: check_language_def ok_iff language_ok_def list_ex_iff list_all_iff)

lemma check_text_Inr [ok_iff]: "check_text v limit False = Inr u \<longleftrightarrow> text_ok limit v"
  by (auto simp: check_text_def text_ok_def list_ex_iff)

lemma validate_digest_Inr [ok_iff]: "validate_digest v = Inr u \<longleftrightarrow> digest_ok v"
  by (auto simp: validate_digest_def ok_iff digest_ok_def list_all_iff)

lemma check_url_Inr [ok_iff]: "check_url v lim = Inr u \<longleftrightarrow> url_ok (max_string_bytes lim) v"
  by (auto simp: check_url_def ok_iff url_ok_def list_ex_iff)

lemma check_features_Inr:
  "check_features codec seen fs = Inr u \<longleftrightarrow>
     (\<exists>ss. map (rc_feature codec) fs = map Inr ss \<and> distinct ss \<and> set ss \<inter> seen = {})"
  by (induction fs arbitrary: seen) (auto simp: Cons_eq_map_conv split: sum.split)

lemma check_unique_Inr:
  "check_unique codec seen rs = Inr u \<longleftrightarrow>
     (\<exists>ss. map (rc_relation codec) rs = map Inr ss \<and> distinct ss \<and> set ss \<inter> seen = {})"
  by (induction rs arbitrary: seen) (auto simp: Cons_eq_map_conv split: sum.split)

lemma validate_manifest_Inr [ok_iff]: "validate_manifest codec m lim = Inr u \<longleftrightarrow> manifest_ok codec lim m"
  by (auto simp: validate_manifest_def ok_iff manifest_ok_def given_ok_def check_features_Inr encoded_distinct_def)

lemma require_feature_Inr [ok_iff]: "require_feature m f = Inr u \<longleftrightarrow> f \<in> set (sm_features m)"
  by (simp add: require_feature_def ok_iff)

lemma add_checked_Inr [ok_iff]: "add_checked n k what = Inr r \<longleftrightarrow> r = n + k \<and> n + k \<le> USIZE_MAX"
  by (auto simp: add_checked_def)

lemma check_senses_Inr:
  "check_senses m lim seen n ss = Inr r \<longleftrightarrow>
     (\<forall>s \<in> set ss. sense_ok m lim s) \<and> distinct (map ls_id ss) \<and> ls_id ` set ss \<inter> seen = {} \<and>
     r = n + total_of ls_relations ss \<and> (ss = [] \<or> n + total_of ls_relations ss \<le> USIZE_MAX)"
proof (induction ss arbitrary: seen n)
  case Nil
  then show ?case by (auto simp: total_of_def)
next
  case (Cons s ss)
  show ?case by (auto simp: ok_iff Cons.IH total_of_def sense_ok_def given_ok_def add.assoc)
qed

lemma check_pronunciation_Inr [ok_iff]: "check_pronunciation m lim p = Inr u \<longleftrightarrow> pronunciation_ok m lim p"
  by (auto simp: check_pronunciation_def ok_iff pronunciation_ok_def given_ok_def)

section \<open>The index\<close>

lemma total_of_Nil [simp]: "total_of f [] = 0"
  and total_of_snoc [simp]: "total_of f (es @ [e]) = total_of f es + length (f e)"
  by (simp_all add: total_of_def)

lemma total_entry_relations: "length (entry_relations e) = length (le_relations e) + total_of ls_relations (le_senses e)"
  by (simp add: entry_relations_def total_of_def length_concat comp_def)

lemma index_of_snoc:
  assumes "rid_entry (le_id e) \<notin> (\<lambda>e. rid_entry (le_id e)) ` set es"
  shows "index_of (es @ [e]) = \<lparr>
    pi_by_id = (pi_by_id (index_of es))(rid_entry (le_id e) \<mapsto> length es),
    pi_by_lemma = (pi_by_lemma (index_of es))(le_lemma e \<mapsto>
      (case pi_by_lemma (index_of es) (le_lemma e) of None \<Rightarrow> [] | Some v \<Rightarrow> v) @ [length es]),
    pi_senses = pi_senses (index_of es) + length (le_senses e),
    pi_relations = pi_relations (index_of es) + length (entry_relations e)\<rparr>"
proof -
  let ?key = "\<lambda>e. rid_entry (le_id e)"
  let ?zs = "zip (map ?key es) [0..<length es]"
  have "dom (map_of ?zs) = ?key ` set es"
    by (subst dom_map_of_zip) auto
  then have "[?key e \<mapsto> length es] ++ map_of ?zs = map_of ?zs ++ [?key e \<mapsto> length es]"
    using assms by (intro map_add_comm) auto
  then have ids: "map_of (zip (map ?key (es @ [e])) [0..<length (es @ [e])]) = (map_of ?zs)(?key e \<mapsto> length es)"
    by simp
  have old: "filter (\<lambda>i. le_lemma ((es @ [e]) ! i) = l) [0..<length es]
      = filter (\<lambda>i. le_lemma (es ! i) = l) [0..<length es]" for l
    by (rule filter_cong) (auto simp: nth_append)
  show ?thesis
    unfolding index_of_def ids by (auto simp: old Let_def fun_eq_iff total_of_def)
qed

lemma index_of_None: "pi_by_id (index_of es) k = None \<longleftrightarrow> k \<notin> (\<lambda>e. rid_entry (le_id e)) ` set es"
  by (simp add: index_of_def)

lemma index_entries_append:
  "index_entries m lim i (es @ [e]) st = and_then (index_entries m lim i es st) (index_entry m lim (i + length es) e)"
  by (induction es arbitrary: i st) (auto simp: and_then_def split: sum.splits)

lemma index_entry_Inr:
  assumes "max_relations lim \<le> USIZE_MAX" and "max_senses lim \<le> USIZE_MAX"
  shows "index_entry m lim i e st = Inr st' \<longleftrightarrow>
    entry_ok m lim e \<and> pi_by_id st (rid_entry (le_id e)) = None \<and>
    pi_senses st + length (le_senses e) \<le> max_senses lim \<and>
    pi_relations st + length (entry_relations e) \<le> max_relations lim \<and>
    st' = \<lparr>pi_by_id = (pi_by_id st)(rid_entry (le_id e) \<mapsto> i),
       pi_by_lemma = (pi_by_lemma st)(le_lemma e \<mapsto>
         (case pi_by_lemma st (le_lemma e) of None \<Rightarrow> [] | Some v \<Rightarrow> v) @ [i]),
       pi_senses = pi_senses st + length (le_senses e),
       pi_relations = pi_relations st + length (entry_relations e)\<rparr>"
  using assms
  by (auto simp: index_entry_def ok_iff check_senses_Inr entry_ok_def total_entry_relations add.assoc)

lemma index_entries_Inr:
  assumes "max_relations lim \<le> USIZE_MAX" and "max_senses lim \<le> USIZE_MAX"
  shows "index_entries m lim 0 es \<lparr>pi_by_id = Map.empty, pi_by_lemma = Map.empty, pi_senses = 0, pi_relations = 0\<rparr>
      = Inr st \<longleftrightarrow>
    (\<forall>e \<in> set es. entry_ok m lim e) \<and> distinct (map (\<lambda>e. rid_entry (le_id e)) es) \<and>
    total_of le_senses es \<le> max_senses lim \<and> total_of entry_relations es \<le> max_relations lim \<and> st = index_of es"
proof (induction es arbitrary: st rule: rev_induct)
  case Nil
  then show ?case by (auto simp: index_of_def total_of_def)
next
  case (snoc e es)
  have "pi_senses (index_of es) = total_of le_senses es" "pi_relations (index_of es) = total_of entry_relations es"
    by (simp_all add: index_of_def)
  then show ?case
    using index_of_snoc [of e es]
    by (auto simp: index_of_None index_entries_append ok_iff snoc.IH index_entry_Inr [OF assms])
qed

lemma index_of_by_id:
  assumes "distinct (map (\<lambda>e. rid_entry (le_id e)) es)"
  shows "pi_by_id (index_of es) k = Some i \<longleftrightarrow> i < length es \<and> rid_entry (le_id (es ! i)) = k"
  using assms
  by (auto simp: index_of_def map_of_eq_Some_iff in_set_zip intro!: exI [of _ i])

lemma check_relation_Inr:
  assumes entries: "\<forall>e \<in> set (np_entries pack). entry_ok (np_manifest pack) lim e"
    and keys: "distinct (map (\<lambda>e. rid_entry (le_id e)) (np_entries pack))"
  shows "check_relation pack (pi_by_id (index_of (np_entries pack))) r = Inr u \<longleftrightarrow> relation_ok pack r"
proof -
  let ?es = "np_entries pack" and ?m = "np_manifest pack"
  let ?i = "pi_by_id (index_of ?es) (rid_entry (lr_target r))"
  have same: "le_id t = lr_target r \<longleftrightarrow> rid_entry (le_id t) = rid_entry (lr_target r) \<and>
      rid_source_key (lr_target r) = manifest_source_key ?m" if "t \<in> set ?es" for t
  proof -
    from entries that have "rid_source_key (le_id t) = manifest_source_key ?m" by (auto simp: entry_ok_def)
    then show ?thesis by (cases "le_id t"; cases "lr_target r") (auto simp: rid_source_key_def manifest_source_key_def)
  qed
  have ok: "reference_ok (le_id t)" if "t \<in> set ?es" for t
    using entries that by (auto simp: entry_ok_def)
  show ?thesis
  proof (cases ?i)
    case None
    then have "rid_entry (le_id t) \<noteq> rid_entry (lr_target r)" if "t \<in> set ?es" for t
      using that unfolding index_of_None by force
    then have "\<not> relation_ok pack r" using same by (auto simp: relation_ok_def)
    with None show ?thesis by (auto simp: check_relation_def ok_iff)
  next
    case (Some i)
    then have i: "i < length ?es" "rid_entry (le_id (?es ! i)) = rid_entry (lr_target r)"
      by (simp_all add: index_of_by_id [OF keys])
    have only: "t = ?es ! i" if "t \<in> set ?es" "le_id t = lr_target r" for t
      using that i keys by (metis (mono_tags, lifting) distinct_map inj_onD nth_mem)
    from i have mem: "?es ! i \<in> set ?es" by simp
    have "relation_ok pack r \<longleftrightarrow> Relations \<in> set (sm_features ?m) \<and> le_id (?es ! i) = lr_target r \<and>
        given_ok (\<lambda>s. identifier_ok s \<and> (\<exists>x \<in> set (le_senses (?es ! i)). ls_id x = s)) (lr_target_sense r)"
    proof
      assume "relation_ok pack r"
      then obtain t where t: "t \<in> set ?es" "le_id t = lr_target r"
        and "Relations \<in> set (sm_features ?m)"
          "given_ok (\<lambda>s. identifier_ok s \<and> (\<exists>x \<in> set (le_senses t). ls_id x = s)) (lr_target_sense r)"
        by (auto simp: relation_ok_def)
      with only [OF t] show "Relations \<in> set (sm_features ?m) \<and> le_id (?es ! i) = lr_target r \<and>
        given_ok (\<lambda>s. identifier_ok s \<and> (\<exists>x \<in> set (le_senses (?es ! i)). ls_id x = s)) (lr_target_sense r)"
        by simp
    qed (use mem in \<open>auto simp: relation_ok_def\<close>)
    moreover have "reference_ok (lr_target r)" if "le_id (?es ! i) = lr_target r"
      using ok [OF mem] that by simp
    moreover have "le_id (?es ! i) = lr_target r \<longleftrightarrow> rid_source_key (lr_target r) = manifest_source_key ?m"
      using same [OF mem] i(2) by simp
    ultimately show ?thesis
      using Some by (auto simp: check_relation_def ok_iff given_ok_def list_ex_iff)
  qed
qed

section \<open>What from_json accepts\<close>

definition expected_ok :: "string option \<Rightarrow> normalized_pack \<Rightarrow> bool" where
  "expected_ok expected pack \<longleftrightarrow> (\<forall>x. expected = Some x \<longrightarrow> sm_digest (np_manifest pack) = Some x)"

lemma from_json_Inr:
  assumes "max_relations lim \<le> USIZE_MAX" and "max_senses lim \<le> USIZE_MAX"
  shows "(from_json codec bytes expected lim :: 'io reference_error + validated_pack) = Inr p \<longleftrightarrow>
    length bytes \<le> max_pack_bytes lim \<and> utf8_valid bytes \<and> rc_pack codec bytes = Inr (vp_pack p) \<and>
    pack_acceptable codec lim (vp_pack p) \<and> expected_ok expected (vp_pack p) \<and>
    vp_by_id p = pi_by_id (index_of (np_entries (vp_pack p))) \<and>
    vp_by_lemma p = pi_by_lemma (index_of (np_entries (vp_pack p)))"
    (is "?run \<longleftrightarrow> ?ok")
proof -
  let ?checks = "\<lambda>pack. (\<forall>e \<in> set (np_entries pack). entry_ok (np_manifest pack) lim e) \<and>
    distinct (map (\<lambda>e. rid_entry (le_id e)) (np_entries pack))"
  let ?rel = "\<lambda>pack e. check_entry_relations codec pack (pi_by_id (index_of (np_entries pack))) e :: 'io reference_error + unit"
  have rel: "(\<forall>e \<in> set (np_entries pack). ?rel pack e = Inr ())
     \<longleftrightarrow> (\<forall>e \<in> set (np_entries pack). (\<forall>r \<in> set (entry_relations e). relation_ok pack r) \<and>
        (\<forall>rs \<in> set (le_relations e # map ls_relations (le_senses e)). encoded_distinct (rc_relation codec) rs))"
    if "?checks pack" for pack
    using check_relation_Inr [OF conjunct1 [OF that] conjunct2 [OF that]]
    by (auto simp: check_entry_relations_def ok_iff check_unique_Inr encoded_distinct_def)
  have "?run \<longleftrightarrow> (\<exists>pack digest. length bytes \<le> max_pack_bytes lim \<and> utf8_valid bytes \<and>
      rc_pack codec bytes = Inr pack \<and> np_schema_version pack = SCHEMA_VERSION \<and>
      manifest_ok codec lim (np_manifest pack) \<and> sm_digest (np_manifest pack) = Some digest \<and>
      (\<forall>x. expected = Some x \<longrightarrow> digest_ok x \<and> x = digest) \<and> length (np_entries pack) \<le> max_entries lim \<and>
      ?checks pack \<and> total_of le_senses (np_entries pack) \<le> max_senses lim \<and>
      total_of entry_relations (np_entries pack) \<le> max_relations lim \<and>
      (\<forall>e \<in> set (np_entries pack). ?rel pack e = Inr ()) \<and>
      (\<exists>b. rc_entries codec (np_entries pack) = Inr b \<and> digest = rc_hash codec b) \<and>
      p = \<lparr>vp_pack = pack, vp_by_id = pi_by_id (index_of (np_entries pack)),
           vp_by_lemma = pi_by_lemma (index_of (np_entries pack))\<rparr>)"
    unfolding from_json_def
    by (simp add: ok_iff index_entries_Inr [OF assms] digest_entries_def not_less split: sum.splits option.splits)
      (auto split: sum.splits option.splits)
  also have "\<dots> \<longleftrightarrow> ?ok"
    using rel [of "vp_pack p"]
    by (cases p) (auto simp: pack_acceptable_def expected_ok_def manifest_ok_def given_ok_def)
  finally show ?thesis .
qed

text \<open>What the values of \<open>ValidatedPack\<close> keep: an acceptable pack with the indexes of its entries.\<close>

definition validated :: "ref_codec \<Rightarrow> limits \<Rightarrow> validated_pack \<Rightarrow> bool" where
  "validated codec lim p \<longleftrightarrow> pack_acceptable codec lim (vp_pack p) \<and>
     vp_by_id p = pi_by_id (index_of (vp_entries p)) \<and> vp_by_lemma p = pi_by_lemma (index_of (vp_entries p))"

section \<open>Look-ups in a validated pack\<close>

definition lemma_matches :: "string \<Rightarrow> string option \<Rightarrow> lexical_entry \<Rightarrow> bool" where
  "lemma_matches l lang e \<longleftrightarrow> le_lemma e = l \<and> (lang = None \<or> lang = Some (le_language e))"

lemma lookup_indexes_take:
  "length found \<le> limit \<Longrightarrow> lookup_indexes es lang limit found ixs = found @
     take (limit - length found) (filter (\<lambda>e. lang = None \<or> lang = Some (le_language e)) (map ((!) es) ixs))"
  by (induction es lang limit found ixs rule: lookup_indexes.induct)
    (auto simp: take_Cons' split: option.splits)

lemma map_nth_filter: "map ((!) es) (filter (\<lambda>i. P (es ! i)) [0..<length es]) = filter P es"
proof -
  have "map ((!) es) (filter (P \<circ> (!) es) [0..<length es]) = filter P (map ((!) es) [0..<length es])"
    by (rule filter_map [symmetric])
  then show ?thesis by (simp add: comp_def map_nth)
qed

lemma validated_lookup:
  assumes "validated codec lim p"
  shows "pack_lookup p l lang limit = take limit (filter (lemma_matches l lang) (vp_entries p))"
proof -
  let ?es = "vp_entries p"
  let ?ixs = "filter (\<lambda>i. le_lemma (?es ! i) = l) [0..<length ?es]"
  have "map ((!) ?es) ?ixs = filter (\<lambda>e. le_lemma e = l) ?es" by (rule map_nth_filter)
  then have "lookup_indexes ?es lang limit [] ?ixs = take limit (filter (lemma_matches l lang) ?es)"
    by (simp add: lookup_indexes_take lemma_matches_def [abs_def] conj_commute)
  moreover from assms have "vp_by_lemma p l = (if ?ixs = [] then None else Some ?ixs)"
    by (simp add: validated_def index_of_def Let_def)
  ultimately show ?thesis
    by (cases "?ixs = []") (simp_all add: pack_lookup_def vp_entries_def)
qed

lemma validated_keys: "validated codec lim p \<Longrightarrow> distinct (map (\<lambda>e. rid_entry (le_id e)) (vp_entries p))"
  by (simp add: validated_def pack_acceptable_def vp_entries_def)

lemma validated_entry:
  assumes "validated codec lim p"
  shows "pack_entry p r = Some e \<longleftrightarrow> e \<in> set (vp_entries p) \<and> le_id e = r"
proof -
  let ?es = "vp_entries p"
  have key: "rid_source_key (le_id t) = manifest_source_key (np_manifest (vp_pack p))" if "t \<in> set ?es" for t
    using assms that by (auto simp: validated_def pack_acceptable_def entry_ok_def vp_entries_def)
  have id_eq: "le_id t = r \<longleftrightarrow> rid_entry (le_id t) = rid_entry r \<and>
      rid_source_key r = manifest_source_key (np_manifest (vp_pack p))" if "t \<in> set ?es" for t
    using key [OF that] by (cases "le_id t"; cases r) (auto simp: rid_source_key_def manifest_source_key_def)
  have "pack_entry p r = Some e \<longleftrightarrow> rid_source_key r = manifest_source_key (np_manifest (vp_pack p)) \<and>
      (\<exists>i < length ?es. rid_entry (le_id (?es ! i)) = rid_entry r \<and> e = ?es ! i)"
    using assms index_of_by_id [OF validated_keys [OF assms]]
    by (auto simp: pack_entry_def validated_def vp_entries_def)
  also have "\<dots> \<longleftrightarrow> e \<in> set ?es \<and> le_id e = r"
    using id_eq by (auto simp: in_set_conv_nth)
  finally show ?thesis .
qed

section \<open>A sample pack\<close>

definition sample_limits :: limits where
  "sample_limits = \<lparr>max_pack_bytes = 64, max_installed_bytes = 64, max_registry_bytes = 64, max_sources = 2,
     max_entries = 4, max_senses = 4, max_relations = 4, max_string_bytes = 64, max_lemma_bytes = 16,
     max_query_sources = 2, max_lookup_results = 4\<rparr>"

definition sample_digest :: string where "sample_digest = replicate 64 CHR ''a''"

definition sample_manifest :: source_manifest where
  "sample_manifest = \<lparr>sm_id = ''wn'', sm_version = ''1.0'', sm_label = ''words'', sm_language = ''en'',
     sm_features = [Definitions, Relations], sm_license = \<lparr>lic_name = ''free'', lic_text = None, lic_url = None\<rparr>,
     sm_attribution = ''them'', sm_upstream = None, sm_digest = Some sample_digest\<rparr>"

definition sample_entry :: "string \<Rightarrow> string \<Rightarrow> lexical_entry" where
  "sample_entry i target = \<lparr>le_id = \<lparr>rid_source = ''wn'', rid_version = ''1.0'', rid_entry = i\<rparr>,
     le_lemma = ''field'', le_language = ''en'', le_part_of_speech = None,
     le_senses = [\<lparr>ls_id = ''s'', ls_concept_id = None, ls_definition = ''land'', ls_examples = [], ls_relations = []\<rparr>],
     le_pronunciations = [],
     le_relations = [\<lparr>lr_kind = Synonym,
       lr_target = \<lparr>rid_source = ''wn'', rid_version = ''1.0'', rid_entry = target\<rparr>, lr_target_sense = Some ''s''\<rparr>]\<rparr>"

definition sample_pack :: normalized_pack where
  "sample_pack = \<lparr>np_schema_version = 1, np_manifest = sample_manifest,
     np_entries = [sample_entry ''a'' ''b'', sample_entry ''b'' ''a'']\<rparr>"

definition sample_codec :: ref_codec where
  "sample_codec = \<lparr>rc_pack = (\<lambda>_. Inr sample_pack), rc_entries = (\<lambda>_. Inr ''[]''),
     rc_relation = (\<lambda>r. Inr (rid_entry (lr_target r))),
     rc_feature = (\<lambda>f. Inr (if f = Definitions then ''d'' else ''r'')), rc_hash = (\<lambda>_. sample_digest)\<rparr>"

definition sample_validated :: validated_pack where
  "sample_validated = \<lparr>vp_pack = sample_pack, vp_by_id = pi_by_id (index_of (np_entries sample_pack)),
     vp_by_lemma = pi_by_lemma (index_of (np_entries sample_pack))\<rparr>"

lemma sample_strings:
  "identifier_ok ''wn''" "identifier_ok ''a''" "identifier_ok ''b''" "identifier_ok ''s''" "version_ok ''1.0''"
  "language_ok ''en''" "text_ok 64 ''words''" "text_ok 64 ''free''" "text_ok 64 ''them''" "text_ok 64 ''land''"
  "text_ok 16 ''field''" "digest_ok sample_digest"
  by (simp_all add: identifier_ok_def identifier_char_def version_ok_def language_ok_def text_ok_def digest_ok_def
      sample_digest_def is_ascii_alphanumeric_def is_ascii_digit_def is_ascii_upper_def is_ascii_lower_def lower_hex_def byte_def
      str_trim_def code_points_def utf8_width_def ws_char_def is_whitespace_def is_control_def)

lemma sample_acceptable: "pack_acceptable sample_codec sample_limits sample_pack"
proof -
  have "manifest_ok sample_codec sample_limits sample_manifest"
    by (simp add: manifest_ok_def sample_manifest_def sample_limits_def sample_strings given_ok_def
        encoded_distinct_def sample_codec_def)
      (rule exI [of _ "[''d'', ''r'']"], simp)
  moreover have "entry_ok sample_manifest sample_limits (sample_entry i t)" if "i \<in> {''a'', ''b''}" for i t
    using that by (auto simp: entry_ok_def sample_entry_def sample_manifest_def sample_limits_def sample_strings
        reference_ok_def rid_source_key_def manifest_source_key_def sense_ok_def given_ok_def)
  ultimately show ?thesis
    by (simp add: pack_acceptable_def sample_pack_def SCHEMA_VERSION_def total_of_def entry_relations_def
        relation_ok_def given_ok_def sample_strings)
      (simp add: sample_limits_def sample_entry_def sample_codec_def encoded_distinct_def sample_manifest_def
        sample_strings Cons_eq_map_conv)
qed

lemma sample_is_validated: "validated sample_codec sample_limits sample_validated"
  by (simp add: validated_def sample_validated_def vp_entries_def sample_acceptable)

lemma sample_limits_usize: "max_relations sample_limits \<le> USIZE_MAX" "max_senses sample_limits \<le> USIZE_MAX"
  by (simp_all add: sample_limits_def USIZE_MAX_def)

section \<open>Properties\<close>

lemma from_json_validated:
  assumes "max_relations lim \<le> USIZE_MAX" and "max_senses lim \<le> USIZE_MAX"
  shows "from_json codec bytes expected lim = Inr p \<longleftrightarrow>
    length bytes \<le> max_pack_bytes lim \<and> utf8_valid bytes \<and> rc_pack codec bytes = Inr (vp_pack p) \<and>
    expected_ok expected (vp_pack p) \<and> validated codec lim p"
  by (auto simp: from_json_Inr [OF assms] validated_def vp_entries_def)

text \<open>
  C26: validation accepts exactly the acceptable packs. \<open>from_json\<close> returns a pack if and only if the
  bytes are within their limit and UTF-8, decode to that pack, and the pack is acceptable: its
  manifest and entries are well formed, within every limit, of one source, with distinct
  identifiers; every relation leads to an entry (and sense) of the pack; no list of relations
  repeats one; the digest of the entries is the one stated, and the one expected, if any. The
  indexes of the returned pack are then those of its entries.
\<close>

theorem from_json_exact:
  assumes "max_relations lim \<le> USIZE_MAX" and "max_senses lim \<le> USIZE_MAX"
  shows "from_json codec bytes expected lim = Inr p \<longleftrightarrow>
    length bytes \<le> max_pack_bytes lim \<and> utf8_valid bytes \<and> rc_pack codec bytes = Inr (vp_pack p) \<and>
    expected_ok expected (vp_pack p) \<and> validated codec lim p"
  using assms by (rule from_json_validated)

theorem from_json_exact_witness:
  "from_json sample_codec ''{}'' (Some sample_digest) sample_limits = Inr sample_validated"
  unfolding from_json_exact [OF sample_limits_usize]
  using sample_is_validated
  by (simp add: utf8_valid_ascii byte_def)
    (simp add: sample_limits_def sample_codec_def sample_validated_def sample_pack_def expected_ok_def sample_manifest_def)

text \<open>
  in a pack that was accepted no relation dangles. A look-up by identifier finds the entry with
  that identifier, if the pack has one, and every relation of every entry leads by such a look-up
  to an entry, which has the sense that the relation names.
\<close>

theorem accepted_relations_resolve:
  assumes "max_relations lim \<le> USIZE_MAX" and "max_senses lim \<le> USIZE_MAX"
    and "from_json codec bytes expected lim = Inr p"
    and "e \<in> set (vp_entries p)" and "r \<in> set (entry_relations e)"
  shows "\<exists>t \<in> set (vp_entries p). pack_entry p (lr_target r) = Some t \<and> le_id t = lr_target r \<and>
    (\<forall>s. lr_target_sense r = Some s \<longrightarrow> s \<in> ls_id ` set (le_senses t))"
proof -
  from assms(1-3) have v: "validated codec lim p" by (simp add: from_json_validated)
  with assms(4,5) have "relation_ok (vp_pack p) r"
    by (auto simp: validated_def pack_acceptable_def vp_entries_def)
  then obtain t where "t \<in> set (vp_entries p)" "le_id t = lr_target r"
    "given_ok (\<lambda>s. identifier_ok s \<and> (\<exists>x \<in> set (le_senses t). ls_id x = s)) (lr_target_sense r)"
    by (auto simp: relation_ok_def vp_entries_def)
  with validated_entry [OF v] show ?thesis by (intro bexI [of _ t]) (fastforce simp: given_ok_def)+
qed

theorem accepted_relations_resolve_witness:
  "\<exists>t. pack_entry sample_validated \<lparr>rid_source = ''wn'', rid_version = ''1.0'', rid_entry = ''b''\<rparr> = Some t"
proof -
  have "from_json sample_codec ''{}'' None sample_limits = Inr sample_validated"
    unfolding from_json_validated [OF sample_limits_usize]
    using sample_is_validated
    by (simp add: utf8_valid_ascii byte_def)
      (simp add: sample_limits_def sample_codec_def sample_validated_def expected_ok_def)
  from accepted_relations_resolve [OF sample_limits_usize this,
      of "sample_entry ''a'' ''b''" "hd (le_relations (sample_entry ''a'' ''b''))"]
  show ?thesis
    by (auto simp: vp_entries_def sample_validated_def sample_pack_def entry_relations_def sample_entry_def)
qed

end
