(* ===== verification/Registry_Store.thy ===== *)
theory Registry_Store
  imports Reference_Pack Doc_Writer
begin

text \<open>
  \<open>reference-data/src/registry.rs\<close>, the storage underneath the registry (Unix): bounded reads of
  regular files, temporary files that are removed when they go out of scope, the publication of an
  immutable file by a hard link and of the registry by a rename. The numbers that the process-wide
  counter \<open>TEMP_SEQUENCE\<close> hands out during a call are an input \<open>seq\<close>.
\<close>

section \<open>Operations\<close>

type_synonym registry_error = "io_kind reference_error"

text \<open>\<open>File::open\<close> on a directory followed by \<open>sync_all\<close>.\<close>

definition fs_open_any :: "path \<Rightarrow> (io_kind, unit) prog" where
  "fs_open_any p = simple_call (\<lambda>fs. case resolve fs p of
     Inl e \<Rightarrow> (Raise e, fs) | Inr q \<Rightarrow> (Done (), fs))"

definition check_directory :: "path \<Rightarrow> (registry_error, unit) prog" where
  "check_directory p =
     bind (map_err RefIo (fs_symlink_metadata p)) (\<lambda>m.
       if \<not> meta_is_dir m then raise (RefInvalid ''registry path is not a real directory'') else ret ())"

definition regular_file :: "path \<Rightarrow> (registry_error, metadata) prog" where
  "regular_file p =
     bind (map_err RefIo (fs_symlink_metadata p)) (\<lambda>m.
       if \<not> meta_is_file m then raise (RefInvalid ''registry data is not a regular file'') else ret m)"

definition read_bounded :: "path \<Rightarrow> nat \<Rightarrow> (registry_error, bytes) prog" where
  "read_bounded p limit =
     bind (regular_file p) (\<lambda>m.
       if meta_len m > limit then raise (RefLimit ''file bytes'')
       else bind (map_err RefIo (fs_open p)) (\<lambda>file.
         bind (map_err RefIo (fs_read_to_end file)) (\<lambda>b.
           let b = take (min (limit + 1) USIZE_MAX) b
           in if length b > limit then raise (RefLimit ''file bytes'') else ret b)))"

definition pack_name :: "ref_codec \<Rightarrow> bytes \<Rightarrow> string" where
  "pack_name codec b = rc_hash codec b @ ''.json''"

definition validate_pack_name :: "string \<Rightarrow> registry_error + unit" where
  "validate_pack_name v =
     (if ends_with v ''.json'' then validate_digest (take (length v - 5) v)
      else Inl (RefInvalid ''invalid pack filename''))"

definition pending_name :: "nat \<Rightarrow> nat \<Rightarrow> string" where
  "pending_name pid sequence = ''.pending-'' @ nat_str pid @ ''-'' @ nat_str sequence"

text \<open>\<open>Drop\<close> of a \<open>TemporaryFile\<close>, and the scope at whose end it happens.\<close>

definition drop_temporary :: "path \<Rightarrow> ('e, unit) prog" where
  "drop_temporary p = bind (attempt (fs_remove_file p)) (\<lambda>_. ret ())"

definition with_temporary :: "path \<Rightarrow> ('e, 'a) prog \<Rightarrow> ('e, 'a) prog" where
  "with_temporary p body =
     bind (attempt body) (\<lambda>r. bind (drop_temporary p) (\<lambda>_. of_sum r))"

fun try_temporary :: "nat \<Rightarrow> (nat \<Rightarrow> nat) \<Rightarrow> path \<Rightarrow> bytes \<Rightarrow> nat list \<Rightarrow> (registry_error, path) prog" where
  "try_temporary pid seq dir b [] = raise RefBusy"
| "try_temporary pid seq dir b (k # ks) =
     (let p = dir @ [pending_name pid (seq k)]
      in bind (attempt (fs_create_new p)) (\<lambda>r. case r of
           Inr file \<Rightarrow>
             bind (attempt (bind (fs_write_all file b) (\<lambda>_. fs_sync file))) (\<lambda>w. case w of
               Inr _ \<Rightarrow> ret p
             | Inl e \<Rightarrow> bind (drop_temporary p) (\<lambda>_. raise (RefIo e)))
         | Inl e \<Rightarrow> if e = AlreadyExists then try_temporary pid seq dir b ks else raise (RefIo e)))"

definition write_temporary :: "nat \<Rightarrow> (nat \<Rightarrow> nat) \<Rightarrow> path \<Rightarrow> bytes \<Rightarrow> (registry_error, path) prog" where
  "write_temporary pid seq dir b =
     bind (check_directory dir) (\<lambda>_. try_temporary pid seq dir b [0..<100])"

definition sync_directory :: "path \<Rightarrow> (registry_error, unit) prog" where
  "sync_directory p = bind (map_err RefIo (fs_open_any p)) (\<lambda>_. map_err RefIo (fs_sync 0))"

definition link_immutable :: "path \<Rightarrow> path \<Rightarrow> path \<Rightarrow> bytes \<Rightarrow> nat \<Rightarrow> (registry_error, unit) prog" where
  "link_immutable dir temp target b limit =
     bind (attempt (fs_hard_link temp target)) (\<lambda>r. case r of
       Inr _ \<Rightarrow> sync_directory dir
     | Inl e \<Rightarrow> if e = AlreadyExists
         then bind (read_bounded target limit) (\<lambda>found. if found \<noteq> b then raise RefConflict else ret ())
         else raise (RefIo e))"

definition store_immutable ::
  "nat \<Rightarrow> (nat \<Rightarrow> nat) \<Rightarrow> path \<Rightarrow> string \<Rightarrow> bytes \<Rightarrow> nat \<Rightarrow> (registry_error, unit) prog" where
  "store_immutable pid seq dir name b limit =
     bind (of_sum (validate_pack_name name)) (\<lambda>_.
     bind (write_temporary pid seq dir b) (\<lambda>temp.
     with_temporary temp (link_immutable dir temp (dir @ [name]) b limit)))"

definition rename_into_place :: "path \<Rightarrow> path \<Rightarrow> path \<Rightarrow> (registry_error, unit) prog" where
  "rename_into_place dir temp target =
     bind (map_err RefIo (fs_rename temp target)) (\<lambda>_.
     map_err (\<lambda>e. case e of RefIo k \<Rightarrow> CommitUncertain k | other \<Rightarrow> other) (sync_directory dir))"

definition atomic_replace ::
  "nat \<Rightarrow> (nat \<Rightarrow> nat) \<Rightarrow> path \<Rightarrow> string \<Rightarrow> bytes \<Rightarrow> (registry_error, unit) prog" where
  "atomic_replace pid seq dir name b =
     (let target = dir @ [name]
      in bind (attempt (fs_symlink_metadata target)) (\<lambda>m.
         bind (case m of
             Inr _ \<Rightarrow> bind (regular_file target) (\<lambda>_. ret ())
           | Inl e \<Rightarrow> if e = NotFound then ret () else raise (RefIo e)) (\<lambda>_.
         bind (write_temporary pid seq dir b) (\<lambda>temp.
         with_temporary temp (rename_into_place dir temp target)))))"

section \<open>Calls that only look\<close>

lemma looks_open_any [simp, intro]: "looks (fs_open_any p)"
  unfolding fs_open_any_def by (rule looks_simple_call) (simp split: sum.split)

lemma looks_if: "looks a \<Longrightarrow> looks b \<Longrightarrow> looks (if c then a else b)"
  by simp

lemma looks_store [simp, intro]:
  "looks (check_directory p)" "looks (regular_file p)" "looks (sync_directory p)"
  unfolding check_directory_def regular_file_def sync_directory_def
  by (intro looks_bind looks_if looks_map_err looks_calls looks_ret looks_raise looks_open_any)+

lemma looks_read_bounded [simp, intro]: "looks (read_bounded p n)"
  unfolding read_bounded_def Let_def
  by (intro looks_bind looks_if looks_map_err looks_calls looks_ret looks_raise looks_store)

section \<open>What a run may change\<close>

definition is_pending :: "nat \<Rightarrow> path \<Rightarrow> path \<Rightarrow> bool" where
  "is_pending pid dir q \<longleftrightarrow> (\<exists>n. q = dir @ [pending_name pid n])"

text \<open>Nothing but names that satisfy \<open>P\<close> have changed, and they name what they named.\<close>

definition only_changed :: "(path \<Rightarrow> bool) \<Rightarrow> fs \<Rightarrow> fs \<Rightarrow> bool" where
  "only_changed P fs fs' \<longleftrightarrow>
     (\<forall>q. \<not> P q \<longrightarrow> entries fs' q = entries fs q \<and> bytes_at fs' q = bytes_at fs q)"

lemma only_changed_trans: "only_changed P a b \<Longrightarrow> only_changed P b c \<Longrightarrow> only_changed P a c"
  by (simp add: only_changed_def)

lemma only_changed_mono: "only_changed P a b \<Longrightarrow> (\<And>q. P q \<Longrightarrow> R q) \<Longrightarrow> only_changed R a b"
  by (auto simp: only_changed_def)

lemma only_changed_same:
  assumes "same_tree a b"
  shows "only_changed P a b"
proof -
  have "bytes_at b q = bytes_at a q" for q using assms by (rule same_tree_observe(5))
  with assms show ?thesis by (simp add: only_changed_def same_tree_def)
qed

lemma pending_plain [simp]: "plain (pending_name pid n)"
  by (simp add: plain_def pending_name_def)

lemma locate_in_directory:
  assumes "real_directory (entries fs) d" and "plain c"
  shows "locate fs (d @ [c]) = Inr (d @ [c])"
proof -
  have "resolve fs d = Inr d"
    using resolve_from_real_directory [of "entries fs" "[]" d] assms(1) by (simp add: resolve_def)
  moreover have "d = [] \<or> entries fs d = Some Folder"
    using assms(1) by (cases d rule: rev_exhaust) (auto simp: real_directory_snoc)
  ultimately show ?thesis using assms(2) by (auto simp: locate_def plain_def)
qed

lemma resolve_in_directory:
  assumes "real_directory (entries fs) d" and "plain c" and "entries fs (d @ [c]) = Some (Name i)"
  shows "resolve fs (d @ [c]) = Inr (d @ [c])"
  using assms resolve_from_append [of "entries fs" max_links "[]" d "[c]"]
    resolve_from_real_directory [of "entries fs" "[]" d]
  by (simp add: resolve_def plain_def)

lemma real_directory_mono:
  "real_directory es p \<Longrightarrow> (\<And>q. es q = Some Folder \<Longrightarrow> es' q = Some Folder) \<Longrightarrow> real_directory es' p"
  by (simp add: real_directory_def)

lemma real_directory_child: "real_directory es d \<Longrightarrow> real_directory (es(d @ [c] := e)) d"
proof -
  have "take k d \<noteq> d @ [c]" for k by (metis length_append_singleton length_take min.cobounded1 Suc_n_not_le_n)
  then show "real_directory es d \<Longrightarrow> real_directory (es(d @ [c] := e)) d" by (simp add: real_directory_def)
qed

section \<open>Bounded reads\<close>

lemma regular_file_Done:
  assumes "calm fs" and "real_directory (entries fs) d" and "plain c"
    and "regular_file (d @ [c]) fs = (Done m, fs')"
  shows "\<exists>i f. entries fs (d @ [c]) = Some (Name i) \<and> inodes fs i = Some f \<and>
    meta_len m = length (content f) \<and> calm fs' \<and> same_tree fs fs'"
proof -
  let ?p = "d @ [c]"
  from assms(4) have run: "fs_symlink_metadata ?p fs = (Done m, fs')" and is_file: "meta_is_file m"
    by (auto simp: regular_file_def io_simps split: if_splits)
  have "m = metadata_of fs ?p"
    by (rule simple_call_Done [OF assms(1) run [unfolded fs_symlink_metadata_def]])
      (use locate_in_directory [OF assms(2,3)] in \<open>auto split: option.splits\<close>)
  moreover from looksD [OF looks_calls(2) assms(1) run] have "calm fs' \<and> same_tree fs fs'" .
  ultimately show ?thesis
    using is_file by (auto simp: metadata_of_def file_at_def inode_at_def bind_eq_Some_conv
        split: option.splits entry.splits)
qed

lemma read_bounded_Done:
  assumes "calm fs" and "real_directory (entries fs) d" and "plain c"
    and "read_bounded (d @ [c]) limit fs = (Done b, fs')" and "limit \<le> USIZE_MAX"
  shows "bytes_at fs (d @ [c]) = Some b \<and> length b \<le> limit \<and> (\<exists>i. entries fs (d @ [c]) = Some (Name i))"
proof -
  let ?p = "d @ [c]"
  from assms(4) obtain m fs1 i fs2 b' where 1: "regular_file ?p fs = (Done m, fs1)" "meta_len m \<le> limit"
    and 2: "fs_open ?p fs1 = (Done i, fs2)" and 3: "fs_read_to_end i fs2 = (Done b', fs')"
    and b: "b = take (min (limit + 1) USIZE_MAX) b'" "length b \<le> limit"
    by (auto simp: read_bounded_def io_simps Let_def split: if_splits)
  from regular_file_Done [OF assms(1-3) 1(1)] obtain j f where
    j: "entries fs ?p = Some (Name j)" "inodes fs j = Some f" "length (content f) = meta_len m"
    and s1: "calm fs1" "same_tree fs fs1" by auto
  from looksD [OF looks_calls(4) s1(1) 2] have s2: "calm fs2" "same_tree fs1 fs2" by auto
  from fs_open_Done [OF s1(1) 2] have "i = j"
    using resolve_in_directory [OF assms(2,3) j(1)] same_tree_observe [OF s1(2)] j(1) by (auto simp: inode_at_def)
  with fs_read_to_end_Done [OF s2(1) 3] j s1(2) s2(2) have "b' = content f"
    by (simp add: same_tree_def inode_bytes_def)
  moreover have "bytes_at fs ?p = Some (content f)"
    using j by (simp add: bytes_at_def file_at_def inode_at_def)
  ultimately show ?thesis using b j 1(2) assms(5) by auto
qed

section \<open>Temporaries\<close>

lemma staged_base: "same_tree fs fs1 \<Longrightarrow> staged fs1 t b fs' \<Longrightarrow> staged fs t b fs'"
  by (simp add: staged_def same_tree_def inode_bytes_def)

lemma cleared_only: "wf_fs fs \<Longrightarrow> cleared fs t b fs' \<Longrightarrow> only_changed (\<lambda>q. q = t) fs fs'"
  by (simp add: only_changed_def cleared_elsewhere)

lemma cleared_calm: "cleared fs t b fs' \<Longrightarrow> calm fs'"
  by (auto simp: cleared_def staged_def)

lemma staged_cleared: "staged fs t b fs' \<Longrightarrow> cleared fs t b fs'"
  by (simp add: cleared_def)

lemma wp_drop_temporary:
  assumes "staged fs0 t b fs" and "locate fs0 t = Inr t"
    and "\<And>r fs'. cleared fs0 t b fs' \<Longrightarrow> (\<forall>e. r \<noteq> Raise e) \<Longrightarrow> Q r fs'"
  shows "wp (drop_temporary t) Q fs"
  unfolding drop_temporary_def wp_bind wp_attempt wp_ret
  by (rule wp_remove_staged [OF assms(1,2)]) (auto intro: assms(3) split: outcome.split)

lemma map_raise_eq_Raise: "map_raise f r = Raise e \<longleftrightarrow> (\<exists>k. r = Raise k \<and> e = f k)"
  by (cases r) auto

lemma wp_try_temporary:
  assumes "wf_fs fs" and "calm fs" and "real_directory (entries fs) dir"
    and "\<And>n fs'. staged fs (dir @ [pending_name pid n]) b fs' \<Longrightarrow> Q (Done (dir @ [pending_name pid n])) fs'"
    and "\<And>r fs'. calm fs' \<Longrightarrow> only_changed (is_pending pid dir) fs fs' \<Longrightarrow> (\<forall>p. r \<noteq> Done p) \<Longrightarrow> (\<forall>k. r \<noteq> Raise (CommitUncertain k)) \<Longrightarrow> Q r fs'"
  shows "wp (try_temporary pid seq dir b ks) Q fs"
  using assms
proof (induction ks arbitrary: fs)
  case Nil
  then show ?case by (simp add: wp_raise only_changed_same)
next
  case (Cons k ks)
  let ?p = "dir @ [pending_name pid (seq k)]"
  have loc: "locate fs ?p = Inr ?p" using Cons.prems(3) by (rule locate_in_directory) simp
  have bad: "Q r fs'" if "cleared fs ?p b' fs'" "\<forall>p. r \<noteq> Done p" "\<forall>k. r \<noteq> Raise (CommitUncertain k)" for r b' fs'
    using cleared_only [OF Cons.prems(1) that(1)] that
    by (auto intro!: Cons.prems(5) cleared_calm elim!: only_changed_mono simp: is_pending_def)
  have again: "wp (try_temporary pid seq dir b ks) Q fs1" if "calm fs1" and same: "same_tree fs fs1" for fs1
  proof (rule Cons.IH)
    show "wf_fs fs1" "real_directory (entries fs1) dir"
      using Cons.prems(1,3) same by (simp_all add: wf_fs_def same_tree_def)
    show "Q r fs'" if "calm fs'" "only_changed (is_pending pid dir) fs1 fs'" "\<forall>p. r \<noteq> Done p"
      "\<forall>k. r \<noteq> Raise (CommitUncertain k)" for r fs'
      using that(1) only_changed_trans [OF only_changed_same [OF same] that(2)] that(3,4) by (rule Cons.prems(5))
  qed (use that Cons.prems(4) staged_base [OF same] in auto)
  have drop: "wp (bind (drop_temporary ?p) (\<lambda>_. raise (RefIo e))) Q fs'" if "staged fs ?p b' fs'" for e b' fs'
    unfolding wp_bind
    by (rule wp_drop_temporary [OF that loc]) (auto simp: wp_raise intro: bad split: outcome.split)
  have filled: "wp (bind (attempt (bind (fs_write_all (next_inode fs) b) (\<lambda>_. fs_sync (next_inode fs))))
      (\<lambda>w. case w of Inr _ \<Rightarrow> ret ?p | Inl e \<Rightarrow> bind (drop_temporary ?p) (\<lambda>_. raise (RefIo e)))) Q fs1"
    if "staged fs ?p [] fs1" for fs1
    unfolding wp_bind [of "attempt _"] wp_attempt wp_bind [of "fs_write_all _ _"]
    by (rule wp_write_all_staged [OF that])
      (auto simp: wp_ret intro: drop bad staged_cleared Cons.prems(4) intro!: wp_looks_staged [OF looks_calls(6)] split: outcome.split)
  show ?case
    unfolding try_temporary.simps Let_def wp_bind wp_attempt
    by (rule wp_create_new [OF Cons.prems(2) loc])
      (use filled staged_new_file again Cons.prems(5) in \<open>auto simp: wp_raise wp_bind wp_attempt only_changed_same\<close>)
qed

lemma wp_write_temporary:
  assumes "wf_fs fs" and "calm fs" and "real_directory (entries fs) dir"
    and ok: "\<And>n fs'. staged fs (dir @ [pending_name pid n]) b fs' \<Longrightarrow> Q (Done (dir @ [pending_name pid n])) fs'"
    and bad: "\<And>r fs'. calm fs' \<Longrightarrow> only_changed (is_pending pid dir) fs fs' \<Longrightarrow> (\<forall>p. r \<noteq> Done p) \<Longrightarrow> (\<forall>k. r \<noteq> Raise (CommitUncertain k)) \<Longrightarrow> Q r fs'"
  shows "wp (write_temporary pid seq dir b) Q fs"
  unfolding write_temporary_def wp_bind
proof (rule wp_looks [OF looks_store(1) assms(2)])
  fix r :: "(registry_error, unit) outcome" and fs1
  assume run: "check_directory dir fs = (r, fs1)" and calm: "calm fs1" and same: "same_tree fs fs1"
  then have "\<forall>k. r \<noteq> Raise (CommitUncertain k)"
    by (auto simp: check_directory_def bind_def map_err_def raise_def ret_def map_raise_eq_Raise
        split: prod.splits outcome.splits if_splits)
  moreover
  have "wp (try_temporary pid seq dir b [0..<100]) Q fs1"
  proof (rule wp_try_temporary)
    show "wf_fs fs1" "real_directory (entries fs1) dir" "calm fs1"
      using assms(1,3) same calm by (simp_all add: wf_fs_def same_tree_def)
    show "Q r fs'" if "calm fs'" "only_changed (is_pending pid dir) fs1 fs'" "\<forall>p. r \<noteq> Done p"
      "\<forall>k. r \<noteq> Raise (CommitUncertain k)" for r fs'
      using that(1) only_changed_trans [OF only_changed_same [OF same] that(2)] that(3,4) by (rule bad)
  qed (use ok staged_base [OF same] in auto)
  ultimately show "case r of Done a \<Rightarrow> wp (try_temporary pid seq dir b [0..<100]) Q fs1
      | Raise e \<Rightarrow> Q (Raise e) fs1 | Halt h \<Rightarrow> Q (Halt h) fs1"
    using bad [OF calm only_changed_same [OF same]] by (auto split: outcome.split)
qed

text \<open>
  A temporary in use: what is done with it leaves either the staged tree or a tree in which the
  target has come to name the staged file, and at the end of the scope its name is removed.
\<close>

definition replaced_in :: "nat \<Rightarrow> path \<Rightarrow> path \<Rightarrow> bytes \<Rightarrow> fs \<Rightarrow> fs \<Rightarrow> bool" where
  "replaced_in pid dir t b fs fs' \<longleftrightarrow> calm fs' \<and> bytes_at fs' t = Some b \<and> (\<exists>i. entries fs' t = Some (Name i)) \<and>
     only_changed (\<lambda>q. q = t \<or> is_pending pid dir q) fs fs'"

definition unchanged_in :: "nat \<Rightarrow> path \<Rightarrow> fs \<Rightarrow> fs \<Rightarrow> bool" where
  "unchanged_in pid dir fs fs' \<longleftrightarrow> calm fs' \<and> only_changed (is_pending pid dir) fs fs'"

lemma wp_with_temporary:
  fixes body :: "('e, 'a) prog"
  shows "wp (with_temporary p body) Q fs =
    wp body (\<lambda>r fs'. if \<exists>h. r = Halt h then Q r fs'
      else wp (drop_temporary p :: ('e, unit) prog) (\<lambda>d. Q (case d of Halt h \<Rightarrow> Halt h | _ \<Rightarrow> r)) fs') fs"
proof -
  obtain r fs1 where body: "body fs = (r, fs1)" by force
  obtain d fs2 where drop: "(drop_temporary p :: ('e, unit) prog) fs1 = (d, fs2)" by force
  then have "\<nexists>e. d = Raise e"
    by (auto simp: drop_temporary_def bind_def attempt_def ret_def split: prod.splits outcome.splits)
  with body drop show ?thesis
    by (cases r; cases d) (simp_all add: with_temporary_def wp_def bind_def attempt_def of_sum_def ret_def raise_def)
qed

lemma pending_target: "is_pending pid dir (dir @ [c]) \<longleftrightarrow> (\<exists>n. c = pending_name pid n)"
  by (auto simp: is_pending_def)

lemma cleared_unchanged:
  assumes "wf_fs fs" and "cleared fs (dir @ [pending_name pid n]) b fs'"
  shows "unchanged_in pid dir fs fs'"
  using cleared_only [OF assms] cleared_calm [OF assms(2)]
  by (auto simp: unchanged_in_def is_pending_def elim!: only_changed_mono)

lemma renamed_replaced:
  assumes "wf_fs fs" and "renamed fs t b fs'"
  shows "replaced_in pid dir t b fs fs'"
proof -
  have "only_changed (\<lambda>q. q = t) fs fs'"
    unfolding only_changed_def
  proof (intro allI impI)
    fix q assume "q \<noteq> t"
    with assms(2) have "entries fs' q = entries fs q" by (simp add: renamed_def)
    with assms(2) wf_inode_at [OF assms(1), of q] show "entries fs' q = entries fs q \<and> bytes_at fs' q = bytes_at fs q"
      by (auto simp: bytes_at_inode inode_at_def renamed_def split: option.split entry.split)
  qed
  then have "only_changed (\<lambda>q. q = t \<or> is_pending pid dir q) fs fs'" by (rule only_changed_mono) simp
  with renamed_bytes(1) [OF assms] assms(2) show ?thesis by (simp add: replaced_in_def renamed_def)
qed

lemma renamed_same_tree: "renamed fs t b fs1 \<Longrightarrow> calm fs2 \<Longrightarrow> same_tree fs1 fs2 \<Longrightarrow> renamed fs t b fs2"
  by (simp add: renamed_def same_tree_def inode_bytes_def)

lemma wp_drop_renamed:
  assumes "renamed fs0 t b fs" and "real_directory (entries fs) dir" and "entries fs0 (dir @ [c]) = None"
    and "plain c" and "dir @ [c] \<noteq> t" and "\<And>r fs'. renamed fs0 t b fs' \<Longrightarrow> (\<forall>e. r \<noteq> Raise e) \<Longrightarrow> Q r fs'"
  shows "wp (drop_temporary (dir @ [c])) Q fs"
proof -
  have keep: "renamed fs0 t b fs'" if "calm fs'" "same_tree fs fs'" for fs'
    using assms(1) that by (rule renamed_same_tree)
  have "wp (fs_remove_file (dir @ [c])) (\<lambda>r fs'. renamed fs0 t b fs') fs"
  proof (rule wp_remove_file)
    show "calm fs" using assms(1) by (simp add: renamed_def)
    show "locate fs (dir @ [c]) = Inr (dir @ [c])" using assms(2,4) by (rule locate_in_directory)
    fix fs' assume "calm fs'" "same_tree (fs\<lparr>entries := (entries fs)(dir @ [c] := None)\<rparr>) fs'"
    with assms(1,3,5) show "renamed fs0 t b fs'"
      by (auto simp: renamed_def same_tree_def inode_bytes_def fun_eq_iff)
  qed (auto intro: keep)
  then show ?thesis
    unfolding drop_temporary_def wp_bind wp_attempt wp_ret
    by (rule wp_mono) (auto intro: assms(6) split: outcome.split)
qed

section \<open>Publishing the registry\<close>

definition published_in :: "nat \<Rightarrow> path \<Rightarrow> path \<Rightarrow> bytes \<Rightarrow> fs \<Rightarrow> (registry_error, 'a) outcome \<Rightarrow> fs \<Rightarrow> bool" where
  "published_in pid dir t b fs r fs' \<longleftrightarrow>
     (case r of
        Done _ \<Rightarrow> replaced_in pid dir t b fs fs'
      | Raise (CommitUncertain _) \<Rightarrow> replaced_in pid dir t b fs fs'
      | Raise _ \<Rightarrow> unchanged_in pid dir fs fs'
      | Halt _ \<Rightarrow> replaced_in pid dir t b fs fs' \<or> unchanged_in pid dir fs fs')"

lemma unchanged_published:
  "unchanged_in pid dir fs fs' \<Longrightarrow> (\<forall>a. r \<noteq> Done a) \<Longrightarrow> (\<forall>k. r \<noteq> Raise (CommitUncertain k)) \<Longrightarrow>
    published_in pid dir t b fs r fs'"
  by (auto simp: published_in_def split: outcome.split reference_error.split)

lemma wp_sync_renamed:
  assumes "renamed fs0 t b fs" and "\<And>r fs'. renamed fs0 t b fs' \<Longrightarrow> (\<forall>e. r = Raise e \<longrightarrow> (\<exists>k. e = RefIo k)) \<Longrightarrow> Q r fs'"
  shows "wp (sync_directory dir) Q fs"
proof (rule wp_looks [OF looks_store(3)])
  show "calm fs" using assms(1) by (simp add: renamed_def)
  fix r fs' assume run: "sync_directory dir fs = (r, fs')" and "calm fs'" "same_tree fs fs'"
  then have "renamed fs0 t b fs'" using assms(1) by (blast intro: renamed_same_tree)
  moreover from run have "\<forall>e. r = Raise e \<longrightarrow> (\<exists>k. e = RefIo k)"
    by (auto simp: sync_directory_def bind_def map_err_def map_raise_eq_Raise split: prod.splits outcome.splits)
  ultimately show "Q r fs'" by (rule assms(2))
qed

lemma wp_rename_into_place:
  assumes wf: "wf_fs fs0" and dir: "real_directory (entries fs0) dir" and st: "staged fs0 (dir @ [c]) b fs"
    and names: "plain c" "plain name" "c \<noteq> name"
    and ok: "\<And>r fs'. renamed fs0 (dir @ [name]) b fs' \<Longrightarrow> (\<forall>e. r = Raise e \<longrightarrow> (\<exists>k. e = CommitUncertain k)) \<Longrightarrow> Q r fs'"
    and bad: "\<And>r fs'. staged fs0 (dir @ [c]) b fs' \<Longrightarrow> (\<forall>a. r \<noteq> Done a) \<Longrightarrow> (\<forall>k. r \<noteq> Raise (CommitUncertain k)) \<Longrightarrow> Q r fs'"
  shows "wp (rename_into_place dir (dir @ [c]) (dir @ [name])) Q fs"
proof -
  have dir': "real_directory (entries fs) dir"
    using dir st by (auto elim!: real_directory_mono simp: staged_def)
  have sync: "wp (map_err (\<lambda>e. case e of RefIo k \<Rightarrow> CommitUncertain k | other \<Rightarrow> other) (sync_directory dir)) Q fs'"
    if "renamed fs0 (dir @ [name]) b fs'" for fs'
    unfolding wp_map_err
  proof (rule wp_sync_renamed [OF that], rule ok)
    fix r :: "(registry_error, unit) outcome" and fs'' assume "\<forall>e. r = Raise e \<longrightarrow> (\<exists>k. e = RefIo k)"
    then show "\<forall>e. map_raise (\<lambda>e. case e of RefIo k \<Rightarrow> CommitUncertain k | other \<Rightarrow> other) r = Raise e \<longrightarrow>
        (\<exists>k. e = CommitUncertain k)" by (cases r) auto
  qed
  show ?thesis
    unfolding rename_into_place_def wp_bind wp_map_err [of RefIo]
  proof (rule wp_rename)
    show "calm fs" "entries fs (dir @ [c]) = Some (Name (next_inode fs0))" using st by (auto simp: staged_def)
    show "locate fs (dir @ [c]) = Inr (dir @ [c])" "locate fs (dir @ [name]) = Inr (dir @ [name])"
      using dir' names by (auto intro: locate_in_directory)
    show "entries fs (dir @ [name]) \<noteq> Some (Name (next_inode fs0))"
      using st names wf by (auto simp: staged_def wf_fs_def)
  next
    fix fs' assume "calm fs'" and
      "same_tree (fs\<lparr>entries := (entries fs)(dir @ [c] := None, dir @ [name] \<mapsto> Name (next_inode fs0))\<rparr>) fs'"
    with st names have "renamed fs0 (dir @ [name]) b fs'"
      by (auto simp: renamed_def staged_def same_tree_def inode_bytes_def fun_eq_iff)
    then show "case map_raise RefIo (Done ()) of
        Done a \<Rightarrow> wp (map_err (\<lambda>e. case e of RefIo k \<Rightarrow> CommitUncertain k | other \<Rightarrow> other) (sync_directory dir)) Q fs'
      | Raise e \<Rightarrow> Q (Raise e) fs' | Halt h \<Rightarrow> Q (Halt h) fs'"
      by (simp add: sync)
  qed (use st names staged_same_tree bad in auto)
qed

lemma pending_not: "hd name \<noteq> CHR ''.'' \<Longrightarrow> pending_name pid n \<noteq> name"
  by (auto simp: pending_name_def)

lemma wp_rename_scoped:
  assumes wf: "wf_fs fs" and dir: "real_directory (entries fs) dir" and st: "staged fs (dir @ [pending_name pid n]) b fs2"
    and name: "plain name" "hd name \<noteq> CHR ''.''"
  shows "wp (with_temporary (dir @ [pending_name pid n]) (rename_into_place dir (dir @ [pending_name pid n]) (dir @ [name])))
    (published_in pid dir (dir @ [name]) b fs) fs2"
  unfolding wp_with_temporary
proof (rule wp_rename_into_place [OF wf dir st])
  let ?t = "dir @ [name]" and ?p = "dir @ [pending_name pid n]"
  fix r :: "(registry_error, unit) outcome" and fs3
  assume ren: "renamed fs ?t b fs3" and r: "\<forall>e. r = Raise e \<longrightarrow> (\<exists>k. e = CommitUncertain k)"
  have dir3: "real_directory (entries fs3) dir"
    using real_directory_child [OF dir] ren by (simp add: renamed_def)
  have good: "published_in pid dir ?t b fs r' fs4"
    if "renamed fs ?t b fs4" "\<forall>e. r' = Raise e \<longrightarrow> (\<exists>k. e = CommitUncertain k)" for r' :: "(registry_error, unit) outcome" and fs4
    using renamed_replaced [OF wf that(1), of pid dir] that(2) by (cases r') (auto simp: published_in_def)
  have free: "entries fs ?p = None" using st by (simp add: staged_def)
  show "if \<exists>h. r = Halt h then published_in pid dir ?t b fs r fs3
      else wp (drop_temporary ?p :: (registry_error, unit) prog)
        (\<lambda>d. published_in pid dir ?t b fs (case d of Halt h \<Rightarrow> Halt h | _ \<Rightarrow> r)) fs3"
    by (simp add: good [OF ren] r)
      (use r pending_not [OF name(2)] in \<open>auto intro!: wp_drop_renamed [OF ren dir3 free] good split: outcome.splits\<close>)
next
  let ?t = "dir @ [name]" and ?p = "dir @ [pending_name pid n]"
  fix r :: "(registry_error, unit) outcome" and fs3
  assume st3: "staged fs ?p b fs3" and r: "\<forall>a. r \<noteq> Done a" "\<forall>k. r \<noteq> Raise (CommitUncertain k)"
  have clear: "published_in pid dir ?t b fs r' fs4"
    if "cleared fs ?p b' fs4" "\<forall>a. r' \<noteq> Done a" "\<forall>k. r' \<noteq> Raise (CommitUncertain k)"
    for r' :: "(registry_error, unit) outcome" and b' fs4
    using cleared_unchanged [OF wf that(1)] that(2,3) by (rule unchanged_published)
  have loc: "locate fs ?p = Inr ?p" using dir by (rule locate_in_directory) simp
  show "if \<exists>h. r = Halt h then published_in pid dir ?t b fs r fs3
      else wp (drop_temporary ?p :: (registry_error, unit) prog)
        (\<lambda>d. published_in pid dir ?t b fs (case d of Halt h \<Rightarrow> Halt h | _ \<Rightarrow> r)) fs3"
    by (simp add: clear [OF staged_cleared [OF st3]] r)
      (use r in \<open>auto intro!: wp_drop_temporary [OF st3 loc] clear split: outcome.splits\<close>)
qed (use name pending_not in auto)

lemma unchanged_after:
  assumes "same_tree fs fs1" and "unchanged_in pid dir fs1 fs2"
  shows "unchanged_in pid dir fs fs2"
  using assms only_changed_trans [OF only_changed_same [OF assms(1)]] by (auto simp: unchanged_in_def)

lemma wp_atomic_replace:
  assumes wf: "wf_fs fs" and calm: "calm fs" and dir: "real_directory (entries fs) dir"
    and name: "plain name" "hd name \<noteq> CHR ''.''"
  shows "wp (atomic_replace pid seq dir name b) (published_in pid dir (dir @ [name]) b fs) fs"
proof -
  let ?t = "dir @ [name]" and ?Q = "published_in pid dir (dir @ [name]) b fs :: (registry_error, unit) outcome \<Rightarrow> fs \<Rightarrow> bool"
  let ?put = "bind (write_temporary pid seq dir b) (\<lambda>temp. with_temporary temp (rename_into_place dir temp ?t))"
  have put: "wp ?put ?Q fs1" if "calm fs1" and same: "same_tree fs fs1" for fs1
    unfolding wp_bind
  proof (rule wp_write_temporary)
    show "wf_fs fs1" "real_directory (entries fs1) dir" "calm fs1"
      using wf dir same that(1) by (simp_all add: wf_fs_def same_tree_def)
  qed (use wp_rename_scoped [OF wf dir staged_base [OF same] name] unchanged_after [OF same] in
      \<open>auto simp: unchanged_in_def intro!: unchanged_published split: outcome.split\<close>)
  have bad: "?Q r fs1" if "calm fs1" "same_tree fs fs1" "\<forall>a. r \<noteq> Done a" "\<forall>k. r \<noteq> Raise (CommitUncertain k)"
    for r :: "(registry_error, unit) outcome" and fs1
    using that only_changed_same [OF that(2)] by (simp add: unchanged_published unchanged_in_def)
  have check: "wp (bind (case m of Inr _ \<Rightarrow> bind (regular_file ?t) (\<lambda>_. ret ())
      | Inl e \<Rightarrow> if e = NotFound then ret () else raise (RefIo e)) (\<lambda>_. ?put)) ?Q fs1"
    if "calm fs1" and same: "same_tree fs fs1" for m :: "io_kind + metadata" and fs1
  proof (cases m)
    case (Inl e)
    with put [OF that] bad [OF that] show ?thesis by (simp add: wp_bind wp_ret wp_raise)
  next
    case (Inr md)
    have "wp (regular_file ?t) (\<lambda>r fs2. case r of Done _ \<Rightarrow> wp ?put ?Q fs2
        | Raise e \<Rightarrow> ?Q (Raise e) fs2 | Halt h \<Rightarrow> ?Q (Halt h) fs2) fs1"
    proof (rule wp_looks [OF looks_store(2) that(1)])
      fix r fs2 assume run: "regular_file ?t fs1 = (r, fs2)" and "calm fs2" "same_tree fs1 fs2"
      with same have fs2: "calm fs2" "same_tree fs fs2" by (auto intro: same_tree_trans)
      from run have "\<forall>k. r \<noteq> Raise (CommitUncertain k)"
        by (auto simp: regular_file_def bind_def map_err_def raise_def ret_def map_raise_eq_Raise
            split: prod.splits outcome.splits if_splits)
      then show "case r of Done _ \<Rightarrow> wp ?put ?Q fs2
          | Raise e \<Rightarrow> ?Q (Raise e) fs2 | Halt h \<Rightarrow> ?Q (Halt h) fs2"
        by (auto intro: put [OF fs2] bad [OF fs2] split: outcome.split)
    qed
    then show ?thesis by (simp add: Inr wp_bind [of "regular_file ?t"] bind_assoc bind_ret)
  qed
  define body where "body m = bind (case m of Inr _ \<Rightarrow> bind (regular_file ?t) (\<lambda>_. ret ())
      | Inl e \<Rightarrow> if e = NotFound then ret () else raise (RefIo e)) (\<lambda>_. ?put)" for m :: "io_kind + metadata"
  have "wp (bind (attempt (fs_symlink_metadata ?t)) body) ?Q fs"
    unfolding wp_bind wp_attempt
    by (rule wp_looks [OF looks_calls(2) calm]) (auto intro: check [folded body_def] bad split: outcome.split)
  then show ?thesis unfolding atomic_replace_def Let_def body_def [abs_def] .
qed

section \<open>Storing an immutable file\<close>

definition stored_in :: "nat \<Rightarrow> path \<Rightarrow> path \<Rightarrow> bytes \<Rightarrow> fs \<Rightarrow> ('e, 'a) outcome \<Rightarrow> fs \<Rightarrow> bool" where
  "stored_in pid dir t b fs r fs' \<longleftrightarrow>
     (unchanged_in pid dir fs fs' \<or> entries fs t = None \<and> replaced_in pid dir t b fs fs') \<and>
     (\<forall>a. r = Done a \<longrightarrow> bytes_at fs' t = Some b \<and> (\<exists>i. entries fs' t = Some (Name i)))"

lemma linked_replaced:
  assumes wf: "wf_fs fs" and l: "linked fs (dir @ [pending_name pid n]) t b fs'"
  shows "stored_in pid dir t b fs r fs'"
proof -
  have "bytes_at fs' t = Some b" and "entries fs t = None" and "\<exists>i. entries fs' t = Some (Name i)"
    using l by (auto simp: linked_def bytes_at_inode inode_at_def)
  moreover have "only_changed (\<lambda>q. q = t \<or> is_pending pid dir q) fs fs'"
    unfolding only_changed_def
  proof (intro allI impI)
    fix q assume "\<not> (q = t \<or> is_pending pid dir q)"
    with l have "entries fs' q = entries fs q" by (auto simp: linked_def is_pending_def)
    with l wf_inode_at [OF wf, of q] show "entries fs' q = entries fs q \<and> bytes_at fs' q = bytes_at fs q"
      by (auto simp: bytes_at_inode inode_at_def linked_def split: option.split entry.split)
  qed
  ultimately show ?thesis using l by (simp add: stored_in_def replaced_in_def linked_def)
qed

lemma linked_same_tree: "linked fs tq t b fs1 \<Longrightarrow> calm fs2 \<Longrightarrow> same_tree fs1 fs2 \<Longrightarrow> linked fs tq t b fs2"
  by (simp add: linked_def same_tree_def inode_bytes_def)

lemma wp_drop_linked:
  assumes l: "linked fs0 (dir @ [c]) t b fs" and "real_directory (entries fs) dir" and "plain c" and "dir @ [c] \<noteq> t"
    and ok: "\<And>r fs'. linked fs0 (dir @ [c]) t b fs' \<Longrightarrow> (\<forall>e. r \<noteq> Raise e) \<Longrightarrow> Q r fs'"
  shows "wp (drop_temporary (dir @ [c])) Q fs"
proof -
  have keep: "linked fs0 (dir @ [c]) t b fs'" if "calm fs'" "same_tree fs fs'" for fs'
    using l that by (rule linked_same_tree)
  have "wp (fs_remove_file (dir @ [c])) (\<lambda>r fs'. linked fs0 (dir @ [c]) t b fs') fs"
  proof (rule wp_remove_file)
    show "calm fs" using l by (simp add: linked_def)
    show "locate fs (dir @ [c]) = Inr (dir @ [c])" using assms(2,3) by (rule locate_in_directory)
    fix fs' assume "calm fs'" "same_tree (fs\<lparr>entries := (entries fs)(dir @ [c] := None)\<rparr>) fs'"
    with l assms(4) show "linked fs0 (dir @ [c]) t b fs'"
      by (auto simp: linked_def same_tree_def inode_bytes_def)
  qed (auto intro: keep)
  then show ?thesis
    unfolding drop_temporary_def wp_bind wp_attempt wp_ret
    by (rule wp_mono) (auto intro: ok split: outcome.split)
qed

lemma wp_link_immutable:
  assumes wf: "wf_fs fs0" and dir: "real_directory (entries fs0) dir" and st: "staged fs0 (dir @ [c]) b fs"
    and names: "plain c" "plain name" "c \<noteq> name" and limit: "limit \<le> USIZE_MAX"
    and ok: "\<And>r fs'. linked fs0 (dir @ [c]) (dir @ [name]) b fs' \<Longrightarrow> Q r fs'"
    and found: "\<And>r fs'. staged fs0 (dir @ [c]) b fs' \<Longrightarrow> (\<forall>a. r = Done a \<longrightarrow> bytes_at fs0 (dir @ [name]) = Some b \<and>
        (\<exists>i. entries fs0 (dir @ [name]) = Some (Name i))) \<Longrightarrow> Q r fs'"
  shows "wp (link_immutable dir (dir @ [c]) (dir @ [name]) b limit) Q fs"
proof -
  let ?t = "dir @ [name]" and ?p = "dir @ [c]"
  have real: "real_directory (entries fs') dir" if "staged fs0 ?p b fs'" for fs'
    using real_directory_child [OF dir] that by (simp add: staged_def)
  have neq: "?t \<noteq> ?p" using names by simp
  have read: "wp (bind (read_bounded ?t limit) (\<lambda>x. if x \<noteq> b then raise RefConflict else ret ())) Q fs'"
    if st': "staged fs0 ?p b fs'" for fs'
    unfolding wp_bind
  proof (rule wp_looks [OF looks_read_bounded])
    show calm: "calm fs'" using st' by (simp add: staged_def)
    fix r fs'' assume run: "read_bounded ?t limit fs' = (r, fs'')" and "calm fs''" "same_tree fs' fs''"
    with st' have st'': "staged fs0 ?p b fs''" by (blast intro: staged_same_tree)
    have "bytes_at fs0 ?t = Some x \<and> (\<exists>i. entries fs0 ?t = Some (Name i))" if "r = Done x" for x
      using read_bounded_Done [OF calm real [OF st'] names(2) _ limit, of x fs''] run that
        staged_bytes [OF wf st' neq] by simp
    with st'' show "case r of Done x \<Rightarrow> wp (if x \<noteq> b then raise RefConflict else ret ()) Q fs''
        | Raise e \<Rightarrow> Q (Raise e) fs'' | Halt h \<Rightarrow> Q (Halt h) fs''"
      by (cases r) (auto simp: wp_raise wp_ret intro: found)
  qed
  have sync: "wp (sync_directory dir) Q fs'" if "linked fs0 ?p ?t b fs'" for fs'
    by (rule wp_looks [OF looks_store(3)])
      (use that linked_same_tree [OF that] ok in \<open>auto simp: linked_def\<close>)
  have link: "linked fs0 ?p ?t b fs'" if "calm fs'" "entries fs ?t = None"
    "same_tree (fs\<lparr>entries := (entries fs)(?t \<mapsto> Name (next_inode fs0))\<rparr>) fs'" for fs'
    using that st neq by (auto simp: linked_def staged_def same_tree_def inode_bytes_def)
  show ?thesis
    unfolding link_immutable_def wp_bind [of "attempt _"] wp_attempt
  proof (rule wp_hard_link)
    show "calm fs" "entries fs ?p = Some (Name (next_inode fs0))" using st by (auto simp: staged_def)
    show "locate fs ?p = Inr ?p" "locate fs ?t = Inr ?t"
      using real [OF st] names by (auto intro: locate_in_directory)
  qed (auto simp: wp_raise intro: sync link read found staged_same_tree [OF st])
qed

lemma cleared_stored:
  assumes "wf_fs fs" and "cleared fs (dir @ [pending_name pid n]) b' fs'" and "t \<noteq> dir @ [pending_name pid n]"
    and "\<forall>a. r = Done a \<longrightarrow> bytes_at fs t = Some b \<and> (\<exists>i. entries fs t = Some (Name i))"
  shows "stored_in pid dir t b fs r fs'"
  using cleared_unchanged [OF assms(1,2)] cleared_elsewhere [OF assms(1,2,3)] assms(4)
  by (auto simp: stored_in_def)

lemma wp_link_scoped:
  assumes wf: "wf_fs fs" and dir: "real_directory (entries fs) dir" and st: "staged fs (dir @ [pending_name pid n]) b fs2"
    and name: "plain name" "hd name \<noteq> CHR ''.''" and limit: "limit \<le> USIZE_MAX"
  shows "wp (with_temporary (dir @ [pending_name pid n]) (link_immutable dir (dir @ [pending_name pid n]) (dir @ [name]) b limit))
    (stored_in pid dir (dir @ [name]) b fs) fs2"
  unfolding wp_with_temporary
proof (rule wp_link_immutable [OF wf dir st])
  let ?t = "dir @ [name]" and ?p = "dir @ [pending_name pid n]"
  have neq: "?t \<noteq> ?p" "?p \<noteq> ?t" using pending_not [OF name(2)] by auto
  {
    fix r :: "(registry_error, unit) outcome" and fs3
    assume l: "linked fs ?p ?t b fs3"
    have "entries fs ?p = None" using st by (simp add: staged_def)
    then have "entries fs3 q = Some Folder" if "entries fs q = Some Folder" for q
      using l that by (cases "q = ?t"; cases "q = ?p") (auto simp: linked_def)
    with dir have real: "real_directory (entries fs3) dir" by (rule real_directory_mono)
    show "if \<exists>h. r = Halt h then stored_in pid dir ?t b fs r fs3
      else wp (drop_temporary ?p :: (registry_error, unit) prog)
        (\<lambda>d. stored_in pid dir ?t b fs (case d of Halt h \<Rightarrow> Halt h | _ \<Rightarrow> r)) fs3"
      by (auto intro!: wp_drop_linked [OF l real _ neq(2)] linked_replaced [OF wf] intro: l)
  next
    fix r :: "(registry_error, unit) outcome" and fs3
    assume s: "staged fs ?p b fs3" and r: "\<forall>a. r = Done a \<longrightarrow> bytes_at fs ?t = Some b \<and> (\<exists>i. entries fs ?t = Some (Name i))"
    have loc: "locate fs ?p = Inr ?p" using dir by (rule locate_in_directory) simp
    show "if \<exists>h. r = Halt h then stored_in pid dir ?t b fs r fs3
      else wp (drop_temporary ?p :: (registry_error, unit) prog)
        (\<lambda>d. stored_in pid dir ?t b fs (case d of Halt h \<Rightarrow> Halt h | _ \<Rightarrow> r)) fs3"
      using r by (auto intro!: wp_drop_temporary [OF s loc] cleared_stored [OF wf _ neq(1)]
          intro: staged_cleared [OF s] split: outcome.splits)
  }
qed (use name pending_not limit in auto)

lemma wp_store_immutable:
  assumes wf: "wf_fs fs" and calm: "calm fs" and dir: "real_directory (entries fs) dir"
    and name: "plain name" "hd name \<noteq> CHR ''.''" and limit: "limit \<le> USIZE_MAX"
  shows "wp (store_immutable pid seq dir name b limit) (stored_in pid dir (dir @ [name]) b fs) fs"
proof -
  have bad: "stored_in pid dir (dir @ [name]) b fs r fs'" if "unchanged_in pid dir fs fs'" "\<forall>a. r \<noteq> Done a"
    for r :: "(registry_error, unit) outcome" and fs'
    using that by (simp add: stored_in_def)
  have "wp (bind (write_temporary pid seq dir b) (\<lambda>temp.
      with_temporary temp (link_immutable dir temp (dir @ [name]) b limit))) (stored_in pid dir (dir @ [name]) b fs) fs"
    unfolding wp_bind
    by (rule wp_write_temporary [OF wf calm dir])
      (use wp_link_scoped [OF wf dir _ name limit] bad in \<open>auto simp: unchanged_in_def split: outcome.split\<close>)
  moreover have "unchanged_in pid dir fs fs" using calm by (simp add: unchanged_in_def only_changed_same)
  ultimately show ?thesis
    using bad [of fs] by (cases "validate_pack_name name") (simp_all add: store_immutable_def of_sum_def bind_ret wp_bind wp_raise)
qed

section \<open>Well-formedness is kept\<close>

definition keeps_wf :: "('e, 'a) prog \<Rightarrow> bool" where
  "keeps_wf m \<longleftrightarrow> (\<forall>fs. wf_fs fs \<longrightarrow> wf_fs (snd (m fs)))"

lemma keeps_wfD: "keeps_wf m \<Longrightarrow> wf_fs fs \<Longrightarrow> m fs = (r, fs') \<Longrightarrow> wf_fs fs'"
  by (force simp: keeps_wf_def)

lemma wf_sched [simp]: "wf_fs (fs\<lparr>sched := ts\<rparr>) = wf_fs fs"
  by (simp add: wf_fs_def)

lemma wf_new_file: "wf_fs fs \<Longrightarrow> wf_fs (new_file p b fs)"
  by (auto simp: wf_fs_def new_file_def less_Suc_eq)

lemma wf_set_content: "wf_fs fs \<Longrightarrow> wf_fs (set_content i b fs)"
  by (auto simp: wf_fs_def set_content_def split: option.splits)

lemma wf_set_readonly_flag: "wf_fs fs \<Longrightarrow> wf_fs (set_readonly_flag i b fs)"
  by (auto simp: wf_fs_def set_readonly_flag_def split: option.splits)

lemma wf_apply_ext: "wf_fs fs \<Longrightarrow> wf_fs (apply_ext x fs)"
  by (cases x) (auto simp: wf_new_file wf_set_content wf_set_readonly_flag split: option.split, auto simp: wf_fs_def)

lemma wf_exts: "wf_fs fs \<Longrightarrow> wf_fs (fold apply_ext xs fs)"
  by (induction xs arbitrary: fs) (simp_all add: wf_apply_ext)

lemma keeps_wf_syscall:
  assumes "\<And>fs. wf_fs fs \<Longrightarrow> wf_fs (snd (op fs))" and "\<And>k fs. wf_fs fs \<Longrightarrow> wf_fs (part k fs)"
  shows "keeps_wf (syscall part op)"
  unfolding keeps_wf_def
proof (intro allI impI)
  fix fs :: fs assume wf: "wf_fs fs"
  show "wf_fs (snd (syscall part op fs))"
  proof (cases "sched fs")
    case Nil
    with assms(1) [OF wf] show ?thesis by (simp add: syscall_def)
  next
    case (Cons t ts)
    obtain xs f where t: "t = (xs, f)" by force
    have "wf_fs ((fold apply_ext xs fs)\<lparr>sched := ts\<rparr>)" using wf_exts [OF wf] by simp
    with Cons t assms show ?thesis by (cases f) (simp_all add: syscall_def Let_def)
  qed
qed

lemma keeps_wf_basic [simp, intro]: "keeps_wf (ret a)" "keeps_wf (raise e)" "keeps_wf (of_sum x)"
  by (simp_all add: keeps_wf_def ret_def raise_def of_sum_def split: sum.split)

lemma keeps_wf_bind: "keeps_wf m \<Longrightarrow> (\<And>a. keeps_wf (f a)) \<Longrightarrow> keeps_wf (bind m f)"
  by (auto simp: keeps_wf_def bind_def split: prod.splits outcome.splits)

lemma keeps_wf_attempt: "keeps_wf m \<Longrightarrow> keeps_wf (attempt m)"
  by (auto simp: keeps_wf_def attempt_def split: prod.splits outcome.splits)

lemma keeps_wf_map_err: "keeps_wf m \<Longrightarrow> keeps_wf (map_err f m)"
  by (auto simp: keeps_wf_def map_err_def split: prod.splits)

lemma keeps_wf_if: "keeps_wf a \<Longrightarrow> keeps_wf b \<Longrightarrow> keeps_wf (if c then a else b)"
  by simp

lemma keeps_wf_sum: "(\<And>a. keeps_wf (f a)) \<Longrightarrow> (\<And>b. keeps_wf (g b)) \<Longrightarrow> keeps_wf (case x of Inl a \<Rightarrow> f a | Inr b \<Rightarrow> g b)"
  by (simp split: sum.split)

lemma keeps_wf_option: "keeps_wf a \<Longrightarrow> (\<And>x. keeps_wf (f x)) \<Longrightarrow> keeps_wf (case x of None \<Rightarrow> a | Some x \<Rightarrow> f x)"
  by (simp split: option.split)

lemma keeps_wf_calls [simp, intro]:
  "keeps_wf (fs_metadata p)" "keeps_wf (fs_symlink_metadata p)" "keeps_wf (fs_canonicalize p)"
  "keeps_wf (fs_open p)" "keeps_wf (fs_open_any p)" "keeps_wf (fs_read_to_end i)" "keeps_wf (fs_sync i)"
  "keeps_wf (fs_create_new p)" "keeps_wf (fs_write_all i b)" "keeps_wf (fs_rename p q)"
  "keeps_wf (fs_hard_link p q)" "keeps_wf (fs_remove_file p)"
  unfolding fs_metadata_def fs_symlink_metadata_def fs_canonicalize_def fs_open_def fs_open_any_def
    fs_read_to_end_def fs_sync_def fs_create_new_def fs_write_all_def fs_rename_def fs_hard_link_def
    fs_remove_file_def simple_call_def
  by (rule keeps_wf_syscall; auto simp: ret_def wf_new_file wf_set_content split: sum.split option.split entry.split;
      auto simp: wf_fs_def)+

lemmas keeps_wf_intros = keeps_wf_bind keeps_wf_attempt keeps_wf_map_err keeps_wf_if keeps_wf_sum
  keeps_wf_option keeps_wf_basic keeps_wf_calls

lemma keeps_wf_looks_store [simp, intro]:
  "keeps_wf (check_directory p)" "keeps_wf (regular_file p)" "keeps_wf (sync_directory p)"
  "keeps_wf (drop_temporary p)"
  unfolding check_directory_def regular_file_def sync_directory_def drop_temporary_def
  by (intro keeps_wf_intros)+

lemma keeps_wf_read_bounded [simp, intro]: "keeps_wf (read_bounded p n)"
  unfolding read_bounded_def Let_def by (intro keeps_wf_intros keeps_wf_looks_store)

lemma keeps_wf_try_temporary [simp, intro]: "keeps_wf (try_temporary pid seq dir b ks)"
  by (induction ks) (simp_all add: Let_def, intro keeps_wf_intros keeps_wf_looks_store)

lemma keeps_wf_store [simp, intro]:
  "keeps_wf (write_temporary pid seq dir b)" "keeps_wf (store_immutable pid seq dir name b limit)"
  "keeps_wf (atomic_replace pid seq dir name b)"
proof -
  show w: "keeps_wf (write_temporary pid seq dir b)"
    unfolding write_temporary_def by (intro keeps_wf_intros keeps_wf_looks_store keeps_wf_try_temporary)
  have scope: "keeps_wf (with_temporary p m)" if "keeps_wf m" for p and m :: "('e, 'a) prog"
    unfolding with_temporary_def by (intro keeps_wf_intros keeps_wf_looks_store that)
  show "keeps_wf (store_immutable pid seq dir name b limit)"
    unfolding store_immutable_def link_immutable_def
    by (intro keeps_wf_intros keeps_wf_looks_store w scope keeps_wf_read_bounded)
  show "keeps_wf (atomic_replace pid seq dir name b)"
    unfolding atomic_replace_def rename_into_place_def Let_def
    by (intro keeps_wf_intros keeps_wf_looks_store w scope)
qed

end
