(* ===== verification/Ordered_Map.thy ===== *)
theory Ordered_Map
  imports Knot_Prelude "HOL-Library.Multiset"
begin

text \<open>
  \<open>BTreeMap\<close>, as the code uses it: a table whose values are listed in the order of their keys. The
  interface is the locale \<open>table\<close>; it is provided by association lists sorted by key.
\<close>

section \<open>Interface\<close>

locale table =
  fixes empty :: 't
    and get :: "'t \<Rightarrow> 'k \<rightharpoonup> 'v"
    and put :: "'k \<Rightarrow> 'v \<Rightarrow> 't \<Rightarrow> 't"
    and items :: "'t \<Rightarrow> ('k \<times> 'v) list"
    and ok :: "'t \<Rightarrow> bool"
  assumes ok_empty: "ok empty" and get_empty: "get empty = Map.empty"
    and ok_put: "ok m \<Longrightarrow> ok (put k v m)"
    and get_put: "ok m \<Longrightarrow> get (put k v m) = (get m)(k \<mapsto> v)"
    and get_items: "ok m \<Longrightarrow> map_of (items m) = get m"
    and distinct_items: "ok m \<Longrightarrow> distinct (map fst (items m))"
    and same_table: "ok m \<Longrightarrow> ok n \<Longrightarrow> get m = get n \<Longrightarrow> m = n"
begin

lemma in_items: "ok m \<Longrightarrow> (k, v) \<in> set (items m) \<longleftrightarrow> get m k = Some v"
  using get_items [of m] distinct_items [of m] by (metis map_of_eq_Some_iff)

lemma fold_put:
  "ok m \<Longrightarrow> ok (fold (\<lambda>(k, v). put k v) kvs m) \<and>
    get (fold (\<lambda>(k, v). put k v) kvs m) = get m ++ map_of (rev kvs)"
  by (induction kvs arbitrary: m)
    (auto simp: ok_put get_put fun_eq_iff map_add_def split: option.split)

text \<open>A table is made again from its items, whatever the order in which they come.\<close>

lemma rebuild:
  assumes "ok m" and "set kvs = set (items m)" and "distinct (map fst kvs)"
  shows "fold (\<lambda>(k, v). put k v) kvs empty = m"
proof (rule same_table)
  note f = fold_put [OF ok_empty, of kvs]
  then show "ok (fold (\<lambda>(k, v). put k v) kvs empty)" by simp
  have "map_of (rev kvs) = map_of (items m)"
    by (rule map_of_inject_set [THEN iffD2])
      (simp_all add: distinct_items [OF assms(1)] assms(2,3) rev_map [symmetric])
  with f show "get (fold (\<lambda>(k, v). put k v) kvs empty) = get m"
    by (simp add: get_empty get_items [OF assms(1)])
qed (rule assms(1))

lemma put_unchanged: "ok m \<Longrightarrow> get m k = Some v \<Longrightarrow> put k v m = m"
  by (rule same_table) (simp_all add: ok_put get_put fun_upd_idem)

end

section \<open>Association lists sorted by key\<close>

type_synonym ('k, 'v) ordered_map = "('k \<times> 'v) list"

fun om_put :: "'k::linorder \<Rightarrow> 'v \<Rightarrow> ('k, 'v) ordered_map \<Rightarrow> ('k, 'v) ordered_map" where
  "om_put k v [] = [(k, v)]"
| "om_put k v ((j, w) # kvs) =
     (if k < j then (k, v) # (j, w) # kvs
      else if k = j then (k, v) # kvs
      else (j, w) # om_put k v kvs)"

definition om_ok :: "('k::linorder, 'v) ordered_map \<Rightarrow> bool" where
  "om_ok m \<longleftrightarrow> sorted_wrt (<) (map fst m)"

lemma keys_om_put: "set (map fst (om_put k v m)) = insert k (set (map fst m))"
  by (induction k v m rule: om_put.induct) auto

lemma om_ok_put: "om_ok m \<Longrightarrow> om_ok (om_put k v m)"
  using keys_om_put [of k v]
  by (induction k v m rule: om_put.induct) (fastforce simp: om_ok_def)+

lemma map_of_om_put: "map_of (om_put k v m) = (map_of m)(k \<mapsto> v)"
  by (induction k v m rule: om_put.induct) (auto simp: fun_eq_iff)

lemma om_distinct: "om_ok m \<Longrightarrow> distinct (map fst m)"
  by (simp add: om_ok_def strict_sorted_iff)

lemma om_same:
  assumes "om_ok m" and "om_ok n" and "map_of m = map_of n"
  shows "m = n"
proof -
  have "set m = set n"
    using assms om_distinct by (metis map_of_inject_set)
  moreover from assms have "sorted (map fst m)" "sorted (map fst n)" "distinct (map fst m)" "distinct (map fst n)"
    by (auto simp: om_ok_def strict_sorted_iff)
  moreover from calculation have "inj_on fst (set m \<union> set n)" by (simp add: distinct_map)
  ultimately show ?thesis by (intro map_sorted_distinct_set_unique [of fst])
qed

lemma length_om_put: "length (om_put k v m) = (if k \<in> set (map fst m) then length m else Suc (length m))"
  if "om_ok m"
  using that by (induction k v m rule: om_put.induct) (auto simp: om_ok_def)

lemma sum_om_put_new:
  "map_of m k = None \<Longrightarrow> sum_list (map f (om_put k v m)) = f (k, v) + sum_list (map f m)"
  for f :: "_ \<Rightarrow> nat"
  by (induction k v m rule: om_put.induct) (auto split: if_splits)

lemma sum_om_put_known:
  "om_ok m \<Longrightarrow> map_of m k = Some w \<Longrightarrow> sum_list (map f (om_put k v m)) + f (k, w) = f (k, v) + sum_list (map f m)"
  for f :: "_ \<Rightarrow> nat"
proof (induction k v m rule: om_put.induct)
  case (2 k v j w' kvs)
  have "map_of kvs k = None" if "k < j"
    using 2(2) that by (auto simp: om_ok_def map_of_eq_None_iff)
  with 2 show ?case by (auto simp: om_ok_def)
qed simp

lemma mset_om_put: "map_of m k = None \<Longrightarrow> mset (om_put k v m) = add_mset (k, v) (mset m)"
  by (induction k v m rule: om_put.induct) (auto split: if_splits)

interpretation om: table "[]" map_of om_put "\<lambda>m. m" om_ok
proof unfold_locales
  show "om_ok []" by (simp add: om_ok_def)
qed (auto simp: om_ok_put map_of_om_put om_distinct intro: om_same)

end
