(* ===== verification/File_Catalog.thy ===== *)
theory File_Catalog
  imports Knot_FileSystem "HOL-Library.Char_ord" "HOL-Library.List_Lexorder" "HOL-Library.Multiset"
begin

text \<open>
  \<open>knot-file-catalog\<close>: durable identities for ordinary files under one root. A binding pairs an
  opaque identifier with a path relative to the root; the catalog adds bindings, moves one when
  its file has moved, looks them up and captures bounded revisions of their files.

  The store (\<open>muniment\<close>), the encoding (\<open>serde_json\<close>) and the identifiers (\<open>uuid\<close>) are other
  packages: the record \<open>catalog_env\<close> holds what is called of them and \<open>env_ok\<close> what is
  relied on. A new identifier and the sizes of short reads are inputs.
\<close>

section \<open>Types\<close>

datatype file_availability = Available | Unavailable

record file_revision =
  fr_document_id :: string
  fr_title :: string
  fr_media_type :: string
  fr_body :: bytes

record catalog_record =
  cr_id :: string
  cr_relative_path :: path
  cr_availability :: file_availability

record stored_binding =
  sb_id :: string
  sb_relative_path :: path

record stored_catalog =
  sc_version :: nat
  sc_root :: path
  sc_bindings :: "stored_binding list"

record catalog_snapshot =
  cs_root :: path
  cs_bindings :: "stored_binding list"

record 'b catalog =
  ct_root :: path
  ct_backend :: 'b
  ct_state :: stored_catalog

record 'b catalog_env =
  env_open :: "path \<Rightarrow> string + 'b"
  env_get :: "'b \<Rightarrow> string \<Rightarrow> string + bytes option"
  env_put :: "'b \<Rightarrow> string \<Rightarrow> bytes \<Rightarrow> (string + unit) \<times> 'b"
  env_encode :: "stored_catalog \<Rightarrow> string + bytes"
  env_decode :: "bytes \<Rightarrow> string + stored_catalog"
  env_uuid_version :: "string \<Rightarrow> nat option"
  env_working_dir :: "io_kind + path"

datatype given_path = AbsolutePath path | RelativePath path

datatype catalog_error =
    CatalogIo io_kind
  | RootNotDirectory path
  | NoParent path
  | NoFileName path
  | ParentNotDirectory path
  | CatalogInsideRoot
  | StoreFailed string
  | EncodeFailed string
  | InvalidCatalog string
  | UnsupportedVersion nat
  | WrongRoot path path
  | WrongPrefix string
  | InvalidUuid string
  | NotVersion4 string
  | RepeatedId string
  | RepeatedPath path
  | EmptyBindingPath
  | NonNormalPath path
  | OutsideRoot path
  | NotRegularFile path
  | UnknownId string
  | StillExists string path
  | AlreadyBound path
  | NoExistingAncestor path
  | InvalidRevision string
  | BindingUnavailable
  | TooLarge

definition catalog_key :: string where "catalog_key = ''knot/file-catalog/v1''"
definition catalog_version :: nat where "catalog_version = 1"
definition document_id_prefix :: string where "document_id_prefix = ''knot:document:''"

section \<open>Validation\<close>

definition NUL :: char where "NUL = CHR 0x00"

definition validate_revision :: "file_revision \<Rightarrow> string + unit" where
  "validate_revision r =
     (if str_trim (fr_document_id r) = [] then Inl ''file revision document id must not be empty''
      else if fr_document_id r \<noteq> str_trim (fr_document_id r)
      then Inl ''file revision document id must not have surrounding whitespace''
      else if NUL \<in> set (fr_document_id r) then Inl ''file revision document id must not contain NUL''
      else if NUL \<in> set (fr_title r) then Inl ''file revision title must not contain NUL''
      else if str_trim (fr_media_type r) = [] then Inl ''file revision media type must not be empty''
      else if fr_media_type r \<noteq> str_trim (fr_media_type r)
      then Inl ''file revision media type must not have surrounding whitespace''
      else if NUL \<in> set (fr_media_type r) then Inl ''file revision media type must not contain NUL''
      else Inr ())"

definition normal_component :: "string \<Rightarrow> bool" where
  "normal_component c \<longleftrightarrow> c \<noteq> ''.'' \<and> c \<noteq> ''..''"

definition validate_relative_path :: "path \<Rightarrow> catalog_error + unit" where
  "validate_relative_path p =
     (if p = [] then Inl EmptyBindingPath
      else if list_all normal_component p then Inr () else Inl (NonNormalPath p))"

definition validate_document_id :: "'b catalog_env \<Rightarrow> string \<Rightarrow> catalog_error + unit" where
  "validate_document_id env i =
     (if \<not> starts_with i document_id_prefix then Inl (WrongPrefix i)
      else case env_uuid_version env (drop (length document_id_prefix) i) of
        None \<Rightarrow> Inl (InvalidUuid i)
      | Some v \<Rightarrow> if v \<noteq> 4 then Inl (NotVersion4 i) else Inr ())"

text \<open>The loop of \<open>validate_state\<close>, with the sets of identifiers and paths seen so far.\<close>

fun validate_bindings ::
  "'b catalog_env \<Rightarrow> string set \<Rightarrow> path set \<Rightarrow> stored_binding list \<Rightarrow> catalog_error + unit" where
  "validate_bindings env ids paths [] = Inr ()"
| "validate_bindings env ids paths (b # bs) =
     (case validate_document_id env (sb_id b) of
        Inl e \<Rightarrow> Inl e
      | Inr _ \<Rightarrow> (case validate_relative_path (sb_relative_path b) of
          Inl e \<Rightarrow> Inl e
        | Inr _ \<Rightarrow>
            if sb_id b \<in> ids then Inl (RepeatedId (sb_id b))
            else if sb_relative_path b \<in> paths then Inl (RepeatedPath (sb_relative_path b))
            else validate_bindings env (insert (sb_id b) ids)
                   (insert (sb_relative_path b) paths) bs))"

definition validate_state :: "'b catalog_env \<Rightarrow> stored_catalog \<Rightarrow> path \<Rightarrow> catalog_error + unit" where
  "validate_state env st root =
     (if sc_version st \<noteq> catalog_version then Inl (UnsupportedVersion (sc_version st))
      else if sc_root st \<noteq> root then Inl (WrongRoot (sc_root st) root)
      else validate_bindings env {} {} (sc_bindings st))"

section \<open>Reading files\<close>

definition media_type_for_extension :: "string \<Rightarrow> string" where
  "media_type_for_extension e =
     (if e = ''knot'' then ''text/vnd.knot''
      else if e = ''djot'' then ''text/djot''
      else if e = ''md'' \<or> e = ''markdown'' then ''text/markdown''
      else if e = ''txt'' then ''text/plain''
      else if e = ''json'' then ''application/json''
      else ''application/octet-stream'')"

definition utf8_only :: "string option \<Rightarrow> string option" where
  "utf8_only x = (case x of Some s \<Rightarrow> if utf8_valid s then Some s else None | None \<Rightarrow> None)"

definition file_revision_metadata :: "path \<Rightarrow> string \<times> string" where
  "file_revision_metadata p =
     ((case utf8_only (case path_file_stem p of Some s \<Rightarrow> Some s | None \<Rightarrow> path_file_name p) of
         Some t \<Rightarrow> t | None \<Rightarrow> ''Untitled''),
      (case utf8_only (path_extension p) of
         Some e \<Rightarrow> media_type_for_extension (to_ascii_lowercase e)
       | None \<Rightarrow> ''application/octet-stream''))"

text \<open>
  One \<open>read\<close> at an offset returns at most what was asked for and what is there, and at least one
  byte of it; \<open>short\<close> is the kernel's choice.
\<close>

definition read_count :: "(nat \<Rightarrow> nat) \<Rightarrow> nat \<Rightarrow> nat \<Rightarrow> nat" where
  "read_count short off n = (if n = 0 then 0 else max 1 (min n (short off)))"

definition fs_read_some :: "(nat \<Rightarrow> nat) \<Rightarrow> nat \<Rightarrow> nat \<Rightarrow> nat \<Rightarrow> (io_kind, bytes) prog" where
  "fs_read_some short i off n = simple_call (\<lambda>fs. case inodes fs i of
     None \<Rightarrow> (Raise OtherError, fs)
   | Some f \<Rightarrow> (Done (take (read_count short off (min n (length (content f) - off)))
       (drop off (content f))), fs))"

text \<open>
  The loop of \<open>read_file_bounded\<close>. Every turn but the last adds a byte, and the body never
  exceeds the limit, so \<open>max_bytes + 1\<close> turns are enough; running out of them would be a panic.
\<close>

fun read_loop :: "(nat \<Rightarrow> nat) \<Rightarrow> nat \<Rightarrow> nat \<Rightarrow> nat \<Rightarrow> bytes \<Rightarrow> (catalog_error, bytes) prog" where
  "read_loop short i limit 0 body = panic"
| "read_loop short i limit (Suc turns) body =
     (if length body = limit
      then bind (map_err CatalogIo (fs_read_some short i (length body) 1)) (\<lambda>extra.
           if extra \<noteq> [] then raise TooLarge else ret body)
      else bind (map_err CatalogIo
             (fs_read_some short i (length body) (min (limit - length body) 8192))) (\<lambda>chunk.
           if chunk = [] then ret body else read_loop short i limit turns (body @ chunk)))"

definition read_file_bounded :: "(nat \<Rightarrow> nat) \<Rightarrow> path \<Rightarrow> nat \<Rightarrow> (catalog_error, bytes) prog" where
  "read_file_bounded short p limit =
     bind (map_err CatalogIo (fs_open p)) (\<lambda>file. read_loop short file limit (limit + 1) [])"

section \<open>Records and captures\<close>

definition availability :: "path \<Rightarrow> stored_binding \<Rightarrow> ('e, file_availability) prog" where
  "availability root b =
     (let p = root @ sb_relative_path b
      in bind (attempt (fs_canonicalize p)) (\<lambda>r. case r of
           Inl _ \<Rightarrow> ret Unavailable
         | Inr canonical \<Rightarrow>
             if canonical \<noteq> p \<or> \<not> path_starts_with canonical root then ret Unavailable
             else bind (attempt (fs_metadata canonical)) (\<lambda>m. case m of
               Inr md \<Rightarrow> ret (if meta_is_file md then Available else Unavailable)
             | Inl _ \<Rightarrow> ret Unavailable)))"

definition record_for :: "path \<Rightarrow> stored_binding \<Rightarrow> ('e, catalog_record) prog" where
  "record_for root b = bind (availability root b) (\<lambda>a.
     ret \<lparr>cr_id = sb_id b, cr_relative_path = sb_relative_path b, cr_availability = a\<rparr>)"

definition capture_binding ::
  "(nat \<Rightarrow> nat) \<Rightarrow> path \<Rightarrow> stored_binding \<Rightarrow> nat \<Rightarrow> (catalog_error, file_revision) prog" where
  "capture_binding short root b limit =
     (let p = root @ sb_relative_path b
      in bind (map_err CatalogIo (fs_canonicalize p)) (\<lambda>canonical.
         if canonical \<noteq> p \<or> \<not> path_starts_with canonical root then raise BindingUnavailable
         else bind (map_err CatalogIo (fs_metadata canonical)) (\<lambda>md.
           if \<not> meta_is_file md then raise (NotRegularFile canonical)
           else bind (read_file_bounded short canonical limit) (\<lambda>body.
             let r = \<lparr>fr_document_id = sb_id b, fr_title = fst (file_revision_metadata canonical),
                      fr_media_type = snd (file_revision_metadata canonical), fr_body = body\<rparr>
             in case validate_revision r of Inl e \<Rightarrow> raise (InvalidRevision e) | Inr _ \<Rightarrow> ret r))))"

fun records_of :: "path \<Rightarrow> stored_binding list \<Rightarrow> ('e, catalog_record list) prog" where
  "records_of root [] = ret []"
| "records_of root (b # bs) =
     bind (record_for root b) (\<lambda>r. bind (records_of root bs) (\<lambda>rs. ret (r # rs)))"

definition binding_by_id :: "string \<Rightarrow> stored_binding list \<Rightarrow> stored_binding option" where
  "binding_by_id i bs = find (\<lambda>b. sb_id b = i) bs"

definition binding_by_path :: "path \<Rightarrow> stored_binding list \<Rightarrow> stored_binding option" where
  "binding_by_path p bs = find (\<lambda>b. sb_relative_path b = p) bs"

definition capture_from ::
  "(nat \<Rightarrow> nat) \<Rightarrow> path \<Rightarrow> stored_binding list \<Rightarrow> string \<Rightarrow> nat \<Rightarrow> (catalog_error, file_revision) prog" where
  "capture_from short root bs i limit =
     (case binding_by_id i bs of
        None \<Rightarrow> raise (UnknownId i)
      | Some b \<Rightarrow> capture_binding short root b limit)"

definition snapshot_records :: "catalog_snapshot \<Rightarrow> ('e, catalog_record list) prog" where
  "snapshot_records s = records_of (cs_root s) (cs_bindings s)"

definition snapshot_capture ::
  "(nat \<Rightarrow> nat) \<Rightarrow> catalog_snapshot \<Rightarrow> string \<Rightarrow> nat \<Rightarrow> (catalog_error, file_revision) prog" where
  "snapshot_capture short s i limit = capture_from short (cs_root s) (cs_bindings s) i limit"

section \<open>Paths\<close>

definition is_dir :: "path \<Rightarrow> ('e, bool) prog" where
  "is_dir p = bind (attempt (fs_metadata p)) (\<lambda>m.
     ret (case m of Inr md \<Rightarrow> meta_is_dir md | Inl _ \<Rightarrow> False))"

definition path_exists :: "path \<Rightarrow> ('e, bool) prog" where
  "path_exists p = bind (attempt (fs_metadata p)) (\<lambda>m. ret (case m of Inr _ \<Rightarrow> True | Inl _ \<Rightarrow> False))"

definition canonical_root :: "path \<Rightarrow> (catalog_error, path) prog" where
  "canonical_root root =
     bind (map_err CatalogIo (fs_canonicalize root)) (\<lambda>r.
     bind (is_dir r) (\<lambda>d. if d then ret r else raise (RootNotDirectory r)))"

definition canonical_catalog_path :: "'b catalog_env \<Rightarrow> given_path \<Rightarrow> (catalog_error, path) prog" where
  "canonical_catalog_path env p =
     bind (case p of
         AbsolutePath a \<Rightarrow> ret a
       | RelativePath r \<Rightarrow> (case env_working_dir env of
           Inl e \<Rightarrow> raise (CatalogIo e) | Inr d \<Rightarrow> ret (d @ r))) (\<lambda>absolute.
     case path_parent absolute of
       None \<Rightarrow> raise (NoParent absolute)
     | Some parent \<Rightarrow>
         bind (map_err CatalogIo (fs_canonicalize parent)) (\<lambda>parent.
         bind (is_dir parent) (\<lambda>d.
         if \<not> d then raise (ParentNotDirectory parent)
         else case path_file_name absolute of
             None \<Rightarrow> raise (NoFileName absolute)
           | Some name \<Rightarrow>
               let candidate = parent @ [name]
               in bind (attempt (fs_symlink_metadata candidate)) (\<lambda>m. case m of
                    Inr _ \<Rightarrow> map_err CatalogIo (fs_canonicalize candidate)
                  | Inl e \<Rightarrow> if e = NotFound then ret candidate else raise (CatalogIo e)))))"

definition relative_from_canonical :: "path \<Rightarrow> path \<Rightarrow> catalog_error + path" where
  "relative_from_canonical root p =
     (case path_strip_prefix root p of
        None \<Rightarrow> Inl (OutsideRoot p)
      | Some r \<Rightarrow> (case validate_relative_path r of Inl e \<Rightarrow> Inl e | Inr _ \<Rightarrow> Inr r))"

definition root_join :: "path \<Rightarrow> given_path \<Rightarrow> path" where
  "root_join root p = (case p of AbsolutePath a \<Rightarrow> a | RelativePath r \<Rightarrow> root @ r)"

definition canonical_file_relative :: "path \<Rightarrow> given_path \<Rightarrow> (catalog_error, path) prog" where
  "canonical_file_relative root p =
     bind (map_err CatalogIo (fs_canonicalize (root_join root p))) (\<lambda>canonical.
     if \<not> path_starts_with canonical root then raise (OutsideRoot canonical)
     else bind (map_err CatalogIo (fs_metadata canonical)) (\<lambda>md.
       if \<not> meta_is_file md then raise (NotRegularFile canonical)
       else of_sum (relative_from_canonical root canonical)))"

text \<open>
  \<open>canonicalize_missing_path\<close>: the nearest ancestor that exists, resolved, and the missing
  components after it. The ancestor is held in reverse, the missing components in order.
\<close>

fun missing_path :: "path \<Rightarrow> string list \<Rightarrow> string list \<Rightarrow> (catalog_error, path) prog" where
  "missing_path orig [] missing =
     bind (attempt (fs_symlink_metadata [])) (\<lambda>m. case m of
       Inr _ \<Rightarrow> bind (map_err CatalogIo (fs_canonicalize [])) (\<lambda>c. ret (c @ missing))
     | Inl e \<Rightarrow> raise (if e = NotFound then NoExistingAncestor orig else CatalogIo e))"
| "missing_path orig (c # up) missing =
     bind (attempt (fs_symlink_metadata (rev (c # up)))) (\<lambda>m. case m of
       Inr _ \<Rightarrow> bind (map_err CatalogIo (fs_canonicalize (rev (c # up)))) (\<lambda>q. ret (q @ missing))
     | Inl e \<Rightarrow>
         if e \<noteq> NotFound then raise (CatalogIo e)
         else if c = ''..'' then raise (NoExistingAncestor orig)
         else if \<not> normal_component c then raise (NonNormalPath orig)
         else missing_path orig up (c # missing))"

definition canonicalize_missing_path :: "path \<Rightarrow> (catalog_error, path) prog" where
  "canonicalize_missing_path p = missing_path p (rev p) []"

definition lookup_relative :: "path \<Rightarrow> given_path \<Rightarrow> (catalog_error, path) prog" where
  "lookup_relative root p =
     (let absolute = root_join root p
      in bind (path_exists absolute) (\<lambda>ex.
         if ex then canonical_file_relative root (AbsolutePath absolute)
         else bind (canonicalize_missing_path absolute) (\<lambda>canonical.
           of_sum (relative_from_canonical root canonical))))"

section \<open>Operations\<close>

text \<open>
  Results carry the catalog, because the store may have been written to when an error comes back.
\<close>

definition persist_state ::
  "'b catalog_env \<Rightarrow> 'b \<Rightarrow> stored_catalog \<Rightarrow> (catalog_error + unit) \<times> 'b" where
  "persist_state env b st =
     (case env_encode env st of
        Inl e \<Rightarrow> (Inl (EncodeFailed e), b)
      | Inr bs \<Rightarrow> (case env_put env b catalog_key bs of
          (Inl e, b') \<Rightarrow> (Inl (StoreFailed e), b') | (Inr _, b') \<Rightarrow> (Inr (), b')))"

definition persist ::
  "'b catalog_env \<Rightarrow> stored_catalog \<Rightarrow> 'b catalog \<Rightarrow> (catalog_error + unit) \<times> 'b catalog" where
  "persist env next c =
     (case persist_state env (ct_backend c) next of
        (Inl e, b) \<Rightarrow> (Inl e, c\<lparr>ct_backend := b\<rparr>)
      | (Inr _, b) \<Rightarrow> (Inr (), c\<lparr>ct_backend := b, ct_state := next\<rparr>))"

definition catalog_open ::
  "'b catalog_env \<Rightarrow> path \<Rightarrow> given_path \<Rightarrow> (catalog_error, 'b catalog) prog" where
  "catalog_open env root catalog_path =
     bind (canonical_root root) (\<lambda>root.
     bind (canonical_catalog_path env catalog_path) (\<lambda>catalog_path.
     if path_starts_with catalog_path root then raise CatalogInsideRoot
     else case env_open env catalog_path of
       Inl e \<Rightarrow> raise (StoreFailed e)
     | Inr b \<Rightarrow> (case env_get env b catalog_key of
         Inl e \<Rightarrow> raise (StoreFailed e)
       | Inr (Some bs) \<Rightarrow> (case env_decode env bs of
           Inl e \<Rightarrow> raise (InvalidCatalog e)
         | Inr st \<Rightarrow> (case validate_state env st root of
             Inl e \<Rightarrow> raise e
           | Inr _ \<Rightarrow> ret \<lparr>ct_root = root, ct_backend = b, ct_state = st\<rparr>))
       | Inr None \<Rightarrow>
           let st = \<lparr>sc_version = catalog_version, sc_root = root, sc_bindings = []\<rparr>
           in case persist_state env b st of
                (Inl e, _) \<Rightarrow> raise e
              | (Inr _, b') \<Rightarrow> ret \<lparr>ct_root = root, ct_backend = b', ct_state = st\<rparr>)))"

definition catalog_bind ::
  "'b catalog_env \<Rightarrow> string \<Rightarrow> given_path \<Rightarrow> 'b catalog
     \<Rightarrow> ('e, (catalog_error + string) \<times> 'b catalog) prog" where
  "catalog_bind env uuid p c =
     bind (attempt (canonical_file_relative (ct_root c) p)) (\<lambda>r. case r of
       Inl e \<Rightarrow> ret (Inl e, c)
     | Inr rel \<Rightarrow> (case binding_by_path rel (sc_bindings (ct_state c)) of
         Some b \<Rightarrow> ret (Inr (sb_id b), c)
       | None \<Rightarrow>
           let i = document_id_prefix @ uuid;
               next = (ct_state c)\<lparr>sc_bindings := sort_key sb_id
                 (sc_bindings (ct_state c) @ [\<lparr>sb_id = i, sb_relative_path = rel\<rparr>])\<rparr>
           in case persist env next c of
                (Inl e, c') \<Rightarrow> ret (Inl e, c') | (Inr _, c') \<Rightarrow> ret (Inr i, c')))"

text \<open>\<open>iter_mut().find\<close>: the first binding with the identifier gets the new path.\<close>

fun set_path :: "string \<Rightarrow> path \<Rightarrow> stored_binding list \<Rightarrow> stored_binding list" where
  "set_path i rel [] = []"
| "set_path i rel (b # bs) =
     (if sb_id b = i then b\<lparr>sb_relative_path := rel\<rparr> # bs else b # set_path i rel bs)"

definition catalog_rebind ::
  "'b catalog_env \<Rightarrow> string \<Rightarrow> given_path \<Rightarrow> 'b catalog
     \<Rightarrow> ('e, (catalog_error + unit) \<times> 'b catalog) prog" where
  "catalog_rebind env i p c =
     (case binding_by_id i (sc_bindings (ct_state c)) of
        None \<Rightarrow> ret (Inl (UnknownId i), c)
      | Some current \<Rightarrow>
          let old_path = ct_root c @ sb_relative_path current
          in bind (attempt (fs_symlink_metadata old_path)) (\<lambda>m. case m of
               Inr _ \<Rightarrow> ret (Inl (StillExists i old_path), c)
             | Inl e \<Rightarrow>
                 if e \<noteq> NotFound then ret (Inl (CatalogIo e), c)
                 else bind (attempt (canonical_file_relative (ct_root c) p)) (\<lambda>r. case r of
                   Inl e \<Rightarrow> ret (Inl e, c)
                 | Inr rel \<Rightarrow>
                     if binding_by_path rel (sc_bindings (ct_state c)) \<noteq> None
                     then ret (Inl (AlreadyBound (ct_root c @ rel)), c)
                     else ret (persist env ((ct_state c)\<lparr>sc_bindings :=
                       set_path i rel (sc_bindings (ct_state c))\<rparr>) c))))"

definition catalog_lookup ::
  "given_path \<Rightarrow> 'b catalog \<Rightarrow> (catalog_error, catalog_record option) prog" where
  "catalog_lookup p c =
     bind (lookup_relative (ct_root c) p) (\<lambda>rel.
     case binding_by_path rel (sc_bindings (ct_state c)) of
       None \<Rightarrow> ret None
     | Some b \<Rightarrow> bind (record_for (ct_root c) b) (\<lambda>r. ret (Some r)))"

definition catalog_record_of :: "string \<Rightarrow> 'b catalog \<Rightarrow> ('e, catalog_record option) prog" where
  "catalog_record_of i c =
     (case binding_by_id i (sc_bindings (ct_state c)) of
        None \<Rightarrow> ret None
      | Some b \<Rightarrow> bind (record_for (ct_root c) b) (\<lambda>r. ret (Some r)))"

definition catalog_records :: "'b catalog \<Rightarrow> ('e, catalog_record list) prog" where
  "catalog_records c = records_of (ct_root c) (sc_bindings (ct_state c))"

definition catalog_snapshot_of :: "'b catalog \<Rightarrow> catalog_snapshot" where
  "catalog_snapshot_of c = \<lparr>cs_root = ct_root c, cs_bindings = sc_bindings (ct_state c)\<rparr>"

definition catalog_capture ::
  "(nat \<Rightarrow> nat) \<Rightarrow> string \<Rightarrow> nat \<Rightarrow> 'b catalog \<Rightarrow> (catalog_error, file_revision) prog" where
  "catalog_capture short i limit c =
     capture_from short (ct_root c) (sc_bindings (ct_state c)) i limit"

section \<open>What a valid state is\<close>

definition binding_ok :: "'b catalog_env \<Rightarrow> stored_binding \<Rightarrow> bool" where
  "binding_ok env b \<longleftrightarrow> validate_document_id env (sb_id b) = Inr () \<and>
     validate_relative_path (sb_relative_path b) = Inr ()"

lemma validate_bindings_ok:
  "validate_bindings env ids paths bs = Inr () \<longleftrightarrow>
     (\<forall>b \<in> set bs. binding_ok env b) \<and>
     distinct (map sb_id bs) \<and> distinct (map sb_relative_path bs) \<and>
     ids \<inter> set (map sb_id bs) = {} \<and> paths \<inter> set (map sb_relative_path bs) = {}"
proof (induction bs arbitrary: ids paths)
  case (Cons b bs)
  show ?case
    by (cases "validate_document_id env (sb_id b)"; cases "validate_relative_path (sb_relative_path b)")
      (auto simp: binding_ok_def Cons.IH)
qed simp

text \<open>What is relied on of the store and the encoding: a value that was put is got back, a put
  that failed changed nothing, and what was encoded decodes to what it was.\<close>

definition env_ok :: "'b catalog_env \<Rightarrow> bool" where
  "env_ok env \<longleftrightarrow>
     (\<forall>st bs. env_encode env st = Inr bs \<longrightarrow> env_decode env bs = Inr st) \<and>
     (\<forall>b k v b'. env_put env b k v = (Inr (), b') \<longrightarrow> env_get env b' k = Inr (Some v)) \<and>
     (\<forall>b k v e b'. env_put env b k v = (Inl e, b') \<longrightarrow> env_get env b' k = env_get env b k)"

definition stored :: "'b catalog_env \<Rightarrow> 'b catalog \<Rightarrow> bool" where
  "stored env c \<longleftrightarrow> (\<exists>bs. env_get env (ct_backend c) catalog_key = Inr (Some bs) \<and>
     env_decode env bs = Inr (ct_state c))"

definition catalog_ok :: "'b catalog_env \<Rightarrow> 'b catalog \<Rightarrow> bool" where
  "catalog_ok env c \<longleftrightarrow> validate_state env (ct_state c) (ct_root c) = Inr () \<and> stored env c"

definition catalog_ids :: "'b catalog \<Rightarrow> string list" where
  "catalog_ids c = map sb_id (sc_bindings (ct_state c))"

definition catalog_paths :: "'b catalog \<Rightarrow> path list" where
  "catalog_paths c = map sb_relative_path (sc_bindings (ct_state c))"

lemma catalog_ok_iff:
  "catalog_ok env c \<longleftrightarrow> sc_version (ct_state c) = catalog_version \<and> sc_root (ct_state c) = ct_root c \<and>
     (\<forall>b \<in> set (sc_bindings (ct_state c)). binding_ok env b) \<and>
     distinct (catalog_ids c) \<and> distinct (catalog_paths c) \<and> stored env c"
  by (auto simp: catalog_ok_def validate_state_def validate_bindings_ok catalog_ids_def catalog_paths_def)

lemma persist_cases:
  assumes "env_ok env"
  obtains (saved) c' where "persist env next c = (Inr (), c')" "ct_state c' = next"
      "ct_root c' = ct_root c" "stored env c'"
    | (failed) e c' where "persist env next c = (Inl e, c')" "ct_state c' = ct_state c"
      "ct_root c' = ct_root c" "stored env c' = stored env c"
proof (cases "env_encode env next")
  case (Inl e)
  then show ?thesis using failed [of "EncodeFailed e"]
    by (simp add: persist_def persist_state_def stored_def)
next
  case (Inr bs)
  obtain r b where put: "env_put env (ct_backend c) catalog_key bs = (r, b)" by fastforce
  show ?thesis
  proof (cases r)
    case (Inl e)
    then show ?thesis using failed [of "StoreFailed e"] put Inr assms
      by (simp add: persist_def persist_state_def stored_def env_ok_def)
  next
    case (Inr u)
    then show ?thesis using saved put \<open>env_encode env next = Inr bs\<close> assms
      by (simp add: persist_def persist_state_def stored_def env_ok_def)
  qed
qed

section \<open>Bindings\<close>

lemma binding_by_path_Some:
  "binding_by_path p bs = Some b \<Longrightarrow> b \<in> set bs \<and> sb_relative_path b = p"
  unfolding binding_by_path_def by (drule find_Some_in) simp

lemma binding_by_path_None: "binding_by_path p bs = None \<longleftrightarrow> p \<notin> set (map sb_relative_path bs)"
  by (auto simp: binding_by_path_def find_None_all)

lemma binding_by_id_Some: "binding_by_id i bs = Some b \<Longrightarrow> b \<in> set bs \<and> sb_id b = i"
  unfolding binding_by_id_def by (drule find_Some_in) simp

lemma binding_by_path_distinct:
  "distinct (map sb_relative_path bs) \<Longrightarrow> b \<in> set bs \<Longrightarrow>
    binding_by_path (sb_relative_path b) bs = Some b"
  by (induction bs) (auto simp: binding_by_path_def)

lemma map_set_path [simp]: "map sb_id (set_path i rel bs) = map sb_id bs"
  by (induction bs) auto

lemma set_path_paths: "set (map sb_relative_path (set_path i rel bs)) \<subseteq> insert rel (set (map sb_relative_path bs))"
  by (induction bs) auto

lemma distinct_set_path:
  "distinct (map sb_relative_path bs) \<Longrightarrow> rel \<notin> set (map sb_relative_path bs) \<Longrightarrow>
    distinct (map sb_relative_path (set_path i rel bs))"
proof (induction bs)
  case (Cons b bs)
  then show ?case using set_path_paths [of i rel bs] by auto
qed simp

lemma set_path_in:
  assumes "distinct (map sb_id bs)"
  shows "x \<in> set (set_path i rel bs) \<longleftrightarrow>
    (\<exists>b \<in> set bs. x = (if sb_id b = i then b\<lparr>sb_relative_path := rel\<rparr> else b))"
  using assms
proof (induction bs)
  case (Cons a bs)
  show ?case
  proof (cases "sb_id a = i")
    case True
    with Cons.prems have "\<forall>b \<in> set bs. sb_id b \<noteq> i" by (auto simp: image_iff)
    with True show ?thesis by auto
  next
    case False
    with Cons show ?thesis by auto
  qed
qed simp

lemma canonical_file_relative_ensures:
  "ensures (canonical_file_relative root p) (\<lambda>rel. validate_relative_path rel = Inr ())"
  unfolding canonical_file_relative_def
  by (intro ensures_bind_any)
    (auto simp: of_sum_def relative_from_canonical_def intro!: ensures_bind_any
      split: sum.split option.split if_split)

definition fresh_id :: "'b catalog_env \<Rightarrow> string \<Rightarrow> 'b catalog \<Rightarrow> bool" where
  "fresh_id env uuid c \<longleftrightarrow>
     env_uuid_version env uuid = Some 4 \<and> document_id_prefix @ uuid \<notin> set (catalog_ids c)"

lemma fresh_id_valid: "fresh_id env uuid c \<Longrightarrow> validate_document_id env (document_id_prefix @ uuid) = Inr ()"
  by (simp add: fresh_id_def validate_document_id_def starts_with_iff)

text \<open>What an operation may do to a catalog: keep it well formed, and never lose an identifier.\<close>

definition catalog_evolves :: "'b catalog_env \<Rightarrow> 'b catalog \<Rightarrow> 'b catalog \<Rightarrow> bool" where
  "catalog_evolves env c c' \<longleftrightarrow> catalog_ok env c' \<and> ct_root c' = ct_root c \<and>
     set (catalog_ids c) \<subseteq> set (catalog_ids c') \<and>
     (sorted (catalog_ids c) \<longrightarrow> sorted (catalog_ids c'))"

lemma catalog_evolves_refl: "catalog_ok env c \<Longrightarrow> catalog_evolves env c c"
  by (simp add: catalog_evolves_def)

text \<open>Replacing the bindings by a well-formed extension of them.\<close>

lemma persist_evolves:
  assumes env: "env_ok env" and ok: "catalog_ok env c"
    and new: "\<forall>b \<in> set bs. binding_ok env b" "distinct (map sb_id bs)"
      "distinct (map sb_relative_path bs)" "set (catalog_ids c) \<subseteq> set (map sb_id bs)"
      "sorted (catalog_ids c) \<longrightarrow> sorted (map sb_id bs)"
  shows "catalog_evolves env c (snd (persist env ((ct_state c)\<lparr>sc_bindings := bs\<rparr>) c))"
proof (rule persist_cases [OF env, of "(ct_state c)\<lparr>sc_bindings := bs\<rparr>" c])
  fix c' assume "persist env ((ct_state c)\<lparr>sc_bindings := bs\<rparr>) c = (Inr (), c')"
    "ct_state c' = (ct_state c)\<lparr>sc_bindings := bs\<rparr>" "ct_root c' = ct_root c" "stored env c'"
  with ok new show ?thesis
    by (simp add: catalog_evolves_def catalog_ok_iff catalog_ids_def catalog_paths_def)
next
  fix e c' assume "persist env ((ct_state c)\<lparr>sc_bindings := bs\<rparr>) c = (Inl e, c')"
    "ct_state c' = ct_state c" "ct_root c' = ct_root c" "stored env c' = stored env c"
  with ok show ?thesis
    by (simp add: catalog_evolves_def catalog_ok_iff catalog_ids_def catalog_paths_def)
qed

lemma catalog_bind_evolves:
  assumes env: "env_ok env" and ok: "catalog_ok env c" and fresh: "fresh_id env uuid c"
  shows "ensures (catalog_bind env uuid p c) (\<lambda>x. catalog_evolves env c (snd x))"
proof -
  let ?bs = "sc_bindings (ct_state c)"
  let ?new = "\<lambda>rel. sort_key sb_id (?bs @ [\<lparr>sb_id = document_id_prefix @ uuid, sb_relative_path = rel\<rparr>])"
  have grown: "catalog_evolves env c (snd (persist env ((ct_state c)\<lparr>sc_bindings := ?new rel\<rparr>) c))"
    if rel: "validate_relative_path rel = Inr ()" and unbound: "binding_by_path rel ?bs = None" for rel
  proof (rule persist_evolves [OF env ok])
    show "\<forall>b \<in> set (?new rel). binding_ok env b"
      using ok rel fresh_id_valid [OF fresh] by (auto simp: catalog_ok_iff binding_ok_def)
    have "mset (map sb_id (?new rel)) = mset (map sb_id ?bs @ [document_id_prefix @ uuid])"
      and "mset (map sb_relative_path (?new rel)) = mset (map sb_relative_path ?bs @ [rel])"
      by simp_all
    moreover have "distinct (map sb_id ?bs @ [document_id_prefix @ uuid])"
      "distinct (map sb_relative_path ?bs @ [rel])"
      using ok fresh unbound
      by (simp_all add: catalog_ok_iff fresh_id_def catalog_ids_def catalog_paths_def binding_by_path_None)
    ultimately show "distinct (map sb_id (?new rel))" "distinct (map sb_relative_path (?new rel))"
      by (metis mset_eq_imp_distinct_iff)+
    show "set (catalog_ids c) \<subseteq> set (map sb_id (?new rel))" by (auto simp: catalog_ids_def)
  qed simp
  have pair: "persist env st c = (a, b) \<Longrightarrow> b = snd (persist env st c)" for st a b by simp
  have run: "ensures (attempt (canonical_file_relative (ct_root c) p))
      (\<lambda>r. case r of Inr rel \<Rightarrow> validate_relative_path rel = Inr () | _ \<Rightarrow> True)"
    by (rule ensures_attempt) (auto intro: ensures_mono [OF canonical_file_relative_ensures])
  show ?thesis
    unfolding catalog_bind_def
    by (rule ensures_bind [OF run])
      (auto simp: Let_def catalog_evolves_refl ok split: sum.splits option.splits prod.splits
        dest!: pair intro!: grown)
qed

lemma catalog_rebind_evolves:
  assumes env: "env_ok env" and ok: "catalog_ok env c"
  shows "ensures (catalog_rebind env i p c) (\<lambda>x. catalog_evolves env c (snd x))"
proof -
  let ?bs = "sc_bindings (ct_state c)"
  have moved: "catalog_evolves env c
      (snd (persist env ((ct_state c)\<lparr>sc_bindings := set_path i rel ?bs\<rparr>) c))"
    if rel: "validate_relative_path rel = Inr ()" and unbound: "binding_by_path rel ?bs = None" for rel
  proof (rule persist_evolves [OF env ok])
    have d: "distinct (map sb_id ?bs)" using ok by (simp add: catalog_ok_iff catalog_ids_def)
    then show "\<forall>b \<in> set (set_path i rel ?bs). binding_ok env b"
      using ok rel by (auto simp: set_path_in catalog_ok_iff binding_ok_def)
    show "distinct (map sb_relative_path (set_path i rel ?bs))"
      using ok unbound
      by (intro distinct_set_path) (simp_all add: catalog_ok_iff catalog_paths_def binding_by_path_None)
  qed (use ok in \<open>simp_all add: catalog_ok_iff catalog_ids_def\<close>)
  have run: "ensures (attempt (canonical_file_relative (ct_root c) p))
      (\<lambda>r. case r of Inr rel \<Rightarrow> validate_relative_path rel = Inr () | _ \<Rightarrow> True)"
    by (rule ensures_attempt) (auto intro: ensures_mono [OF canonical_file_relative_ensures])
  show ?thesis
    unfolding catalog_rebind_def
    by (auto simp: Let_def catalog_evolves_refl ok split: sum.splits option.splits
        intro!: moved ensures_bind_any ensures_bind [OF run])
qed

section \<open>Runs\<close>

text \<open>
  Everything a host asks of a catalog. Identifiers come from a generator that, asked a number of
  times, gives a version-4 UUID that is not in use; the reads only use up the schedule.
\<close>

datatype catalog_event =
    BindFile nat given_path
  | RebindFile string given_path
  | LookupFile given_path
  | RecordOf string
  | ListRecords
  | CaptureFile string nat

datatype 'b catalog_world = Opened "'b catalog" fs | Closed fs

definition generator_ok :: "'b catalog_env \<Rightarrow> (nat \<Rightarrow> string list \<Rightarrow> string) \<Rightarrow> bool" where
  "generator_ok env gen \<longleftrightarrow> (\<forall>n ids. env_uuid_version env (gen n ids) = Some 4 \<and>
     document_id_prefix @ gen n ids \<notin> set ids)"

definition catalog_event_prog ::
  "'b catalog_env \<Rightarrow> (nat \<Rightarrow> string list \<Rightarrow> string) \<Rightarrow> (nat \<Rightarrow> nat) \<Rightarrow> catalog_event \<Rightarrow> 'b catalog
     \<Rightarrow> (catalog_error, 'b catalog) prog" where
  "catalog_event_prog env gen short ev c = (case ev of
       BindFile n p \<Rightarrow> bind (catalog_bind env (gen n (catalog_ids c)) p c) (\<lambda>x. ret (snd x))
     | RebindFile i p \<Rightarrow> bind (catalog_rebind env i p c) (\<lambda>x. ret (snd x))
     | LookupFile p \<Rightarrow> bind (attempt (catalog_lookup p c)) (\<lambda>_. ret c)
     | RecordOf i \<Rightarrow> bind (catalog_record_of i c) (\<lambda>_. ret c)
     | ListRecords \<Rightarrow> bind (catalog_records c) (\<lambda>_. ret c)
     | CaptureFile i limit \<Rightarrow> bind (attempt (catalog_capture short i limit c)) (\<lambda>_. ret c))"

fun reopen :: "('e, 'b catalog) outcome \<times> fs \<Rightarrow> 'b catalog_world" where
  "reopen (Done c, fs) = Opened c fs"
| "reopen (Raise e, fs) = Closed fs"
| "reopen (Halt x, fs) = Closed fs"

fun catalog_step ::
  "'b catalog_env \<Rightarrow> (nat \<Rightarrow> string list \<Rightarrow> string) \<Rightarrow> (nat \<Rightarrow> nat) \<Rightarrow> catalog_event
     \<Rightarrow> 'b catalog_world \<Rightarrow> 'b catalog_world" where
  "catalog_step env gen short ev (Opened c fs) = reopen (catalog_event_prog env gen short ev c fs)"
| "catalog_step env gen short ev (Closed fs) = Closed fs"

text \<open>The invariant relative to where the run started: the catalog evolved from there.\<close>

fun catalog_world_ok ::
  "'b catalog_env \<Rightarrow> (nat \<Rightarrow> string list \<Rightarrow> string) \<Rightarrow> 'b catalog \<Rightarrow> 'b catalog_world \<Rightarrow> bool" where
  "catalog_world_ok env gen origin (Opened c fs) \<longleftrightarrow>
     env_ok env \<and> generator_ok env gen \<and> catalog_evolves env origin c"
| "catalog_world_ok env gen origin (Closed fs) \<longleftrightarrow> True"

lemma catalog_evolves_trans:
  "catalog_evolves env a b \<Longrightarrow> catalog_evolves env b c \<Longrightarrow> catalog_evolves env a c"
  by (auto simp: catalog_evolves_def)

lemma catalog_event_evolves:
  assumes "env_ok env" and "generator_ok env gen" and "catalog_ok env c"
  shows "ensures (catalog_event_prog env gen short ev c) (catalog_evolves env c)"
proof -
  have fresh: "fresh_id env (gen n (catalog_ids c)) c" for n
    using assms(2) by (simp add: generator_ok_def fresh_id_def)
  show ?thesis
    unfolding catalog_event_prog_def
    by (auto intro: ensures_bind [OF catalog_bind_evolves [OF assms(1,3) fresh]]
        ensures_bind [OF catalog_rebind_evolves [OF assms(1,3)]] ensures_bind_any
        simp: catalog_evolves_refl assms(3) split: catalog_event.split)
qed

interpretation catalogs: machine "catalog_step env gen short" "catalog_world_ok env gen origin"
  for env :: "'b catalog_env" and gen short origin
proof
  fix w :: "'b catalog_world" and ev
  assume ok: "catalog_world_ok env gen origin w"
  show "catalog_world_ok env gen origin (catalog_step env gen short ev w)"
  proof (cases w)
    case (Opened c fs)
    with ok have "env_ok env" "generator_ok env gen" "catalog_ok env c"
      by (simp_all add: catalog_evolves_def)
    from ensuresD [OF catalog_event_evolves [OF this], of short ev fs] ok Opened show ?thesis
      by (cases "catalog_event_prog env gen short ev c fs"; cases "fst (catalog_event_prog env gen short ev c fs)")
        (auto intro: catalog_evolves_trans)
  qed simp
qed

section \<open>Bounded reading\<close>

lemma read_count_le: "read_count short off n \<le> n"
  by (simp add: read_count_def)

lemma looks_read_some [simp, intro]: "looks (fs_read_some short i off n)"
  unfolding fs_read_some_def by (rule looks_simple_call) (simp split: option.split)

lemma fs_read_some_Done:
  assumes "calm fs" and "fs_read_some short i off n fs = (Done chunk, fs')"
    and "inode_bytes fs i = Some data"
  shows "chunk = take (length chunk) (drop off data)" and "length chunk \<le> n"
    and "chunk = [] \<longleftrightarrow> n = 0 \<or> length data \<le> off"
proof -
  have chunk: "chunk = take (read_count short off (min n (length data - off))) (drop off data)"
  proof (rule simple_call_Done [OF assms(1) assms(2) [unfolded fs_read_some_def]])
    fix ts
    assume "(case inodes (fs\<lparr>sched := ts\<rparr>) i of None \<Rightarrow> (Raise OtherError, fs\<lparr>sched := ts\<rparr>)
      | Some f \<Rightarrow> (Done (take (read_count short off (min n (length (content f) - off)))
          (drop off (content f))), fs\<lparr>sched := ts\<rparr>)) = (Done chunk, fs')"
    with assms(3) show ?thesis by (auto simp: inode_bytes_def split: option.splits)
  qed
  let ?k = "read_count short off (min n (length data - off))"
  have k: "?k \<le> n" "?k \<le> length data - off" "?k = 0 \<longleftrightarrow> n = 0 \<or> length data \<le> off"
    using read_count_le [of short off "min n (length data - off)"] by (auto simp: read_count_def)
  with chunk have len: "length chunk = ?k" by simp
  with chunk k show "chunk = take (length chunk) (drop off data)" "length chunk \<le> n"
    "chunk = [] \<longleftrightarrow> n = 0 \<or> length data \<le> off"
    by auto
qed

lemma read_loop_Done:
  assumes "calm fs" and "inode_bytes fs i = Some data" and "body = take (length body) data"
    and "length body \<le> limit" and "read_loop short i limit turns body fs = (Done b, fs')"
  shows "b = data \<and> length data \<le> limit"
  using assms
proof (induction turns arbitrary: body fs)
  case 0
  then show ?case by (simp add: panic_def)
next
  case (Suc turns)
  show ?case
  proof (cases "length body = limit")
    case True
    with Suc.prems(5) obtain fs1 where "fs_read_some short i (length body) 1 fs = (Done [], fs1)"
      and b: "b = body" by (auto simp: io_simps split: if_splits)
    from fs_read_some_Done(3) [OF Suc.prems(1) this(1) Suc.prems(2)]
    have "length data \<le> length body" by simp
    with Suc.prems(3,4) b show ?thesis by simp
  next
    case False
    let ?n = "min (limit - length body) 8192"
    from False Suc.prems(5) obtain chunk fs1
      where read: "fs_read_some short i (length body) ?n fs = (Done chunk, fs1)"
        and rest: "(if chunk = [] then ret body else read_loop short i limit turns (body @ chunk)) fs1
          = (Done b, fs')"
      by (auto simp: io_simps)
    note c = fs_read_some_Done [OF Suc.prems(1) read Suc.prems(2)]
    from looks_read_some Suc.prems(1) read have s1: "calm fs1 \<and> same_tree fs fs1" by (rule looksD)
    show ?thesis
    proof (cases "chunk = []")
      case True
      with c(3) False Suc.prems(4) have "length data \<le> length body" by auto
      with True rest Suc.prems(3,4) show ?thesis by (simp add: io_simps)
    next
      case False
      have "body @ chunk = take (length body + length chunk) data"
        using c(1) Suc.prems(3) take_add [of "length body" "length chunk" data] by simp
      moreover have "length (body @ chunk) \<le> limit"
        using c(2) Suc.prems(4) unfolding length_append by linarith
      moreover have "inode_bytes fs1 i = Some data"
        using s1 Suc.prems(2) same_tree_inode_bytes [of fs fs1 i] by simp
      moreover have "read_loop short i limit turns (body @ chunk) fs1 = (Done b, fs')"
        using rest False by simp
      moreover have "body @ chunk = take (length (body @ chunk)) data"
        unfolding length_append by (fact calculation(1))
      ultimately show ?thesis by (intro Suc.IH [OF conjunct1 [OF s1]])
    qed
  qed
qed

text \<open>On a machine whose calls all go through, the loop returns.\<close>

lemma quiet_read_some:
  assumes "sched fs = []" and "inodes fs i = Some f"
  shows "fs_read_some short i off n fs =
    (Done (take (read_count short off (min n (length (content f) - off))) (drop off (content f))), fs)"
  using assms by (simp add: fs_read_some_def simple_call_def syscall_def)

lemma read_loop_quiet:
  assumes "sched fs = []" and "inodes fs i = Some f" and "body = take (length body) (content f)"
    and "length body \<le> limit" and "limit - length body < turns"
  shows "read_loop short i limit turns body fs =
    (if length (content f) \<le> limit then Done (content f) else Raise TooLarge, fs)"
  using assms(3-5)
proof (induction turns arbitrary: body)
  case (Suc turns)
  let ?data = "content f"
  have calm: "calm fs" using assms(1) by (simp add: calm_def)
  have data: "inode_bytes fs i = Some ?data" using assms(2) by (simp add: inode_bytes_def)
  have le: "length body \<le> length ?data" using Suc.prems(1) by (metis length_take min.cobounded1)
  obtain chunk where read: "fs_read_some short i (length body)
      (if length body = limit then 1 else min (limit - length body) 8192) fs = (Done chunk, fs)"
    using quiet_read_some [OF assms(1,2)] by blast
  note c = fs_read_some_Done [OF calm read data]
  show ?case
  proof (cases "length body = limit")
    case True
    then show ?thesis
      using Suc.prems(1) le read c(3)
      by (auto simp: bind_def map_err_def ret_def raise_def)
  next
    case False
    then have step: "read_loop short i limit (Suc turns) body fs =
        (if chunk = [] then ret body else read_loop short i limit turns (body @ chunk)) fs"
      using read by (simp add: bind_def map_err_def)
    show ?thesis
    proof (cases "chunk = []")
      case True
      with c(3) False Suc.prems(2) have "length ?data \<le> length body" by auto
      with Suc.prems(1) have "body = ?data" by simp
      with True step Suc.prems(2) show ?thesis by (simp add: ret_def del: read_loop.simps)
    next
      case nonempty: False
      have "body @ chunk = take (length (body @ chunk)) ?data"
        using c(1) Suc.prems(1) take_add [of "length body" "length chunk" ?data] by simp
      moreover have "length (body @ chunk) \<le> limit"
        using c(2) False Suc.prems(2) unfolding length_append by auto
      moreover have "limit - length (body @ chunk) < turns"
        using nonempty Suc.prems(2,3) False by (cases chunk) auto
      ultimately have "read_loop short i limit turns (body @ chunk) fs =
          (if length ?data \<le> limit then Done ?data else Raise TooLarge, fs)"
        by (rule Suc.IH)
      with nonempty step show ?thesis by (simp del: read_loop.simps)
    qed
  qed
qed simp

lemma quiet_open:
  assumes "sched fs = []" and "resolve fs p = Inr q" and "inode_at fs q = Some i"
  shows "fs_open p fs = (Done i, fs)"
  using assms by (simp add: fs_open_def simple_call_def syscall_def)

section \<open>Captures\<close>

lemma looks_read_loop: "looks (read_loop short i limit turns body)"
proof (induction turns arbitrary: body)
  case 0
  then show ?case by (simp add: looks_def wp_def panic_def)
next
  case (Suc turns)
  then show ?case by (auto intro!: looks_bind looks_map_err)
qed

lemma capture_binding_Done:
  assumes "calm fs" and "capture_binding short root b limit fs = (Done r, fs')"
  shows "fr_document_id r = sb_id b \<and> validate_revision r = Inr () \<and> length (fr_body r) \<le> limit \<and>
    resolve fs (root @ sb_relative_path b) = Inr (root @ sb_relative_path b) \<and>
    bytes_at fs (root @ sb_relative_path b) = Some (fr_body r) \<and> same_tree fs fs'"
proof -
  let ?p = "root @ sb_relative_path b"
  from assms(2) obtain md fs1 fs2 i fs3 where
    1: "fs_canonicalize ?p fs = (Done ?p, fs1)" and 2: "fs_metadata ?p fs1 = (Done md, fs2)"
    and 3: "fs_open ?p fs2 = (Done i, fs3)"
    and 4: "read_loop short i limit (limit + 1) [] fs3 = (Done (fr_body r), fs')"
    and r: "fr_document_id r = sb_id b" "validate_revision r = Inr ()"
    by (auto simp: capture_binding_def read_file_bounded_def Let_def io_simps split: if_splits sum.splits)
  from looks_calls(3) assms(1) 1 have s1: "calm fs1 \<and> same_tree fs fs1" by (rule looksD)
  from looks_calls(1) conjunct1 [OF s1] 2 have s2: "calm fs2 \<and> same_tree fs1 fs2" by (rule looksD)
  from looks_calls(4) conjunct1 [OF s2] 3 have s3: "calm fs3 \<and> same_tree fs2 fs3" by (rule looksD)
  from looks_read_loop conjunct1 [OF s3] 4 have s4: "calm fs' \<and> same_tree fs3 fs'" by (rule looksD)
  have tree: "same_tree fs fs2" "same_tree fs fs3" "same_tree fs fs'"
    using s1 s2 s3 s4 by (blast intro: same_tree_trans)+
  have canonical: "resolve fs ?p = Inr ?p" using fs_canonicalize_Done [OF assms(1) 1] .
  have i: "inode_at fs ?p = Some i"
    using fs_open_Done [OF conjunct1 [OF s2] 3] canonical by (auto simp: same_tree_observe [OF tree(1)])
  have md: "meta_is_file md"
    using assms(2) 1 2 by (auto simp: capture_binding_def Let_def io_simps bind_def map_err_def
        raise_def split: if_splits)
  obtain q where "resolve fs1 ?p = Inr q" "md = metadata_of fs1 q"
    using fs_metadata_Done [OF conjunct1 [OF s1] 2] by blast
  then have "file_at fs ?p \<noteq> None"
    using md canonical s1 by (auto simp: same_tree_observe metadata_of_def split: option.splits)
  then obtain data where data: "inode_bytes fs i = Some data"
    using i by (auto simp: file_at_def inode_bytes_def)
  then have "fr_body r = data \<and> length data \<le> limit"
    using read_loop_Done [OF conjunct1 [OF s3] _ _ _ 4, of data] same_tree_inode_bytes [OF tree(2), of i]
    by simp
  with r canonical i data tree(3) show ?thesis by (simp add: bytes_at_inode)
qed


section \<open>Binding and rebinding\<close>

lemma looks_of_sum [simp, intro]: "looks (of_sum x)"
  by (cases x) (auto simp: of_sum_def)

lemma looks_canonical_file_relative [simp, intro]: "looks (canonical_file_relative root p)"
  unfolding canonical_file_relative_def by (auto intro!: looks_bind looks_map_err)

lemma of_sum_Done [io_simps]: "of_sum x fs = (Done a, fs') \<longleftrightarrow> x = Inr a \<and> fs' = fs"
  by (cases x) (auto simp: of_sum_def io_simps)

text \<open>A regular file of the root, named by the path of it that needs no resolving.\<close>

definition file_under :: "fs \<Rightarrow> path \<Rightarrow> path \<Rightarrow> bool" where
  "file_under fs root rel \<longleftrightarrow> rel \<noteq> [] \<and> list_all normal_component rel \<and>
     resolve fs (root @ rel) = Inr (root @ rel) \<and> file_at fs (root @ rel) \<noteq> None"

lemma canonical_file_relative_Done:
  assumes "calm fs" and "canonical_file_relative root p fs = (Done rel, fs')"
  shows "file_under fs root rel \<and> resolve fs (root_join root p) = Inr (root @ rel)"
proof -
  from assms(2) obtain q fs1 md fs2 where 1: "fs_canonicalize (root_join root p) fs = (Done q, fs1)"
    and 2: "fs_metadata q fs1 = (Done md, fs2)" "meta_is_file md"
    and rel: "relative_from_canonical root q = Inr rel"
    by (auto simp: canonical_file_relative_def io_simps split: if_splits)
  from rel have q: "q = root @ rel" and v: "validate_relative_path rel = Inr ()"
    by (auto simp: relative_from_canonical_def path_strip_prefix_Some split: option.splits sum.splits)
  from fs_canonicalize_Done [OF assms(1) 1] have r: "resolve fs (root_join root p) = Inr q" .
  have c: "resolve fs q = Inr q" using resolve_canonical(1) [OF r] .
  from looks_calls(3) assms(1) 1 have s1: "calm fs1 \<and> same_tree fs fs1" by (rule looksD)
  have "file_at fs q \<noteq> None"
    using fs_metadata_Done [OF conjunct1 [OF s1] 2(1)] c s1 2(2)
    by (auto simp: same_tree_observe metadata_of_def split: option.splits)
  with v r c q show ?thesis
    by (auto simp: file_under_def validate_relative_path_def split: if_splits)
qed

lemma persist_Inr:
  assumes "env_ok env" and "persist env st c = (Inr (), c')"
  shows "ct_state c' = st \<and> ct_root c' = ct_root c \<and> stored env c'"
  by (rule persist_cases [OF assms(1), of st c]) (use assms(2) in auto)

lemma catalog_bind_Done:
  fixes c :: "'b catalog"
  assumes env: "env_ok env" and ok: "catalog_ok env c" and calm: "calm fs"
    and run: "catalog_bind env uuid p c fs =
      (Done (Inr i, c') :: ('e, (catalog_error + string) \<times> 'b catalog) outcome, fs')"
  shows "\<exists>rel. file_under fs (ct_root c) rel \<and> resolve fs (root_join (ct_root c) p) = Inr (ct_root c @ rel) \<and>
    stored env c' \<and>
    (if rel \<in> set (catalog_paths c)
     then c' = c \<and> \<lparr>sb_id = i, sb_relative_path = rel\<rparr> \<in> set (sc_bindings (ct_state c))
     else i = document_id_prefix @ uuid \<and> set (sc_bindings (ct_state c')) =
       insert \<lparr>sb_id = i, sb_relative_path = rel\<rparr> (set (sc_bindings (ct_state c))))"
proof -
  from run obtain rel fs1 where 1: "canonical_file_relative (ct_root c) p fs = (Done rel, fs1)"
    and body: "(case binding_by_path rel (sc_bindings (ct_state c)) of Some b \<Rightarrow> ret (Inr (sb_id b), c)
         | None \<Rightarrow> (case persist env ((ct_state c)\<lparr>sc_bindings := sort_key sb_id (sc_bindings (ct_state c) @
               [\<lparr>sb_id = document_id_prefix @ uuid, sb_relative_path = rel\<rparr>])\<rparr>) c of
             (Inl e, c') \<Rightarrow> ret (Inl e, c') | (Inr _, c') \<Rightarrow> ret (Inr (document_id_prefix @ uuid), c'))) fs1
        = (Done (Inr i, c') :: ('e, (catalog_error + string) \<times> 'b catalog) outcome, fs')"
    unfolding catalog_bind_def Let_def bind_attempt_Done by (auto simp: ret_Done)
  have rest: "(case binding_by_path rel (sc_bindings (ct_state c)) of
         Some b \<Rightarrow> (Inr (sb_id b), c) = (Inr i, c')
       | None \<Rightarrow> persist env ((ct_state c)\<lparr>sc_bindings := sort_key sb_id
           (sc_bindings (ct_state c) @ [\<lparr>sb_id = document_id_prefix @ uuid, sb_relative_path = rel\<rparr>])\<rparr>) c
           = (Inr (), c') \<and> i = document_id_prefix @ uuid)"
    using body by (auto simp: io_simps split: option.splits prod.splits sum.splits)
  from canonical_file_relative_Done [OF calm 1]
  have under: "file_under fs (ct_root c) rel" "resolve fs (root_join (ct_root c) p) = Inr (ct_root c @ rel)"
    by auto
  show ?thesis
  proof (cases "binding_by_path rel (sc_bindings (ct_state c))")
    case None
    with rest persist_Inr [OF env] under ok show ?thesis
      by (intro exI [of _ rel]) (auto simp: catalog_paths_def binding_by_path_None)
  next
    case (Some b)
    from binding_by_path_Some [OF this] have b: "b \<in> set (sc_bindings (ct_state c))" "sb_relative_path b = rel"
      by auto
    with Some rest have i: "\<lparr>sb_id = i, sb_relative_path = rel\<rparr> = b" and c: "c' = c" by auto
    from b have "rel \<in> set (catalog_paths c)" by (auto simp: catalog_paths_def)
    with b i c under ok show ?thesis
      by (intro exI [of _ rel]) (simp add: catalog_ok_iff)
  qed
qed

lemma catalog_rebind_Done:
  assumes env: "env_ok env" and ok: "catalog_ok env c" and calm: "calm fs"
    and run: "catalog_rebind env i p c fs = (Done (Inr (), c'), fs')"
  shows "\<exists>rel. file_under fs (ct_root c) rel \<and> rel \<notin> set (catalog_paths c) \<and>
    i \<in> set (catalog_ids c) \<and> catalog_ids c' = catalog_ids c \<and> stored env c' \<and>
    (\<forall>j. binding_by_id j (sc_bindings (ct_state c')) =
      (if j = i then Some \<lparr>sb_id = i, sb_relative_path = rel\<rparr> else binding_by_id j (sc_bindings (ct_state c))))"
proof -
  from run obtain current rel fs1 fs2 e where cur: "binding_by_id i (sc_bindings (ct_state c)) = Some current"
    and 1: "fs_symlink_metadata (ct_root c @ sb_relative_path current) fs = (Raise e, fs1)"
    and 2: "canonical_file_relative (ct_root c) p fs1 = (Done rel, fs2)"
    and new: "binding_by_path rel (sc_bindings (ct_state c)) = None"
    and put: "persist env ((ct_state c)\<lparr>sc_bindings := set_path i rel (sc_bindings (ct_state c))\<rparr>) c = (Inr (), c')"
    unfolding catalog_rebind_def Let_def
    by (auto simp: bind_attempt_Done ret_Done simp del: split_paired_Ex split: option.splits if_splits)
  from looks_calls(2) calm 1 have s1: "calm fs1 \<and> same_tree fs fs1" by (rule looksD)
  from canonical_file_relative_Done [OF conjunct1 [OF s1] 2]
  have under: "file_under fs (ct_root c) rel" using s1 by (auto simp: file_under_def same_tree_observe [of fs fs1])
  have moved: "binding_by_id j (set_path i rel bs) =
      (if j = i then map_option (\<lambda>_. \<lparr>sb_id = i, sb_relative_path = rel\<rparr>) (binding_by_id i bs)
       else binding_by_id j bs)" for j bs
    by (induction bs) (auto simp: binding_by_id_def)
  from binding_by_id_Some [OF cur] have "i \<in> set (catalog_ids c)" by (auto simp: catalog_ids_def)
  with under new cur persist_Inr [OF env put] show ?thesis
    by (intro exI [of _ rel]) (auto simp: catalog_ids_def catalog_paths_def binding_by_path_None moved)
qed


section \<open>A sample environment\<close>

text \<open>
  A store that is a map, an encoding that writes a number in unary and a list after its length,
  and identifiers longer than all the ones in use.
\<close>

fun put_nat :: "nat \<Rightarrow> bytes" where
  "put_nat 0 = ''.''"
| "put_nat (Suc n) = CHR ''I'' # put_nat n"

fun take_nat :: "bytes \<Rightarrow> (nat \<times> bytes) option" where
  "take_nat [] = None"
| "take_nat (c # cs) =
     (if c = CHR ''I'' then map_option (map_prod Suc id) (take_nat cs) else Some (0, cs))"

definition put_list :: "('a \<Rightarrow> bytes) \<Rightarrow> 'a list \<Rightarrow> bytes" where
  "put_list f xs = put_nat (length xs) @ concat (map f xs)"

fun take_times :: "(bytes \<Rightarrow> ('a \<times> bytes) option) \<Rightarrow> nat \<Rightarrow> bytes \<Rightarrow> ('a list \<times> bytes) option" where
  "take_times g 0 s = Some ([], s)"
| "take_times g (Suc n) s = (case g s of None \<Rightarrow> None
     | Some (x, s) \<Rightarrow> map_option (map_prod ((#) x) id) (take_times g n s))"

definition take_list :: "(bytes \<Rightarrow> ('a \<times> bytes) option) \<Rightarrow> bytes \<Rightarrow> ('a list \<times> bytes) option" where
  "take_list g s = (case take_nat s of None \<Rightarrow> None | Some (n, s) \<Rightarrow> take_times g n s)"

definition coding :: "('a \<Rightarrow> bytes) \<Rightarrow> (bytes \<Rightarrow> ('a \<times> bytes) option) \<Rightarrow> bool" where
  "coding f g \<longleftrightarrow> (\<forall>x s. g (f x @ s) = Some (x, s))"

lemma coding_nat: "coding put_nat take_nat"
  unfolding coding_def
proof (intro allI)
  show "take_nat (put_nat n @ s) = Some (n, s)" for n s by (induction n) auto
qed

lemma coding_list: "coding f g \<Longrightarrow> coding (put_list f) (take_list g)"
proof -
  assume c: "coding f g"
  have "take_times g (length xs) (concat (map f xs) @ s) = Some (xs, s)" for xs s
    using c by (induction xs) (auto simp: coding_def)
  then show ?thesis
    using coding_nat by (simp add: coding_def put_list_def take_list_def)
qed

definition take_char :: "bytes \<Rightarrow> (char \<times> bytes) option" where
  "take_char s = (case s of [] \<Rightarrow> None | c # cs \<Rightarrow> Some (c, cs))"

abbreviation "put_string \<equiv> put_list (\<lambda>c. [c])"
abbreviation "take_string \<equiv> take_list take_char"
abbreviation "put_path \<equiv> put_list put_string"
abbreviation "take_path \<equiv> take_list take_string"

lemma coding_string: "coding put_string take_string"
  by (rule coding_list) (simp add: coding_def take_char_def)

lemma coding_path: "coding put_path take_path"
  by (rule coding_list [OF coding_string])

definition put_binding :: "stored_binding \<Rightarrow> bytes" where
  "put_binding b = put_string (sb_id b) @ put_path (sb_relative_path b)"

definition take_binding :: "bytes \<Rightarrow> (stored_binding \<times> bytes) option" where
  "take_binding s = (case take_string s of None \<Rightarrow> None | Some (i, s) \<Rightarrow>
     (case take_path s of None \<Rightarrow> None | Some (p, s) \<Rightarrow> Some (\<lparr>sb_id = i, sb_relative_path = p\<rparr>, s)))"

lemma coding_binding: "coding put_binding take_binding"
  using coding_string coding_path by (simp add: coding_def put_binding_def take_binding_def)

definition put_catalog :: "stored_catalog \<Rightarrow> bytes" where
  "put_catalog st = put_nat (sc_version st) @ put_path (sc_root st) @ put_list put_binding (sc_bindings st)"

definition take_catalog :: "bytes \<Rightarrow> stored_catalog option" where
  "take_catalog s = (case take_nat s of None \<Rightarrow> None | Some (v, s) \<Rightarrow>
     (case take_path s of None \<Rightarrow> None | Some (r, s) \<Rightarrow>
       (case take_list take_binding s of None \<Rightarrow> None
        | Some (bs, _) \<Rightarrow> Some \<lparr>sc_version = v, sc_root = r, sc_bindings = bs\<rparr>)))"

lemma take_put_catalog: "take_catalog (put_catalog st) = Some st"
proof -
  have "take_list take_binding (put_list put_binding (sc_bindings st) @ []) = Some (sc_bindings st, [])"
    using coding_list [OF coding_binding] unfolding coding_def by blast
  then show ?thesis
    using coding_nat coding_path by (simp add: coding_def take_catalog_def put_catalog_def)
qed

type_synonym map_store = "string \<Rightarrow> bytes option"

definition sample_env :: "map_store \<Rightarrow> map_store catalog_env" where
  "sample_env disk = \<lparr>
     env_open = (\<lambda>_. Inr disk),
     env_get = (\<lambda>b k. Inr (b k)),
     env_put = (\<lambda>b k v. (Inr (), b(k := Some v))),
     env_encode = (\<lambda>st. Inr (put_catalog st)),
     env_decode = (\<lambda>s. case take_catalog s of None \<Rightarrow> Inl ''unreadable'' | Some st \<Rightarrow> Inr st),
     env_uuid_version = (\<lambda>_. Some 4),
     env_working_dir = Inr []\<rparr>"

lemma sample_env_ok: "env_ok (sample_env disk)"
  by (auto simp: env_ok_def sample_env_def take_put_catalog)

definition longer_id :: "nat \<Rightarrow> string list \<Rightarrow> string" where
  "longer_id n ids = replicate (Suc (sum_list (map length ids))) CHR ''x''"

lemma longer_id_ok: "generator_ok (sample_env disk) longer_id"
  unfolding generator_ok_def
proof (intro allI conjI)
  fix n ids
  show "env_uuid_version (sample_env disk) (longer_id n ids) = Some 4" by (simp add: sample_env_def)
  have "i \<in> set ids \<Longrightarrow> length i \<le> sum_list (map length ids)" for i
    by (simp add: member_le_sum_list)
  then show "document_id_prefix @ longer_id n ids \<notin> set ids"
    by (fastforce simp: longer_id_def)
qed

definition sample_catalog :: "map_store catalog" where
  "sample_catalog =
     (let st = \<lparr>sc_version = catalog_version, sc_root = [''notes''], sc_bindings = []\<rparr>
      in \<lparr>ct_root = [''notes''], ct_backend = [catalog_key \<mapsto> put_catalog st], ct_state = st\<rparr>)"

lemma sample_catalog_ok: "catalog_ok (sample_env disk) sample_catalog"
  by (simp add: catalog_ok_iff sample_catalog_def Let_def stored_def sample_env_def take_put_catalog
      catalog_ids_def catalog_paths_def)

section \<open>Properties\<close>

text \<open>
  C28: whatever a host asks of a catalog and whatever the machine does, the catalog stays valid
  and stored, stays under its root, never loses an identifier and stays ordered by identifier.
\<close>

theorem catalog_run_kept:
  assumes "env_ok env" and "generator_ok env gen" and "catalog_ok env c"
    and "fold (catalog_step env gen short) evs (Opened c fs) = Opened c' fs'"
  shows "catalog_ok env c' \<and> ct_root c' = ct_root c \<and> set (catalog_ids c) \<subseteq> set (catalog_ids c') \<and>
    (sorted (catalog_ids c) \<longrightarrow> sorted (catalog_ids c'))"
proof -
  have "catalog_world_ok env gen c (fold (catalog_step env gen short) evs (Opened c fs))"
    using assms(1-3) by (intro catalogs.run_inv) (simp add: catalog_evolves_refl)
  with assms(4) show ?thesis by (simp add: catalog_evolves_def)
qed

theorem catalog_run_kept_witness:
  "\<exists>c' fs'. fold (catalog_step (sample_env Map.empty) longer_id (\<lambda>_. 1))
     [BindFile 0 (RelativePath [''field.djot'']), ListRecords] (Opened sample_catalog sample_fs) = Opened c' fs' \<and>
     catalog_ok (sample_env Map.empty) c'"
proof -
  let ?w = "fold (catalog_step (sample_env Map.empty) longer_id (\<lambda>_. 1))
     [BindFile 0 (RelativePath [''field.djot'']), ListRecords] (Opened sample_catalog sample_fs)"
  have "(case ?w of Opened c fs \<Rightarrow> length (catalog_ids c) = 1 | Closed _ \<Rightarrow> False)" by code_simp
  then obtain c' fs' where "?w = Opened c' fs'" by (cases ?w) auto
  with catalog_run_kept [OF sample_env_ok longer_id_ok sample_catalog_ok this] show ?thesis by blast
qed

text \<open>
  binding succeeds only for a regular file of the root, reached by a path that needs no
  resolving. A file that is bound keeps its identifier and nothing changes; a new one gets the new
  identifier, all other bindings stand, and the state is in the store.
\<close>

theorem catalog_bind_exact:
  assumes "env_ok env" and "catalog_ok env c" and "calm fs"
    and "catalog_bind env uuid p c fs = (Done (Inr i, c'), fs')"
  shows "\<exists>rel. file_under fs (ct_root c) rel \<and> resolve fs (root_join (ct_root c) p) = Inr (ct_root c @ rel) \<and>
    stored env c' \<and>
    (if rel \<in> set (catalog_paths c)
     then c' = c \<and> \<lparr>sb_id = i, sb_relative_path = rel\<rparr> \<in> set (sc_bindings (ct_state c))
     else i = document_id_prefix @ uuid \<and> set (sc_bindings (ct_state c')) =
       insert \<lparr>sb_id = i, sb_relative_path = rel\<rparr> (set (sc_bindings (ct_state c))))"
  using assms by (rule catalog_bind_Done)

definition bound_sample :: "map_store catalog" where
  "bound_sample = (case catalog_bind (sample_env Map.empty) ''one'' (RelativePath [''.'', ''field.djot''])
     sample_catalog sample_fs :: (catalog_error, (catalog_error + string) \<times> map_store catalog) outcome \<times> fs
     of (Done (_, c), _) \<Rightarrow> c | _ \<Rightarrow> sample_catalog)"

theorem catalog_bind_exact_witness:
  "\<exists>rel. file_under sample_fs [''notes''] rel \<and>
     sc_bindings (ct_state bound_sample) = [\<lparr>sb_id = ''knot:document:one'', sb_relative_path = rel\<rparr>]"
proof -
  let ?r = "catalog_bind (sample_env Map.empty) ''one'' (RelativePath [''.'', ''field.djot''])
     sample_catalog sample_fs :: (catalog_error, (catalog_error + string) \<times> map_store catalog) outcome \<times> fs"
  have "fst (map_prod (map_done fst) id ?r) = Done (Inr ''knot:document:one'')" by code_simp
  then obtain c' fs' where run: "?r = (Done (Inr ''knot:document:one'', c'), fs')"
    by (cases ?r) (auto simp: map_done_eq_Done)
  have "bound_sample = c'" using run unfolding bound_sample_def by simp
  moreover have "sc_bindings (ct_state bound_sample) =
      [\<lparr>sb_id = ''knot:document:one'', sb_relative_path = [''field.djot'']\<rparr>]" by code_simp
  ultimately show ?thesis
    using catalog_bind_exact [OF sample_env_ok sample_catalog_ok sample_calm run]
    by (auto simp: sample_catalog_def Let_def catalog_paths_def)
qed

text \<open>
  rebinding succeeds only to a regular file of the root that nothing is bound to; it moves
  the one binding named and leaves every other binding and every identifier as they were.
\<close>

theorem catalog_rebind_exact:
  assumes "env_ok env" and "catalog_ok env c" and "calm fs"
    and "catalog_rebind env i p c fs = (Done (Inr (), c'), fs')"
  shows "\<exists>rel. file_under fs (ct_root c) rel \<and> rel \<notin> set (catalog_paths c) \<and>
    i \<in> set (catalog_ids c) \<and> catalog_ids c' = catalog_ids c \<and> stored env c' \<and>
    (\<forall>j. binding_by_id j (sc_bindings (ct_state c')) =
      (if j = i then Some \<lparr>sb_id = i, sb_relative_path = rel\<rparr> else binding_by_id j (sc_bindings (ct_state c))))"
  using assms by (rule catalog_rebind_Done)

definition moved_fs :: fs where
  "moved_fs = sample_fs\<lparr>entries := [[''notes''] \<mapsto> Folder, [''notes'', ''moved.djot''] \<mapsto> Name 0]\<rparr>"

lemma moved_calm: "calm moved_fs"
  by (simp add: moved_fs_def sample_fs_def calm_def)

lemma bound_sample_ok: "catalog_ok (sample_env disk) bound_sample"
proof -
  have "stored (sample_env disk) bound_sample"
    unfolding stored_def
    by (rule exI [of _ "put_catalog (ct_state bound_sample)"])
      (simp add: sample_env_def take_put_catalog, code_simp)
  moreover have "validate_state (sample_env disk) (ct_state bound_sample) (ct_root bound_sample) = Inr ()"
    by code_simp
  ultimately show ?thesis by (simp add: catalog_ok_def)
qed

theorem catalog_rebind_exact_witness:
  "\<exists>c' fs' rel. catalog_rebind (sample_env Map.empty) ''knot:document:one'' (RelativePath [''moved.djot''])
      bound_sample moved_fs = (Done (Inr (), c') :: (catalog_error, _) outcome, fs') \<and>
     binding_by_id ''knot:document:one'' (sc_bindings (ct_state c')) =
       Some \<lparr>sb_id = ''knot:document:one'', sb_relative_path = rel\<rparr> \<and> file_under moved_fs (ct_root bound_sample) rel"
proof -
  let ?r = "catalog_rebind (sample_env Map.empty) ''knot:document:one'' (RelativePath [''moved.djot''])
      bound_sample moved_fs :: (catalog_error, (catalog_error + unit) \<times> map_store catalog) outcome \<times> fs"
  have "fst (map_prod (map_done fst) id ?r) = Done (Inr ())" by code_simp
  then obtain c' fs' where run: "?r = (Done (Inr (), c'), fs')"
    by (cases ?r) (auto simp: map_done_eq_Done)
  with catalog_rebind_exact [OF sample_env_ok bound_sample_ok moved_calm run] show ?thesis by force
qed

text \<open>
  a capture returns the whole file of its binding, never more than the limit asked for, from
  the bound path itself (which needs no resolving, so no link leads out of the root), and changes
  nothing on disk.
\<close>

theorem catalog_capture_bounded:
  assumes "calm fs" and "catalog_capture short i limit c fs = (Done r, fs')"
  shows "\<exists>b \<in> set (sc_bindings (ct_state c)). sb_id b = i \<and> fr_document_id r = i \<and>
    length (fr_body r) \<le> limit \<and>
    resolve fs (ct_root c @ sb_relative_path b) = Inr (ct_root c @ sb_relative_path b) \<and>
    bytes_at fs (ct_root c @ sb_relative_path b) = Some (fr_body r) \<and> same_tree fs fs'"
proof -
  from assms(2) obtain b where b: "binding_by_id i (sc_bindings (ct_state c)) = Some b"
    and run: "capture_binding short (ct_root c) b limit fs = (Done r, fs')"
    by (auto simp: catalog_capture_def capture_from_def io_simps split: option.splits)
  from binding_by_id_Some [OF b] capture_binding_Done [OF assms(1) run] show ?thesis by blast
qed

theorem catalog_capture_bounded_witness:
  "\<exists>r fs'. catalog_capture (\<lambda>_. 1) ''knot:document:one'' 3 bound_sample sample_fs = (Done r, fs') \<and>
     length (fr_body r) \<le> 3"
proof -
  have "fst (map_prod (map_done fr_body) id
      (catalog_capture (\<lambda>_. 1) ''knot:document:one'' 3 bound_sample sample_fs)) = Done ''old''" by code_simp
  then obtain r fs' where run: "catalog_capture (\<lambda>_. 1) ''knot:document:one'' 3 bound_sample sample_fs = (Done r, fs')"
    by (cases "catalog_capture (\<lambda>_. 1) ''knot:document:one'' 3 bound_sample sample_fs")
      (auto simp: map_done_eq_Done)
  with catalog_capture_bounded [OF sample_calm run] show ?thesis by blast
qed

text \<open>
  C29: however short the reads are, a bounded read ends within \<open>max_bytes + 1\<close> turns when the
  machine serves them: with the whole file if it fits the limit, and with an error, not a prefix,
  if it does not.
\<close>

theorem read_file_bounded_returns:
  assumes "sched fs = []" and "resolve fs p = Inr q" and "inode_at fs q = Some i" and "inodes fs i = Some f"
  shows "read_file_bounded short p limit fs =
    (if length (content f) \<le> limit then Done (content f) else Raise TooLarge, fs)"
  using quiet_open [OF assms(1-3)] read_loop_quiet [OF assms(1,4), of "[]" limit "limit + 1" short]
  by (simp add: read_file_bounded_def bind_def map_err_def del: read_loop.simps)

theorem read_file_bounded_returns_witness:
  "read_file_bounded (\<lambda>_. 1) sample_path 2 sample_fs = (Raise TooLarge, sample_fs)"
proof -
  have "sched sample_fs = []" "inode_at sample_fs sample_path = Some 0"
    "inodes sample_fs 0 = Some \<lparr>content = ''old'', readonly = False\<rparr>"
    by (simp_all add: sample_fs_def inode_at_def)
  from read_file_bounded_returns [OF this(1) sample_resolve this(2,3), of "\<lambda>_. 1" 2] show ?thesis by simp
qed

text \<open>
  a catalog that is opened again over what its store holds is the catalog that was there:
  the same root, the same bindings in the same order.
\<close>

theorem catalog_open_again:
  assumes "catalog_ok env c" and "canonical_root root fs = (Done (ct_root c), fs1)"
    and "canonical_catalog_path env p fs1 = (Done q, fs2)" and "\<not> path_starts_with q (ct_root c)"
    and "env_open env q = Inr (ct_backend c)"
  shows "catalog_open env root p fs = (Done c, fs2)"
proof -
  from assms(1) obtain bs where "env_get env (ct_backend c) catalog_key = Inr (Some bs)"
    "env_decode env bs = Inr (ct_state c)" "validate_state env (ct_state c) (ct_root c) = Inr ()"
    by (auto simp: catalog_ok_def stored_def)
  with assms(2-5) show ?thesis by (simp add: catalog_open_def bind_def ret_def)
qed

theorem catalog_open_again_witness:
  "catalog_open (sample_env (ct_backend bound_sample)) [''notes''] (AbsolutePath [''catalog.redb'']) sample_fs =
    (Done bound_sample, sample_fs)"
proof -
  have "catalog_ok (sample_env (ct_backend bound_sample)) bound_sample"
    by (rule bound_sample_ok)
  moreover have root: "ct_root bound_sample = [''notes'']" by code_simp
  moreover have "canonical_root [''notes''] sample_fs = (Done [''notes''], sample_fs)"
    by (simp add: canonical_root_def is_dir_def bind_def map_err_def attempt_def ret_def fs_canonicalize_def
        fs_metadata_def simple_call_def syscall_def sample_fs_def sample_path_def resolve_def metadata_of_def file_at_def inode_at_def)
  moreover have "canonical_catalog_path (sample_env (ct_backend bound_sample)) (AbsolutePath [''catalog.redb''])
      sample_fs = (Done [''catalog.redb''], sample_fs)"
    by (simp add: canonical_catalog_path_def is_dir_def bind_def map_err_def attempt_def ret_def fs_canonicalize_def
        fs_metadata_def fs_symlink_metadata_def simple_call_def syscall_def sample_fs_def sample_path_def resolve_def
        metadata_of_def file_at_def inode_at_def path_parent_def path_file_name_def locate_def Let_def)
  moreover have "\<not> path_starts_with [''catalog.redb''] [''notes'']" by code_simp
  moreover have "env_open (sample_env (ct_backend bound_sample)) [''catalog.redb''] = Inr (ct_backend bound_sample)"
    by (simp add: sample_env_def)
  ultimately show ?thesis by (intro catalog_open_again) simp_all
qed

end
