(* ===== verification/Reference_Registry.thy ===== *)
theory Reference_Registry
  imports Registry_Store Ordered_Map File_Catalog
begin

text \<open>
  \<open>reference-data/src/registry.rs\<close>, the registry of sources: what is advertised, installed and
  enabled, in memory and on disk. The codec of the registry file is a parameter beside that of the
  packs; whether the writer lock could be taken is an input of \<open>open\<close>. An operation with
  \<open>&mut self\<close> returns its result and the registry after it.
\<close>

section \<open>Types\<close>

instantiation source_key :: linorder
begin

definition less_eq_source_key :: "source_key \<Rightarrow> source_key \<Rightarrow> bool" where
  "less_eq_source_key a b \<longleftrightarrow>
     key_source a < key_source b \<or> key_source a = key_source b \<and> key_version a \<le> key_version b"

definition less_source_key :: "source_key \<Rightarrow> source_key \<Rightarrow> bool" where
  "less_source_key a b \<longleftrightarrow>
     key_source a < key_source b \<or> key_source a = key_source b \<and> key_version a < key_version b"

instance
  by standard (auto simp: less_eq_source_key_def less_source_key_def intro: source_key.expand)

end

record stored_source =
  ss_manifest :: source_manifest
  ss_enabled :: bool
  ss_pack :: "string option"

record source_status =
  st_manifest :: source_manifest
  st_installed :: bool
  st_enabled :: bool

definition source_status_of :: "stored_source \<Rightarrow> source_status" where
  "source_status_of s = \<lparr>st_manifest = ss_manifest s, st_installed = (ss_pack s \<noteq> None), st_enabled = ss_enabled s\<rparr>"

record registry_file =
  rf_schema_version :: nat
  rf_sources :: "stored_source list"

record lookup_query =
  lq_lemma :: string
  lq_language :: "string option"
  lq_sources :: "source_key list"

record registry_env =
  ge_codec :: ref_codec
  ge_encode :: "registry_file \<Rightarrow> string + bytes"
  ge_decode :: "bytes \<Rightarrow> string + registry_file"
  ge_pid :: nat

record registry =
  rg_root :: path
  rg_limits :: limits
  rg_sources :: "(source_key, stored_source) ordered_map"
  rg_packs :: "source_key \<rightharpoonup> validated_pack"
  rg_installed_bytes :: nat
  rg_commit_uncertain :: bool

datatype lock_result = Locked | LockWouldBlock | LockError io_kind

section \<open>Directories and the lock file\<close>

definition fs_create_dir :: "path \<Rightarrow> (io_kind, unit) prog" where
  "fs_create_dir p = simple_call (\<lambda>fs. case locate fs p of
     Inl e \<Rightarrow> (Raise e, fs)
   | Inr q \<Rightarrow> (if entries fs q = None then (Done (), fs\<lparr>entries := (entries fs)(q \<mapsto> Folder)\<rparr>)
              else (Raise AlreadyExists, fs)))"

text \<open>\<open>create_dir_all\<close> of the standard library, on the reversed path.\<close>

fun create_dir_all :: "string list \<Rightarrow> (io_kind, unit) prog" where
  "create_dir_all [] = ret ()"
| "create_dir_all (c # cs) =
     (let p = rev (c # cs)
      in bind (attempt (fs_create_dir p)) (\<lambda>r. case r of
           Inr _ \<Rightarrow> ret ()
         | Inl e \<Rightarrow>
             if e \<noteq> NotFound then bind (is_dir p) (\<lambda>d. if d then ret () else raise e)
             else bind (create_dir_all cs) (\<lambda>_.
               bind (attempt (fs_create_dir p)) (\<lambda>r. case r of
                 Inr _ \<Rightarrow> ret ()
               | Inl e \<Rightarrow> bind (is_dir p) (\<lambda>d. if d then ret () else raise e)))))"

text \<open>\<open>read(true).write(true).create(true).truncate(false)\<close>.\<close>

definition fs_open_or_create :: "path \<Rightarrow> (io_kind, nat) prog" where
  "fs_open_or_create p = simple_call (\<lambda>fs. case resolve fs p of
     Inr q \<Rightarrow> (case inode_at fs q of None \<Rightarrow> (Raise IsADirectory, fs) | Some i \<Rightarrow> (Done i, fs))
   | Inl e \<Rightarrow> (case locate fs p of
       Inl e' \<Rightarrow> (Raise e', fs)
     | Inr q \<Rightarrow> if e = NotFound \<and> entries fs q = None then (Done (next_inode fs), new_file q [] fs)
                else (Raise e, fs)))"

section \<open>Opening\<close>

definition source_key_of :: "stored_source \<Rightarrow> source_key" where
  "source_key_of s = manifest_source_key (ss_manifest s)"

fun load_sources :: "registry_env \<Rightarrow> stored_source list \<Rightarrow> registry \<Rightarrow> (registry_error, registry) prog" where
  "load_sources env [] r = ret r"
| "load_sources env (s # ss) r =
     bind (of_sum (validate_manifest (ge_codec env) (ss_manifest s) (rg_limits r))) (\<lambda>_.
     if map_of (rg_sources r) (source_key_of s) \<noteq> None then raise (RefInvalid ''duplicate registry source'')
     else case ss_pack s of
       Some name \<Rightarrow>
         bind (of_sum (validate_pack_name name)) (\<lambda>_.
         let p = rg_root r @ [''packs'', name]
         in bind (regular_file p) (\<lambda>m.
            bind (of_sum (add_checked (rg_installed_bytes r) (meta_len m) ''installed bytes'')) (\<lambda>sum_bytes.
            if sum_bytes > max_installed_bytes (rg_limits r) then raise (RefLimit ''installed bytes'')
            else bind (read_bounded p (max_pack_bytes (rg_limits r))) (\<lambda>b.
              if pack_name (ge_codec env) b \<noteq> name then raise DigestMismatch
              else bind (of_sum (from_json (ge_codec env) b (sm_digest (ss_manifest s)) (rg_limits r))) (\<lambda>pack.
                if vp_manifest pack \<noteq> ss_manifest s then raise RefConflict
                else load_sources env ss (r\<lparr>rg_installed_bytes := sum_bytes,
                  rg_packs := (rg_packs r)(source_key_of s \<mapsto> pack),
                  rg_sources := om_put (source_key_of s) s (rg_sources r)\<rparr>))))))
     | None \<Rightarrow>
         if ss_enabled s then raise (RefInvalid ''uninstalled source cannot be enabled'')
         else load_sources env ss (r\<lparr>rg_sources := om_put (source_key_of s) s (rg_sources r)\<rparr>))"

definition open_root :: "path \<Rightarrow> (registry_error, path) prog" where
  "open_root root =
     bind (path_exists root) (\<lambda>there.
     bind (if there then check_directory root else map_err RefIo (create_dir_all (rev root))) (\<lambda>_.
     map_err RefIo (fs_canonicalize root)))"

definition open_packs :: "path \<Rightarrow> (registry_error, unit) prog" where
  "open_packs dir =
     bind (attempt (fs_symlink_metadata dir)) (\<lambda>m. case m of
       Inr _ \<Rightarrow> check_directory dir
     | Inl e \<Rightarrow> if e = NotFound then map_err RefIo (fs_create_dir dir) else raise (RefIo e))"

definition open_lock :: "path \<Rightarrow> lock_result \<Rightarrow> (registry_error, unit) prog" where
  "open_lock p lock =
     bind (attempt (fs_symlink_metadata p)) (\<lambda>m.
     bind (case m of
         Inr _ \<Rightarrow> bind (regular_file p) (\<lambda>_. ret ())
       | Inl e \<Rightarrow> if e = NotFound then ret () else raise (RefIo e)) (\<lambda>_.
     bind (map_err RefIo (fs_open_or_create p)) (\<lambda>_.
     case lock of Locked \<Rightarrow> ret () | LockWouldBlock \<Rightarrow> raise RefBusy | LockError e \<Rightarrow> raise (RefIo e))))"

definition open_registry_file :: "registry_env \<Rightarrow> registry \<Rightarrow> (registry_error, registry) prog" where
  "open_registry_file env r =
     bind (attempt (read_bounded (rg_root r @ [''registry.json'']) (max_registry_bytes (rg_limits r)))) (\<lambda>m. case m of
       Inl e \<Rightarrow> if e = RefIo NotFound then ret r else raise e
     | Inr b \<Rightarrow> (case ge_decode env b of
         Inl e \<Rightarrow> raise (RefJson e)
       | Inr saved \<Rightarrow>
           if rf_schema_version saved \<noteq> SCHEMA_VERSION then raise (RefInvalid ''unsupported registry schema'')
           else if length (rf_sources saved) > max_sources (rg_limits r) then raise (RefLimit ''sources'')
           else load_sources env (rf_sources saved) r))"

definition empty_registry :: "path \<Rightarrow> limits \<Rightarrow> registry" where
  "empty_registry root lim = \<lparr>rg_root = root, rg_limits = lim, rg_sources = [], rg_packs = Map.empty,
     rg_installed_bytes = 0, rg_commit_uncertain = False\<rparr>"

definition open_with_limits ::
  "registry_env \<Rightarrow> lock_result \<Rightarrow> path \<Rightarrow> limits \<Rightarrow> (registry_error, registry) prog" where
  "open_with_limits env lock root lim =
     bind (open_root root) (\<lambda>root.
     bind (open_packs (root @ [''packs''])) (\<lambda>_.
     bind (open_lock (root @ [''writer.lock'']) lock) (\<lambda>_.
     open_registry_file env (empty_registry root lim))))"

section \<open>Publishing\<close>

definition require_writable :: "registry \<Rightarrow> registry_error + unit" where
  "require_writable r =
     ensure_that (\<not> rg_commit_uncertain r) (RefInvalid ''close and reopen after an uncertain commit'')"

definition registry_bytes ::
  "registry_env \<Rightarrow> registry \<Rightarrow> (source_key, stored_source) ordered_map \<Rightarrow> registry_error + bytes" where
  "registry_bytes env r sources =
     (if length sources > max_sources (rg_limits r) then Inl (RefLimit ''sources'')
      else case ge_encode env \<lparr>rf_schema_version = SCHEMA_VERSION, rf_sources = map snd sources\<rparr> of
          Inl e \<Rightarrow> Inl (RefJson e)
        | Inr b \<Rightarrow> if length b > max_registry_bytes (rg_limits r) then Inl (RefLimit ''registry bytes'')
                   else Inr b)"

type_synonym 'a registry_run = "(registry_error, (registry_error + 'a) \<times> registry) prog"

definition publish :: "registry_env \<Rightarrow> (nat \<Rightarrow> nat) \<Rightarrow> bytes \<Rightarrow> registry \<Rightarrow> unit registry_run" where
  "publish env seq b r =
     bind (attempt (atomic_replace (ge_pid env) seq (rg_root r) ''registry.json'' b)) (\<lambda>res.
       ret (res, case res of
           Inl (CommitUncertain _) \<Rightarrow> r\<lparr>rg_commit_uncertain := True\<rparr>
         | _ \<Rightarrow> r))"

definition registry_persist :: "registry_env \<Rightarrow> (nat \<Rightarrow> nat) \<Rightarrow> (source_key, stored_source) ordered_map \<Rightarrow>
    registry \<Rightarrow> unit registry_run" where
  "registry_persist env seq sources r =
     (case registry_bytes env r sources of
        Inl e \<Rightarrow> ret (Inl e, r)
      | Inr b \<Rightarrow> publish env seq b r)"

section \<open>Operations\<close>

definition list_sources :: "registry \<Rightarrow> source_status list" where
  "list_sources r = map (source_status_of \<circ> snd) (rg_sources r)"

definition advertise ::
  "registry_env \<Rightarrow> (nat \<Rightarrow> nat) \<Rightarrow> source_manifest \<Rightarrow> registry \<Rightarrow> source_status registry_run" where
  "advertise env seq m r =
     (case and_then (require_writable r) (\<lambda>_. validate_manifest (ge_codec env) m (rg_limits r)) of
        Inl e \<Rightarrow> ret (Inl e, r)
      | Inr _ \<Rightarrow> (case map_of (rg_sources r) (manifest_source_key m) of
          Some existing \<Rightarrow>
            ret (if ss_manifest existing = m then Inr (source_status_of existing) else Inl RefConflict, r)
        | None \<Rightarrow>
            let source = \<lparr>ss_manifest = m, ss_enabled = False, ss_pack = None\<rparr>;
                sources = om_put (manifest_source_key m) source (rg_sources r)
            in bind (registry_persist env seq sources r) (\<lambda>(res, r). case res of
                 Inl e \<Rightarrow> ret (Inl e, r)
               | Inr _ \<Rightarrow> ret (Inr (source_status_of source), r\<lparr>rg_sources := sources\<rparr>))))"

text \<open>What is installed under a key that is known already: its status, a conflict, or nothing yet.\<close>

definition import_known ::
  "stored_source option \<Rightarrow> source_manifest \<Rightarrow> (registry_error + source_status) option" where
  "import_known known m = (case known of
     None \<Rightarrow> None
   | Some existing \<Rightarrow>
       if ss_pack existing \<noteq> None
       then Some (if ss_manifest existing = m then Inr (source_status_of existing) else Inl RefConflict)
       else let advertised = (if sm_digest (ss_manifest existing) = None
                then (ss_manifest existing)\<lparr>sm_digest := sm_digest m\<rparr> else ss_manifest existing)
            in if advertised \<noteq> m then Some (Inl RefConflict) else None)"

definition install :: "registry_env \<Rightarrow> (nat \<Rightarrow> nat) \<Rightarrow> (nat \<Rightarrow> nat) \<Rightarrow> bytes \<Rightarrow> validated_pack \<Rightarrow> nat \<Rightarrow> registry \<Rightarrow>
    source_status registry_run" where
  "install env seq seq' b pack sum_bytes r =
     (let key = manifest_source_key (vp_manifest pack);
          name = pack_name (ge_codec env) b;
          source = \<lparr>ss_manifest = vp_manifest pack, ss_enabled = False, ss_pack = Some name\<rparr>;
          sources = om_put key source (rg_sources r)
      in case registry_bytes env r sources of
           Inl e \<Rightarrow> ret (Inl e, r)
         | Inr rb \<Rightarrow>
             bind (attempt (store_immutable (ge_pid env) seq (rg_root r @ [''packs'']) name b
                 (max_pack_bytes (rg_limits r)))) (\<lambda>res. case res of
               Inl e \<Rightarrow> ret (Inl e, r)
             | Inr _ \<Rightarrow>
                 bind (publish env seq' rb r) (\<lambda>(res, r). case res of
                   Inl e \<Rightarrow> ret (Inl e, r)
                 | Inr _ \<Rightarrow> ret (Inr (source_status_of source), r\<lparr>rg_sources := sources,
                     rg_packs := (rg_packs r)(key \<mapsto> pack), rg_installed_bytes := sum_bytes\<rparr>))))"

definition import_json :: "registry_env \<Rightarrow> (nat \<Rightarrow> nat) \<Rightarrow> (nat \<Rightarrow> nat) \<Rightarrow> bytes \<Rightarrow> string option \<Rightarrow> registry \<Rightarrow>
    source_status registry_run" where
  "import_json env seq seq' b expected r =
     (case and_then (require_writable r) (\<lambda>_. from_json (ge_codec env) b expected (rg_limits r)) of
        Inl e \<Rightarrow> ret (Inl e, r)
      | Inr pack \<Rightarrow> (case import_known (map_of (rg_sources r) (manifest_source_key (vp_manifest pack))) (vp_manifest pack) of
          Some answer \<Rightarrow> ret (answer, r)
        | None \<Rightarrow> (case add_checked (rg_installed_bytes r) (length b) ''installed bytes'' of
            Inl e \<Rightarrow> ret (Inl e, r)
          | Inr sum_bytes \<Rightarrow>
              if sum_bytes > max_installed_bytes (rg_limits r) then ret (Inl (RefLimit ''installed bytes''), r)
              else install env seq seq' b pack sum_bytes r)))"

definition set_enabled ::
  "registry_env \<Rightarrow> (nat \<Rightarrow> nat) \<Rightarrow> string \<Rightarrow> string \<Rightarrow> bool \<Rightarrow> registry \<Rightarrow> unit registry_run" where
  "set_enabled env seq i version enabled r =
     (case and_then (require_writable r) (\<lambda>_. and_then (check_identifier i) (\<lambda>_. version_identifier version)) of
        Inl e \<Rightarrow> ret (Inl e, r)
      | Inr _ \<Rightarrow> (case map_of (rg_sources r) (SourceKey i version) of
          None \<Rightarrow> ret (Inl NotInstalled, r)
        | Some source \<Rightarrow>
            if ss_pack source = None then ret (Inl NotInstalled, r)
            else let sources = om_put (SourceKey i version) (source\<lparr>ss_enabled := enabled\<rparr>) (rg_sources r)
              in bind (registry_persist env seq sources r) (\<lambda>(res, r). case res of
                   Inl e \<Rightarrow> ret (Inl e, r)
                 | Inr _ \<Rightarrow> ret (Inr (), r\<lparr>rg_sources := sources\<rparr>))))"

definition is_enabled :: "registry \<Rightarrow> source_key \<Rightarrow> bool" where
  "is_enabled r key = (case map_of (rg_sources r) key of Some s \<Rightarrow> ss_enabled s | None \<Rightarrow> False)"

fun lookup_sources :: "registry \<Rightarrow> lookup_query \<Rightarrow> nat \<Rightarrow> source_key set \<Rightarrow> lexical_entry list \<Rightarrow> source_key list \<Rightarrow>
    registry_error + lexical_entry list" where
  "lookup_sources r q limit seen found [] = Inr found"
| "lookup_sources r q limit seen found (key # keys) =
     and_then (check_identifier (key_source key)) (\<lambda>_.
     and_then (version_identifier (key_version key)) (\<lambda>_.
     and_then (ensure_that (key \<notin> seen) (RefInvalid ''duplicate query source'')) (\<lambda>_.
     if \<not> is_enabled r key then lookup_sources r q limit (insert key seen) found keys
     else case rg_packs r key of
         None \<Rightarrow> lookup_sources r q limit (insert key seen) found keys
       | Some pack \<Rightarrow> lookup_sources r q limit (insert key seen)
           (found @ pack_lookup pack (lq_lemma q) (lq_language q) (limit - length found)) keys)))"

definition registry_lookup :: "registry \<Rightarrow> lookup_query \<Rightarrow> nat \<Rightarrow> registry_error + lexical_entry list" where
  "registry_lookup r q limit =
     and_then (check_text (lq_lemma q) (max_lemma_bytes (rg_limits r)) False) (\<lambda>_.
     and_then (if_some check_language (lq_language q)) (\<lambda>_.
     and_then (ensure_that (\<not> limit > max_lookup_results (rg_limits r)) (RefLimit ''lookup results'')) (\<lambda>_.
     and_then (ensure_that (\<not> length (lq_sources q) > max_query_sources (rg_limits r)) (RefLimit ''query sources'')) (\<lambda>_.
     lookup_sources r q limit {} [] (lq_sources q)))))"

definition registry_entry :: "registry \<Rightarrow> reference_id \<Rightarrow> registry_error + lexical_entry option" where
  "registry_entry r i =
     and_then (validate_reference i) (\<lambda>_.
     if \<not> is_enabled r (rid_source_key i) then Inr None
     else Inr (case rg_packs r (rid_source_key i) of None \<Rightarrow> None | Some pack \<Rightarrow> pack_entry pack i))"

section \<open>What memory and disk hold\<close>

definition source_ok :: "registry_env \<Rightarrow> limits \<Rightarrow> (source_key \<rightharpoonup> validated_pack) \<Rightarrow> source_key \<Rightarrow> stored_source \<Rightarrow> bool" where
  "source_ok env lim packs key s \<longleftrightarrow> key = source_key_of s \<and> manifest_ok (ge_codec env) lim (ss_manifest s) \<and>
     (if ss_pack s = None then \<not> ss_enabled s \<and> packs key = None
      else \<exists>p. packs key = Some p \<and> vp_manifest p = ss_manifest s \<and> validated (ge_codec env) lim p)"

definition table_ok :: "registry_env \<Rightarrow> limits \<Rightarrow> (source_key, stored_source) ordered_map \<Rightarrow>
    (source_key \<rightharpoonup> validated_pack) \<Rightarrow> nat \<Rightarrow> bool" where
  "table_ok env lim sources packs installed \<longleftrightarrow> om_ok sources \<and> length sources \<le> max_sources lim \<and>
     (\<forall>key s. map_of sources key = Some s \<longrightarrow> source_ok env lim packs key s) \<and>
     (\<forall>key. map_of sources key = None \<longrightarrow> packs key = None) \<and> installed \<le> max_installed_bytes lim"

definition pack_path :: "path \<Rightarrow> string \<Rightarrow> path" where
  "pack_path root name = root @ [''packs'', name]"

definition stored_pack :: "registry_env \<Rightarrow> limits \<Rightarrow> path \<Rightarrow> (source_key \<rightharpoonup> validated_pack) \<Rightarrow> fs \<Rightarrow> stored_source \<Rightarrow> bool" where
  "stored_pack env lim root packs fs s \<longleftrightarrow> (\<forall>name. ss_pack s = Some name \<longrightarrow>
     (validate_pack_name name :: registry_error + unit) = Inr () \<and>
     (\<exists>i. entries fs (pack_path root name) = Some (Name i)) \<and>
     (\<exists>b p. bytes_at fs (pack_path root name) = Some b \<and> length b \<le> max_pack_bytes lim \<and>
        pack_name (ge_codec env) b = name \<and> packs (source_key_of s) = Some p \<and>
        (from_json (ge_codec env) b (sm_digest (ss_manifest s)) lim :: registry_error + validated_pack) = Inr p))"

definition pack_size :: "path \<Rightarrow> fs \<Rightarrow> stored_source \<Rightarrow> nat" where
  "pack_size root fs s = (case ss_pack s of None \<Rightarrow> 0
     | Some name \<Rightarrow> (case bytes_at fs (pack_path root name) of None \<Rightarrow> 0 | Some b \<Rightarrow> length b))"

text \<open>What the disk holds beside the registry file.\<close>

definition shelf :: "registry_env \<Rightarrow> limits \<Rightarrow> path \<Rightarrow> (source_key, stored_source) ordered_map \<Rightarrow>
    (source_key \<rightharpoonup> validated_pack) \<Rightarrow> nat \<Rightarrow> fs \<Rightarrow> bool" where
  "shelf env lim root sources packs installed fs \<longleftrightarrow>
     real_directory (entries fs) (root @ [''packs'']) \<and>
     (\<exists>i. entries fs (root @ [''writer.lock'']) = Some (Name i)) \<and>
     (\<forall>s \<in> snd ` set sources. stored_pack env lim root packs fs s) \<and>
     installed = sum_list (map (\<lambda>(key, s). pack_size root fs s) sources)"

definition registry_json :: "path \<Rightarrow> path" where "registry_json root = root @ [''registry.json'']"

text \<open>The registry file lists the sources, in any order.\<close>

definition written :: "registry_env \<Rightarrow> limits \<Rightarrow> path \<Rightarrow> (source_key, stored_source) ordered_map \<Rightarrow> fs \<Rightarrow> bool" where
  "written env lim root sources fs \<longleftrightarrow>
     sources = [] \<and> entries fs (registry_json root) = None \<or>
     (\<exists>i b kvs. entries fs (registry_json root) = Some (Name i) \<and> bytes_at fs (registry_json root) = Some b \<and>
        length b \<le> max_registry_bytes lim \<and> mset kvs = mset sources \<and>
        ge_decode env b = Inr \<lparr>rf_schema_version = SCHEMA_VERSION, rf_sources = map snd kvs\<rparr>)"

definition on_disk :: "registry_env \<Rightarrow> limits \<Rightarrow> path \<Rightarrow> (source_key, stored_source) ordered_map \<Rightarrow>
    (source_key \<rightharpoonup> validated_pack) \<Rightarrow> nat \<Rightarrow> fs \<Rightarrow> bool" where
  "on_disk env lim root sources packs installed fs \<longleftrightarrow> calm fs \<and> wf_fs fs \<and>
     table_ok env lim sources packs installed \<and> shelf env lim root sources packs installed fs \<and>
     written env lim root sources fs"

definition recoverable :: "registry_env \<Rightarrow> limits \<Rightarrow> path \<Rightarrow> fs \<Rightarrow> bool" where
  "recoverable env lim root fs \<longleftrightarrow> (\<exists>sources packs installed. on_disk env lim root sources packs installed fs)"

definition registry_on_disk :: "registry_env \<Rightarrow> registry \<Rightarrow> fs \<Rightarrow> bool" where
  "registry_on_disk env r = on_disk env (rg_limits r) (rg_root r) (rg_sources r) (rg_packs r) (rg_installed_bytes r)"

definition registry_ok :: "registry_env \<Rightarrow> registry \<Rightarrow> fs \<Rightarrow> bool" where
  "registry_ok env r fs \<longleftrightarrow>
     table_ok env (rg_limits r) (rg_sources r) (rg_packs r) (rg_installed_bytes r) \<and>
     (if rg_commit_uncertain r then recoverable env (rg_limits r) (rg_root r) fs else registry_on_disk env r fs)"

text \<open>The documented behaviour of the codec, and sizes that a \<open>usize\<close> can hold.\<close>

definition registry_env_ok :: "registry_env \<Rightarrow> bool" where
  "registry_env_ok env \<longleftrightarrow> (\<forall>f b. ge_encode env f = Inr b \<longrightarrow> ge_decode env b = Inr f)"

definition limits_ok :: "limits \<Rightarrow> bool" where
  "limits_ok lim \<longleftrightarrow> max_pack_bytes lim \<le> USIZE_MAX \<and> max_installed_bytes lim \<le> USIZE_MAX \<and>
     max_registry_bytes lim \<le> USIZE_MAX \<and> max_senses lim \<le> USIZE_MAX \<and> max_relations lim \<le> USIZE_MAX"

section \<open>What the operations may touch\<close>

definition dotted :: "path \<Rightarrow> path \<Rightarrow> bool" where
  "dotted root q \<longleftrightarrow> (\<exists>c. (q = root @ [c] \<or> q = root @ [''packs'', c]) \<and> c \<noteq> [] \<and> hd c = CHR ''.'')"

lemma pending_dotted: "is_pending pid root q \<Longrightarrow> dotted root q"
  "is_pending pid (root @ [''packs'']) q \<Longrightarrow> dotted root q"
  by (auto simp: is_pending_def dotted_def pending_name_def)

lemma pack_name_valid:
  assumes "(validate_pack_name name :: registry_error + unit) = Inr ()"
  shows "name \<noteq> []" and "hd name \<noteq> CHR ''.''" and "plain name"
proof -
  from assms have d: "digest_ok (take (length name - 5) name)"
    by (auto simp: validate_pack_name_def validate_digest_Inr split: if_splits)
  then obtain c cs where n: "name = c # cs" and "lower_hex c"
    by (cases name) (auto simp: digest_ok_def take_Cons split: nat.splits)
  then show "name \<noteq> []" "hd name \<noteq> CHR ''.''" "plain name"
    by (auto simp: lower_hex_def is_ascii_digit_def byte_def plain_def)
qed

lemma shelf_kept:
  assumes s: "shelf env lim root sources packs installed fs" and o: "only_changed P fs fs'"
    and P: "\<And>q. P q \<Longrightarrow> q = registry_json root \<or> dotted root q \<or> (entries fs q = None \<and> (\<exists>c. q = pack_path root c))"
  shows "shelf env lim root sources packs installed fs'"
proof -
  have same: "entries fs' q = entries fs q \<and> bytes_at fs' q = bytes_at fs q" if "\<not> P q" for q
    using o that by (simp add: only_changed_def)
  have short: "\<not> P q" if "length q \<le> length root" for q
    using P [of q] that by (auto simp: registry_json_def dotted_def pack_path_def)
  have packs: "\<not> P (root @ [''packs''])" "\<not> P (root @ [''writer.lock''])"
    using P [of "root @ [''packs'']"] P [of "root @ [''writer.lock'']"]
    by (auto simp: registry_json_def dotted_def pack_path_def)
  have dir: "real_directory (entries fs') (root @ [''packs''])"
  proof -
    from s have "real_directory (entries fs) root" "plain ''packs''" "entries fs (root @ [''packs'']) = Some Folder"
      by (auto simp: shelf_def real_directory_snoc)
    moreover from this(1) have "real_directory (entries fs') root"
      using same short by (simp add: real_directory_def)
    ultimately show ?thesis using same [OF packs(1)] by (simp add: real_directory_snoc)
  qed
  have named: "\<not> P (pack_path root name)"
    if "(validate_pack_name name :: registry_error + unit) = Inr ()" "entries fs (pack_path root name) = Some (Name i)" for name i
    using P [of "pack_path root name"] that(2) pack_name_valid [OF that(1)]
    by (auto simp: registry_json_def dotted_def pack_path_def)
  have pack: "stored_pack env lim root packs fs' s \<and> pack_size root fs' s = pack_size root fs s"
    if "stored_pack env lim root packs fs s" for s
    using that same [OF named] by (auto simp: stored_pack_def pack_size_def split: option.split)
  have size: "map (\<lambda>(key, s). pack_size root fs' s) sources = map (\<lambda>(key, s). pack_size root fs s) sources"
    using s pack by (force simp: shelf_def intro!: map_cong)
  show ?thesis using s dir pack same [OF packs(2)] by (simp add: shelf_def size)
qed

lemma written_kept:
  assumes "written env lim root sources fs" and "only_changed P fs fs'"
    and "\<And>q. P q \<Longrightarrow> dotted root q \<or> (\<exists>c. q = pack_path root c)"
  shows "written env lim root sources fs'"
proof -
  have "\<not> P (registry_json root)"
    using assms(3) [of "registry_json root"] by (auto simp: registry_json_def dotted_def pack_path_def)
  with assms(2) have "entries fs' (registry_json root) = entries fs (registry_json root)"
    "bytes_at fs' (registry_json root) = bytes_at fs (registry_json root)"
    by (simp_all add: only_changed_def)
  with assms(1) show ?thesis by (simp add: written_def)
qed

section \<open>Publishing keeps the disk explained\<close>

lemma registry_bytes_Inr:
  "registry_bytes env r sources = Inr b \<longleftrightarrow> length sources \<le> max_sources (rg_limits r) \<and>
     length b \<le> max_registry_bytes (rg_limits r) \<and>
     ge_encode env \<lparr>rf_schema_version = SCHEMA_VERSION, rf_sources = map snd sources\<rparr> = Inr b"
  by (auto simp: registry_bytes_def split: sum.split)

lemma shelf_dirs:
  assumes "shelf env lim root sources packs installed fs"
  shows "real_directory (entries fs) root" and "real_directory (entries fs) (root @ [''packs''])"
  using assms by (auto simp: shelf_def real_directory_snoc)

lemma on_disk_unchanged:
  assumes "on_disk env lim root sources packs installed fs" and "wf_fs fs'"
    and "unchanged_in pid dir fs fs'" and "dir = root \<or> dir = root @ [''packs'']"
  shows "on_disk env lim root sources packs installed fs'"
proof -
  have P: "dotted root q" if "is_pending pid dir q" for q
    using that assms(4) pending_dotted by auto
  from assms(3) have o: "only_changed (is_pending pid dir) fs fs'" "calm fs'" by (auto simp: unchanged_in_def)
  from assms(1) have s: "shelf env lim root sources packs installed fs" and w: "written env lim root sources fs"
    and "table_ok env lim sources packs installed" by (auto simp: on_disk_def)
  with shelf_kept [OF s o(1)] written_kept [OF w o(1)] P o(2) assms(2) show ?thesis by (auto simp: on_disk_def)
qed

lemma on_disk_replaced:
  assumes env: "registry_env_ok env" and table: "table_ok env lim sources packs installed"
    and s: "shelf env lim root sources packs installed fs" and "wf_fs fs'"
    and rep: "replaced_in pid root (registry_json root) b fs fs'"
    and b: "ge_encode env \<lparr>rf_schema_version = SCHEMA_VERSION, rf_sources = map snd sources\<rparr> = Inr b"
      "length b \<le> max_registry_bytes lim"
  shows "on_disk env lim root sources packs installed fs'"
proof -
  from rep have o: "only_changed (\<lambda>q. q = registry_json root \<or> is_pending pid root q) fs fs'" and "calm fs'"
    and f: "bytes_at fs' (registry_json root) = Some b" "\<exists>i. entries fs' (registry_json root) = Some (Name i)"
    by (auto simp: replaced_in_def)
  have "shelf env lim root sources packs installed fs'"
    by (rule shelf_kept [OF s o]) (use pending_dotted(1) in auto)
  moreover have "written env lim root sources fs'"
    using f b env by (auto simp: written_def registry_env_ok_def)
  ultimately show ?thesis using table assms(4) \<open>calm fs'\<close> by (simp add: on_disk_def)
qed

text \<open>What publishing a table does, from a disk that holds the old one.\<close>

definition publishes :: "(fs \<Rightarrow> bool) \<Rightarrow> (fs \<Rightarrow> bool) \<Rightarrow> registry \<Rightarrow>
    (registry_error, (registry_error + 'a) \<times> registry) outcome \<Rightarrow> registry \<Rightarrow> fs \<Rightarrow> bool" where
  "publishes old new r out r'' fs' \<longleftrightarrow> (case out of
     Done (Inr _, r') \<Rightarrow> r' = r'' \<and> new fs'
   | Done (Inl e, r') \<Rightarrow> if \<exists>k. e = CommitUncertain k then r' = r\<lparr>rg_commit_uncertain := True\<rparr> \<and> new fs'
                         else r' = r \<and> old fs'
   | Raise e \<Rightarrow> False
   | Halt h \<Rightarrow> old fs' \<or> new fs')"

lemma wp_publish:
  assumes env: "registry_env_ok env" and old: "on_disk env (rg_limits r) (rg_root r) sources packs installed fs"
    and s: "shelf env (rg_limits r) (rg_root r) sources' packs' installed' fs"
    and table: "table_ok env (rg_limits r) sources' packs' installed'"
    and b: "registry_bytes env r sources' = Inr b"
  shows "wp (publish env seq b r) (\<lambda>out. publishes (on_disk env (rg_limits r) (rg_root r) sources packs installed)
    (on_disk env (rg_limits r) (rg_root r) sources' packs' installed') r out r) fs"
proof -
  let ?root = "rg_root r" and ?lim = "rg_limits r"
  from old have fs: "wf_fs fs" "calm fs" by (auto simp: on_disk_def)
  have dir: "real_directory (entries fs) ?root" using s by (rule shelf_dirs)
  obtain x fs1 where run: "atomic_replace (ge_pid env) seq ?root ''registry.json'' b fs = (x, fs1)" by force
  have wf: "wf_fs fs1" by (rule keeps_wfD [OF keeps_wf_store(3) fs(1) run])
  have pub: "published_in (ge_pid env) ?root (registry_json ?root) b fs x fs1"
    using wp_atomic_replace [OF fs dir, of "''registry.json''" "ge_pid env" seq b] run
    by (simp add: wp_def plain_def registry_json_def)
  have new: "on_disk env ?lim ?root sources' packs' installed' fs1"
    if "replaced_in (ge_pid env) ?root (registry_json ?root) b fs fs1"
    using on_disk_replaced [OF env table s wf that] b by (simp add: registry_bytes_Inr)
  have kept: "on_disk env ?lim ?root sources packs installed fs1" if "unchanged_in (ge_pid env) ?root fs fs1"
    using on_disk_unchanged [OF old wf that] by simp
  have out: "publish env seq b r fs = (case x of Done u \<Rightarrow> (Done (Inr u, r), fs1)
     | Raise e \<Rightarrow> (Done (Inl e, if \<exists>k. e = CommitUncertain k then r\<lparr>rg_commit_uncertain := True\<rparr> else r), fs1)
     | Halt h \<Rightarrow> (Halt h, fs1))"
    using run by (cases x) (auto simp: publish_def bind_def attempt_def ret_def split: reference_error.split)
  show ?thesis
    unfolding wp_def out using pub new kept
    by (cases x) (auto simp: publishes_def published_in_def split: reference_error.splits)
qed

section \<open>Tables with one more source\<close>

lemma table_put:
  assumes "table_ok env lim sources packs installed" and "source_ok env lim packs' key s"
    and "\<And>j. j \<noteq> key \<Longrightarrow> packs' j = packs j" and "length (om_put key s sources) \<le> max_sources lim"
    and "installed' \<le> max_installed_bytes lim"
  shows "table_ok env lim (om_put key s sources) packs' installed'"
  using assms by (auto simp: table_ok_def om_ok_put map_of_om_put source_ok_def)

lemma table_put_same:
  assumes "table_ok env lim sources packs installed" and "source_ok env lim packs key s"
    and "length (om_put key s sources) \<le> max_sources lim"
  shows "table_ok env lim (om_put key s sources) packs installed"
  using assms by (intro table_put [OF assms(1)]) (auto simp: table_ok_def)

lemma shelf_put:
  assumes table: "table_ok env lim sources packs installed" and shelf: "shelf env lim root sources packs installed fs"
    and new: "stored_pack env lim root packs' fs s"
    and packs: "\<And>j. j \<noteq> key \<Longrightarrow> packs' j = packs j"
    and size: "installed' + (case map_of sources key of None \<Rightarrow> 0 | Some w \<Rightarrow> pack_size root fs w)
      = installed + pack_size root fs s"
  shows "shelf env lim root (om_put key s sources) packs' installed' fs"
proof -
  let ?size = "\<lambda>(key, s). pack_size root fs s"
  have ok: "om_ok sources" using table by (simp add: table_ok_def)
  have items: "(j, w) \<in> set (om_put key s sources) \<longleftrightarrow> (if j = key then w = s else (j, w) \<in> set sources)" for j w
    using om.in_items [OF om_ok_put [OF ok], of j w key s] om.in_items [OF ok, of j w]
    by (auto simp: map_of_om_put)
  have "stored_pack env lim root packs' fs w" if w: "(j, w) \<in> set sources" "j \<noteq> key" for j w
  proof -
    from w(1) have "map_of sources j = Some w" using om.in_items [OF ok] by simp
    with table have "source_key_of w = j" by (auto simp: table_ok_def source_ok_def)
    with packs w(2) have "packs' (source_key_of w) = packs (source_key_of w)" by simp
    moreover from shelf w(1) have "stored_pack env lim root packs fs w" by (force simp: shelf_def)
    ultimately show ?thesis by (simp add: stored_pack_def)
  qed
  then have stored: "\<forall>w \<in> snd ` set (om_put key s sources). stored_pack env lim root packs' fs w"
    using items new by (metis (no_types, lifting) imageE prod.collapse)
  have "sum_list (map ?size (om_put key s sources)) = installed'"
  proof (cases "map_of sources key")
    case None
    from sum_om_put_new [OF this, of ?size s] size None shelf show ?thesis by (simp add: shelf_def)
  next
    case (Some w)
    from sum_om_put_known [OF ok this, of ?size s] size Some shelf show ?thesis by (simp add: shelf_def)
  qed
  with stored shelf show ?thesis by (simp add: shelf_def)
qed

section \<open>Every operation keeps the registry explained\<close>

definition run_ok :: "registry_env \<Rightarrow> registry \<Rightarrow> (registry_error, (registry_error + 'a) \<times> registry) outcome \<Rightarrow> fs \<Rightarrow> bool" where
  "run_ok env r out fs' \<longleftrightarrow> (case out of
     Done (res, r') \<Rightarrow> registry_ok env r' fs' \<and> rg_root r' = rg_root r \<and> rg_limits r' = rg_limits r \<and>
       (isl res \<longrightarrow> r' = r \<or> r' = r\<lparr>rg_commit_uncertain := True\<rparr>)
   | Raise e \<Rightarrow> False
   | Halt h \<Rightarrow> recoverable env (rg_limits r) (rg_root r) fs')"

lemma publishes_run_ok:
  assumes pub: "publishes (on_disk env (rg_limits r) (rg_root r) (rg_sources r) (rg_packs r) (rg_installed_bytes r))
      (on_disk env (rg_limits r) (rg_root r) sources packs installed) r out r fs'"
    and r: "\<not> rg_commit_uncertain r" "table_ok env (rg_limits r) (rg_sources r) (rg_packs r) (rg_installed_bytes r)"
    and f: "f (Inr (), r) = (Inr a, r\<lparr>rg_sources := sources, rg_packs := packs, rg_installed_bytes := installed\<rparr>)"
      "\<And>e r'. f (Inl e, r') = (Inl e, r')"
  shows "run_ok env r (map_done f out) fs'"
proof (cases out)
  case (Done res)
  obtain x r' where res: "res = (x, r')" by force
  show ?thesis
  proof (cases x)
    case (Inl e)
    show ?thesis
    proof (cases "\<exists>k. e = CommitUncertain k")
      case True
      then show ?thesis using pub r Done res Inl
        by (auto simp: publishes_def run_ok_def registry_ok_def recoverable_def f(2))
    next
      case False
      then show ?thesis using pub r Done res Inl
        by (auto simp: publishes_def run_ok_def registry_ok_def registry_on_disk_def f(2))
    qed
  next
    case (Inr u)
    then show ?thesis using pub r Done res
      by (auto simp: publishes_def run_ok_def registry_ok_def registry_on_disk_def f(1) on_disk_def)
  qed
qed (use pub in \<open>auto simp: publishes_def run_ok_def recoverable_def\<close>)

lemma wp_bind_pure: "wp (bind m (\<lambda>x. ret (f x))) Q fs = wp m (\<lambda>out. Q (map_done f out)) fs"
  by (auto simp: wp_def bind_def ret_def split: prod.splits outcome.splits)

text \<open>What is done with the result of publishing: on success the memory follows the disk.\<close>

definition commit :: "'a \<Rightarrow> (registry \<Rightarrow> registry) \<Rightarrow>
    (registry_error + unit) \<times> registry \<Rightarrow> (registry_error + 'a) \<times> registry" where
  "commit a g = (\<lambda>(res, r). case res of Inl e \<Rightarrow> (Inl e, r) | Inr _ \<Rightarrow> (Inr a, g r))"

lemma ret_commit:
  "(\<lambda>(res, r). case res of Inl e \<Rightarrow> ret (Inl e, r) | Inr _ \<Rightarrow> ret (Inr a, g r)) = (\<lambda>x. ret (commit a g x))"
  by (auto simp: commit_def fun_eq_iff split: sum.split)

lemma wp_publish_commit:
  assumes env: "registry_env_ok env" and r: "registry_ok env r fs" "\<not> rg_commit_uncertain r"
    and s: "shelf env (rg_limits r) (rg_root r) sources packs installed fs"
    and table: "table_ok env (rg_limits r) sources packs installed"
    and b: "registry_bytes env r sources = Inr b"
    and g: "g r = r\<lparr>rg_sources := sources, rg_packs := packs, rg_installed_bytes := installed\<rparr>"
  shows "wp (bind (publish env seq b r) (\<lambda>x. ret (commit a g x))) (run_ok env r) fs"
proof -
  from r have old: "on_disk env (rg_limits r) (rg_root r) (rg_sources r) (rg_packs r) (rg_installed_bytes r) fs"
    and t: "table_ok env (rg_limits r) (rg_sources r) (rg_packs r) (rg_installed_bytes r)"
    by (simp_all add: registry_ok_def registry_on_disk_def)
  show ?thesis
    unfolding wp_bind_pure
    by (rule wp_mono [OF wp_publish [OF env old s table b]], rule publishes_run_ok [OF _ r(2) t])
      (auto simp: commit_def g)
qed

lemma wp_persist_commit:
  assumes env: "registry_env_ok env" and r: "registry_ok env r fs" "\<not> rg_commit_uncertain r"
    and s: "shelf env (rg_limits r) (rg_root r) sources (rg_packs r) (rg_installed_bytes r) fs"
    and table: "length sources \<le> max_sources (rg_limits r) \<Longrightarrow>
      table_ok env (rg_limits r) sources (rg_packs r) (rg_installed_bytes r)"
    and g: "g r = r\<lparr>rg_sources := sources\<rparr>"
  shows "wp (bind (registry_persist env seq sources r)
      (\<lambda>x. ret (commit a g x))) (run_ok env r) fs"
proof (cases "registry_bytes env r sources")
  case (Inl e)
  then show ?thesis using r by (simp add: registry_persist_def bind_ret wp_ret run_ok_def commit_def)
next
  case (Inr b)
  then have "length sources \<le> max_sources (rg_limits r)" by (simp add: registry_bytes_Inr)
  from wp_publish_commit [OF env r s table [OF this] Inr, of g] g show ?thesis by (simp add: registry_persist_def Inr)
qed

lemma refused: "registry_ok env r fs \<Longrightarrow> wp (ret (Inl e, r)) (run_ok env r) fs"
  by (simp add: wp_ret run_ok_def)

lemma answered: "registry_ok env r fs \<Longrightarrow> wp (ret (x, r)) (run_ok env r) fs"
  by (simp add: wp_ret run_ok_def)

lemma wp_advertise:
  assumes env: "registry_env_ok env" and r: "registry_ok env r fs"
  shows "wp (advertise env seq m r) (run_ok env r) fs"
proof (cases "and_then (require_writable r) (\<lambda>_. validate_manifest (ge_codec env) m (rg_limits r))")
  case (Inl e)
  then show ?thesis using r by (simp add: advertise_def refused)
next
  case (Inr u)
  then have w: "\<not> rg_commit_uncertain r" and m: "manifest_ok (ge_codec env) (rg_limits r) m"
    by (auto simp: ok_iff require_writable_def)
  show ?thesis
  proof (cases "map_of (rg_sources r) (manifest_source_key m)")
    case (Some known)
    with Inr r show ?thesis by (simp add: advertise_def answered)
  next
    case None
    let ?s = "\<lparr>ss_manifest = m, ss_enabled = False, ss_pack = None\<rparr>"
    let ?sources = "om_put (manifest_source_key m) ?s (rg_sources r)"
    from r have t: "table_ok env (rg_limits r) (rg_sources r) (rg_packs r) (rg_installed_bytes r)"
      and d: "shelf env (rg_limits r) (rg_root r) (rg_sources r) (rg_packs r) (rg_installed_bytes r) fs"
      using w by (auto simp: registry_ok_def registry_on_disk_def on_disk_def)
    have "rg_packs r (manifest_source_key m) = None" using t None by (simp add: table_ok_def)
    then have ok: "source_ok env (rg_limits r) (rg_packs r) (manifest_source_key m) ?s"
      using m by (simp add: source_ok_def source_key_of_def)
    have s: "shelf env (rg_limits r) (rg_root r) ?sources (rg_packs r) (rg_installed_bytes r) fs"
      by (rule shelf_put [OF t d]) (simp_all add: stored_pack_def None pack_size_def)
    have "wp (bind (registry_persist env seq ?sources r)
        (\<lambda>x. ret (commit (source_status_of ?s) (\<lambda>r. r\<lparr>rg_sources := ?sources\<rparr>) x))) (run_ok env r) fs"
      by (rule wp_persist_commit [OF env r w s]) (simp_all add: table_put_same [OF t ok])
    with None Inr show ?thesis by (simp add: advertise_def ret_commit Let_def)
  qed
qed

lemma wp_set_enabled:
  assumes env: "registry_env_ok env" and r: "registry_ok env r fs"
  shows "wp (set_enabled env seq i version enabled r) (run_ok env r) fs"
proof (cases "and_then (require_writable r) (\<lambda>_. and_then (check_identifier i) (\<lambda>_. version_identifier version :: registry_error + unit))")
  case (Inl e)
  then show ?thesis using r by (simp add: set_enabled_def refused)
next
  case (Inr u)
  then have w: "\<not> rg_commit_uncertain r" by (auto simp: ok_iff require_writable_def)
  show ?thesis
  proof (cases "\<exists>s. map_of (rg_sources r) (SourceKey i version) = Some s \<and> ss_pack s \<noteq> None")
    case False
    with Inr r show ?thesis by (auto simp: set_enabled_def intro: refused split: option.split)
  next
    case True
    then obtain s name where known: "map_of (rg_sources r) (SourceKey i version) = Some s" "ss_pack s = Some name" by auto
    let ?s = "s\<lparr>ss_enabled := enabled\<rparr>"
    let ?sources = "om_put (SourceKey i version) ?s (rg_sources r)"
    from r have t: "table_ok env (rg_limits r) (rg_sources r) (rg_packs r) (rg_installed_bytes r)"
      and d: "shelf env (rg_limits r) (rg_root r) (rg_sources r) (rg_packs r) (rg_installed_bytes r) fs"
      using w by (auto simp: registry_ok_def registry_on_disk_def on_disk_def)
    have ok: "source_ok env (rg_limits r) (rg_packs r) (SourceKey i version) ?s"
      using t known by (auto simp: table_ok_def source_ok_def source_key_of_def)
    have "om_ok (rg_sources r)" using t by (simp add: table_ok_def)
    from om.in_items [OF this, of "SourceKey i version" s] known(1)
    have "(SourceKey i version, s) \<in> set (rg_sources r)" by simp
    with d have "stored_pack env (rg_limits r) (rg_root r) (rg_packs r) fs s" by (force simp: shelf_def)
    then have "stored_pack env (rg_limits r) (rg_root r) (rg_packs r) fs ?s"
      by (simp add: stored_pack_def source_key_of_def)
    then have s: "shelf env (rg_limits r) (rg_root r) ?sources (rg_packs r) (rg_installed_bytes r) fs"
      by (rule shelf_put [OF t d]) (simp_all add: known pack_size_def)
    have "wp (bind (registry_persist env seq ?sources r)
        (\<lambda>x. ret (commit () (\<lambda>r. r\<lparr>rg_sources := ?sources\<rparr>) x))) (run_ok env r) fs"
      by (rule wp_persist_commit [OF env r w s]) (simp_all add: table_put_same [OF t ok])
    with known Inr show ?thesis by (simp add: set_enabled_def ret_commit Let_def)
  qed
qed

section \<open>Installing a pack\<close>

lemma on_disk_stored:
  assumes d: "on_disk env lim root sources packs installed fs" and "wf_fs fs'"
    and st: "stored_in pid (root @ [''packs'']) (pack_path root name) b fs out fs'"
  shows "on_disk env lim root sources packs installed fs'"
proof (cases "unchanged_in pid (root @ [''packs'']) fs fs'")
  case True
  with d assms(2) show ?thesis by (auto intro: on_disk_unchanged)
next
  case False
  with st have none: "entries fs (pack_path root name) = None"
    and o: "only_changed (\<lambda>q. q = pack_path root name \<or> is_pending pid (root @ [''packs'']) q) fs fs'" and "calm fs'"
    by (auto simp: stored_in_def replaced_in_def)
  from d have "shelf env lim root sources packs installed fs" and "written env lim root sources fs"
    and t: "table_ok env lim sources packs installed" by (auto simp: on_disk_def)
  then have "shelf env lim root sources packs installed fs'" and "written env lim root sources fs'"
    by (auto intro!: shelf_kept [OF _ o] written_kept [OF _ o] dest: pending_dotted simp: none)
  with t \<open>calm fs'\<close> assms(2) show ?thesis by (simp add: on_disk_def)
qed

lemma from_json_own_digest:
  assumes "limits_ok lim" and "(from_json codec b expected lim :: registry_error + validated_pack) = Inr p"
  shows "(from_json codec b (sm_digest (vp_manifest p)) lim :: registry_error + validated_pack) = Inr p"
    and "validated codec lim p" and "length b \<le> max_pack_bytes lim" and "manifest_ok codec lim (vp_manifest p)"
proof -
  from assms(1) have l: "max_relations lim \<le> USIZE_MAX" "max_senses lim \<le> USIZE_MAX"
    by (simp_all add: limits_ok_def)
  from assms(2) show "(from_json codec b (sm_digest (vp_manifest p)) lim :: registry_error + validated_pack) = Inr p"
    and "validated codec lim p" and "length b \<le> max_pack_bytes lim" and "manifest_ok codec lim (vp_manifest p)"
    by (simp_all add: from_json_validated [OF l] expected_ok_def vp_manifest_def validated_def pack_acceptable_def)
qed

lemma wp_install:
  assumes env: "registry_env_ok env" and lim: "limits_ok (rg_limits r)"
    and r: "registry_ok env r fs" "\<not> rg_commit_uncertain r"
    and b: "(from_json (ge_codec env) b expected (rg_limits r) :: registry_error + validated_pack) = Inr pack"
    and fresh: "\<forall>s. map_of (rg_sources r) (manifest_source_key (vp_manifest pack)) = Some s \<longrightarrow> ss_pack s = None"
    and size: "rg_installed_bytes r + length b \<le> max_installed_bytes (rg_limits r)"
  shows "wp (install env seq seq' b pack (rg_installed_bytes r + length b) r) (run_ok env r) fs"
proof -
  let ?lim = "rg_limits r" and ?root = "rg_root r" and ?key = "manifest_source_key (vp_manifest pack)"
  let ?name = "pack_name (ge_codec env) b"
  let ?s = "\<lparr>ss_manifest = vp_manifest pack, ss_enabled = False, ss_pack = Some ?name\<rparr>"
  let ?sources = "om_put ?key ?s (rg_sources r)"
  let ?packs = "(rg_packs r)(?key \<mapsto> pack)" and ?n = "rg_installed_bytes r + length b"
  let ?commit = "commit (source_status_of ?s) (\<lambda>r. r\<lparr>rg_sources := ?sources, rg_packs := (rg_packs r)(?key \<mapsto> pack), rg_installed_bytes := ?n\<rparr>)"
  let ?ok = "run_ok env r :: (registry_error, (registry_error + source_status) \<times> registry) outcome \<Rightarrow> fs \<Rightarrow> bool"
  note p = from_json_own_digest [OF lim b]
  from r have d: "on_disk env ?lim ?root (rg_sources r) (rg_packs r) (rg_installed_bytes r) fs"
    and t: "table_ok env ?lim (rg_sources r) (rg_packs r) (rg_installed_bytes r)"
    by (auto simp: registry_ok_def registry_on_disk_def on_disk_def)
  have ok: "source_ok env ?lim ?packs ?key ?s" using p by (simp add: source_ok_def source_key_of_def)
  show ?thesis
  proof (cases "registry_bytes env r ?sources")
    case (Inl e)
    then show ?thesis using r by (simp add: install_def Let_def refused)
  next
    case (Inr rb)
    have table: "table_ok env ?lim ?sources ?packs ?n"
      by (rule table_put [OF t ok]) (use Inr size in \<open>auto simp: registry_bytes_Inr\<close>)
    obtain x fs1 where run: "store_immutable (ge_pid env) seq (?root @ [''packs'']) ?name b (max_pack_bytes ?lim) fs = (x, fs1)"
      by force
    show ?thesis
    proof (cases "validate_pack_name ?name :: registry_error + unit")
      case invalid: (Inl e)
      with run have "x = Raise e" "fs1 = fs"
        by (simp_all add: store_immutable_def of_sum_def bind_def raise_def)
      with run r have "wp (install env seq seq' b pack ?n r) (run_ok env r) fs"
        by (simp add: install_def Let_def Inr wp_def bind_def attempt_def ret_def run_ok_def)
      then show ?thesis .
    next
      case valid: (Inr u)
      have wf: "wf_fs fs1" by (rule keeps_wfD [OF keeps_wf_store(2) _ run]) (use d in \<open>simp add: on_disk_def\<close>)
      have st: "stored_in (ge_pid env) (?root @ [''packs'']) (pack_path ?root ?name) b fs x fs1"
        using wp_store_immutable [of fs "?root @ [''packs'']" ?name "max_pack_bytes ?lim" "ge_pid env" seq b]
          run d lim pack_name_valid [of ?name] valid shelf_dirs(2) [of env ?lim ?root]
        by (auto simp: wp_def on_disk_def limits_ok_def pack_path_def)
      have d1: "on_disk env ?lim ?root (rg_sources r) (rg_packs r) (rg_installed_bytes r) fs1"
        by (rule on_disk_stored [OF d wf st])
      then have r1: "registry_ok env r fs1" using r t by (simp add: registry_ok_def registry_on_disk_def)
      have good: "wp (bind (publish env seq' rb r) (\<lambda>x. ret (?commit x))) (run_ok env r) fs1" if "x = Done u'" for u'
      proof (rule wp_publish_commit [OF env r1 r(2) _ table Inr])
        have stored: "bytes_at fs1 (pack_path ?root ?name) = Some b" "\<exists>i. entries fs1 (pack_path ?root ?name) = Some (Name i)"
          using st that by (auto simp: stored_in_def)
        then have new: "stored_pack env ?lim ?root ?packs fs1 ?s"
          using valid p by (auto simp: stored_pack_def source_key_of_def)
        show "shelf env ?lim ?root ?sources ?packs ?n fs1"
          by (rule shelf_put [OF t _ new]) (use d1 fresh stored in \<open>auto simp: on_disk_def pack_size_def split: option.split\<close>)
      qed simp
      have "wp (install env seq seq' b pack ?n r) (run_ok env r) fs
          = (case x of Done u' \<Rightarrow> wp (bind (publish env seq' rb r) (\<lambda>x. ret (?commit x))) (run_ok env r) fs1
             | Raise e \<Rightarrow> ?ok (Done (Inl e, r)) fs1 | Halt h \<Rightarrow> ?ok (Halt h) fs1)"
        using run by (cases x) (simp_all add: install_def Let_def Inr ret_commit wp_bind wp_attempt wp_def [of "store_immutable _ _ _ _ _ _"] wp_ret)
      then show ?thesis
        using good refused [OF r1] d1 by (cases x) (auto simp: wp_ret run_ok_def recoverable_def)
    qed
  qed
qed

lemma wp_import_json:
  assumes env: "registry_env_ok env" and lim: "limits_ok (rg_limits r)" and r: "registry_ok env r fs"
  shows "wp (import_json env seq seq' b expected r) (run_ok env r) fs"
proof (cases "and_then (require_writable r) (\<lambda>_. from_json (ge_codec env) b expected (rg_limits r))")
  case (Inl e)
  then show ?thesis using r by (simp add: import_json_def refused)
next
  case (Inr pack)
  then have w: "\<not> rg_commit_uncertain r"
    and b: "(from_json (ge_codec env) b expected (rg_limits r) :: registry_error + validated_pack) = Inr pack"
    by (auto simp: ok_iff require_writable_def)
  let ?known = "map_of (rg_sources r) (manifest_source_key (vp_manifest pack))"
  show ?thesis
  proof (cases "import_known ?known (vp_manifest pack)")
    case (Some answer)
    with Inr r show ?thesis by (simp add: import_json_def answered)
  next
    case None
    then have fresh: "\<forall>s. ?known = Some s \<longrightarrow> ss_pack s = None"
      by (auto simp: import_known_def split: if_splits)
    show ?thesis
    proof (cases "add_checked (rg_installed_bytes r) (length b) ''installed bytes'' :: registry_error + nat")
      case (Inl e)
      with Inr None r show ?thesis by (simp add: import_json_def refused)
    next
      case sum: (Inr n)
      then have "n = rg_installed_bytes r + length b" by (simp add: add_checked_Inr)
      with wp_install [OF env lim r w b fresh] Inr None sum r show ?thesis
        by (simp add: import_json_def refused)
    qed
  qed
qed

section \<open>Runs\<close>

datatype registry_op =
    Advertise source_manifest "nat \<Rightarrow> nat"
  | ImportJson bytes "string option" "nat \<Rightarrow> nat" "nat \<Rightarrow> nat"
  | SetEnabled string string bool "nat \<Rightarrow> nat"

datatype registry_world = Running registry fs | Dead path limits fs

fun registry_after :: "registry \<Rightarrow> (registry_error, (registry_error + 'a) \<times> registry) outcome \<times> fs \<Rightarrow> registry_world" where
  "registry_after r (Done (_, r'), fs) = Running r' fs"
| "registry_after r (_, fs) = Dead (rg_root r) (rg_limits r) fs"

fun registry_step :: "registry_env \<Rightarrow> registry_op \<Rightarrow> registry_world \<Rightarrow> registry_world" where
  "registry_step env op (Dead root lim fs) = Dead root lim fs"
| "registry_step env (Advertise m seq) (Running r fs) = registry_after r (advertise env seq m r fs)"
| "registry_step env (ImportJson b expected seq seq') (Running r fs) =
     registry_after r (import_json env seq seq' b expected r fs)"
| "registry_step env (SetEnabled i v enabled seq) (Running r fs) =
     registry_after r (set_enabled env seq i v enabled r fs)"

text \<open>A running registry is the table on its disk; the disk of one that stopped can be opened.\<close>

definition world_ok :: "registry_env \<Rightarrow> registry_world \<Rightarrow> bool" where
  "world_ok env w \<longleftrightarrow> (case w of
     Running r fs \<Rightarrow> limits_ok (rg_limits r) \<and> registry_ok env r fs
   | Dead root lim fs \<Rightarrow> recoverable env lim root fs)"

lemma run_ok_after:
  assumes "wp m (run_ok env r) fs" and "limits_ok (rg_limits r)"
  shows "world_ok env (registry_after r (m fs))"
proof -
  obtain out fs' where run: "m fs = (out, fs')" by force
  with assms(1) have "run_ok env r out fs'" by (simp add: wp_def)
  with run assms(2) show ?thesis by (cases out) (auto simp: run_ok_def world_ok_def)
qed

lemma registry_step_ok:
  assumes "registry_env_ok env" and "world_ok env w"
  shows "world_ok env (registry_step env op w)"
proof (cases w)
  case (Dead root lim fs)
  with assms(2) show ?thesis by simp
next
  case (Running r fs)
  with assms(2) have r: "limits_ok (rg_limits r)" "registry_ok env r fs" by (simp_all add: world_ok_def)
  note ops = wp_advertise [OF assms(1) r(2)] wp_set_enabled [OF assms(1) r(2)] wp_import_json [OF assms(1) r]
  show ?thesis by (cases op) (simp_all add: Running run_ok_after [OF ops(1) r(1)] run_ok_after [OF ops(2) r(1)] run_ok_after [OF ops(3) r(1)])
qed

text \<open>The registry is a machine for every environment whose codec reads back what it writes.\<close>

interpretation registry: machine "registry_step env" "\<lambda>w. registry_env_ok env \<and> world_ok env w" for env
  by unfold_locales (simp add: registry_step_ok)

lemma pack_size_sched [simp]: "pack_size root (fs\<lparr>sched := ts\<rparr>) s = pack_size root fs s"
  by (simp add: pack_size_def split: option.split)

lemma stored_pack_sched [simp]: "stored_pack env lim root packs (fs\<lparr>sched := ts\<rparr>) s = stored_pack env lim root packs fs s"
  by (simp add: stored_pack_def)

lemma on_disk_sched:
  "on_disk env lim root sources packs installed fs \<Longrightarrow> calm (fs\<lparr>sched := ts\<rparr>) \<Longrightarrow>
    on_disk env lim root sources packs installed (fs\<lparr>sched := ts\<rparr>)"
  by (auto simp: on_disk_def shelf_def written_def)

section \<open>Opening what was written\<close>

lemma quiet_call: "sched fs = [] \<Longrightarrow> simple_call op fs = op fs"
  by (simp add: simple_call_def syscall_def)

lemma quiet_symlink_metadata:
  assumes "sched fs = []" and "real_directory (entries fs) d" and "plain c"
  shows "fs_symlink_metadata (d @ [c]) fs =
    (if entries fs (d @ [c]) = None then (Raise NotFound, fs) else (Done (metadata_of fs (d @ [c])), fs))"
  using locate_in_directory [OF assms(2,3)] by (simp add: fs_symlink_metadata_def quiet_call [OF assms(1)] split: option.split)

lemma named_metadata:
  assumes "entries fs p = Some (Name i)" and "bytes_at fs p = Some b"
  shows "metadata_of fs p = \<lparr>meta_is_file = True, meta_is_dir = False,
    meta_readonly = meta_readonly (metadata_of fs p), meta_len = length b\<rparr>"
  using assms by (auto simp: metadata_of_def bytes_at_def file_at_def inode_at_def)

lemma quiet_regular_file:
  assumes "sched fs = []" and "real_directory (entries fs) d" and "plain c"
    and "entries fs (d @ [c]) = Some (Name i)" and "bytes_at fs (d @ [c]) = Some b"
  shows "\<exists>m. regular_file (d @ [c]) fs = (Done m, fs) \<and> meta_len m = length b"
proof -
  obtain ro where m: "metadata_of fs (d @ [c]) = \<lparr>meta_is_file = True, meta_is_dir = False,
      meta_readonly = ro, meta_len = length b\<rparr>" using named_metadata [OF assms(4,5)] by blast
  show ?thesis
    by (simp add: regular_file_def bind_def map_err_def ret_def quiet_symlink_metadata [OF assms(1-3)] assms(4) m)
qed

lemma quiet_read_bounded:
  assumes "sched fs = []" and "real_directory (entries fs) d" and "plain c"
    and "entries fs (d @ [c]) = Some (Name i)" and "bytes_at fs (d @ [c]) = Some b"
    and "length b \<le> limit" and "limit \<le> USIZE_MAX"
  shows "read_bounded (d @ [c]) limit fs = (Done b, fs)"
proof -
  from quiet_regular_file [OF assms(1-5)] obtain m where m: "regular_file (d @ [c]) fs = (Done m, fs)"
    "meta_len m = length b" by auto
  have "fs_open (d @ [c]) fs = (Done i, fs)"
    using resolve_in_directory [OF assms(2-4)] assms(4) by (simp add: fs_open_def quiet_call [OF assms(1)] inode_at_def)
  moreover have "fs_read_to_end i fs = (Done b, fs)"
    using assms(4,5) by (auto simp: fs_read_to_end_def quiet_call [OF assms(1)] bytes_at_def file_at_def inode_at_def)
  moreover have "take (min (limit + 1) USIZE_MAX) b = b" using assms(6,7) by simp
  ultimately show ?thesis
    using m assms(6) by (simp add: read_bounded_def bind_def map_err_def ret_def Let_def)
qed

definition load_into :: "registry \<Rightarrow> (source_key \<times> stored_source) list \<Rightarrow> (source_key \<rightharpoonup> validated_pack) \<Rightarrow> nat \<Rightarrow> registry" where
  "load_into r kvs packs n = r\<lparr>rg_sources := fold (\<lambda>(k, v). om_put k v) kvs (rg_sources r),
     rg_packs := (\<lambda>k. if k \<in> fst ` set kvs then packs k else rg_packs r k),
     rg_installed_bytes := rg_installed_bytes r + n\<rparr>"

lemma load_sources_stored:
  assumes quiet: "sched fs = []" and dir: "real_directory (entries fs) (rg_root r @ [''packs''])"
    and lim: "limits_ok (rg_limits r)" and ok: "om_ok (rg_sources r)"
    and keys: "distinct (map fst kvs)" "\<forall>k \<in> fst ` set kvs. map_of (rg_sources r) k = None \<and> rg_packs r k = None"
    and each: "\<forall>(k, s) \<in> set kvs. source_ok env (rg_limits r) packs k s \<and>
      stored_pack env (rg_limits r) (rg_root r) packs fs s"
    and size: "rg_installed_bytes r + sum_list (map (\<lambda>(k, s). pack_size (rg_root r) fs s) kvs) \<le> max_installed_bytes (rg_limits r)"
  shows "load_sources env (map snd kvs) r fs =
    (Done (load_into r kvs packs (sum_list (map (\<lambda>(k, s). pack_size (rg_root r) fs s) kvs))), fs)"
  using dir lim ok keys each size
proof (induction kvs arbitrary: r)
  case Nil
  then show ?case by (simp add: ret_def load_into_def)
next
  case (Cons kv kvs)
  obtain key s where kv: "kv = (key, s)" by force
  from Cons.prems(6) have src: "source_ok env (rg_limits r) packs key s"
    and st: "stored_pack env (rg_limits r) (rg_root r) packs fs s" by (auto simp: kv)
  then have key: "source_key_of s = key" and m: "manifest_ok (ge_codec env) (rg_limits r) (ss_manifest s)"
    by (auto simp: source_ok_def)
  have new: "map_of (rg_sources r) key = None" "rg_packs r key = None" "key \<notin> fst ` set kvs"
    using Cons.prems(4,5) by (auto simp: kv)
  have valid: "(of_sum (validate_manifest (ge_codec env) (ss_manifest s) (rg_limits r)) :: (registry_error, unit) prog) = ret ()"
  proof -
    have "(validate_manifest (ge_codec env) (ss_manifest s) (rg_limits r) :: registry_error + unit) = Inr ()"
      using m by (simp add: ok_iff)
    then show ?thesis by (simp add: of_sum_def)
  qed
  let ?sum = "sum_list (map (\<lambda>(k, s). pack_size (rg_root r) fs s) kvs)"
  have later: "load_sources env (map snd kvs) r' fs = (Done (load_into r' kvs packs ?sum), fs)"
    if same: "rg_root r' = rg_root r" "rg_limits r' = rg_limits r" "rg_sources r' = om_put key s (rg_sources r)"
      "\<And>k. k \<noteq> key \<Longrightarrow> rg_packs r' k = rg_packs r k"
      and "rg_installed_bytes r' + ?sum \<le> max_installed_bytes (rg_limits r)" for r'
  proof -
    have "\<forall>k \<in> fst ` set kvs. map_of (rg_sources r') k = None \<and> rg_packs r' k = None"
    proof
      fix k assume k: "k \<in> fst ` set kvs"
      with new(3) have "k \<noteq> key" by auto
      moreover from k Cons.prems(5) have "map_of (rg_sources r) k = None \<and> rg_packs r k = None"
        unfolding kv by (metis insert_iff list.simps(15) image_insert)
      ultimately show "map_of (rg_sources r') k = None \<and> rg_packs r' k = None"
        using same by (simp add: map_of_om_put)
    qed
    then show ?thesis
      using Cons.IH [of r'] Cons.prems(1-4,6) that by (simp add: kv om_ok_put)
  qed
  show ?case
  proof (cases "ss_pack s")
    case None
    let ?r = "r\<lparr>rg_sources := om_put key s (rg_sources r)\<rparr>"
    have "pack_size (rg_root r) fs s = 0" by (simp add: pack_size_def None)
    then have IH: "load_sources env (map snd kvs) ?r fs = (Done (load_into ?r kvs packs ?sum), fs)"
      using later [of ?r] Cons.prems(7) by (simp add: kv)
    have "packs key = None" "\<not> ss_enabled s" using src None by (auto simp: source_ok_def)
    then show ?thesis
      using IH by (simp add: kv valid bind_ret key new None load_into_def pack_size_def fun_eq_iff)
  next
    case (Some name)
    from st Some obtain i b p where f: "(validate_pack_name name :: registry_error + unit) = Inr ()"
      "entries fs (pack_path (rg_root r) name) = Some (Name i)" "bytes_at fs (pack_path (rg_root r) name) = Some b"
      "length b \<le> max_pack_bytes (rg_limits r)" "pack_name (ge_codec env) b = name" "packs key = Some p"
      "(from_json (ge_codec env) b (sm_digest (ss_manifest s)) (rg_limits r) :: registry_error + validated_pack) = Inr p"
      by (auto simp: stored_pack_def key)
    have path: "rg_root r @ [''packs'', name] = (rg_root r @ [''packs'']) @ [name]" by simp
    note at = quiet Cons.prems(1) pack_name_valid(3) [OF f(1)]
    from quiet_regular_file [OF at, of i b] f(2,3) obtain md where md:
      "regular_file ((rg_root r @ [''packs'']) @ [name]) fs = (Done md, fs)" "meta_len md = length b"
      by (auto simp: pack_path_def)
    have read: "read_bounded ((rg_root r @ [''packs'']) @ [name]) (max_pack_bytes (rg_limits r)) fs = (Done b, fs)"
      using quiet_read_bounded [OF at, of i b] f(2-4) Cons.prems(2) by (simp add: pack_path_def limits_ok_def)
    have size: "pack_size (rg_root r) fs s = length b" using f(3) Some by (simp add: pack_size_def)
    have small: "rg_installed_bytes r + length b \<le> max_installed_bytes (rg_limits r)"
      "rg_installed_bytes r + length b + ?sum \<le> max_installed_bytes (rg_limits r)"
      using Cons.prems(7) by (simp_all add: kv size)
    have add: "(of_sum (add_checked (rg_installed_bytes r) (length b) ''installed bytes'') :: (registry_error, nat) prog)
        = ret (rg_installed_bytes r + length b)"
      using small(1) Cons.prems(2) by (simp add: add_checked_def of_sum_def limits_ok_def)
    have vm: "vp_manifest p = ss_manifest s" using src f(6) Some by (auto simp: source_ok_def)
    let ?r = "r\<lparr>rg_installed_bytes := rg_installed_bytes r + length b, rg_packs := (rg_packs r)(key \<mapsto> p),
      rg_sources := om_put key s (rg_sources r)\<rparr>"
    have IH: "load_sources env (map snd kvs) ?r fs = (Done (load_into ?r kvs packs ?sum), fs)"
      using later [of ?r] small(2) by simp
    have "load_sources env (map snd (kv # kvs)) r fs = load_sources env (map snd kvs) ?r fs"
      using md read f new small(1)
      by (simp add: kv valid bind_ret key Some path of_sum_def [of "Inr _"] Let_def add vm
          bind_def [of "regular_file _"] bind_def [of "read_bounded _ _"] del: append_assoc)
    moreover have "load_into ?r kvs packs ?sum = load_into r (kv # kvs) packs (length b + ?sum)"
      using f(6) new(3) by (auto simp: load_into_def kv fun_eq_iff)
    ultimately show ?thesis using IH by (simp add: kv size)
  qed
qed

lemma quiet_directory:
  assumes "sched fs = []" and "real_directory (entries fs) d" and "d \<noteq> []"
  shows "check_directory d fs = (Done (), fs)"
proof -
  from assms(3) obtain cs c where snoc: "d = cs @ [c]" by (cases d rule: rev_exhaust) auto
  with assms(2) have d: "real_directory (entries fs) cs" "plain c" "entries fs (cs @ [c]) = Some Folder"
    by (auto simp: real_directory_snoc)
  then have "metadata_of fs (cs @ [c]) = \<lparr>meta_is_file = False, meta_is_dir = True, meta_readonly = False, meta_len = 0\<rparr>"
    by (simp add: metadata_of_def file_at_def inode_at_def)
  then show ?thesis
    by (simp add: snoc check_directory_def bind_def map_err_def ret_def quiet_symlink_metadata [OF assms(1) d(1,2)] d(3))
qed

lemma real_directory_resolve: "real_directory (entries fs) d \<Longrightarrow> resolve fs d = Inr d"
  using resolve_from_real_directory [of "entries fs" "[]" d] by (simp add: resolve_def)

lemma quiet_open_root:
  assumes "sched fs = []" and "real_directory (entries fs) root" and "root \<noteq> []"
  shows "open_root root fs = (Done root, fs)"
  using quiet_directory [OF assms] real_directory_resolve [OF assms(2)]
  by (simp add: open_root_def path_exists_def fs_metadata_def fs_canonicalize_def quiet_call [OF assms(1)]
      bind_def attempt_def map_err_def ret_def)

lemma quiet_open_lock:
  assumes "sched fs = []" and "real_directory (entries fs) root" and "wf_fs fs"
    and "entries fs (root @ [''writer.lock'']) = Some (Name i)"
  shows "open_lock (root @ [''writer.lock'']) Locked fs = (Done (), fs)"
proof -
  have p: "plain ''writer.lock''" by (simp add: plain_def)
  from assms(3,4) obtain f where "inodes fs i = Some f" by (auto simp: wf_fs_def)
  then have b: "bytes_at fs (root @ [''writer.lock'']) = Some (content f)"
    using assms(4) by (simp add: bytes_at_def file_at_def inode_at_def)
  from quiet_regular_file [OF assms(1,2) p assms(4) b] obtain m where
    "regular_file (root @ [''writer.lock'']) fs = (Done m, fs)" by auto
  moreover have "fs_open_or_create (root @ [''writer.lock'']) fs = (Done i, fs)"
    using resolve_in_directory [OF assms(2) p assms(4)] assms(4)
    by (simp add: fs_open_or_create_def quiet_call [OF assms(1)] inode_at_def)
  ultimately show ?thesis
    by (simp add: open_lock_def bind_def attempt_def map_err_def ret_def quiet_symlink_metadata [OF assms(1,2) p] assms(4))
qed

lemma open_finds:
  assumes lim: "limits_ok lim" and quiet: "sched fs = []" and root: "root \<noteq> []"
    and d: "on_disk env lim root sources packs installed fs"
  shows "open_with_limits env Locked root lim fs =
    (Done \<lparr>rg_root = root, rg_limits = lim, rg_sources = sources, rg_packs = packs,
       rg_installed_bytes = installed, rg_commit_uncertain = False\<rparr>, fs)"
proof -
  from d have t: "table_ok env lim sources packs installed" and s: "shelf env lim root sources packs installed fs"
    and w: "written env lim root sources fs" and wf: "wf_fs fs" by (auto simp: on_disk_def)
  note dirs = shelf_dirs [OF s]
  have ok: "om_ok sources" using t by (simp add: table_ok_def)
  from s obtain i where lock: "entries fs (root @ [''writer.lock'']) = Some (Name i)" by (auto simp: shelf_def)
  have "entries fs (root @ [''packs'']) = Some Folder" using dirs(2) by (simp add: real_directory_snoc)
  then have packs_dir: "open_packs (root @ [''packs'']) fs = (Done (), fs)"
    using quiet_directory [OF quiet dirs(2)]
    by (simp add: open_packs_def bind_def attempt_def quiet_symlink_metadata [OF quiet dirs(1)] plain_def)
  let ?e = "empty_registry root lim"
  have p: "plain ''registry.json''" by (simp add: plain_def)
  have "open_registry_file env ?e fs = (Done \<lparr>rg_root = root, rg_limits = lim, rg_sources = sources,
      rg_packs = packs, rg_installed_bytes = installed, rg_commit_uncertain = False\<rparr>, fs)"
  proof (cases "entries fs (registry_json root) = None")
    case True
    with w have "sources = []" by (auto simp: written_def)
    moreover from this t s have "packs = Map.empty" "installed = 0"
      by (auto simp: table_ok_def shelf_def)
    ultimately show ?thesis
      using True by (simp add: open_registry_file_def empty_registry_def read_bounded_def regular_file_def bind_def
          map_err_def attempt_def ret_def quiet_symlink_metadata [OF quiet dirs(1) p] registry_json_def)
  next
    case False
    with w obtain j b kvs where f: "entries fs (registry_json root) = Some (Name j)"
      "bytes_at fs (registry_json root) = Some b" "length b \<le> max_registry_bytes lim"
      "ge_decode env b = Inr \<lparr>rf_schema_version = SCHEMA_VERSION, rf_sources = map snd kvs\<rparr>"
      and perm: "mset kvs = mset sources"
      by (auto simp: written_def)
    from perm have same: "set kvs = set sources" "length kvs = length sources" by (metis set_mset_mset, metis size_mset)
    have "mset (map fst kvs) = mset (map fst sources)" "mset (map g kvs) = mset (map g sources)" for g :: "_ \<Rightarrow> nat"
      using perm by simp_all
    then have keys: "distinct (map fst kvs)" and sums: "sum_list (map g kvs) = sum_list (map g sources)" for g :: "_ \<Rightarrow> nat"
      using om_distinct [OF ok] by (metis mset_eq_imp_distinct_iff, metis sum_mset_sum_list)
    have read: "read_bounded (root @ [''registry.json'']) (max_registry_bytes lim) fs = (Done b, fs)"
      using quiet_read_bounded [OF quiet dirs(1) p, of j b] f(1-3) lim by (simp add: registry_json_def limits_ok_def)
    have each: "\<forall>(k, v) \<in> set kvs. source_ok env lim packs k v \<and> stored_pack env lim root packs fs v"
      unfolding same using om.in_items [OF ok] t s by (force simp: table_ok_def shelf_def)
    have "load_sources env (map snd kvs) ?e fs =
        (Done (load_into ?e kvs packs (sum_list (map (\<lambda>(k, s). pack_size root fs s) kvs))), fs)"
      using load_sources_stored [OF quiet, of ?e kvs env packs] dirs(2) lim keys each t s
      by (simp add: empty_registry_def om_ok_def table_ok_def shelf_def sums)
    moreover have "load_into ?e kvs packs installed = \<lparr>rg_root = root, rg_limits = lim, rg_sources = sources,
        rg_packs = packs, rg_installed_bytes = installed, rg_commit_uncertain = False\<rparr>"
    proof -
      have "packs k = None" if "k \<notin> fst ` set sources" for k
        using t that by (auto simp: table_ok_def map_of_eq_None_iff)
      then show ?thesis
        using om.rebuild [OF ok same(1) keys] by (auto simp: load_into_def empty_registry_def same fun_eq_iff)
    qed
    ultimately show ?thesis
      using read f(4) t s by (simp add: open_registry_file_def bind_def attempt_def empty_registry_def
          table_ok_def shelf_def same sums)
  qed
  then show ?thesis
    using quiet_open_root [OF quiet dirs(1) root] packs_dir quiet_open_lock [OF quiet dirs(1) wf lock]
    by (simp add: open_with_limits_def bind_def)
qed

section \<open>Look-ups\<close>

text \<open>What an enabled source has for a query; nothing if it is not enabled.\<close>

definition enabled_matches :: "registry \<Rightarrow> lookup_query \<Rightarrow> source_key \<Rightarrow> lexical_entry list" where
  "enabled_matches r q key = (if is_enabled r key
     then case rg_packs r key of None \<Rightarrow> [] | Some p \<Rightarrow> filter (lemma_matches (lq_lemma q) (lq_language q)) (vp_entries p)
     else [])"

definition query_ok :: "registry \<Rightarrow> lookup_query \<Rightarrow> nat \<Rightarrow> bool" where
  "query_ok r q limit \<longleftrightarrow> text_ok (max_lemma_bytes (rg_limits r)) (lq_lemma q) \<and> given_ok language_ok (lq_language q) \<and>
     limit \<le> max_lookup_results (rg_limits r) \<and> length (lq_sources q) \<le> max_query_sources (rg_limits r) \<and>
     (\<forall>key \<in> set (lq_sources q). identifier_ok (key_source key) \<and> version_ok (key_version key)) \<and>
     distinct (lq_sources q)"

lemma table_pack_validated:
  assumes "table_ok env lim sources packs installed" and "packs key = Some p"
  shows "validated (ge_codec env) lim p"
proof -
  from assms obtain s where "map_of sources key = Some s" by (cases "map_of sources key") (auto simp: table_ok_def)
  with assms have "source_ok env lim packs key s" by (simp add: table_ok_def)
  with assms(2) show ?thesis by (auto simp: source_ok_def split: if_splits)
qed

lemma lookup_sources_Inr:
  assumes "table_ok env (rg_limits r) (rg_sources r) (rg_packs r) (rg_installed_bytes r)"
  shows "length found \<le> limit \<Longrightarrow> lookup_sources r q limit seen found keys = Inr out \<longleftrightarrow>
    (\<forall>key \<in> set keys. identifier_ok (key_source key) \<and> version_ok (key_version key)) \<and> distinct keys \<and>
    set keys \<inter> seen = {} \<and> out = found @ take (limit - length found) (concat (map (enabled_matches r q) keys))"
proof (induction keys arbitrary: seen found)
  case Nil
  then show ?case by auto
next
  case (Cons key keys)
  let ?here = "enabled_matches r q key" and ?found = "found @ take (limit - length found) (enabled_matches r q key)"
  have step: "lookup_sources r q limit seen found (key # keys) =
    and_then (check_identifier (key_source key)) (\<lambda>_. and_then (version_identifier (key_version key)) (\<lambda>_.
    and_then (ensure_that (key \<notin> seen) (RefInvalid ''duplicate query source'')) (\<lambda>_.
      lookup_sources r q limit (insert key seen) ?found keys)))"
    using validated_lookup [OF table_pack_validated [OF assms]]
    by (auto simp: enabled_matches_def split: option.split)
  have len: "length ?found \<le> limit" using Cons.prems by simp
  have "take (limit - length ?found) xs = take (limit - length found - length ?here) xs" for xs :: "lexical_entry list"
    by (cases "length ?here \<le> limit - length found") simp_all
  then have split: "?found @ take (limit - length ?found) (concat (map (enabled_matches r q) keys)) =
      found @ take (limit - length found) (concat (map (enabled_matches r q) (key # keys)))"
    by simp
  show ?case unfolding step using Cons.IH [OF len, of "insert key seen"] split by (auto simp: ok_iff)
qed

lemma registry_lookup_Inr:
  assumes "registry_ok env r fs"
  shows "registry_lookup r q limit = Inr out \<longleftrightarrow>
    query_ok r q limit \<and> out = take limit (concat (map (enabled_matches r q) (lq_sources q)))"
proof -
  from assms have "table_ok env (rg_limits r) (rg_sources r) (rg_packs r) (rg_installed_bytes r)"
    by (simp add: registry_ok_def)
  from lookup_sources_Inr [OF this, of "[]" limit] show ?thesis
    by (auto simp: registry_lookup_def ok_iff query_ok_def given_ok_def)
qed

section \<open>What a registry that was opened stands on\<close>

text \<open>Programs in a world where nothing fails and nobody else moves.\<close>

definition keeps_quiet :: "('e, 'a) prog \<Rightarrow> bool" where
  "keeps_quiet m \<longleftrightarrow> (\<forall>fs. sched fs = [] \<longrightarrow> sched (snd (m fs)) = [])"

lemma keeps_quietD: "keeps_quiet m \<Longrightarrow> sched fs = [] \<Longrightarrow> m fs = (r, fs') \<Longrightarrow> sched fs' = []"
  by (force simp: keeps_quiet_def)

lemma keeps_quiet_ret: "keeps_quiet (ret a)" and keeps_quiet_raise: "keeps_quiet (raise e)"
  by (simp_all add: keeps_quiet_def ret_def raise_def)

lemma keeps_quiet_bind: "keeps_quiet m \<Longrightarrow> (\<And>a. keeps_quiet (f a)) \<Longrightarrow> keeps_quiet (bind m f)"
  by (auto simp: keeps_quiet_def bind_def split: prod.splits outcome.splits)

lemma keeps_quiet_attempt: "keeps_quiet m \<Longrightarrow> keeps_quiet (attempt m)"
  by (auto simp: keeps_quiet_def attempt_def split: prod.splits outcome.splits)

lemma keeps_quiet_sum:
  "(\<And>a. keeps_quiet (f a)) \<Longrightarrow> (\<And>b. keeps_quiet (g b)) \<Longrightarrow> keeps_quiet (case x of Inl a \<Rightarrow> f a | Inr b \<Rightarrow> g b)"
  by (simp split: sum.split)

lemma keeps_quiet_if: "keeps_quiet a \<Longrightarrow> keeps_quiet b \<Longrightarrow> keeps_quiet (if c then a else b)"
  by simp

lemma keeps_quiet_create_dir: "keeps_quiet (fs_create_dir p)"
  by (auto simp: keeps_quiet_def fs_create_dir_def quiet_call split: sum.split)

lemma keeps_wf_create_dir: "keeps_wf (fs_create_dir p)"
  unfolding fs_create_dir_def simple_call_def
  by (rule keeps_wf_syscall) (auto simp: wf_fs_def split: sum.split)

lemma keeps_is_dir: "keeps_quiet (is_dir p)" "keeps_wf (is_dir p)"
proof -
  show "keeps_quiet (is_dir p)"
    by (auto simp: keeps_quiet_def is_dir_def bind_def attempt_def ret_def fs_metadata_def quiet_call
        split: sum.split prod.splits outcome.splits)
  show "keeps_wf (is_dir p)" unfolding is_dir_def by (intro keeps_wf_intros)
qed

lemma keeps_create_dir_all: "keeps_quiet (create_dir_all cs)" "keeps_wf (create_dir_all cs)"
proof (induction cs)
  case Nil
  show "keeps_quiet (create_dir_all [])" "keeps_wf (create_dir_all [])" by (simp_all add: keeps_quiet_ret)
next
  case (Cons c cs)
  show "keeps_quiet (create_dir_all (c # cs))"
    unfolding create_dir_all.simps Let_def
    by (intro keeps_quiet_bind keeps_quiet_attempt keeps_quiet_sum keeps_quiet_if keeps_quiet_ret keeps_quiet_raise
        keeps_quiet_create_dir keeps_is_dir Cons.IH)
  show "keeps_wf (create_dir_all (c # cs))"
    unfolding create_dir_all.simps Let_def
    by (intro keeps_wf_intros keeps_wf_create_dir keeps_is_dir Cons.IH)
qed

lemma looks_quiet:
  assumes "looks m" and "sched fs = []" and "m fs = (x, fs')" and "keeps_quiet m"
  shows "fs' = fs"
proof -
  have "calm fs" using assms(2) by (simp add: calm_def)
  from looksD [OF assms(1) this assms(3)] have "same_tree fs fs'" by simp
  moreover have "sched fs' = []" using keeps_quietD [OF assms(4,2,3)] .
  ultimately show ?thesis using assms(2) by (cases fs; cases fs') (simp add: same_tree_def)
qed

lemma open_root_Done:
  assumes "sched fs = []" and "wf_fs fs" and "open_root root fs = (Done q, fs')"
  shows "sched fs' = [] \<and> wf_fs fs' \<and> resolve fs' root = Inr q"
proof -
  let ?make = "\<lambda>there. if there then check_directory root else map_err RefIo (create_dir_all (rev root))"
  from assms(3) [unfolded open_root_def] obtain there fs1
    where 1: "(path_exists root :: (registry_error, bool) prog) fs = (Done there, fs1)"
    and rest: "bind (?make there) (\<lambda>_. map_err RefIo (fs_canonicalize root)) fs1 = (Done q, fs')"
    by (rule bind_Done_elim)
  from rest obtain fs2 where 2: "?make there fs1 = (Done (), fs2)" and 3: "fs_canonicalize root fs2 = (Done q, fs')"
    by (rule bind_Done_elim) (simp add: map_err_Done)
  have "fs1 = fs" using 1
    by (auto simp: path_exists_def fs_metadata_def quiet_call [OF assms(1)] bind_def attempt_def ret_def
        split: sum.splits)
  moreover have "sched fs2 = [] \<and> wf_fs fs2"
  proof (cases there)
    case True
    with 2 \<open>fs1 = fs\<close> have run: "check_directory root fs = (Done (), fs2)" by simp
    then have "fs2 = fs"
      by (auto simp: check_directory_def fs_symlink_metadata_def quiet_call [OF assms(1)] bind_def map_err_def ret_def raise_def
          split: sum.splits option.splits if_splits)
    with assms show ?thesis by simp
  next
    case False
    with 2 \<open>fs1 = fs\<close> have "create_dir_all (rev root) fs = (Done (), fs2)" by (simp add: io_simps)
    with assms(1,2) keeps_create_dir_all show ?thesis by (blast intro: keeps_quietD keeps_wfD)
  qed
  ultimately show ?thesis
    using 3 by (auto simp: fs_canonicalize_def quiet_call split: sum.splits)
qed

lemma resolved_directory:
  assumes "resolve fs p = Inr d" and "entries fs d = Some Folder \<or> d = []"
  shows "real_directory (entries fs) d"
proof -
  have "resolved (entries fs) d"
    using assms(1) by (auto simp: resolve_def intro: resolve_from_resolved)
  with assms(2) show ?thesis by (auto simp: resolved_def)
qed

lemma locate_child_directory:
  assumes "resolve fs p = Inr d" and "locate fs (d @ [c]) = Inr q" and "plain c"
  shows "real_directory (entries fs) d \<and> q = d @ [c]"
proof -
  have "resolve fs d = Inr d" using assms(1) by (rule resolve_canonical(1))
  with assms(2,3) have "d = [] \<or> entries fs d = Some Folder" and "q = d @ [c]"
    by (auto simp: locate_def plain_def split: if_splits)
  with resolved_directory [OF assms(1)] show ?thesis by auto
qed

lemma open_packs_Done:
  assumes quiet: "sched fs = []" and "wf_fs fs" and root: "resolve fs p = Inr d"
    and run: "open_packs (d @ [''packs'']) fs = (Done (), fs')"
  shows "sched fs' = [] \<and> wf_fs fs' \<and> real_directory (entries fs') (d @ [''packs''])"
proof -
  have plain: "plain ''packs''" by (simp add: plain_def)
  let ?p = "d @ [''packs'']"
  show ?thesis
  proof (cases "fs_symlink_metadata ?p fs")
    case (Pair r fs1)
    have fs1: "fs1 = fs" using Pair
      by (auto simp: fs_symlink_metadata_def quiet_call [OF quiet] split: sum.splits option.splits)
    show ?thesis
    proof (cases r)
      case (Done m)
      with Pair run fs1 have c: "check_directory ?p fs = (Done (), fs')"
        by (simp add: open_packs_def bind_def attempt_def)
      from Pair Done fs1 obtain q where "locate fs ?p = Inr q" "m = metadata_of fs q" "entries fs q \<noteq> None"
        by (auto simp: fs_symlink_metadata_def quiet_call [OF quiet] split: sum.splits option.splits)
      with locate_child_directory [OF root _ plain] have loc: "real_directory (entries fs) d" "m = metadata_of fs ?p"
        by auto
      from c Pair Done fs1 have "meta_is_dir m" "fs' = fs"
        by (auto simp: check_directory_def bind_def map_err_def raise_def ret_def split: if_splits)
      with loc assms(2) quiet plain show ?thesis
        by (auto simp: metadata_of_def real_directory_snoc split: option.splits)
    next
      case (Raise e)
      with Pair run fs1 have c: "fs_create_dir ?p fs = (Done (), fs')"
        by (auto simp: open_packs_def bind_def attempt_def raise_def map_err_Done split: if_splits)
      then obtain q where q: "locate fs ?p = Inr q" "fs' = fs\<lparr>entries := (entries fs)(q \<mapsto> Folder)\<rparr>"
        by (auto simp: fs_create_dir_def quiet_call [OF quiet] split: sum.splits if_splits)
      with locate_child_directory [OF root _ plain] have "real_directory (entries fs) d" "q = ?p" by auto
      with q assms(2) quiet plain real_directory_child [of "entries fs" d] show ?thesis
        by (auto simp: real_directory_snoc wf_fs_def)
    next
      case (Halt h)
      with Pair run show ?thesis by (simp add: open_packs_def bind_def attempt_def)
    qed
  qed
qed

lemma open_lock_Done:
  assumes quiet: "sched fs = []" and "wf_fs fs" and dir: "real_directory (entries fs) (d @ [''packs''])"
    and run: "open_lock (d @ [''writer.lock'']) lock fs = (Done (), fs')"
  shows "sched fs' = [] \<and> wf_fs fs' \<and> real_directory (entries fs') (d @ [''packs'']) \<and>
    (\<exists>i. entries fs' (d @ [''writer.lock'']) = Some (Name i))"
proof -
  let ?p = "d @ [''writer.lock'']"
  have plain: "plain ''writer.lock''" "plain ''packs''" by (simp_all add: plain_def)
  have d: "real_directory (entries fs) d" using dir by (simp add: real_directory_snoc)
  note loc = locate_in_directory [OF d plain(1)]
  show ?thesis
  proof (cases "entries fs ?p")
    case None
    have "fs_open_or_create ?p fs = (Done (next_inode fs), new_file ?p [] fs) \<or> (\<exists>e. fs_open_or_create ?p fs = (Raise e, fs))"
    proof -
      have "resolve fs ?p = Inl NotFound"
        using resolve_from_append [of "entries fs" max_links "[]" d "[''writer.lock'']"] d None
          resolve_from_real_directory [of "entries fs" "[]" d] by (simp add: resolve_def)
      then show ?thesis using loc None by (simp add: fs_open_or_create_def quiet_call [OF quiet])
    qed
    with None run have "fs' = new_file ?p [] fs"
      by (auto simp: open_lock_def bind_def attempt_def map_err_def ret_def raise_def
          quiet_symlink_metadata [OF quiet d plain(1)] split: lock_result.splits)
    moreover have "real_directory ((entries fs)(?p \<mapsto> Name i)) (d @ [''packs''])" for i
      using real_directory_child [OF d] dir by (simp add: real_directory_snoc)
    ultimately show ?thesis using wf_new_file [OF assms(2)] quiet by (simp add: new_file_def)
  next
    case (Some e)
    from run obtain m fs1 where reg: "regular_file ?p fs = (Done m, fs1)"
      by (auto simp: open_lock_def bind_def attempt_def map_err_def quiet_symlink_metadata [OF quiet d plain(1)] Some
          split: prod.splits outcome.splits)
    have "calm fs" using quiet by (simp add: calm_def)
    from regular_file_Done [OF this d plain(1) reg] obtain i where i: "entries fs ?p = Some (Name i)" by auto
    from assms(2) i obtain f where "inodes fs i = Some f" by (auto simp: wf_fs_def)
    then have b: "bytes_at fs ?p = Some (content f)" using i by (simp add: bytes_at_def file_at_def inode_at_def)
    have "lock = Locked"
      using run by (auto simp: open_lock_def io_simps split: lock_result.splits)
    with run quiet_open_lock [OF quiet d assms(2) i] have "fs' = fs" by simp
    with i dir quiet assms(2) show ?thesis by simp
  qed
qed

lemma looks_quiet_call: "keeps_quiet (simple_call op)" if "\<And>fs. snd (op fs) = fs"
  using that by (simp add: keeps_quiet_def quiet_call)

lemma keeps_quiet_map_err: "keeps_quiet m \<Longrightarrow> keeps_quiet (map_err f m)"
  by (auto simp: keeps_quiet_def map_err_def split: prod.splits)

lemma keeps_quiet_reads: "keeps_quiet (regular_file p)" "keeps_quiet (read_bounded p n)"
proof -
  have c: "keeps_quiet (fs_symlink_metadata p)" "keeps_quiet (fs_open p)" "keeps_quiet (fs_read_to_end i)" for i
    unfolding fs_symlink_metadata_def fs_open_def fs_read_to_end_def
    by (rule looks_quiet_call, simp split: sum.split option.split)+
  show r: "keeps_quiet (regular_file p)"
    unfolding regular_file_def
    by (intro keeps_quiet_bind keeps_quiet_map_err keeps_quiet_if keeps_quiet_ret keeps_quiet_raise c)
  show "keeps_quiet (read_bounded p n)"
    unfolding read_bounded_def Let_def
    by (intro keeps_quiet_bind keeps_quiet_map_err keeps_quiet_if keeps_quiet_ret keeps_quiet_raise c r)
qed

lemma guard_Done: "(if c then raise e else m) fs = (Done a, fs') \<longleftrightarrow> \<not> c \<and> m fs = (Done a, fs')"
  by (auto simp: raise_def)

text \<open>One source that was loaded: what the checks have seen.\<close>

lemma load_source_pack:
  assumes quiet: "sched fs = []" and dir: "real_directory (entries fs) (root @ [''packs''])" and lim: "limits_ok lim"
    and name: "(validate_pack_name name :: registry_error + unit) = Inr ()"
    and reg: "regular_file (root @ [''packs'', name]) fs = (Done m, fs1)"
    and read: "read_bounded (root @ [''packs'', name]) (max_pack_bytes lim) fs1 = (Done b, fs2)"
  shows "fs1 = fs \<and> fs2 = fs \<and> meta_len m = length b \<and> bytes_at fs (pack_path root name) = Some b \<and>
    length b \<le> max_pack_bytes lim \<and> (\<exists>i. entries fs (pack_path root name) = Some (Name i))"
proof -
  have calm: "calm fs" using quiet by (simp add: calm_def)
  note plain = pack_name_valid(3) [OF name]
  have 1: "fs1 = fs" by (rule looks_quiet [OF looks_store(2) quiet reg keeps_quiet_reads(1)])
  then have 2: "fs2 = fs" using looks_quiet [OF looks_read_bounded quiet _ keeps_quiet_reads(2)] read by blast
  from read_bounded_Done [OF calm dir plain, of "max_pack_bytes lim" b fs2] read 1 lim
  have b: "bytes_at fs (pack_path root name) = Some b" "length b \<le> max_pack_bytes lim"
    "\<exists>i. entries fs (pack_path root name) = Some (Name i)"
    by (simp_all add: pack_path_def limits_ok_def)
  from regular_file_Done [OF calm dir plain, of m fs1] reg obtain i f where
    "entries fs (pack_path root name) = Some (Name i)" "inodes fs i = Some f" "meta_len m = length (content f)"
    by (auto simp: pack_path_def)
  with b 1 2 show ?thesis by (auto simp: bytes_at_def file_at_def inode_at_def)
qed

lemma load_sources_Done:
  assumes "sched fs = []" and "limits_ok (rg_limits r)"
    and "table_ok env (rg_limits r) (rg_sources r) (rg_packs r) (rg_installed_bytes r)"
    and "shelf env (rg_limits r) (rg_root r) (rg_sources r) (rg_packs r) (rg_installed_bytes r) fs"
    and "length (rg_sources r) + length ss \<le> max_sources (rg_limits r)"
    and "load_sources env ss r fs = (Done r', fs')"
  shows "fs' = fs \<and> rg_root r' = rg_root r \<and> rg_limits r' = rg_limits r \<and> rg_commit_uncertain r' = rg_commit_uncertain r \<and>
    table_ok env (rg_limits r) (rg_sources r') (rg_packs r') (rg_installed_bytes r') \<and>
    shelf env (rg_limits r) (rg_root r) (rg_sources r') (rg_packs r') (rg_installed_bytes r') fs \<and>
    mset (rg_sources r') = mset (rg_sources r) + mset (map (\<lambda>s. (source_key_of s, s)) ss)"
  using assms
proof (induction ss arbitrary: r)
  case Nil
  then show ?case by (simp add: io_simps)
next
  case (Cons s ss)
  let ?lim = "rg_limits r" and ?root = "rg_root r" and ?key = "source_key_of s"
  note t = Cons.prems(3) and sh = Cons.prems(4)
  have m: "manifest_ok (ge_codec env) ?lim (ss_manifest s)" and new: "map_of (rg_sources r) ?key = None"
    using Cons.prems(6) by (auto simp: io_simps of_sum_def raise_def ok_iff split: sum.splits if_splits)
  have len: "length (om_put ?key s (rg_sources r)) \<le> max_sources ?lim"
    "length (om_put ?key s (rg_sources r)) + length ss \<le> max_sources ?lim"
    using Cons.prems(5) new t by (auto simp: length_om_put table_ok_def map_of_eq_None_iff)
  have items: "mset (om_put ?key s (rg_sources r)) = add_mset (?key, s) (mset (rg_sources r))"
    using new by (rule mset_om_put)
  have none: "rg_packs r ?key = None" using new t by (simp add: table_ok_def)
  show ?case
  proof (cases "ss_pack s")
    case None
    let ?r = "r\<lparr>rg_sources := om_put ?key s (rg_sources r)\<rparr>"
    have off: "\<not> ss_enabled s" and run: "load_sources env ss ?r fs = (Done r', fs')"
      using Cons.prems(6) None new by (auto simp: io_simps of_sum_def raise_def split: sum.splits if_splits)
    have "source_ok env ?lim (rg_packs r) ?key s" using m off none None by (simp add: source_ok_def)
    from table_put_same [OF t this len(1)] have t': "table_ok env ?lim (rg_sources ?r) (rg_packs ?r) (rg_installed_bytes ?r)" by simp
    have sh': "shelf env ?lim ?root (rg_sources ?r) (rg_packs ?r) (rg_installed_bytes ?r) fs"
      using shelf_put [OF t sh, of "rg_packs r" s ?key "rg_installed_bytes r"] new None
      by (simp add: stored_pack_def pack_size_def)
    from Cons.IH [of ?r] run Cons.prems(1,2) t' sh' len(2) items show ?thesis by simp
  next
    case (Some name)
    from Cons.prems(6) Some new obtain md fs1 b fs2 pack n where
      name: "(validate_pack_name name :: registry_error + unit) = Inr ()"
      and reg: "regular_file (?root @ [''packs'', name]) fs = (Done md, fs1)"
      and n: "(add_checked (rg_installed_bytes r) (meta_len md) ''installed bytes'' :: registry_error + nat) = Inr n"
        "n \<le> max_installed_bytes ?lim"
      and read: "read_bounded (?root @ [''packs'', name]) (max_pack_bytes ?lim) fs1 = (Done b, fs2)"
      and b: "pack_name (ge_codec env) b = name"
        "(from_json (ge_codec env) b (sm_digest (ss_manifest s)) ?lim :: registry_error + validated_pack) = Inr pack"
        "vp_manifest pack = ss_manifest s"
      and run: "load_sources env ss (r\<lparr>rg_installed_bytes := n, rg_packs := (rg_packs r)(?key \<mapsto> pack),
        rg_sources := om_put ?key s (rg_sources r)\<rparr>) fs2 = (Done r', fs')"
      by (simp add: bind_Done of_sum_Done guard_Done Let_def) (auto simp: not_less)
    let ?r = "r\<lparr>rg_installed_bytes := n, rg_packs := (rg_packs r)(?key \<mapsto> pack),
        rg_sources := om_put ?key s (rg_sources r)\<rparr>"
    from load_source_pack [OF Cons.prems(1) shelf_dirs(2) [OF sh] Cons.prems(2) name reg read]
    have f: "fs2 = fs" "meta_len md = length b" "bytes_at fs (pack_path ?root name) = Some b"
      "length b \<le> max_pack_bytes ?lim" "\<exists>i. entries fs (pack_path ?root name) = Some (Name i)" by auto
    have "source_ok env ?lim (rg_packs ?r) ?key s"
      using m b(3) from_json_own_digest(2) [OF Cons.prems(2) b(2)] Some by (simp add: source_ok_def)
    then have t': "table_ok env ?lim (rg_sources ?r) (rg_packs ?r) (rg_installed_bytes ?r)"
      using table_put [OF t, of "rg_packs ?r" ?key s n] len(1) n(2) by simp
    have "stored_pack env ?lim ?root (rg_packs ?r) fs s"
      using name b f Some by (auto simp: stored_pack_def)
    then have sh': "shelf env ?lim ?root (rg_sources ?r) (rg_packs ?r) (rg_installed_bytes ?r) fs"
      using shelf_put [OF t sh, of "rg_packs ?r" s ?key n] n(1) f new Some
      by (simp add: add_checked_Inr pack_size_def)
    have run': "load_sources env ss ?r fs = (Done r', fs')" using run f(1) by simp
    have lim': "limits_ok (rg_limits ?r)" "length (rg_sources ?r) + length ss \<le> max_sources (rg_limits ?r)"
      using Cons.prems(2) len(2) by simp_all
    have inv: "table_ok env (rg_limits ?r) (rg_sources ?r) (rg_packs ?r) (rg_installed_bytes ?r)"
      "shelf env (rg_limits ?r) (rg_root ?r) (rg_sources ?r) (rg_packs ?r) (rg_installed_bytes ?r) fs"
      using t' sh' by simp_all
    from Cons.IH [OF Cons.prems(1) lim'(1) inv lim'(2) run'] items show ?thesis by simp
  qed
qed

lemma open_registry_file_Done:
  assumes quiet: "sched fs = []" and lim: "limits_ok lim" and wf: "wf_fs fs"
    and sh: "shelf env lim root [] Map.empty 0 fs"
    and run: "open_registry_file env (empty_registry root lim) fs = (Done r, fs')"
  shows "fs' = fs \<and> rg_root r = root \<and> rg_limits r = lim \<and> \<not> rg_commit_uncertain r \<and> registry_on_disk env r fs"
proof -
  let ?e = "empty_registry root lim" and ?p = "root @ [''registry.json'']"
  have calm: "calm fs" using quiet by (simp add: calm_def)
  have plain: "plain ''registry.json''" by (simp add: plain_def)
  note dir = shelf_dirs(1) [OF sh]
  have t: "table_ok env lim [] Map.empty 0" by (simp add: table_ok_def om_ok_def)
  obtain x fs1 where read: "read_bounded ?p (max_registry_bytes lim) fs = (x, fs1)" by force
  have fs1: "fs1 = fs" by (rule looks_quiet [OF looks_read_bounded quiet read keeps_quiet_reads(2)])
  show ?thesis
  proof (cases x)
    case (Raise e)
    with run read fs1 have e: "e = RefIo NotFound" and r: "r = ?e" "fs' = fs"
      by (auto simp: open_registry_file_def empty_registry_def bind_def attempt_def ret_def raise_def split: if_splits)
    have "entries fs ?p = None"
    proof (rule ccontr)
      assume some: "entries fs ?p \<noteq> None"
      have meta: "fs_symlink_metadata ?p fs = (Done (metadata_of fs ?p), fs)"
        using some by (simp add: quiet_symlink_metadata [OF quiet dir plain])
      show False
      proof (cases "meta_is_file (metadata_of fs ?p)")
        case False
        with meta read Raise e show False
          by (simp add: read_bounded_def regular_file_def bind_def map_err_def raise_def ret_def)
      next
        case True
        then obtain i f where "entries fs ?p = Some (Name i)" "inodes fs i = Some f"
          by (auto simp: metadata_of_def file_at_def inode_at_def bind_eq_Some_conv split: option.splits entry.splits)
        with meta True read Raise e resolve_in_directory [OF dir plain] show False
          by (auto simp: read_bounded_def regular_file_def bind_def map_err_def raise_def ret_def fs_open_def
              fs_read_to_end_def quiet_call [OF quiet] inode_at_def Let_def split: if_splits)
      qed
    qed
    with r t sh calm wf show ?thesis
      by (simp add: empty_registry_def registry_on_disk_def on_disk_def written_def registry_json_def)
  next
    case (Done b)
    with run read fs1 obtain saved where saved: "ge_decode env b = Inr saved"
      "rf_schema_version saved = SCHEMA_VERSION" "length (rf_sources saved) \<le> max_sources lim"
      and load: "load_sources env (rf_sources saved) ?e fs = (Done r, fs')"
      by (auto simp: open_registry_file_def empty_registry_def bind_def attempt_def raise_def split: sum.splits if_splits)
    have named: "bytes_at fs ?p = Some b" "length b \<le> max_registry_bytes lim" "\<exists>i. entries fs ?p = Some (Name i)"
      using read_bounded_Done [OF calm dir plain, of "max_registry_bytes lim" b fs1] read Done lim
      by (simp_all add: limits_ok_def)
    note l = load_sources_Done [OF quiet, of ?e env, unfolded empty_registry_def, simplified, OF lim t sh saved(3),
        folded empty_registry_def, OF load]
    have "map snd (map (\<lambda>s. (source_key_of s, s)) ss) = ss" for ss by (simp add: comp_def)
    then have "written env lim root (rg_sources r) fs"
      using l named saved(1,2) by (cases saved) (auto simp: written_def registry_json_def
          intro!: exI [of _ b] exI [of _ "map (\<lambda>s. (source_key_of s, s)) (rf_sources saved)"])
    with l calm wf show ?thesis by (simp add: registry_on_disk_def on_disk_def)
  next
    case (Halt h)
    with run read show ?thesis by (simp add: open_registry_file_def empty_registry_def bind_def attempt_def)
  qed
qed

lemma open_stands:
  assumes quiet: "sched fs = []" and wf: "wf_fs fs" and lim: "limits_ok lim"
    and run: "open_with_limits env lock root lim fs = (Done r, fs')"
  shows "sched fs' = [] \<and> rg_limits r = lim \<and> \<not> rg_commit_uncertain r \<and> registry_on_disk env r fs'"
proof -
  from run obtain d fs1 fs2 fs3 where 1: "open_root root fs = (Done d, fs1)"
    and 2: "open_packs (d @ [''packs'']) fs1 = (Done (), fs2)"
    and 3: "open_lock (d @ [''writer.lock'']) lock fs2 = (Done (), fs3)"
    and 4: "open_registry_file env (empty_registry d lim) fs3 = (Done r, fs')"
    by (auto simp: open_with_limits_def io_simps)
  from open_root_Done [OF quiet wf 1] have s1: "sched fs1 = []" "wf_fs fs1" "resolve fs1 root = Inr d" by auto
  from open_packs_Done [OF s1 2] have s2: "sched fs2 = []" "wf_fs fs2" "real_directory (entries fs2) (d @ [''packs''])" by auto
  from open_lock_Done [OF s2 3] have s3: "sched fs3 = []" "wf_fs fs3" "shelf env lim d [] Map.empty 0 fs3"
    by (auto simp: shelf_def)
  from open_registry_file_Done [OF s3(1) lim s3(2,3) 4] s3(1) show ?thesis by auto
qed

section \<open>Properties\<close>

lemma opened_world:
  assumes "limits_ok lim" and "wf_fs fs" and "sched fs = []"
    and "open_with_limits env lock root lim fs = (Done r, fs')" and "calm (fs'\<lparr>sched := ts\<rparr>)"
  shows "world_ok env (Running r (fs'\<lparr>sched := ts\<rparr>))"
proof -
  from open_stands [OF assms(3,2,1,4)] have r: "rg_limits r = lim" "\<not> rg_commit_uncertain r" "registry_on_disk env r fs'"
    by auto
  then have "registry_on_disk env r (fs'\<lparr>sched := ts\<rparr>)"
    using on_disk_sched [OF _ assms(5)] by (simp add: registry_on_disk_def)
  with r assms(1) show ?thesis by (simp add: world_ok_def registry_ok_def registry_on_disk_def on_disk_def)
qed

lemma opened_run:
  assumes "registry_env_ok env" and "limits_ok lim" and "wf_fs fs" and "sched fs = []"
    and "open_with_limits env lock root lim fs = (Done r, fs')" and "calm (fs'\<lparr>sched := ts\<rparr>)"
  shows "world_ok env (fold (registry_step env) ops (Running r (fs'\<lparr>sched := ts\<rparr>)))"
  using registry.run_inv [of env "Running r (fs'\<lparr>sched := ts\<rparr>)" ops] opened_world [OF assms(2-6)] assms(1) by simp

text \<open>
  C6: memory and disk of a registry agree in every run. From a registry that was opened over any tree,
  through any sequence of operations of which any system call may fail or be the last one: the
  table has one entry per key, in order; only what is installed is enabled; every installed source
  has a validated pack with its manifest; the limits on sources and bytes hold; and while no commit
  is uncertain the disk holds exactly this table, otherwise it holds a valid one. Where the process
  died, the disk holds a valid table too.
\<close>

theorem registry_run_kept:
  assumes "registry_env_ok env" and "limits_ok lim" and "wf_fs fs" and "sched fs = []"
    and "open_with_limits env lock root lim fs = (Done r, fs')" and "calm (fs'\<lparr>sched := ts\<rparr>)"
  shows "world_ok env (fold (registry_step env) ops (Running r (fs'\<lparr>sched := ts\<rparr>)))"
  using assms by (rule opened_run)

text \<open>A directory in which a registry without sources lies.\<close>

definition sample_registry_env :: registry_env where
  "sample_registry_env = \<lparr>ge_codec = sample_codec,
     ge_encode = (\<lambda>f. if f = \<lparr>rf_schema_version = 1, rf_sources = []\<rparr> then Inr ''{}'' else Inl ''no''),
     ge_decode = (\<lambda>b. if b = ''{}'' then Inr \<lparr>rf_schema_version = 1, rf_sources = []\<rparr> else Inl ''no''), ge_pid = 7\<rparr>"

definition empty_directory :: fs where
  "empty_directory = \<lparr>entries = [[''ref''] \<mapsto> Folder, [''ref'', ''packs''] \<mapsto> Folder, [''ref'', ''writer.lock''] \<mapsto> Name 0],
     inodes = [0 \<mapsto> \<lparr>content = [], readonly = False\<rparr>], next_inode = 1, sched = []\<rparr>"

lemma sample_registry_facts:
  shows sample_registry_env_ok: "registry_env_ok sample_registry_env" and sample_limits_ok: "limits_ok sample_limits"
    and empty_directory_wf: "wf_fs empty_directory" and empty_directory_quiet: "sched empty_directory = []"
  by (auto simp: registry_env_ok_def sample_registry_env_def limits_ok_def sample_limits_def USIZE_MAX_def
      wf_fs_def empty_directory_def)

lemma sample_registry_opens:
  obtains r fs' where "open_with_limits sample_registry_env Locked [''ref''] sample_limits empty_directory = (Done r, fs')"
proof -
  have dir: "real_directory (entries empty_directory) ([''ref''] @ [''packs''])"
    using real_directory_snoc [of "entries empty_directory" "[]" "''ref''"]
    by (subst real_directory_snoc) (simp add: empty_directory_def plain_def)
  then have "on_disk sample_registry_env sample_limits [''ref''] [] Map.empty 0 empty_directory"
    using empty_directory_wf empty_directory_quiet
    by (auto simp: on_disk_def calm_def table_ok_def om_ok_def shelf_def written_def)
      (simp_all add: empty_directory_def registry_json_def)
  from open_finds [OF sample_limits_ok empty_directory_quiet _ this] that show ?thesis by simp
qed

theorem registry_run_kept_witness:
  "\<exists>r fs'. open_with_limits sample_registry_env Locked [''ref''] sample_limits empty_directory = (Done r, fs') \<and>
     world_ok sample_registry_env (fold (registry_step sample_registry_env) [Advertise sample_manifest id]
       (Running r (fs'\<lparr>sched := [([], Die 0)]\<rparr>)))"
proof -
  obtain r fs' where run: "open_with_limits sample_registry_env Locked [''ref''] sample_limits empty_directory = (Done r, fs')"
    by (rule sample_registry_opens)
  have "calm (fs'\<lparr>sched := [([], Die 0)]\<rparr>)" by (simp add: calm_def)
  from registry_run_kept [OF sample_registry_env_ok sample_limits_ok empty_directory_wf empty_directory_quiet run this] run
  show ?thesis by blast
qed

text \<open>
  C25: what was committed is found again. After any such run, opening the directory again finds exactly
  the registry that was in memory; if a commit is uncertain, or the process died inside an
  operation, it finds a valid registry.
\<close>

theorem registry_reopens:
  assumes "registry_env_ok env" and "limits_ok lim" and "wf_fs fs" and "sched fs = []"
    and "open_with_limits env lock root lim fs = (Done r, fs')" and "calm (fs'\<lparr>sched := ts\<rparr>)"
  shows "case fold (registry_step env) ops (Running r (fs'\<lparr>sched := ts\<rparr>)) of
      Running r'' fs'' \<Rightarrow> rg_root r'' \<noteq> [] \<longrightarrow>
        (\<exists>x. open_with_limits env Locked (rg_root r'') (rg_limits r'') (fs''\<lparr>sched := []\<rparr>) = (Done x, fs''\<lparr>sched := []\<rparr>) \<and>
          (rg_commit_uncertain r'' \<or> x = r''))
    | Dead root' lim' fs'' \<Rightarrow> root' \<noteq> [] \<and> limits_ok lim' \<longrightarrow>
        (\<exists>x. open_with_limits env Locked root' lim' (fs''\<lparr>sched := []\<rparr>) = (Done x, fs''\<lparr>sched := []\<rparr>))"
proof -
  have quiet: "calm (fs''\<lparr>sched := []\<rparr>)" for fs'' :: fs by (simp add: calm_def)
  note finds = open_finds [OF _ _ _ on_disk_sched [OF _ quiet]]
  from opened_run [OF assms, of ops] show ?thesis
    by (auto simp: world_ok_def registry_ok_def registry_on_disk_def recoverable_def finds
        split: registry_world.splits if_splits)
qed

theorem registry_reopens_witness:
  "\<exists>r fs'. open_with_limits sample_registry_env Locked [''ref''] sample_limits empty_directory = (Done r, fs') \<and>
     (rg_root r \<noteq> [] \<longrightarrow> (\<exists>x. open_with_limits sample_registry_env Locked (rg_root r) (rg_limits r) (fs'\<lparr>sched := []\<rparr>) =
       (Done x, fs'\<lparr>sched := []\<rparr>) \<and> (rg_commit_uncertain r \<or> x = r)))"
proof -
  obtain r fs' where run: "open_with_limits sample_registry_env Locked [''ref''] sample_limits empty_directory = (Done r, fs')"
    by (rule sample_registry_opens)
  have "calm (fs'\<lparr>sched := []\<rparr>)" by (simp add: calm_def)
  from registry_reopens [OF sample_registry_env_ok sample_limits_ok empty_directory_wf empty_directory_quiet run this, of "[]"] run
  show ?thesis by auto
qed

text \<open>
  C27: a look-up answers exactly from the enabled sources. It is refused if and only if the query is
  malformed or over a limit; otherwise it lists the matching entries of the sources asked for that
  are enabled, in the order of the query and of the packs, cut at the limit.
\<close>

theorem registry_lookup_exact:
  assumes "registry_ok env r fs"
  shows "registry_lookup r q limit = Inr out \<longleftrightarrow>
    query_ok r q limit \<and> out = take limit (concat (map (enabled_matches r q) (lq_sources q)))"
  using assms by (rule registry_lookup_Inr)

theorem registry_lookup_exact_witness:
  "\<exists>r fs'. registry_lookup r \<lparr>lq_lemma = ''field'', lq_language = None, lq_sources = []\<rparr> 1 = Inr [] \<and>
     open_with_limits sample_registry_env Locked [''ref''] sample_limits empty_directory = (Done r, fs')"
proof -
  obtain r fs' where run: "open_with_limits sample_registry_env Locked [''ref''] sample_limits empty_directory = (Done r, fs')"
    by (rule sample_registry_opens)
  from open_stands [OF empty_directory_quiet empty_directory_wf sample_limits_ok run]
  have "registry_ok sample_registry_env r fs'" "rg_limits r = sample_limits"
    by (auto simp: registry_ok_def registry_on_disk_def on_disk_def)
  with run registry_lookup_exact [OF this(1), of "\<lparr>lq_lemma = ''field'', lq_language = None, lq_sources = []\<rparr>" 1 "[]"]
  show ?thesis by (intro exI [of _ r] exI [of _ fs']) (simp add: query_ok_def sample_strings given_ok_def, simp add: sample_limits_def sample_strings)
qed

text \<open>Only the successful branches of a publication end in \<open>Inr\<close>.\<close>

lemma published_Inr:
  fixes m :: "('e, ('x + 'u) \<times> 'r) prog"
  assumes "bind m (\<lambda>(res, r). case res of Inl e \<Rightarrow> ret (Inl e, r) | Inr u \<Rightarrow> ret (Inr y, g r)) fs = (Done (Inr z, r'), fs')"
  obtains u r1 where "m fs = (Done (Inr u, r1), fs')" and "z = y" and "r' = g r1"
  using assms by (rule bind_Done_elim) (force simp: ret_def split: prod.splits sum.splits)

lemma attempted_Inr:
  fixes m :: "('x, 'u) prog" and k :: "('e, ('x + 'a) \<times> 'r) prog"
  assumes "bind (attempt m) (\<lambda>res. case res of Inl e \<Rightarrow> ret (Inl e, r) | Inr u \<Rightarrow> k) fs = (Done (Inr z, r'), fs')"
  obtains u fs1 where "m fs = (Done u, fs1)" and "k fs1 = (Done (Inr z, r'), fs')"
proof (cases "m fs")
  case (Pair res fs1)
  then show thesis using assms that by (cases res) (auto simp: bind_def attempt_def ret_def)
qed

lemma publish_Done: "publish env seq b r fs = (Done (Inr u, r'), fs') \<Longrightarrow> r' = r"
  by (auto simp: publish_def bind_Done ret_def)

lemma install_Done:
  assumes "install env seq seq' b pack n r fs = (Done (Inr st, r'), fs')"
  shows "st = \<lparr>st_manifest = vp_manifest pack, st_installed = True, st_enabled = False\<rparr> \<and>
    r' = r\<lparr>rg_sources := om_put (manifest_source_key (vp_manifest pack))
        \<lparr>ss_manifest = vp_manifest pack, ss_enabled = False, ss_pack = Some (pack_name (ge_codec env) b)\<rparr> (rg_sources r),
      rg_packs := (rg_packs r)(manifest_source_key (vp_manifest pack) \<mapsto> pack), rg_installed_bytes := n\<rparr>"
proof (cases "registry_bytes env r (om_put (manifest_source_key (vp_manifest pack))
      \<lparr>ss_manifest = vp_manifest pack, ss_enabled = False, ss_pack = Some (pack_name (ge_codec env) b)\<rparr> (rg_sources r))")
  case (Inl e)
  with assms show ?thesis by (simp add: install_def Let_def ret_def)
next
  case (Inr rb)
  with assms show ?thesis
    by (auto simp: install_def Let_def source_status_of_def dest!: publish_Done elim!: attempted_Inr published_Inr)
qed

text \<open>
  an import that succeeds installs exactly the pack in its bytes, and disabled. Either a source with
  this very manifest was installed already, and nothing changes; or nothing was installed under
  the key, and the table gains the disabled source with the validated pack, all other entries and
  packs staying as they were. An installed version is never replaced.
\<close>

theorem import_json_exact:
  assumes "import_json env seq seq' b expected r fs = (Done (Inr st, r'), fs')"
  shows "\<exists>pack. (from_json (ge_codec env) b expected (rg_limits r) :: registry_error + validated_pack) = Inr pack \<and>
    st_manifest st = vp_manifest pack \<and> st_installed st \<and>
    (let key = manifest_source_key (vp_manifest pack)
     in (\<exists>s. map_of (rg_sources r) key = Some s \<and> ss_pack s \<noteq> None \<and> ss_manifest s = vp_manifest pack \<and> r' = r) \<or>
        ((\<forall>s. map_of (rg_sources r) key = Some s \<longrightarrow> ss_pack s = None) \<and> \<not> st_enabled st \<and>
         map_of (rg_sources r') = (map_of (rg_sources r))(key \<mapsto> \<lparr>ss_manifest = vp_manifest pack, ss_enabled = False,
           ss_pack = Some (pack_name (ge_codec env) b)\<rparr>) \<and>
         rg_packs r' = (rg_packs r)(key \<mapsto> pack) \<and> rg_installed_bytes r' = rg_installed_bytes r + length b))"
proof -
  from assms obtain pack where writable: "require_writable r = Inr ()"
    and pack: "(from_json (ge_codec env) b expected (rg_limits r) :: registry_error + validated_pack) = Inr pack"
    by (auto simp: import_json_def and_then_def ret_def split: sum.splits)
  let ?m = "vp_manifest pack" and ?known = "map_of (rg_sources r) (manifest_source_key (vp_manifest pack))"
    and ?sum = "add_checked (rg_installed_bytes r) (length b) ''installed bytes'' :: registry_error + nat"
  show ?thesis
  proof (cases "import_known ?known ?m")
    case (Some answer)
    with assms pack writable show ?thesis
      by (auto simp: import_json_def ret_def import_known_def source_status_of_def Let_def split: option.splits if_splits)
  next
    case None
    then have free: "\<forall>s. ?known = Some s \<longrightarrow> ss_pack s = None"
      by (auto simp: import_known_def split: if_splits)
    obtain n where "?sum = Inr n" and installed: "install env seq seq' b pack n r fs = (Done (Inr st, r'), fs')"
      using assms pack writable None by (cases ?sum) (auto simp: import_json_def ret_def split: if_splits)
    with install_Done [OF installed] pack free show ?thesis by (auto simp: add_checked_Inr map_of_om_put Let_def)
  qed
qed

text \<open>The largest \<open>usize\<close> stays symbolic when runs are evaluated.\<close>

declare USIZE_MAX_def [code del]

definition one_source_env :: registry_env where
  "one_source_env = sample_registry_env\<lparr>ge_encode := (\<lambda>f. if length (rf_sources f) = 1 then Inr ''1'' else Inl ''no'')\<rparr>"

theorem import_json_exact_witness:
  "\<exists>st r' fs'. import_json one_source_env id id ''{}'' None (empty_registry [''ref''] sample_limits) empty_directory =
      (Done (Inr st, r'), fs') \<and> st_installed st \<and> \<not> st_enabled st"
proof -
  let ?r = "empty_registry [''ref''] sample_limits"
  have pack: "(from_json sample_codec ''{}'' None sample_limits :: registry_error + validated_pack) = Inr sample_validated"
    unfolding from_json_validated [OF sample_limits_usize]
    using sample_is_validated
    by (simp add: utf8_valid_ascii byte_def)
      (simp add: sample_limits_def sample_codec_def sample_validated_def expected_ok_def)
  have "case fst (install one_source_env id id ''{}'' sample_validated 2 ?r empty_directory) of
      Done (Inr st, r') \<Rightarrow> True | _ \<Rightarrow> False" by code_simp
  then obtain st r' fs' where run: "install one_source_env id id ''{}'' sample_validated 2 ?r empty_directory = (Done (Inr st, r'), fs')"
    by (auto split: outcome.splits sum.splits) (metis prod.collapse)
  moreover have "ge_codec one_source_env = sample_codec" and "max_installed_bytes sample_limits = 64" and "2 \<le> USIZE_MAX"
    by (simp_all add: one_source_env_def sample_registry_env_def sample_limits_def USIZE_MAX_def)
  moreover have "rg_limits ?r = sample_limits" and "rg_sources ?r = []" and "rg_installed_bytes ?r = 0"
    and "\<not> rg_commit_uncertain ?r" by (simp_all add: empty_registry_def)
  ultimately have imported: "import_json one_source_env id id ''{}'' None ?r empty_directory = (Done (Inr st, r'), fs')"
    using pack by (simp add: import_json_def require_writable_def ensure_that_def import_known_def add_checked_def
        numeral_2_eq_2 del: One_nat_def)
  from imported import_json_exact [OF imported] show ?thesis
    by (auto simp: empty_registry_def Let_def)
qed

end
