(* ===== verification/Mora_Sound.thy ===== *)
theory Mora_Sound
  imports Knot_Prelude "HOL-Library.Word"
begin

text \<open>
  \<open>mora\<close>, the prosody engine, up to weight: phones (\<open>phone.rs\<close>), syllabification
  (\<open>syllable.rs\<close>) and the mora count (\<open>weight.rs\<close>).

  A function that indexes or subtracts without a check panics outside its range; such a
  function returns an option here and \<open>None\<close> is the panic. Counts of morae are \<open>u8\<close> and
  saturate; \<open>usize\<close> indices into a pronunciation are \<open>nat\<close>.
\<close>

section \<open>Phones\<close>

datatype phone_class = Vowel | Glide | Liquid | Nasal | Fricative | Affricate | Stop

fun sonority :: "phone_class \<Rightarrow> nat" where
  "sonority Vowel = 6"
| "sonority Glide = 5"
| "sonority Liquid = 4"
| "sonority Nasal = 3"
| "sonority Fricative = 2"
| "sonority Affricate = 1"
| "sonority Stop = 0"

datatype stress = NoStress | Unstressed | Secondary | Primary

fun is_prominent :: "stress \<Rightarrow> bool" where
  "is_prominent Primary = True"
| "is_prominent Secondary = True"
| "is_prominent Unstressed = False"
| "is_prominent NoStress = False"

record phone =
  ph_id :: "16 word"
  ph_class :: phone_class
  ph_long :: bool
  ph_stress :: stress

definition phone_new :: "16 word \<Rightarrow> phone_class \<Rightarrow> phone" where
  "phone_new i c = \<lparr>ph_id = i, ph_class = c, ph_long = False, ph_stress = NoStress\<rparr>"

definition with_long :: "bool \<Rightarrow> phone \<Rightarrow> phone" where
  "with_long l p = p\<lparr>ph_long := l\<rparr>"

definition with_stress :: "stress \<Rightarrow> phone \<Rightarrow> phone" where
  "with_stress s p = p\<lparr>ph_stress := s\<rparr>"

definition is_vowel :: "phone \<Rightarrow> bool" where
  "is_vowel p \<longleftrightarrow> ph_class p = Vowel"

text \<open>\<open>slice::get\<close>.\<close>

definition list_get :: "'a list \<Rightarrow> nat \<Rightarrow> 'a option" where
  "list_get xs i = (if i < length xs then Some (xs ! i) else None)"

section \<open>Syllables\<close>

record syllable =
  sy_start :: nat
  sy_nucleus :: nat
  sy_end :: nat

definition onset_len :: "syllable \<Rightarrow> nat option" where
  "onset_len s = (if sy_start s \<le> sy_nucleus s then Some (sy_nucleus s - sy_start s) else None)"

definition coda_len :: "syllable \<Rightarrow> nat option" where
  "coda_len s = (if sy_nucleus s < sy_end s then Some (sy_end s - sy_nucleus s - 1) else None)"

definition is_closed :: "syllable \<Rightarrow> bool option" where
  "is_closed s = map_option (\<lambda>n. 0 < n) (coda_len s)"

record syllable_rule =
  max_onset :: nat
  sibilant_stop_onset :: bool

definition ENGLISH :: syllable_rule where
  "ENGLISH = \<lparr>max_onset = 3, sibilant_stop_onset = True\<rparr>"
definition STRICT :: syllable_rule where
  "STRICT = \<lparr>max_onset = 2, sibilant_stop_onset = False\<rparr>"
definition SIMPLE :: syllable_rule where
  "SIMPLE = \<lparr>max_onset = 1, sibilant_stop_onset = False\<rparr>"

text \<open>\<open>windows(2).all(..)\<close>: the sonority rises at every step.\<close>

fun rises :: "phone list \<Rightarrow> bool" where
  "rises (p # q # ps) \<longleftrightarrow> sonority (ph_class p) < sonority (ph_class q) \<and> rises (q # ps)"
| "rises ps \<longleftrightarrow> True"

definition is_legal_onset :: "phone list \<Rightarrow> syllable_rule \<Rightarrow> bool" where
  "is_legal_onset cluster rule =
     (if length cluster > max_onset rule then False
      else if length cluster < 2 then True
      else let skip = (if sibilant_stop_onset rule \<and> ph_class (cluster ! 0) = Fricative \<and>
                  sonority (ph_class (cluster ! 1)) \<le> sonority Fricative then 1 else 0)
           in rises (drop skip cluster))"

text \<open>
  \<open>syllabify_into\<close> works in a buffer that it is given: a pass over the vowels, a pass over the
  two ends, and a pass that moves the boundary between each two neighbours.
\<close>

fun nuclei_pass :: "nat \<Rightarrow> phone list \<Rightarrow> syllable list \<Rightarrow> nat \<Rightarrow> nat option \<times> syllable list" where
  "nuclei_pass i [] out count = (Some count, out)"
| "nuclei_pass i (p # ps) out count =
     (if is_vowel p then
        (if count \<ge> length out then (None, out)
         else nuclei_pass (i + 1) ps
           (out[count := \<lparr>sy_start = i, sy_nucleus = i, sy_end = i + 1\<rparr>]) (count + 1))
      else nuclei_pass (i + 1) ps out count)"

definition cluster_between :: "phone list \<Rightarrow> nat \<Rightarrow> nat \<Rightarrow> phone list" where
  "cluster_between phones left right = take (right - (left + 1)) (drop (left + 1) phones)"

definition longest_onset :: "phone list \<Rightarrow> syllable_rule \<Rightarrow> nat" where
  "longest_onset cluster rule =
     (case find (\<lambda>k. is_legal_onset (drop (length cluster - k) cluster) rule)
             (rev [1..<Suc (min (length cluster) (max_onset rule))]) of
        Some k \<Rightarrow> k | None \<Rightarrow> 0)"

definition divide_at :: "phone list \<Rightarrow> syllable_rule \<Rightarrow> nat \<Rightarrow> syllable list \<Rightarrow> syllable list" where
  "divide_at phones rule i out =
     (let left = sy_nucleus (out ! i); right = sy_nucleus (out ! (i + 1));
          split = right - longest_onset (cluster_between phones left right) rule;
          out = out[i := (out ! i)\<lparr>sy_end := split\<rparr>]
      in out[i + 1 := (out ! (i + 1))\<lparr>sy_start := split\<rparr>])"

definition syllabify_into ::
  "phone list \<Rightarrow> syllable_rule \<Rightarrow> syllable list \<Rightarrow> nat option \<times> syllable list" where
  "syllabify_into phones rule out =
     (case nuclei_pass 0 phones out 0 of
        (None, out) \<Rightarrow> (None, out)
      | (Some count, out) \<Rightarrow>
          if count = 0 then (Some 0, out)
          else let out = out[0 := (out ! 0)\<lparr>sy_start := 0\<rparr>];
                   out = out[count - 1 := (out ! (count - 1))\<lparr>sy_end := length phones\<rparr>]
               in (Some count, fold (divide_at phones rule) [0..<count - 1] out))"

definition syllabify :: "phone list \<Rightarrow> syllable_rule \<Rightarrow> syllable list" where
  "syllabify phones rule =
     (case syllabify_into phones rule
             (replicate (length phones) \<lparr>sy_start = 0, sy_nucleus = 0, sy_end = 0\<rparr>) of
        (n, out) \<Rightarrow> take (case n of Some n \<Rightarrow> n | None \<Rightarrow> 0) out)"

text \<open>The licence is for a fricative before any obstruent, not for a sibilant before a stop only.\<close>

lemma fricative_stop_licensed: "is_legal_onset [phone_new 13 Fricative, phone_new 30 Stop] ENGLISH"
  by (simp add: is_legal_onset_def ENGLISH_def phone_new_def)

section \<open>Weight\<close>

datatype weight = Light | Heavy | Superheavy

fun weight_rank :: "weight \<Rightarrow> nat" where
  "weight_rank Light = 0"
| "weight_rank Heavy = 1"
| "weight_rank Superheavy = 2"

lemma weight_rank_inj: "weight_rank v = weight_rank w \<longleftrightarrow> v = w"
  by (cases v; cases w) simp_all

instantiation weight :: linorder
begin

definition less_eq_weight :: "weight \<Rightarrow> weight \<Rightarrow> bool" where
  "v \<le> w \<longleftrightarrow> weight_rank v \<le> weight_rank w"

definition less_weight :: "weight \<Rightarrow> weight \<Rightarrow> bool" where
  "v < w \<longleftrightarrow> weight_rank v < weight_rank w"

instance
  by standard (auto simp: less_eq_weight_def less_weight_def weight_rank_inj)

end

definition from_morae :: "8 word \<Rightarrow> weight" where
  "from_morae m = (if m = 0 \<or> m = 1 then Light else if m = 2 then Heavy else Superheavy)"

record weight_rule =
  long_nucleus_morae :: "8 word"
  coda_moraic :: bool
  max_coda_morae :: "8 word"

definition CLASSICAL :: weight_rule where
  "CLASSICAL = \<lparr>long_nucleus_morae = 2, coda_moraic = True, max_coda_morae = 1\<rparr>"
definition MORAIC :: weight_rule where
  "MORAIC = \<lparr>long_nucleus_morae = 2, coda_moraic = True, max_coda_morae = 2\<rparr>"
definition SYLLABIC :: weight_rule where
  "SYLLABIC = \<lparr>long_nucleus_morae = 1, coda_moraic = False, max_coda_morae = 0\<rparr>"

definition saturating_add :: "8 word \<Rightarrow> 8 word \<Rightarrow> 8 word" where
  "saturating_add a b = (if unat a + unat b < 256 then a + b else 255)"

definition morae :: "phone list \<Rightarrow> syllable \<Rightarrow> weight_rule \<Rightarrow> 8 word option" where
  "morae phones s rule =
     (case list_get phones (sy_nucleus s) of
        None \<Rightarrow> Some 0
      | Some nucleus \<Rightarrow>
          let n = (if ph_long nucleus then long_nucleus_morae rule else 1)
          in if coda_moraic rule
             then map_option (\<lambda>c. saturating_add n (of_nat (min c (unat (max_coda_morae rule))))) (coda_len s)
             else Some n)"

definition syllable_weight :: "phone list \<Rightarrow> syllable \<Rightarrow> weight_rule \<Rightarrow> weight option" where
  "syllable_weight phones s rule = map_option from_morae (morae phones s rule)"

text \<open>The sum is a \<open>u32\<close> one; a sum that does not fit panics.\<close>

fun checked_sum :: "nat list \<Rightarrow> 32 word \<Rightarrow> 32 word option" where
  "checked_sum [] acc = Some acc"
| "checked_sum (n # ns) acc =
     (if unat acc + n < 2 ^ 32 then checked_sum ns (acc + of_nat n) else None)"

definition total_morae :: "phone list \<Rightarrow> syllable list \<Rightarrow> weight_rule \<Rightarrow> 32 word option" where
  "total_morae phones syllables rule =
     Option.bind (collect_options (map (\<lambda>s. morae phones s rule) syllables))
       (\<lambda>ms. checked_sum (map unat ms) 0)"

text \<open>The outer option is the panic, the inner one the empty word.\<close>

definition penultimate_stress ::
  "phone list \<Rightarrow> syllable list \<Rightarrow> weight_rule \<Rightarrow> nat option option" where
  "penultimate_stress phones syllables rule =
     (if length syllables = 0 then Some None
      else if length syllables \<le> 2 then Some (Some 0)
      else let penult = length syllables - 2
           in map_option (\<lambda>w. Some (if w \<ge> Heavy then penult else length syllables - 3))
                (syllable_weight phones (syllables ! penult) rule))"


section \<open>What a syllabification is\<close>

text \<open>
  The specification: the nuclei are the positions of the vowels, and between two of them the
  boundary lies before the longest legal onset.
\<close>

fun nuclei_from :: "nat \<Rightarrow> phone list \<Rightarrow> nat list" where
  "nuclei_from i [] = []"
| "nuclei_from i (p # ps) = (if is_vowel p then i # nuclei_from (Suc i) ps else nuclei_from (Suc i) ps)"

definition boundary :: "phone list \<Rightarrow> syllable_rule \<Rightarrow> nat \<Rightarrow> nat \<Rightarrow> nat" where
  "boundary phones rule l r = r - longest_onset (cluster_between phones l r) rule"

fun divide :: "phone list \<Rightarrow> syllable_rule \<Rightarrow> nat \<Rightarrow> nat list \<Rightarrow> syllable list" where
  "divide phones rule s [] = []"
| "divide phones rule s [n] = [\<lparr>sy_start = s, sy_nucleus = n, sy_end = length phones\<rparr>]"
| "divide phones rule s (n # m # ns) =
     \<lparr>sy_start = s, sy_nucleus = n, sy_end = boundary phones rule n m\<rparr> #
     divide phones rule (boundary phones rule n m) (m # ns)"

definition syllables_of :: "phone list \<Rightarrow> syllable_rule \<Rightarrow> syllable list" where
  "syllables_of phones rule = divide phones rule 0 (nuclei_from 0 phones)"

lemma length_divide [simp]: "length (divide phones rule s ns) = length ns"
  by (induction phones rule s ns rule: divide.induct) simp_all

lemma map_nucleus_divide [simp]: "map sy_nucleus (divide phones rule s ns) = ns"
  by (induction phones rule s ns rule: divide.induct) simp_all

lemma nuclei_from_bounds: "n \<in> set (nuclei_from i ps) \<Longrightarrow> i \<le> n \<and> n < i + length ps"
  by (induction i ps rule: nuclei_from.induct) (fastforce split: if_splits)+

lemma nuclei_from_iff: "n \<in> set (nuclei_from i ps) \<longleftrightarrow> i \<le> n \<and> n < i + length ps \<and> is_vowel (ps ! (n - i))"
proof (induction i ps rule: nuclei_from.induct)
  case (2 i p ps)
  show ?case
  proof (cases "n = i")
    case True
    then show ?thesis using nuclei_from_bounds [of n "Suc i" ps] by auto
  next
    case False
    then have "i \<le> n \<Longrightarrow> n - i = Suc (n - Suc i)" by simp
    with False 2 show ?thesis by (auto simp: Suc_le_eq)
  qed
qed simp

lemma sorted_nuclei_from: "sorted_wrt (<) (nuclei_from i ps)"
proof (induction i ps rule: nuclei_from.induct)
  case (2 i p ps)
  then show ?case using nuclei_from_bounds [of _ "Suc i" ps] by (auto simp: Suc_le_eq)
qed simp

lemma length_nuclei_from: "length (nuclei_from i ps) = length (filter is_vowel ps)"
  by (induction i ps rule: nuclei_from.induct) auto

section \<open>The buffer algorithm computes it\<close>

definition seed :: "nat \<Rightarrow> syllable" where
  "seed i = \<lparr>sy_start = i, sy_nucleus = i, sy_end = i + 1\<rparr>"

lemma take_Suc_update: "k < length xs \<Longrightarrow> take (Suc k) (xs[k := x]) = take k xs @ [x]"
  by (simp add: take_Suc_conv_app_nth)

lemma nuclei_pass_fits:
  "count + length (nuclei_from i ps) \<le> length out \<Longrightarrow>
    nuclei_pass i ps out count =
      (Some (count + length (nuclei_from i ps)),
       take count out @ map seed (nuclei_from i ps) @ drop (count + length (nuclei_from i ps)) out)"
proof (induction i ps out count rule: nuclei_pass.induct)
  case (2 i p ps out count)
  then show ?case
    by (auto simp: seed_def take_Suc_update)
qed simp

lemma nuclei_pass_short:
  "count \<le> length out \<Longrightarrow> length out < count + length (nuclei_from i ps) \<Longrightarrow>
    fst (nuclei_pass i ps out count) = None"
  by (induction i ps out count rule: nuclei_pass.induct) (auto split: if_splits)

text \<open>The buffer when the neighbours are still to be divided.\<close>

fun seeds :: "nat \<Rightarrow> nat \<Rightarrow> nat list \<Rightarrow> syllable list" where
  "seeds len s [] = []"
| "seeds len s [n] = [\<lparr>sy_start = s, sy_nucleus = n, sy_end = len\<rparr>]"
| "seeds len s (n # m # ns) = \<lparr>sy_start = s, sy_nucleus = n, sy_end = n + 1\<rparr> # seeds len m (m # ns)"

lemma seeds_last:
  "ns \<noteq> [] \<Longrightarrow> (map seed ns @ rest)[length ns - 1 := ((map seed ns @ rest) ! (length ns - 1))\<lparr>sy_end := len\<rparr>]
    = seeds len (hd ns) ns @ rest"
proof (induction len "hd ns" ns rule: seeds.induct)
  case (3 len n m ns)
  have "seed n = \<lparr>sy_start = n, sy_nucleus = n, sy_end = n + 1\<rparr>" by (simp add: seed_def)
  with 3 show ?case by simp
qed (simp_all add: seed_def)

lemma seeds_ends:
  assumes "ns \<noteq> []"
  shows "(let out = (map seed ns @ rest)[0 := ((map seed ns @ rest) ! 0)\<lparr>sy_start := s\<rparr>]
          in out[length ns - 1 := (out ! (length ns - 1))\<lparr>sy_end := len\<rparr>]) = seeds len s ns @ rest"
proof (cases "(len, s, ns)" rule: seeds.cases)
  case (3 len' s' n m ms)
  have "(seed n)\<lparr>sy_start := s\<rparr> = \<lparr>sy_start = s, sy_nucleus = n, sy_end = n + 1\<rparr>" by (simp add: seed_def)
  with 3 seeds_last [of "m # ms" rest len] show ?thesis by (simp add: Let_def)
qed (use assms in \<open>simp_all add: seed_def\<close>)

lemma seeds_head:
  "\<exists>q qs. seeds len s (n # ns) = q # qs \<and> sy_nucleus q = n \<and>
    (\<forall>t. seeds len t (n # ns) = q\<lparr>sy_start := t\<rparr> # qs)"
  by (cases ns) simp_all

lemma fold_divide_at:
  "ns \<noteq> [] \<Longrightarrow> fold (divide_at phones rule) [length pre..<length pre + length ns - 1]
      (pre @ seeds (length phones) s ns @ rest) = pre @ divide phones rule s ns @ rest"
proof (induction phones rule s ns arbitrary: pre rule: divide.induct)
  case (3 phones rule s n m ns)
  let ?b = "boundary phones rule n m" and ?len = "length phones"
  obtain q qs where q: "seeds ?len m (m # ns) = q # qs" "sy_nucleus q = m"
    "\<And>t. seeds ?len t (m # ns) = q\<lparr>sy_start := t\<rparr> # qs"
    using seeds_head by metis
  have "divide_at phones rule (length pre) (pre @ seeds ?len s (n # m # ns) @ rest) =
      (pre @ [\<lparr>sy_start = s, sy_nucleus = n, sy_end = ?b\<rparr>]) @ seeds ?len ?b (m # ns) @ rest"
    using q(2) unfolding seeds.simps q(1) q(3) [of ?b]
    by (simp add: divide_at_def Let_def nth_append boundary_def list_update_append)
  moreover have "[length pre..<length pre + length (n # m # ns) - 1] =
      length pre # [length (pre @ [\<lparr>sy_start = s, sy_nucleus = n, sy_end = ?b\<rparr>])..<
        length (pre @ [\<lparr>sy_start = s, sy_nucleus = n, sy_end = ?b\<rparr>]) + length (m # ns) - 1]"
    by (simp add: upt_conv_Cons del: upt_Suc)
  ultimately show ?case
    using "3.IH" [of "pre @ [\<lparr>sy_start = s, sy_nucleus = n, sy_end = ?b\<rparr>]"] by simp
qed simp_all

lemma syllabify_into_spec:
  "length (nuclei_from 0 phones) \<le> length out \<Longrightarrow>
    syllabify_into phones rule out =
      (Some (length (syllables_of phones rule)),
       syllables_of phones rule @ drop (length (syllables_of phones rule)) out)"
proof -
  let ?ns = "nuclei_from 0 phones" and ?rest = "drop (length (nuclei_from 0 phones)) out"
  assume "length ?ns \<le> length out"
  then have pass: "nuclei_pass 0 phones out 0 = (Some (length ?ns), map seed ?ns @ ?rest)"
    by (simp add: nuclei_pass_fits)
  show ?thesis
  proof (cases "?ns = []")
    case True
    with pass show ?thesis by (simp add: syllabify_into_def syllables_of_def)
  next
    case False
    have "fold (divide_at phones rule) [0..<length ?ns - 1] (seeds (length phones) 0 ?ns @ ?rest) =
        divide phones rule 0 ?ns @ ?rest"
      using fold_divide_at [OF False, of phones rule "[]" 0 ?rest] by simp
    with pass seeds_ends [OF False, of ?rest 0 "length phones"] False show ?thesis
      by (simp add: syllabify_into_def syllables_of_def Let_def)
  qed
qed


section \<open>Onsets and tiling\<close>

lemma find_rev_upt:
  "find P (rev [1..<Suc n]) = Some k \<longleftrightarrow> 1 \<le> k \<and> k \<le> n \<and> P k \<and> (\<forall>j. k < j \<and> j \<le> n \<longrightarrow> \<not> P j)"
proof (induction n)
  case (Suc n)
  have "rev [1..<Suc (Suc n)] = Suc n # rev [1..<Suc n]" by simp
  with Suc show ?case by (auto simp: le_Suc_eq simp del: upt_Suc)
qed auto

lemma is_legal_onset_Nil [simp]: "is_legal_onset [] rule"
  by (simp add: is_legal_onset_def)

lemma legal_length: "is_legal_onset c rule \<Longrightarrow> length c \<le> max_onset rule"
  by (auto simp: is_legal_onset_def split: if_splits)

text \<open>The onset that is taken is the greatest legal suffix of the cluster.\<close>

definition greatest_onset :: "phone list \<Rightarrow> syllable_rule \<Rightarrow> nat \<Rightarrow> bool" where
  "greatest_onset c rule k \<longleftrightarrow> k \<le> length c \<and> is_legal_onset (drop (length c - k) c) rule \<and>
     (\<forall>j. k < j \<and> j \<le> length c \<longrightarrow> \<not> is_legal_onset (drop (length c - j) c) rule)"

lemma longest_onset_greatest: "greatest_onset c rule (longest_onset c rule)"
proof -
  let ?P = "\<lambda>k. is_legal_onset (drop (length c - k) c) rule"
  let ?n = "min (length c) (max_onset rule)"
  have short: "j \<le> max_onset rule" if "?P j" "j \<le> length c" for j
    using legal_length [OF that(1)] that(2) by simp
  show ?thesis
  proof (cases "find ?P (rev [1..<Suc ?n])")
    case None
    then have "\<not> ?P j" if "1 \<le> j" "j \<le> ?n" for j
      using that unfolding find_None_all set_rev set_upt by (metis atLeastLessThan_iff less_Suc_eq_le)
    with None short show ?thesis
      unfolding greatest_onset_def longest_onset_def by (simp del: upt_Suc) (meson Suc_leI)
  next
    case (Some k)
    from this [unfolded find_rev_upt] have k: "k \<le> length c" "?P k"
      and top: "\<And>j. k < j \<Longrightarrow> j \<le> length c \<Longrightarrow> j \<le> max_onset rule \<Longrightarrow> \<not> ?P j"
      by auto
    have "\<forall>j. k < j \<and> j \<le> length c \<longrightarrow> \<not> ?P j" using top short by blast
    with k Some show ?thesis
      unfolding greatest_onset_def longest_onset_def by (simp del: upt_Suc)
  qed
qed

lemma length_cluster: "l < r \<Longrightarrow> r \<le> length phones \<Longrightarrow> length (cluster_between phones l r) = r - Suc l"
  by (simp add: cluster_between_def)

lemma boundary_bounds:
  assumes "l < r" and "r \<le> length phones"
  shows "l < boundary phones rule l r" and "boundary phones rule l r \<le> r"
proof -
  have "longest_onset (cluster_between phones l r) rule \<le> r - Suc l"
    using longest_onset_greatest [of "cluster_between phones l r" rule]
    by (simp add: greatest_onset_def length_cluster [OF assms])
  with assms(1) show "l < boundary phones rule l r" "boundary phones rule l r \<le> r"
    by (simp_all add: boundary_def)
qed

text \<open>Syllables that cover a stretch of the pronunciation without gap or overlap.\<close>

fun tiles :: "nat \<Rightarrow> nat \<Rightarrow> syllable list \<Rightarrow> bool" where
  "tiles a b [] \<longleftrightarrow> a = b"
| "tiles a b (s # ss) \<longleftrightarrow> sy_start s = a \<and> a \<le> sy_nucleus s \<and> sy_nucleus s < sy_end s \<and>
     sy_end s \<le> b \<and> tiles (sy_end s) b ss"

lemma divide_tiles:
  assumes "sorted_wrt (<) ns" and "\<forall>n \<in> set ns. s \<le> n \<and> n < length phones" and "ns \<noteq> []"
  shows "tiles s (length phones) (divide phones rule s ns)"
  using assms
proof (induction phones rule s ns rule: divide.induct)
  case (3 phones rule s n m ns)
  then have b: "n < boundary phones rule n m" "boundary phones rule n m \<le> m" and "m < length phones"
    by (auto intro: boundary_bounds)
  with 3 show ?case by fastforce
qed simp_all

lemma nth_divide:
  assumes "Suc i < length ns"
  shows "sy_start (divide phones rule s ns ! Suc i) = boundary phones rule (ns ! i) (ns ! Suc i)"
  using assms
proof (induction phones rule s ns arbitrary: i rule: divide.induct)
  case (3 phones rule s n m ns)
  show ?case
  proof (cases i)
    case 0
    then show ?thesis by (cases ns) simp_all
  next
    case (Suc j)
    with 3 show ?thesis by simp
  qed
qed simp_all

lemma nuclei_from_upt: "nuclei_from i ps = filter (\<lambda>k. is_vowel (ps ! (k - i))) [i..<i + length ps]"
proof (rule sorted_distinct_set_unique)
  show "sorted (nuclei_from i ps)" "distinct (nuclei_from i ps)"
    using sorted_nuclei_from [of i ps] by (simp_all add: strict_sorted_iff)
  show "set (nuclei_from i ps) = set (filter (\<lambda>k. is_vowel (ps ! (k - i))) [i..<i + length ps])"
    by (auto simp: nuclei_from_iff)
qed (simp_all add: sorted_wrt_filter)

lemma syllabify_eq: "syllabify phones rule = syllables_of phones rule"
proof -
  have "length (nuclei_from 0 phones) \<le> length phones" by (simp add: length_nuclei_from)
  then show ?thesis by (simp add: syllabify_def syllabify_into_spec)
qed

lemma syllabify_tiles: "tiles 0 (if syllabify phones rule = [] then 0 else length phones) (syllabify phones rule)"
proof (cases "nuclei_from 0 phones = []")
  case True
  then show ?thesis by (simp add: syllabify_eq syllables_of_def)
next
  case False
  then have "syllabify phones rule \<noteq> []"
    unfolding syllabify_eq syllables_of_def by (metis length_0_conv length_divide)
  with divide_tiles [OF sorted_nuclei_from _ False, of 0 phones rule] show ?thesis
    by (simp add: syllabify_eq syllables_of_def nuclei_from_iff)
qed

lemma map_nucleus_syllabify [simp]:
  "map sy_nucleus (syllabify phones rule) = filter (\<lambda>k. is_vowel (phones ! k)) [0..<length phones]"
  by (simp add: syllabify_eq syllables_of_def nuclei_from_upt)

lemma tiles_syllable:
  "tiles a b ss \<Longrightarrow> s \<in> set ss \<Longrightarrow> a \<le> sy_start s \<and> sy_start s \<le> sy_nucleus s \<and> sy_nucleus s < sy_end s \<and> sy_end s \<le> b"
  by (induction a b ss rule: tiles.induct) fastforce+

lemma syllabify_syllable:
  assumes "s \<in> set (syllabify phones rule)"
  shows "sy_start s \<le> sy_nucleus s" and "sy_nucleus s < sy_end s" and "sy_end s \<le> length phones"
  using tiles_syllable [OF syllabify_tiles assms] assms by (auto split: if_splits)

section \<open>Counting without panics\<close>

lemma morae_Some: "sy_nucleus s < sy_end s \<Longrightarrow> \<exists>m. morae phones s rule = Some m"
  by (simp add: morae_def coda_len_def Let_def split: option.split)

lemma collect_morae:
  assumes "\<forall>s \<in> set ss. sy_nucleus s < sy_end s"
  shows "collect_options (map (\<lambda>s. morae phones s rule) ss) = Some (map (\<lambda>s. the (morae phones s rule)) ss)"
  unfolding collect_options_Some using morae_Some assms by fastforce

lemma checked_sum_Some:
  "unat acc + sum_list ns < 2 ^ 32 \<Longrightarrow> \<exists>t. checked_sum ns acc = Some t \<and> unat t = unat acc + sum_list ns"
proof (induction ns acc rule: checked_sum.induct)
  case (2 n ns acc)
  then have "unat (acc + of_nat n) = unat acc + n"
    by (simp add: unat_word_ariths unat_of_nat take_bit_eq_mod)
  with 2 show ?case by (simp add: add.assoc)
qed simp

lemma sum_morae_bound: "sum_list (map (\<lambda>m. unat (m :: 8 word)) ms) \<le> 255 * length ms"
proof (induction ms)
  case (Cons m ms)
  have "unat m \<le> 255" using unsigned_less [of m, where ?'a = nat] by simp
  with Cons show ?case by simp
qed simp


section \<open>Properties\<close>

text \<open>
  C34: syllabification in a caller's buffer computes the specification (a nucleus per vowel, each
  boundary before the longest legal onset): it fails exactly when the buffer is shorter than the
  number of vowels, and otherwise writes the syllables at its front and leaves the rest alone.
  With a buffer as long as the word it never fails.
\<close>

theorem syllabify_into_refines:
  "(if length (filter is_vowel phones) \<le> length out
    then syllabify_into phones rule out = (Some (length (filter is_vowel phones)),
      syllables_of phones rule @ drop (length (filter is_vowel phones)) out)
    else fst (syllabify_into phones rule out) = None) \<and>
   syllabify phones rule = syllables_of phones rule"
proof (cases "length (filter is_vowel phones) \<le> length out")
  case True
  then show ?thesis
    using syllabify_into_spec [of phones out rule] syllabify_eq
    by (simp add: syllables_of_def length_nuclei_from)
next
  case False
  then have "fst (nuclei_pass 0 phones out 0) = None"
    by (intro nuclei_pass_short) (simp_all add: length_nuclei_from)
  with False show ?thesis
    by (cases "nuclei_pass 0 phones out 0") (simp add: syllabify_into_def syllabify_eq)
qed

text \<open>
  the syllables of a word have its vowels as nuclei, in order, cover the word from its first
  phone to its last without gap or overlap, and each one but the first takes the greatest onset
  that its rule allows of the consonants before it.
\<close>

theorem syllabify_divides:
  "map sy_nucleus (syllabify phones rule) = filter (\<lambda>k. is_vowel (phones ! k)) [0..<length phones] \<and>
   tiles 0 (if syllabify phones rule = [] then 0 else length phones) (syllabify phones rule) \<and>
   (\<forall>i. Suc i < length (syllabify phones rule) \<longrightarrow>
     (let l = sy_nucleus (syllabify phones rule ! i); s = syllabify phones rule ! Suc i
      in greatest_onset (cluster_between phones l (sy_nucleus s)) rule (sy_nucleus s - sy_start s)))"
proof (intro conjI allI impI)
  fix i assume i: "Suc i < length (syllabify phones rule)"
  let ?ns = "nuclei_from 0 phones"
  let ?l = "?ns ! i" and ?r = "?ns ! Suc i"
  have nuc: "sy_nucleus (syllabify phones rule ! k) = ?ns ! k" if "k < length ?ns" for k
    using that by (metis length_divide map_nucleus_divide nth_map syllabify_eq syllables_of_def)
  have i': "Suc i < length ?ns" using i by (simp add: syllabify_eq syllables_of_def)
  then have "?l < ?r" "?r < length phones"
    using sorted_nuclei_from [of 0 phones] nth_mem [OF i', unfolded nuclei_from_iff]
    by (simp_all add: sorted_wrt_nth_less)
  moreover have "sy_start (syllabify phones rule ! Suc i) = boundary phones rule ?l ?r"
    using i' by (simp add: syllabify_eq syllables_of_def nth_divide)
  moreover have "longest_onset (cluster_between phones ?l ?r) rule \<le> ?r"
    using longest_onset_greatest [of "cluster_between phones ?l ?r" rule] calculation(1,2)
      length_cluster [of ?l ?r phones] unfolding greatest_onset_def by linarith
  ultimately show "let l = sy_nucleus (syllabify phones rule ! i); s = syllabify phones rule ! Suc i
      in greatest_onset (cluster_between phones l (sy_nucleus s)) rule (sy_nucleus s - sy_start s)"
    using i' longest_onset_greatest [of "cluster_between phones ?l ?r" rule]
    by (simp add: nuc boundary_def Let_def)
qed (rule map_nucleus_syllabify, rule syllabify_tiles)

definition vowel_phone :: "16 word \<Rightarrow> phone" where
  "vowel_phone i = with_stress Primary (phone_new i Vowel)"

definition astra :: "phone list" where
  "astra = [vowel_phone 1, phone_new 28 Fricative, phone_new 30 Stop, phone_new 27 Liquid, vowel_phone 2]"

theorem syllabify_divides_witness:
  "greatest_onset (cluster_between astra 0 4) ENGLISH 3"
proof -
  have run: "syllabify astra ENGLISH =
      [\<lparr>sy_start = 0, sy_nucleus = 0, sy_end = 1\<rparr>, \<lparr>sy_start = 1, sy_nucleus = 4, sy_end = 5\<rparr>]"
    by code_simp
  from syllabify_divides [of astra ENGLISH] have "\<forall>i. Suc i < length (syllabify astra ENGLISH) \<longrightarrow>
     (let l = sy_nucleus (syllabify astra ENGLISH ! i); s = syllabify astra ENGLISH ! Suc i
      in greatest_onset (cluster_between astra l (sy_nucleus s)) ENGLISH (sy_nucleus s - sy_start s))"
    by blast
  from spec [OF this, of 0] show ?thesis by (simp add: run)
qed

text \<open>
  On the syllables of a word nothing panics and nothing wraps: the morae of a word shorter than
  sixteen million phones are summed exactly, and stress falls within its last three syllables.
\<close>

theorem word_weight_total:
  assumes "length phones < 2 ^ 24"
  shows "(\<exists>t. total_morae phones (syllabify phones rule) wr = Some t \<and>
      unat t = sum_list (map (\<lambda>s. unat (the (morae phones s wr))) (syllabify phones rule))) \<and>
    (\<exists>i. penultimate_stress phones (syllabify phones rule) wr =
      Some (if syllabify phones rule = [] then None else Some i) \<and>
      i < max 1 (length (syllabify phones rule)) \<and> length (syllabify phones rule) \<le> i + 3)"
proof -
  let ?ss = "syllabify phones rule"
  let ?m = "\<lambda>s. the (morae phones s wr)"
  have wf: "\<forall>s \<in> set ?ss. sy_nucleus s < sy_end s" using syllabify_syllable(2) by blast
  have "length ?ss = length (filter is_vowel phones)"
    by (simp add: syllabify_eq syllables_of_def length_nuclei_from)
  then have "length ?ss < 2 ^ 24" using length_filter_le [of is_vowel phones] assms by linarith
  with sum_morae_bound [of "map ?m ?ss"] have "sum_list (map unat (map ?m ?ss)) < 2 ^ 32" by simp
  with checked_sum_Some [of 0 "map unat (map ?m ?ss)"]
  have "\<exists>t. total_morae phones ?ss wr = Some t \<and> unat t = sum_list (map (\<lambda>s. unat (?m s)) ?ss)"
    by (simp add: total_morae_def collect_morae [OF wf] comp_def)
  moreover have "\<exists>i. penultimate_stress phones ?ss wr = Some (if ?ss = [] then None else Some i) \<and>
      i < max 1 (length ?ss) \<and> length ?ss \<le> i + 3"
  proof (cases "length ?ss \<le> 2")
    case True
    then show ?thesis by (intro exI [of _ 0]) (auto simp: penultimate_stress_def)
  next
    case False
    then have "?ss ! (length ?ss - 2) \<in> set ?ss" by (intro nth_mem) simp
    with wf obtain m where "morae phones (?ss ! (length ?ss - 2)) wr = Some m" using morae_Some by blast
    with False show ?thesis
      by (intro exI [of _ "if from_morae m \<ge> Heavy then length ?ss - 2 else length ?ss - 3"])
        (auto simp: penultimate_stress_def syllable_weight_def Let_def)
  qed
  ultimately show ?thesis by blast
qed

theorem word_weight_total_witness:
  "\<exists>t. total_morae astra (syllabify astra ENGLISH) CLASSICAL = Some t \<and> unat t = 2"
proof -
  have "length astra < 2 ^ 24" by (simp add: astra_def)
  from word_weight_total [OF this, of ENGLISH CLASSICAL, THEN conjunct1] obtain t where
    t: "total_morae astra (syllabify astra ENGLISH) CLASSICAL = Some t"
    and "unat t = sum_list (map (\<lambda>s. unat (the (morae astra s CLASSICAL))) (syllabify astra ENGLISH))"
    by blast
  moreover have "sum_list (map (\<lambda>s. unat (the (morae astra s CLASSICAL))) (syllabify astra ENGLISH)) = 2"
    by code_simp
  ultimately show ?thesis by simp
qed

end
