(* ===== verification/Mora_English.thy ===== *)
theory Mora_English
  imports Mora_Sound Knot_Text "HOL-Library.AList"
begin

text \<open>
  The English end of \<open>mora\<close>: the ARPAbet table and the parsing of pronunciations and dictionary
  lines (\<open>english.rs\<close>), and the pronunciation dictionary (\<open>mora-cmudict\<close>). The dictionary's map
  is an association list; the text of the bundled dictionary is an input.
\<close>

section \<open>The phone set\<close>

definition SYLLABLE_RULE :: syllable_rule where "SYLLABLE_RULE = ENGLISH"
definition WEIGHT_RULE :: weight_rule where "WEIGHT_RULE = CLASSICAL"

definition ARPABET :: "(string \<times> phone_class \<times> bool) list" where
  "ARPABET = [
     (''AA'', Vowel, True), (''AE'', Vowel, False), (''AH'', Vowel, False), (''AO'', Vowel, True),
     (''AW'', Vowel, True), (''AY'', Vowel, True), (''B'', Stop, False), (''CH'', Affricate, False),
     (''D'', Stop, False), (''DH'', Fricative, False), (''EH'', Vowel, False), (''ER'', Vowel, True),
     (''EY'', Vowel, True), (''F'', Fricative, False), (''G'', Stop, False), (''HH'', Fricative, False),
     (''IH'', Vowel, False), (''IY'', Vowel, True), (''JH'', Affricate, False), (''K'', Stop, False),
     (''L'', Liquid, False), (''M'', Nasal, False), (''N'', Nasal, False), (''NG'', Nasal, False),
     (''OW'', Vowel, True), (''OY'', Vowel, True), (''P'', Stop, False), (''R'', Liquid, False),
     (''S'', Fricative, False), (''SH'', Fricative, False), (''T'', Stop, False), (''TH'', Fricative, False),
     (''UH'', Vowel, False), (''UW'', Vowel, True), (''V'', Fricative, False), (''W'', Glide, False),
     (''Y'', Glide, False), (''Z'', Fricative, False), (''ZH'', Fricative, False)]"

definition symbol :: "16 word \<Rightarrow> string option" where
  "symbol i = map_option fst (list_get ARPABET (unat i))"

fun position :: "('a \<Rightarrow> bool) \<Rightarrow> 'a list \<Rightarrow> nat option" where
  "position p [] = None"
| "position p (x # xs) = (if p x then Some 0 else map_option Suc (position p xs))"

definition stress_digit :: "string \<Rightarrow> string \<times> stress" where
  "stress_digit s =
     (if s \<noteq> [] \<and> last s = CHR ''0'' then (butlast s, Unstressed)
      else if s \<noteq> [] \<and> last s = CHR ''1'' then (butlast s, Primary)
      else if s \<noteq> [] \<and> last s = CHR ''2'' then (butlast s, Secondary)
      else (s, NoStress))"

definition phone_of :: "string \<Rightarrow> phone option" where
  "phone_of s = (case stress_digit s of (base, st) \<Rightarrow>
     (case position (\<lambda>e. eq_ignore_ascii_case (fst e) base) ARPABET of
        None \<Rightarrow> None
      | Some i \<Rightarrow> (case ARPABET ! i of (_, c, l) \<Rightarrow>
          Some (with_stress st (with_long l (phone_new (of_nat i) c))))))"

fun pronounce_from :: "string list \<Rightarrow> nat \<Rightarrow> phone list \<Rightarrow> nat option \<times> phone list" where
  "pronounce_from [] n out = (Some n, out)"
| "pronounce_from (s # ss) n out =
     (if n \<ge> length out then (None, out)
      else case phone_of s of None \<Rightarrow> (None, out)
        | Some p \<Rightarrow> pronounce_from ss (n + 1) (out[n := p]))"

definition pronounce_into :: "string \<Rightarrow> phone list \<Rightarrow> nat option \<times> phone list" where
  "pronounce_into s out = pronounce_from (split_whitespace s) 0 out"

definition pronounce :: "string \<Rightarrow> phone list option" where
  "pronounce s = collect_options (map phone_of (split_whitespace s))"

definition cmudict_entry :: "string \<Rightarrow> (string \<times> string) option" where
  "cmudict_entry l =
     (let line = trim_end l
      in if line = [] \<or> starts_with line '';;;'' then None
         else case (case str_find ''  '' line of Some i \<Rightarrow> Some i | None \<Rightarrow> str_find '' '' line) of
           None \<Rightarrow> None
         | Some i \<Rightarrow>
             let word = take i line; pronunciation = trim_start (drop i line)
             in if word = [] \<or> pronunciation = [] then None
                else let word = (case str_find ''('' word of
                       Some j \<Rightarrow> if ends_with word '')'' then take j word else word
                     | None \<Rightarrow> word)
                     in Some (word, pronunciation))"

section \<open>The dictionary\<close>

record cmudict =
  cd_entries :: "(string \<times> phone list list) list"
  cd_count :: nat

record cmudict_error =
  ce_line :: nat
  ce_entry :: string

definition normalize_word :: "string \<Rightarrow> string" where
  "normalize_word w = to_ascii_lowercase (str_trim w)"

definition skipped :: "string \<Rightarrow> bool" where
  "skipped entry \<longleftrightarrow> (let trimmed = str_trim entry
     in trimmed = [] \<or> starts_with trimmed ''#'' \<or> starts_with trimmed '';;;'')"

definition entry_part :: "string \<Rightarrow> string" where
  "entry_part line = trim_end (takeWhile (\<lambda>c. c \<noteq> CHR ''#'') line)"

definition add_reading :: "string \<Rightarrow> phone list \<Rightarrow> cmudict \<Rightarrow> cmudict" where
  "add_reading w ps d =
     (let k = normalize_word w;
          known = (case map_of (cd_entries d) k of Some vs \<Rightarrow> vs | None \<Rightarrow> [])
      in if ps \<in> set known then d
         else \<lparr>cd_entries = AList.update k (known @ [ps]) (cd_entries d), cd_count = cd_count d + 1\<rparr>)"

fun parse_lines :: "nat \<Rightarrow> string list \<Rightarrow> cmudict \<Rightarrow> cmudict_error + cmudict" where
  "parse_lines offset [] d = Inr d"
| "parse_lines offset (line # ls) d =
     (let entry = entry_part line; wrong = \<lparr>ce_line = offset + 1, ce_entry = line\<rparr>
      in if skipped entry then parse_lines (offset + 1) ls d
         else case cmudict_entry entry of
           None \<Rightarrow> Inl wrong
         | Some (word, pronunciation) \<Rightarrow> (case pronounce pronunciation of
             None \<Rightarrow> Inl wrong
           | Some ps \<Rightarrow> parse_lines (offset + 1) ls (add_reading word ps d)))"

definition parse_dictionary :: "string \<Rightarrow> cmudict_error + cmudict" where
  "parse_dictionary source = parse_lines 0 (str_lines source) \<lparr>cd_entries = [], cd_count = 0\<rparr>"

definition pronunciations :: "cmudict \<Rightarrow> string \<Rightarrow> phone list list option" where
  "pronunciations d w = map_of (cd_entries d) (normalize_word w)"

definition entry_count :: "cmudict \<Rightarrow> nat" where
  "entry_count d = length (cd_entries d)"

section \<open>What a dictionary says\<close>

text \<open>The word and the phones of a line, if it is an entry; and a first-occurrence reading of a
  list of pronunciations.\<close>

definition line_reading :: "string \<Rightarrow> (string \<times> phone list) option" where
  "line_reading line =
     (if skipped (entry_part line) then None
      else Option.bind (cmudict_entry (entry_part line)) (\<lambda>(w, p).
        map_option (Pair (normalize_word w)) (pronounce p)))"

definition readings :: "string list \<Rightarrow> string \<Rightarrow> phone list list" where
  "readings ls k = map snd (filter (\<lambda>(w, _). w = k) (List.map_filter line_reading ls))"

definition insert_last :: "'a list \<Rightarrow> 'a \<Rightarrow> 'a list" where
  "insert_last xs x = (if x \<in> set xs then xs else xs @ [x])"

definition known_readings :: "cmudict \<Rightarrow> string \<Rightarrow> phone list list" where
  "known_readings d k = (case map_of (cd_entries d) k of Some vs \<Rightarrow> vs | None \<Rightarrow> [])"

definition dictionary_ok :: "cmudict \<Rightarrow> bool" where
  "dictionary_ok d \<longleftrightarrow> distinct (map fst (cd_entries d)) \<and>
     (\<forall>(k, vs) \<in> set (cd_entries d). vs \<noteq> [] \<and> distinct vs) \<and>
     cd_count d = sum_list (map (length \<circ> snd) (cd_entries d))"

text \<open>The lines that a parse refuses.\<close>

definition line_ok :: "string \<Rightarrow> bool" where
  "line_ok line \<longleftrightarrow> skipped (entry_part line) \<or> line_reading line \<noteq> None"

lemma parse_lines_step:
  "parse_lines n (line # ls) d =
    (if \<not> line_ok line then Inl \<lparr>ce_line = n + 1, ce_entry = line\<rparr>
     else parse_lines (n + 1) ls (case line_reading line of None \<Rightarrow> d | Some (k, ps) \<Rightarrow>
       if ps \<in> set (known_readings d k) then d
       else \<lparr>cd_entries = AList.update k (known_readings d k @ [ps]) (cd_entries d), cd_count = cd_count d + 1\<rparr>))"
  by (auto simp: line_ok_def line_reading_def known_readings_def add_reading_def Let_def
      split: option.splits Option.bind_splits)

lemma sum_update:
  "distinct (map fst al) \<Longrightarrow>
    sum_list (map (length \<circ> snd) (AList.update k vs al)) + length (case map_of al k of Some ws \<Rightarrow> ws | None \<Rightarrow> []) =
    sum_list (map (length \<circ> snd) al) + length vs"
proof (induction al)
  case (Cons p al)
  show ?case
  proof (cases "fst p = k")
    case True
    then show ?thesis by (cases p) simp
  next
    case False
    with Cons show ?thesis by (cases p) (auto split: option.splits)
  qed
qed simp

lemma add_reading_ok:
  assumes "dictionary_ok d" and "ps \<notin> set (known_readings d k)"
  shows "dictionary_ok \<lparr>cd_entries = AList.update k (known_readings d k @ [ps]) (cd_entries d), cd_count = cd_count d + 1\<rparr>"
proof -
  let ?al = "AList.update k (known_readings d k @ [ps]) (cd_entries d)"
  have d: "distinct (map fst (cd_entries d))" using assms(1) by (simp add: dictionary_ok_def)
  then have d': "distinct (map fst ?al)" by (rule distinct_update)
  have "distinct (known_readings d k)"
    using assms(1) by (auto simp: dictionary_ok_def known_readings_def dest: map_of_SomeD split: option.splits)
  with assms(2) have new: "distinct (known_readings d k @ [ps])" by simp
  have "vs \<noteq> [] \<and> distinct vs" if "(j, vs) \<in> set ?al" for j vs
  proof -
    from that d' have "map_of ?al j = Some vs" by simp
    then have "vs = known_readings d k @ [ps] \<or> map_of (cd_entries d) j = Some vs"
      by (auto simp: update_conv' split: if_splits)
    with assms(1) new show ?thesis by (auto simp: dictionary_ok_def dest: map_of_SomeD)
  qed
  moreover have "cd_count d + 1 = sum_list (map (length \<circ> snd) ?al)"
    using sum_update [OF d, of k "known_readings d k @ [ps]"] assms(1)
    by (simp add: dictionary_ok_def known_readings_def)
  ultimately show ?thesis using d' by (auto simp: dictionary_ok_def)
qed

lemma parse_lines_Inr:
  assumes "dictionary_ok d" and "parse_lines n ls d = Inr d'"
  shows "dictionary_ok d' \<and> (\<forall>k. known_readings d' k = foldl insert_last (known_readings d k) (readings ls k)) \<and>
    (\<forall>l \<in> set ls. line_ok l)"
  using assms
proof (induction ls arbitrary: n d)
  case Nil
  then show ?case by (simp add: readings_def map_filter_def)
next
  case (Cons l ls)
  from Cons.prems(2) have ok: "line_ok l" unfolding parse_lines_step by (auto split: if_splits)
  show ?case
  proof (cases "line_reading l")
    case None
    with Cons ok show ?thesis unfolding parse_lines_step by (auto simp: readings_def map_filter_def)
  next
    case (Some kp)
    obtain k ps where kp: "kp = (k, ps)" by (cases kp)
    let ?d = "if ps \<in> set (known_readings d k) then d
       else \<lparr>cd_entries = AList.update k (known_readings d k @ [ps]) (cd_entries d), cd_count = cd_count d + 1\<rparr>"
    have rest: "parse_lines (n + 1) ls ?d = Inr d'"
      using Cons.prems(2) ok Some kp unfolding parse_lines_step by simp
    have "dictionary_ok ?d" using Cons.prems(1) add_reading_ok by simp
    moreover have "known_readings ?d j = (if j = k then insert_last (known_readings d k) ps else known_readings d j)" for j
      by (cases "map_of (cd_entries d) k") (simp_all add: known_readings_def insert_last_def update_conv')
    moreover have "readings (l # ls) j = (if j = k then ps # readings ls j else readings ls j)" for j
      using Some kp by (simp add: readings_def map_filter_def)
    ultimately show ?thesis using Cons.IH [OF _ rest] ok by simp
  qed
qed

lemma parse_lines_Inl:
  "parse_lines n ls d = Inl e \<longleftrightarrow> (\<exists>pre l post. ls = pre @ l # post \<and> (\<forall>x \<in> set pre. line_ok x) \<and> \<not> line_ok l \<and>
     e = \<lparr>ce_line = n + length pre + 1, ce_entry = l\<rparr>)"
proof (induction ls arbitrary: n d)
  case (Cons l ls)
  show ?case
  proof (cases "line_ok l")
    case False
    then show ?thesis
      unfolding parse_lines_step by (auto simp: Cons_eq_append_conv intro: exI [of _ "[]"])
  next
    case True
    then have "parse_lines n (l # ls) d = Inl e \<longleftrightarrow> (\<exists>pre m post. ls = pre @ m # post \<and> (\<forall>x \<in> set pre. line_ok x) \<and>
        \<not> line_ok m \<and> e = \<lparr>ce_line = n + 1 + length pre + 1, ce_entry = m\<rparr>)"
      unfolding parse_lines_step by (simp add: Cons.IH)
    also have "\<dots> \<longleftrightarrow> (\<exists>pre m post. l # ls = pre @ m # post \<and> (\<forall>x \<in> set pre. line_ok x) \<and>
        \<not> line_ok m \<and> e = \<lparr>ce_line = n + length pre + 1, ce_entry = m\<rparr>)" (is "?A \<longleftrightarrow> ?B")
    proof
      assume ?A
      then obtain pre m post where "ls = pre @ m # post" "\<forall>x \<in> set pre. line_ok x" "\<not> line_ok m"
        "e = \<lparr>ce_line = n + 1 + length pre + 1, ce_entry = m\<rparr>" by blast
      with True show ?B by (intro exI [of _ "l # pre"] exI [of _ m] exI [of _ post]) simp
    next
      assume ?B
      then obtain pre m post where b: "l # ls = pre @ m # post" "\<forall>x \<in> set pre. line_ok x" "\<not> line_ok m"
        "e = \<lparr>ce_line = n + length pre + 1, ce_entry = m\<rparr>" by blast
      with True obtain pre' where "pre = l # pre'" by (cases pre) auto
      with b show ?A by (intro exI [of _ pre'] exI [of _ m] exI [of _ post]) simp
    qed
    finally show ?thesis .
  qed
qed simp


section \<open>Properties\<close>

text \<open>
  C36: parsing a dictionary refuses exactly the first line that is neither skipped nor an entry, by
  its number, and otherwise knows of every word (whatever its case) precisely the pronunciations
  its lines list, each once, in the order of the lines; the counts it reports are the numbers of
  words and of pronunciations.
\<close>

theorem cmudict_parse_exact:
  "(case parse_dictionary source of
      Inl e \<Rightarrow> (\<exists>pre l post. str_lines source = pre @ l # post \<and> list_all line_ok pre \<and> \<not> line_ok l \<and>
        e = \<lparr>ce_line = length pre + 1, ce_entry = l\<rparr>)
    | Inr d \<Rightarrow> list_all line_ok (str_lines source) \<and> dictionary_ok d \<and>
        pronunciations d w = (if readings (str_lines source) (normalize_word w) = [] then None
          else Some (foldl insert_last [] (readings (str_lines source) (normalize_word w)))))"
proof (cases "parse_dictionary source")
  case (Inl e)
  from Inl [unfolded parse_dictionary_def parse_lines_Inl] Inl show ?thesis
    by (simp add: list_all_iff)
next
  case (Inr d)
  have "dictionary_ok \<lparr>cd_entries = [], cd_count = 0\<rparr>" by (simp add: dictionary_ok_def)
  from parse_lines_Inr [OF this Inr [unfolded parse_dictionary_def]]
  have ok: "dictionary_ok d" "\<forall>l \<in> set (str_lines source). line_ok l"
    and known: "known_readings d (normalize_word w) = foldl insert_last [] (readings (str_lines source) (normalize_word w))"
    by (auto simp: known_readings_def)
  have mono: "set acc \<subseteq> set (foldl insert_last acc rs)" for acc rs :: "phone list list"
    by (induction rs arbitrary: acc) (auto simp: insert_last_def split: if_splits, metis Un_iff set_append subsetD)
  have Nil: "foldl insert_last [] rs = [] \<longleftrightarrow> rs = []" for rs :: "phone list list"
    using mono [of "[hd rs]" "tl rs"] by (cases rs) (auto simp: insert_last_def)
  let ?rs = "readings (str_lines source) (normalize_word w)"
  have "pronunciations d w = (if ?rs = [] then None else Some (foldl insert_last [] ?rs))"
  proof (cases "map_of (cd_entries d) (normalize_word w)")
    case None
    then have "foldl insert_last [] ?rs = []" using known by (simp add: known_readings_def)
    with Nil [of ?rs] None show ?thesis by (simp add: pronunciations_def)
  next
    case (Some vs)
    then have "vs \<noteq> []" using ok(1) by (auto simp: dictionary_ok_def dest: map_of_SomeD)
    with Some known Nil [of ?rs] show ?thesis by (auto simp: pronunciations_def known_readings_def)
  qed
  with ok Inr show ?thesis by (simp add: list_all_iff)
qed

definition small_dictionary :: string where
  "small_dictionary = '';;; two'' @ [nl] @ ''a AH0'' @ [nl] @ ''A(2) EY1''"

theorem cmudict_parse_exact_witness:
  "\<exists>d. parse_dictionary small_dictionary = Inr d \<and> cd_count d = 2 \<and> entry_count d = 1 \<and> dictionary_ok d \<and>
    length (the (pronunciations d ''A'')) = 2"
proof -
  have "(case parse_dictionary small_dictionary of Inl _ \<Rightarrow> False | Inr d \<Rightarrow>
      cd_count d = 2 \<and> entry_count d = 1 \<and> length (the (pronunciations d ''A'')) = 2)" by code_simp
  then obtain d where "parse_dictionary small_dictionary = Inr d" "cd_count d = 2" "entry_count d = 1"
    "length (the (pronunciations d ''A'')) = 2" by (auto split: sum.splits)
  with cmudict_parse_exact [of small_dictionary "''A''"] show ?thesis by simp
qed

end
