(* ===== verification/Mora_Verse.thy ===== *)
theory Mora_Verse
  imports Mora_Sound Complex_Main
begin

text \<open>
  \<open>mora\<close>, what is read from syllables: metre (\<open>meter.rs\<close>) and the kinship of sounds
  (\<open>sonance.rs\<close>).

  A fit is a quotient of two counts of beats. It is an \<open>f32\<close> in the code and the exact rational
  here: two different quotients of counts below 4096 differ by more than a rounding, so their
  order is the same. Counts are taken to fit their machine integers.
\<close>

section \<open>Metre\<close>

datatype beat = Strong | Weak
datatype mode = Accentual | Quantitative

definition beat_of :: "phone list \<Rightarrow> mode \<Rightarrow> weight_rule \<Rightarrow> syllable \<Rightarrow> beat option" where
  "beat_of phones m rule s = (case m of
     Accentual \<Rightarrow> Some (if (case list_get phones (sy_nucleus s) of Some p \<Rightarrow> is_prominent (ph_stress p) | None \<Rightarrow> False)
       then Strong else Weak)
   | Quantitative \<Rightarrow> map_option (\<lambda>w. if w \<ge> Heavy then Strong else Weak) (syllable_weight phones s rule))"

text \<open>The outer option of \<open>beats_into\<close> is the panic, the inner one a buffer that is too short.\<close>

definition beats_into ::
  "phone list \<Rightarrow> syllable list \<Rightarrow> mode \<Rightarrow> weight_rule \<Rightarrow> beat list \<Rightarrow> (nat option \<times> beat list) option" where
  "beats_into phones ss m rule out =
     (if length out < length ss then Some (None, out)
      else map_option (\<lambda>bs. (Some (length ss), bs @ drop (length ss) out))
             (collect_options (map (beat_of phones m rule) ss)))"

definition beats :: "phone list \<Rightarrow> syllable list \<Rightarrow> mode \<Rightarrow> weight_rule \<Rightarrow> beat list option" where
  "beats phones ss m rule = map_option snd (beats_into phones ss m rule (replicate (length ss) Weak))"

datatype foot = Iamb | Trochee | Spondee | Pyrrhic | Dactyl | Anapest | Amphibrach | Cretic

fun pattern :: "foot \<Rightarrow> beat list" where
  "pattern Iamb = [Weak, Strong]"
| "pattern Trochee = [Strong, Weak]"
| "pattern Spondee = [Strong, Strong]"
| "pattern Pyrrhic = [Weak, Weak]"
| "pattern Dactyl = [Strong, Weak, Weak]"
| "pattern Anapest = [Weak, Weak, Strong]"
| "pattern Amphibrach = [Weak, Strong, Weak]"
| "pattern Cretic = [Strong, Weak, Strong]"

definition foot_positions :: "foot \<Rightarrow> nat" where
  "foot_positions f = length (pattern f)"

definition COMMON :: "foot list" where
  "COMMON = [Iamb, Trochee, Dactyl, Anapest]"

record meter =
  mt_foot :: foot
  mt_feet :: nat

definition meter_new :: "foot \<Rightarrow> nat \<Rightarrow> meter" where
  "meter_new f n = \<lparr>mt_foot = f, mt_feet = n\<rparr>"

definition meter_positions :: "meter \<Rightarrow> nat" where
  "meter_positions m = foot_positions (mt_foot m) * mt_feet m"

definition beat_at :: "meter \<Rightarrow> nat \<Rightarrow> beat" where
  "beat_at m i = pattern (mt_foot m) ! (i mod foot_positions (mt_foot m))"

record scansion =
  sc_meter :: meter
  sc_matches :: nat
  sc_compared :: nat
  sc_overrun :: int

definition fit :: "scansion \<Rightarrow> rat" where
  "fit s = (if sc_compared s = 0 then 0 else of_nat (sc_matches s) / of_nat (sc_compared s))"

definition is_regular :: "scansion \<Rightarrow> bool" where
  "is_regular s \<longleftrightarrow> sc_matches s = sc_compared s \<and> sc_overrun s = 0 \<and> sc_compared s > 0"

definition scan :: "beat list \<Rightarrow> meter \<Rightarrow> scansion" where
  "scan bs m =
     (let compared = min (length bs) (meter_positions m)
      in \<lparr>sc_meter = m,
          sc_matches = length (filter (\<lambda>(i, b). b = beat_at m i) (enumerate 0 (take compared bs))),
          sc_compared = compared,
          sc_overrun = int (length bs) - int (meter_positions m)\<rparr>)"

definition better :: "scansion \<Rightarrow> scansion \<Rightarrow> bool" where
  "better s b \<longleftrightarrow> fit s > fit b \<or> fit s = fit b \<and> - \<bar>sc_overrun s\<bar> > - \<bar>sc_overrun b\<bar>"

definition keep_better :: "scansion \<Rightarrow> scansion option \<Rightarrow> scansion option" where
  "keep_better s best = (case best of None \<Rightarrow> Some s | Some b \<Rightarrow> if better s b then Some s else best)"

definition div_ceil :: "nat \<Rightarrow> nat \<Rightarrow> nat" where
  "div_ceil a b = (if a mod b = 0 then a div b else a div b + 1)"

definition scan_foot :: "beat list \<Rightarrow> foot \<Rightarrow> scansion option \<Rightarrow> scansion option" where
  "scan_foot bs f best =
     (let n = max 1 (div_ceil (length bs) (foot_positions f))
      in fold (\<lambda>k best. if k = 0 then best else keep_better (scan bs (meter_new f k)) best)
           [length bs div foot_positions f, n] best)"

definition scan_best :: "beat list \<Rightarrow> foot list \<Rightarrow> scansion option" where
  "scan_best bs feet = fold (scan_foot bs) feet None"

section \<open>Sonance\<close>

type_synonym word_sound = "phone list \<times> syllable list"

fun last_index :: "('a \<Rightarrow> bool) \<Rightarrow> 'a list \<Rightarrow> nat option" where
  "last_index p [] = None"
| "last_index p (x # xs) =
     (case last_index p xs of Some i \<Rightarrow> Some (Suc i) | None \<Rightarrow> if p x then Some 0 else None)"

definition rhyme_start :: "word_sound \<Rightarrow> nat option" where
  "rhyme_start w = (case w of (phones, ss) \<Rightarrow>
     if ss = [] then None
     else let anchor = (case last_index (\<lambda>s. case list_get phones (sy_nucleus s) of
                 Some p \<Rightarrow> ph_stress p = Primary | None \<Rightarrow> False) ss of
               Some i \<Rightarrow> i | None \<Rightarrow> length ss - 1)
          in Some (sy_nucleus (ss ! anchor)))"

definition rhyme_tail :: "word_sound \<Rightarrow> phone list option" where
  "rhyme_tail w = (case rhyme_start w of
     Some i \<Rightarrow> if i \<le> length (fst w) then Some (drop i (fst w)) else None
   | None \<Rightarrow> Some [])"

definition ids_equal :: "phone list \<Rightarrow> phone list \<Rightarrow> bool" where
  "ids_equal a b \<longleftrightarrow> length a = length b \<and> list_all (\<lambda>(x, y). ph_id x = ph_id y) (zip a b)"

definition onset_before :: "word_sound \<Rightarrow> 16 word option" where
  "onset_before w = (case rhyme_start w of
     None \<Rightarrow> None
   | Some i \<Rightarrow> if i = 0 then None else Some (ph_id (fst w ! (i - 1))))"

definition is_perfect_rhyme :: "word_sound \<Rightarrow> word_sound \<Rightarrow> bool option" where
  "is_perfect_rhyme a b =
     Option.bind (rhyme_tail a) (\<lambda>ta. Option.bind (rhyme_tail b) (\<lambda>tb.
       Some (if ta = [] \<or> \<not> ids_equal ta tb then False else onset_before a \<noteq> onset_before b)))"

definition consonants :: "phone list \<Rightarrow> phone list" where
  "consonants ps = filter (\<lambda>p. \<not> is_vowel p) ps"

definition consonants_agree :: "phone list \<Rightarrow> phone list \<Rightarrow> bool" where
  "consonants_agree a b \<longleftrightarrow> length (consonants a) > 0 \<and>
     length (consonants a) = length (consonants b) \<and>
     list_all (\<lambda>(x, y). ph_id x = ph_id y) (zip (consonants a) (consonants b))"

definition first_vowel :: "phone list \<Rightarrow> 16 word option" where
  "first_vowel ps = map_option ph_id (find is_vowel ps)"

definition is_slant_rhyme :: "word_sound \<Rightarrow> word_sound \<Rightarrow> bool option" where
  "is_slant_rhyme a b =
     Option.bind (rhyme_tail a) (\<lambda>ta. Option.bind (rhyme_tail b) (\<lambda>tb.
       Some (if ta = [] \<or> tb = [] \<or> ids_equal ta tb then False
             else let vowels_agree = (first_vowel ta \<noteq> None \<and> first_vowel ta = first_vowel tb)
                  in consonants_agree ta tb \<noteq> vowels_agree)))"

definition is_assonant :: "word_sound \<Rightarrow> word_sound \<Rightarrow> bool option" where
  "is_assonant a b = (case (rhyme_start a, rhyme_start b) of
     (Some i, Some j) \<Rightarrow> Option.bind (list_get (fst a) i) (\<lambda>p. Option.bind (list_get (fst b) j) (\<lambda>q.
       Some (ph_id p = ph_id q)))
   | _ \<Rightarrow> Some False)"

definition is_consonant :: "phone list \<Rightarrow> phone list \<Rightarrow> bool" where
  "is_consonant a b \<longleftrightarrow> consonants_agree a b"

text \<open>The outer option is the panic, the inner one a word without an onset.\<close>

definition first_onset :: "word_sound \<Rightarrow> 16 word option option" where
  "first_onset w = (case snd w of
     [] \<Rightarrow> Some None
   | s # _ \<Rightarrow> Option.bind (onset_len s) (\<lambda>n.
       if n = 0 then Some None
       else Option.bind (list_get (fst w) (sy_start s)) (\<lambda>p. Some (Some (ph_id p)))))"

definition is_alliterative :: "word_sound \<Rightarrow> word_sound \<Rightarrow> bool option" where
  "is_alliterative a b =
     Option.bind (first_onset a) (\<lambda>x. Option.bind (first_onset b) (\<lambda>y.
       Some (case (x, y) of (Some x, Some y) \<Rightarrow> x = y | _ \<Rightarrow> False)))"

definition agreement :: "phone list \<Rightarrow> phone list \<Rightarrow> rat" where
  "agreement a b =
     (let n = min (length a) (length b)
      in if n = 0 then 0
         else of_nat (length (takeWhile (\<lambda>k. ph_id (a ! (length a - 1 - k)) = ph_id (b ! (length b - 1 - k))) [0..<n]))
              / of_nat (max (length a) (length b)))"

record sonance =
  so_perfect_rhyme :: bool
  so_slant_rhyme :: bool
  so_assonance :: bool
  so_consonance :: bool
  so_alliteration :: bool
  so_agreement :: rat

definition sonance_any :: "sonance \<Rightarrow> bool" where
  "sonance_any s \<longleftrightarrow> so_perfect_rhyme s \<or> so_slant_rhyme s \<or> so_assonance s \<or> so_consonance s \<or> so_alliteration s"

definition compare_sounds :: "word_sound \<Rightarrow> word_sound \<Rightarrow> sonance option" where
  "compare_sounds a b =
     Option.bind (is_perfect_rhyme a b) (\<lambda>perfect.
     Option.bind (is_slant_rhyme a b) (\<lambda>slant.
     Option.bind (is_assonant a b) (\<lambda>assonant.
     Option.bind (is_alliterative a b) (\<lambda>alliterative.
       Some \<lparr>so_perfect_rhyme = perfect, so_slant_rhyme = slant, so_assonance = assonant,
         so_consonance = is_consonant (fst a) (fst b), so_alliteration = alliterative,
         so_agreement = agreement (fst a) (fst b)\<rparr>))))"

section \<open>Scanning\<close>

lemma foot_positions_pos [simp]: "0 < foot_positions f"
  by (cases f) (simp_all add: foot_positions_def)

lemma scan_matches_le: "sc_matches (scan bs m) \<le> sc_compared (scan bs m)"
  using length_filter_le [of "\<lambda>(i, b). b = beat_at m i" "enumerate 0 (take (min (length bs) (meter_positions m)) bs)"]
  by (simp add: scan_def Let_def)

lemma fit_le_1: "fit (scan bs m) \<le> 1"
  using scan_matches_le [of bs m] by (simp add: fit_def divide_le_eq_1)

lemma fit_1_iff: "fit (scan bs m) = 1 \<longleftrightarrow> sc_matches (scan bs m) = sc_compared (scan bs m) \<and> sc_compared (scan bs m) > 0"
  by (auto simp: fit_def)

lemma regular_iff_best: "is_regular (scan bs m) \<longleftrightarrow> fit (scan bs m) = 1 \<and> sc_overrun (scan bs m) = 0"
  by (auto simp: fit_1_iff is_regular_def)

lemma length_concat_replicate [simp]: "length (concat (replicate n xs)) = length xs * n"
  by (induction n) (simp_all add: algebra_simps)

lemma nth_concat_replicate:
  "i < length xs * n \<Longrightarrow> concat (replicate n xs) ! i = xs ! (i mod length xs)"
proof (induction n arbitrary: i)
  case (Suc n)
  then show ?case
    by (cases "i < length xs") (simp_all add: nth_append le_mod_geq)
qed simp

text \<open>A line is regular in a metre exactly when it is the foot repeated.\<close>

lemma scan_all_match:
  "length bs = meter_positions m \<Longrightarrow>
    sc_matches (scan bs m) = length bs \<longleftrightarrow> (\<forall>i < length bs. bs ! i = beat_at m i)"
proof -
  assume len: "length bs = meter_positions m"
  have count: "sc_matches (scan bs m) = length (filter (\<lambda>(i, b). b = beat_at m i) (enumerate 0 bs))"
    by (simp add: scan_def Let_def len)
  have filt: "length (filter P xs) = length xs \<longleftrightarrow> (\<forall>x \<in> set xs. P x)" for P :: "nat \<times> beat \<Rightarrow> bool" and xs
    by (metis filter_id_conv length_filter_less linorder_neq_iff)
  from filt [of "\<lambda>(i, b). b = beat_at m i" "enumerate 0 bs"]
  have "length (filter (\<lambda>(i, b). b = beat_at m i) (enumerate 0 bs)) = length bs \<longleftrightarrow>
      (\<forall>i < length bs. bs ! i = beat_at m i)"
    by (auto simp: in_set_enumerate_eq)
  with count show ?thesis by simp
qed


lemma scan_regular_iff:
  "is_regular (scan bs m) \<longleftrightarrow> bs \<noteq> [] \<and> bs = concat (replicate (mt_feet m) (pattern (mt_foot m)))"
proof -
  let ?line = "concat (replicate (mt_feet m) (pattern (mt_foot m)))"
  have len: "length ?line = meter_positions m"
    by (simp add: meter_positions_def foot_positions_def)
  have nth: "?line ! i = beat_at m i" if "i < meter_positions m" for i
    using that by (simp add: nth_concat_replicate meter_positions_def foot_positions_def beat_at_def)
  have "is_regular (scan bs m) \<longleftrightarrow> length bs = meter_positions m \<and> bs \<noteq> [] \<and> sc_matches (scan bs m) = length bs"
    by (cases bs) (auto simp: is_regular_def scan_def Let_def)
  also have "\<dots> \<longleftrightarrow> length bs = meter_positions m \<and> bs \<noteq> [] \<and> (\<forall>i < length bs. bs ! i = beat_at m i)"
    using scan_all_match by blast
  also have "\<dots> \<longleftrightarrow> bs \<noteq> [] \<and> bs = ?line"
    using len nth by (auto intro: nth_equalityI)
  finally show ?thesis .
qed

text \<open>The lines tried, in the order they are tried in.\<close>

definition tried :: "beat list \<Rightarrow> foot list \<Rightarrow> scansion list" where
  "tried bs feet = concat (map (\<lambda>f. map (\<lambda>k. scan bs (meter_new f k))
     (filter (\<lambda>k. k \<noteq> 0) [length bs div foot_positions f, max 1 (div_ceil (length bs) (foot_positions f))])) feet)"

lemma fold_if: "fold (\<lambda>k best. if k = 0 then best else g k best) ks = fold g (filter (\<lambda>k. k \<noteq> 0) ks)" for g :: "nat \<Rightarrow> 'b \<Rightarrow> 'b"
  by (induction ks) (auto simp: fun_eq_iff)

lemma scan_best_tried: "scan_best bs feet = fold keep_better (tried bs feet) None"
proof -
  have "scan_foot bs f = fold keep_better (map (\<lambda>k. scan bs (meter_new f k))
     (filter (\<lambda>k. k \<noteq> 0) [length bs div foot_positions f, max 1 (div_ceil (length bs) (foot_positions f))]))" for f
    unfolding scan_foot_def Let_def fold_if fold_map comp_def by (rule refl)
  then show ?thesis
    unfolding scan_best_def tried_def by (induction feet arbitrary: rule: rev_induct) simp_all
qed

lemma better_trans: "better a b \<Longrightarrow> better b c \<Longrightarrow> better a c"
  and better_irrefl: "\<not> better a a"
  and not_better_trans: "\<not> better a b \<Longrightarrow> \<not> better b c \<Longrightarrow> \<not> better a c"
  by (auto simp: better_def)

text \<open>The first of the best ones.\<close>

definition first_best :: "scansion list \<Rightarrow> scansion \<Rightarrow> bool" where
  "first_best cs s \<longleftrightarrow> (\<exists>pre post. cs = pre @ s # post \<and> (\<forall>c \<in> set pre. better s c) \<and> (\<forall>c \<in> set post. \<not> better c s))"

lemma first_best_max: "first_best cs s \<Longrightarrow> c \<in> set cs \<Longrightarrow> \<not> better c s"
  using better_trans [of s c s] better_irrefl [of s] by (auto simp: first_best_def)

lemma fold_keep_better:
  "(case fold keep_better cs None of None \<Rightarrow> cs = [] | Some s \<Rightarrow> first_best cs s)"
proof (induction cs rule: rev_induct)
  case (snoc c cs)
  have step: "fold keep_better (cs @ [c]) None = keep_better c (fold keep_better cs None)" by simp
  show ?case
  proof (cases "fold keep_better cs None")
    case None
    with snoc have "cs = []" by simp
    moreover have "first_best [c] c" unfolding first_best_def by (intro exI [of _ "[]"]) simp
    ultimately show ?thesis by (simp add: keep_better_def)
  next
    case (Some b)
    with snoc obtain pre post where b: "cs = pre @ b # post" "\<forall>c \<in> set pre. better b c" "\<forall>c \<in> set post. \<not> better c b"
      by (auto simp: first_best_def)
    show ?thesis
    proof (cases "better c b")
      case True
      with b have "\<forall>d \<in> set cs. better c d" by (auto simp: better_def)
      then have "first_best (cs @ [c]) c" unfolding first_best_def by (intro exI [of _ cs] exI [of _ "[]"]) simp
      with True Some show ?thesis unfolding step by (simp add: keep_better_def)
    next
      case False
      with b have "first_best (cs @ [c]) b"
        unfolding first_best_def by (intro exI [of _ pre] exI [of _ "post @ [c]"]) simp
      with False Some show ?thesis unfolding step by (simp add: keep_better_def)
    qed
  qed
qed simp

lemma tried_iff:
  "s \<in> set (tried bs feet) \<longleftrightarrow> (\<exists>f \<in> set feet.
     \<exists>k \<in> {length bs div foot_positions f, max 1 (div_ceil (length bs) (foot_positions f))}.
       k \<noteq> 0 \<and> s = scan bs (meter_new f k))"
  by (auto simp: tried_def)

lemma meter_new_sel [simp]: "mt_foot (meter_new f k) = f" "mt_feet (meter_new f k) = k"
  by (simp_all add: meter_new_def)

lemma tried_scan:
  assumes "s \<in> set (tried bs feet)"
  shows "\<exists>m. s = scan bs m \<and> mt_foot m \<in> set feet \<and> 0 < mt_feet m"
proof -
  from assms obtain f k where "f \<in> set feet" "k \<noteq> 0" "s = scan bs (meter_new f k)"
    unfolding tried_iff by blast
  then show ?thesis by (intro exI [of _ "meter_new f k"]) simp
qed

lemma tried_Nil: "tried bs feet = [] \<longleftrightarrow> feet = []"
  by (cases feet) (auto simp: tried_def)

lemma tried_regular:
  assumes "f \<in> set feet" and "0 < n"
  shows "scan (concat (replicate n (pattern f))) (meter_new f n) \<in> set (tried (concat (replicate n (pattern f))) feet)"
proof -
  have "length (concat (replicate n (pattern f))) div foot_positions f = n"
    using foot_positions_pos [of f] by (simp add: foot_positions_def)
  then have "n \<in> {length (concat (replicate n (pattern f))) div foot_positions f,
      max 1 (div_ceil (length (concat (replicate n (pattern f)))) (foot_positions f))}"
    by (metis insertI1)
  with assms show ?thesis unfolding tried_iff by (metis less_numeral_extra(3))
qed

section \<open>Kinship\<close>

text \<open>
  The contract of a relation of sounds: it does not depend on which of the two words is heard
  first. A relation may panic on syllables that are not of the word.
\<close>

locale kinship =
  fixes kin :: "'w \<Rightarrow> 'w \<Rightarrow> bool option"
  assumes kin_sym: "kin a b = kin b a"
begin

text \<open>The pairs of positions, the left one first, that are kin.\<close>

lemma pairs_rev:
  assumes "i < length ws" and "j < length ws"
  shows "kin (rev ws ! i) (rev ws ! j) = kin (ws ! (length ws - 1 - j)) (ws ! (length ws - 1 - i))"
  using assms kin_sym by (simp add: rev_nth)

end

lemma ids_equal_sym: "ids_equal a b = ids_equal b a"
  by (auto simp: ids_equal_def list_all_length)

lemma ids_equal_refl [simp]: "ids_equal a a"
  by (auto simp: ids_equal_def list_all_length)

lemma consonants_agree_sym: "consonants_agree a b = consonants_agree b a"
  by (auto simp: consonants_agree_def list_all_length)

lemma ids_equal_Nil [simp]: "ids_equal a [] \<longleftrightarrow> a = []" "ids_equal [] a \<longleftrightarrow> a = []"
  by (auto simp: ids_equal_def)

interpretation perfect: kinship is_perfect_rhyme
  by unfold_locales
    (auto simp: is_perfect_rhyme_def ids_equal_sym split: option.splits Option.bind_splits)

interpretation slant: kinship is_slant_rhyme
  by unfold_locales
    (auto simp: is_slant_rhyme_def ids_equal_sym consonants_agree_sym Let_def split: Option.bind_splits)

interpretation assonant: kinship is_assonant
  by unfold_locales (auto simp: is_assonant_def split: option.splits Option.bind_splits)

interpretation alliterative: kinship is_alliterative
  by unfold_locales (auto simp: is_alliterative_def split: option.splits Option.bind_splits)


section \<open>What the relations imply\<close>

lemma rhyme_tail_Some: "rhyme_start w = Some i \<Longrightarrow> i < length (fst w) \<Longrightarrow> rhyme_tail w = Some (drop i (fst w))"
  by (simp add: rhyme_tail_def)

lemma ids_equal_hd: "ids_equal (x # xs) ys \<Longrightarrow> \<exists>y ys'. ys = y # ys' \<and> ph_id x = ph_id y"
  by (cases ys) (auto simp: ids_equal_def)

lemma perfect_assonant:
  assumes "is_perfect_rhyme a b = Some True"
  shows "is_assonant a b = Some True"
proof -
  from assms obtain ta tb where t: "rhyme_tail a = Some ta" "rhyme_tail b = Some tb" "ta \<noteq> []" "ids_equal ta tb"
    by (auto simp: is_perfect_rhyme_def split: if_splits Option.bind_splits)
  then have "tb \<noteq> []" by (auto simp: ids_equal_def)
  with t obtain i j where "rhyme_start a = Some i" "ta = drop i (fst a)" "rhyme_start b = Some j" "tb = drop j (fst b)"
    by (auto simp: rhyme_tail_def split: option.splits if_splits)
  with t \<open>tb \<noteq> []\<close> have len: "i < length (fst a)" "j < length (fst b)" and start: "rhyme_start a = Some i" "rhyme_start b = Some j"
    and eq: "ids_equal (drop i (fst a)) (drop j (fst b))"
    by auto
  from eq have "ids_equal (fst a ! i # drop (Suc i) (fst a)) (fst b ! j # drop (Suc j) (fst b))"
    by (simp add: Cons_nth_drop_Suc len)
  then have "ph_id (fst a ! i) = ph_id (fst b ! j)" by (simp add: ids_equal_def)
  with len start show ?thesis by (simp add: is_assonant_def list_get_def)
qed

lemma perfect_not_slant: "is_perfect_rhyme a b = Some True \<Longrightarrow> is_slant_rhyme a b = Some False"
  by (auto simp: is_perfect_rhyme_def is_slant_rhyme_def split: if_splits Option.bind_splits)

lemma agreement_sym: "agreement a b = agreement b a"
proof -
  have "(\<lambda>k. ph_id (a ! (length a - 1 - k)) = ph_id (b ! (length b - 1 - k))) =
      (\<lambda>k. ph_id (b ! (length b - 1 - k)) = ph_id (a ! (length a - 1 - k)))"
    by (auto simp: fun_eq_iff)
  then show ?thesis
    unfolding agreement_def Let_def by (simp only: min.commute [of "length a"] max.commute [of "length a"])
qed

lemma agreement_bounds: "0 \<le> agreement a b" "agreement a b \<le> 1"
proof -
  let ?n = "min (length a) (length b)"
  let ?p = "\<lambda>k. ph_id (a ! (length a - 1 - k)) = ph_id (b ! (length b - 1 - k))"
  have le: "length (takeWhile ?p [0..<?n]) \<le> max (length a) (length b)"
    using length_takeWhile_le [of ?p "[0..<?n]"] unfolding length_upt diff_zero
    by (rule order_trans) simp
  show "0 \<le> agreement a b" by (simp add: agreement_def Let_def)
  have "of_nat (length (takeWhile ?p [0..<?n])) \<le> (of_nat (max (length a) (length b)) :: rat)"
    using le by (simp only: of_nat_le_iff)
  moreover have "0 < max (length a) (length b)" if "?n \<noteq> 0"
    using that by (simp add: less_max_iff_disj)
  ultimately show "agreement a b \<le> 1"
    unfolding agreement_def Let_def by (auto simp: divide_le_eq_1 simp del: of_nat_max)
qed

text \<open>The syllables of a word never make a relation panic.\<close>

lemma last_index_bound: "last_index p xs = Some i \<Longrightarrow> i < length xs"
  by (induction xs arbitrary: i) (auto split: option.splits if_splits)

lemma rhyme_start_in:
  assumes "rhyme_start (phones, ss) = Some i"
  shows "\<exists>s \<in> set ss. i = sy_nucleus s"
proof -
  define P :: "syllable \<Rightarrow> bool" where "P = (\<lambda>s. case list_get phones (sy_nucleus s) of Some p \<Rightarrow> ph_stress p = Primary | None \<Rightarrow> False)"
  define anchor where "anchor = (case last_index P ss of Some i \<Rightarrow> i | None \<Rightarrow> length ss - 1)"
  have "rhyme_start (phones, ss) = (if ss = [] then None else Some (sy_nucleus (ss ! anchor)))"
    unfolding rhyme_start_def Let_def P_def anchor_def by simp
  with assms have "ss \<noteq> []" and i: "i = sy_nucleus (ss ! anchor)" by (auto split: if_splits)
  then have "anchor < length ss" by (cases "last_index P ss") (auto simp: anchor_def dest: last_index_bound)
  with i show ?thesis by auto
qed

lemma rhyme_start_syllabify:
  "rhyme_start (phones, syllabify phones rule) = Some i \<Longrightarrow> i < length phones"
  by (drule rhyme_start_in) (use syllabify_syllable(2,3) in fastforce)

lemma rhyme_tail_syllabify: "rhyme_tail (phones, syllabify phones rule) \<noteq> None"
  by (auto simp: rhyme_tail_def dest: rhyme_start_syllabify split: option.splits)

lemma first_onset_syllabify: "first_onset (phones, syllabify phones rule) \<noteq> None"
proof (cases "syllabify phones rule")
  case Nil
  then show ?thesis by (simp add: first_onset_def)
next
  case (Cons s ss)
  then have "s \<in> set (syllabify phones rule)" by simp
  from syllabify_syllable [OF this] Cons show ?thesis
    by (auto simp: first_onset_def onset_len_def list_get_def split: Option.bind_splits)
qed

lemma compare_syllabify:
  "compare_sounds (p, syllabify p r) (q, syllabify q r') \<noteq> None"
proof -
  obtain ta tb where "rhyme_tail (p, syllabify p r) = Some ta" "rhyme_tail (q, syllabify q r') = Some tb"
    using rhyme_tail_syllabify by fastforce
  moreover obtain x y where "first_onset (p, syllabify p r) = Some x" "first_onset (q, syllabify q r') = Some y"
    using first_onset_syllabify by fastforce
  moreover obtain v where "is_assonant (p, syllabify p r) (q, syllabify q r') = Some v"
    by (cases "rhyme_start (p, syllabify p r)"; cases "rhyme_start (q, syllabify q r')")
      (auto simp: is_assonant_def list_get_def dest!: rhyme_start_syllabify [of p] rhyme_start_syllabify [of q])
  ultimately show ?thesis
    by (simp add: compare_sounds_def is_perfect_rhyme_def is_slant_rhyme_def is_alliterative_def)
qed

lemma relations_syllabify:
  "is_perfect_rhyme (p, syllabify p r) (q, syllabify q r') \<noteq> None"
  "is_slant_rhyme (p, syllabify p r) (q, syllabify q r') \<noteq> None"
  "is_assonant (p, syllabify p r) (q, syllabify q r') \<noteq> None"
  "is_alliterative (p, syllabify p r) (q, syllabify q r') \<noteq> None"
  using compare_syllabify [of p r q r'] by (auto simp: compare_sounds_def split: Option.bind_splits)

section \<open>Properties\<close>


text \<open>a line made of one of the feet tried is found to be regular, in a metre that spells it.\<close>

theorem regular_line_found:
  assumes "f \<in> set feet" and "0 < n"
  shows "\<exists>s. scan_best (concat (replicate n (pattern f))) feet = Some s \<and> is_regular s \<and>
    concat (replicate (mt_feet (sc_meter s)) (pattern (mt_foot (sc_meter s)))) = concat (replicate n (pattern f))"
proof -
  let ?bs = "concat (replicate n (pattern f))"
  have "tried ?bs feet \<noteq> []" using assms(1) by (auto simp: tried_Nil)
  then obtain s where s: "scan_best ?bs feet = Some s" "first_best (tried ?bs feet) s"
    using fold_keep_better [of "tried ?bs feet"] by (auto simp: scan_best_tried split: option.splits)
  then have "s \<in> set (tried ?bs feet)" by (auto simp: first_best_def)
  with tried_scan obtain m where m: "s = scan ?bs m" by blast
  have "pattern f \<noteq> []" by (cases f) simp_all
  with assms(2) have "is_regular (scan ?bs (meter_new f n))" by (auto simp: scan_regular_iff)
  moreover have "\<not> better (scan ?bs (meter_new f n)) s"
    using first_best_max [OF s(2) tried_regular [OF assms]] .
  ultimately have "is_regular s"
    using fit_le_1 [of ?bs m] by (auto simp: m regular_iff_best better_def)
  moreover from this have "concat (replicate (mt_feet m) (pattern (mt_foot m))) = ?bs"
    by (simp add: m scan_regular_iff)
  moreover have "sc_meter s = m" by (simp add: m scan_def Let_def)
  ultimately show ?thesis using s(1) by auto
qed

theorem regular_line_found_witness:
  "\<exists>s. scan_best [Weak, Strong, Weak, Strong] COMMON = Some s \<and> is_regular s"
proof -
  have "Iamb \<in> set COMMON" by (simp add: COMMON_def)
  from regular_line_found [OF this, of 2] show ?thesis by (auto simp: eval_nat_numeral)
qed

text \<open>
  C38: comparing two words does not depend on their order and never panics on the syllables of the
  words; a perfect rhyme is an assonance and no slant rhyme, no word rhymes with itself, and the
  agreement lies between zero and one.
\<close>

theorem compare_sounds_lawful:
  "compare_sounds a b = compare_sounds b a \<and>
   compare_sounds (p, syllabify p r) (q, syllabify q r') \<noteq> None \<and>
   (case compare_sounds a b of None \<Rightarrow> True
    | Some s \<Rightarrow> so_perfect_rhyme s \<le> (so_assonance s \<and> \<not> so_slant_rhyme s \<and> a \<noteq> b) \<and>
        0 \<le> so_agreement s \<and> so_agreement s \<le> 1)"
proof (intro conjI)
  show "compare_sounds a b = compare_sounds b a"
    unfolding compare_sounds_def is_consonant_def
    by (simp only: perfect.kin_sym [of a b] slant.kin_sym [of a b] assonant.kin_sym [of a b]
        alliterative.kin_sym [of a b] consonants_agree_sym [of "fst a" "fst b"] agreement_sym [of "fst a" "fst b"])
  show "compare_sounds (p, syllabify p r) (q, syllabify q r') \<noteq> None" by (rule compare_syllabify)
  have "\<not> (is_perfect_rhyme a b = Some True \<and> a = b)"
    by (auto simp: is_perfect_rhyme_def split: if_splits Option.bind_splits)
  with perfect_assonant [of a b] perfect_not_slant [of a b]
  show "case compare_sounds a b of None \<Rightarrow> True
    | Some s \<Rightarrow> so_perfect_rhyme s \<le> (so_assonance s \<and> \<not> so_slant_rhyme s \<and> a \<noteq> b) \<and>
        0 \<le> so_agreement s \<and> so_agreement s \<le> 1"
    by (auto simp: compare_sounds_def agreement_bounds split: option.split Option.bind_splits)
qed

end
