(* ===== verification/Sound_Reading.thy ===== *)
theory Sound_Reading
  imports Mora_English Mora_Verse
begin

text \<open>
  Sound readings of a selection (\<open>knot-readings/src/sound.rs\<close>): its words, what the dictionary
  says of each, which pairs of words are kin, and the metre of a line.

  The dictionary is an argument (\<open>Cmudict::embedded\<close>). Which characters beyond ASCII are
  alphabetic is Unicode data, the parameter \<open>uni\<close>. The outer option of a result is the panic of
  the layers below.
\<close>

section \<open>Types\<close>

definition MAX_SELECTION_BYTES :: nat where "MAX_SELECTION_BYTES = 16384"
definition MAX_TOKENS :: nat where "MAX_TOKENS = 128"
definition MAX_PAIRS :: nat where "MAX_PAIRS = 4096"

record sound_layers =
  la_perfect_rhyme :: bool
  la_slant_rhyme :: bool
  la_assonance :: bool
  la_alliteration :: bool
  la_meter :: bool

definition any_pairwise :: "sound_layers \<Rightarrow> bool" where
  "any_pairwise l \<longleftrightarrow> la_perfect_rhyme l \<or> la_slant_rhyme l \<or> la_assonance l \<or> la_alliteration l"

record sound_token =
  tk_word :: string
  tk_start :: nat
  tk_end :: nat
  tk_variants :: "string list"
  tk_selected :: "nat option"
  tk_defaulted :: bool

datatype sound_kind = PerfectRhyme | SlantRhyme | Assonance | Alliteration

fun sound_kind_label :: "sound_kind \<Rightarrow> string" where
  "sound_kind_label PerfectRhyme = ''Perfect rhyme''"
| "sound_kind_label SlantRhyme = ''Slant rhyme''"
| "sound_kind_label Assonance = ''Assonance''"
| "sound_kind_label Alliteration = ''Alliteration''"

record sound_relation =
  re_left :: nat
  re_right :: nat
  re_kind :: sound_kind

record sound_meter =
  sm_label :: string
  sm_fit :: rat
  sm_regular :: bool

record sound_reading =
  sr_selection :: "nat \<times> nat"
  sr_tokens :: "sound_token list"
  sr_relations :: "sound_relation list"
  sr_meter :: "sound_meter option"
  sr_unresolved :: "nat list"

datatype sound_error =
    InvalidSelection
  | SelectionTooLong
  | TooManyTokens
  | ChoiceOutside
  | TooManyPairs
  | InvalidChoice nat nat

section \<open>Words\<close>

definition alphabetic :: "(nat \<Rightarrow> bool) \<Rightarrow> string \<Rightarrow> bool" where
  "alphabetic uni g \<longleftrightarrow>
     (let n = code_point g
      in if n < 128 then 65 \<le> n \<and> n \<le> 90 \<or> 97 \<le> n \<and> n \<le> 122 else uni n)"

text \<open>The apostrophes: U+0027 and U+2019.\<close>

definition is_apostrophe :: "string \<Rightarrow> bool" where
  "is_apostrophe g \<longleftrightarrow> code_point g = 39 \<or> code_point g = 8217"

definition word_character :: "(nat \<Rightarrow> bool) \<Rightarrow> string \<Rightarrow> bool" where
  "word_character uni g \<longleftrightarrow> alphabetic uni g \<or> is_apostrophe g"

definition byte_slice :: "string \<Rightarrow> nat \<Rightarrow> nat \<Rightarrow> string" where
  "byte_slice s a b = take (b - a) (drop a s)"

definition has_letter :: "(nat \<Rightarrow> bool) \<Rightarrow> string \<Rightarrow> bool" where
  "has_letter uni s \<longleftrightarrow> list_ex (alphabetic uni) (str_chars s)"

text \<open>The loop over \<open>char_indices\<close>: the next offset, where a word began, the ranges found.\<close>

fun token_scan ::
  "(nat \<Rightarrow> bool) \<Rightarrow> string \<Rightarrow> nat \<Rightarrow> string list \<Rightarrow> nat \<Rightarrow> nat option \<Rightarrow> (nat \<times> nat) list \<Rightarrow> (nat \<times> nat) list" where
  "token_scan uni s offset [] index start ranges =
     (case start of
        Some begin_ \<Rightarrow>
          if has_letter uni (drop begin_ s) then ranges @ [(offset + begin_, offset + length s)] else ranges
      | None \<Rightarrow> ranges)"
| "token_scan uni s offset (g # gs) index start ranges =
     (case (start, word_character uni g) of
        (None, True) \<Rightarrow> token_scan uni s offset gs (index + length g) (Some index) ranges
      | (Some begin_, False) \<Rightarrow>
          token_scan uni s offset gs (index + length g) None
            (if has_letter uni (byte_slice s begin_ index) then ranges @ [(offset + begin_, offset + index)] else ranges)
      | _ \<Rightarrow> token_scan uni s offset gs (index + length g) start ranges)"

definition tokenize :: "(nat \<Rightarrow> bool) \<Rightarrow> string \<Rightarrow> nat \<Rightarrow> (nat \<times> nat) list" where
  "tokenize uni s offset = token_scan uni s offset (str_chars s) 0 None []"

section \<open>Labels\<close>

definition stress_mark :: "phone \<Rightarrow> string" where
  "stress_mark p = (case ph_stress p of
     Unstressed \<Rightarrow> if is_vowel p then ''0'' else ''''
   | Primary \<Rightarrow> ''1''
   | Secondary \<Rightarrow> ''2''
   | NoStress \<Rightarrow> '''')"

definition phone_text :: "phone \<Rightarrow> string" where
  "phone_text p = (case symbol (ph_id p) of Some n \<Rightarrow> n | None \<Rightarrow> ''?'') @ stress_mark p"

fun join_spaces :: "string list \<Rightarrow> string" where
  "join_spaces [] = ''''"
| "join_spaces [x] = x"
| "join_spaces (x # xs) = x @ '' '' @ join_spaces xs"

definition phone_label :: "phone list \<Rightarrow> string" where
  "phone_label ps = join_spaces (map phone_text ps)"

fun foot_label :: "foot \<Rightarrow> string" where
  "foot_label Iamb = ''Iamb''"
| "foot_label Trochee = ''Trochee''"
| "foot_label Dactyl = ''Dactyl''"
| "foot_label Anapest = ''Anapest''"
| "foot_label _ = ''Other foot''"

section \<open>Tokens\<close>

definition plain_apostrophes :: "string \<Rightarrow> string" where
  "plain_apostrophes s = concat (map (\<lambda>g. if code_point g = 8217 then [char_of (39 :: nat)] else g) (str_chars s))"

text \<open>The loop over the token ranges: tokens, chosen phones and unresolved indices.\<close>

fun resolve_tokens ::
  "cmudict \<Rightarrow> string \<Rightarrow> (nat \<times> nat) list \<Rightarrow> nat \<Rightarrow> (nat \<times> nat) list
     \<Rightarrow> sound_error + (sound_token list \<times> phone list option list \<times> nat list)" where
  "resolve_tokens d src choices index [] = Inr ([], [], [])"
| "resolve_tokens d src choices index ((a, b) # rs) =
     (let word = byte_slice src a b;
          prons = (case pronunciations d (plain_apostrophes word) of Some ps \<Rightarrow> ps | None \<Rightarrow> []);
          chosen = map_of choices index
      in if (case chosen of Some c \<Rightarrow> c \<ge> length prons | None \<Rightarrow> False)
         then Inl (InvalidChoice (the chosen) index)
         else let selected = (if prons = [] then None else Some (case chosen of Some c \<Rightarrow> c | None \<Rightarrow> 0));
                  token = \<lparr>tk_word = word, tk_start = a, tk_end = b, tk_variants = map phone_label prons,
                    tk_selected = selected, tk_defaulted = (selected \<noteq> None \<and> chosen = None)\<rparr>
              in (case resolve_tokens d src choices (index + 1) rs of
                    Inl e \<Rightarrow> Inl e
                  | Inr (ts, ps, us) \<Rightarrow>
                      Inr (token # ts, map_option (\<lambda>c. prons ! c) selected # ps,
                        (if selected = None then index # us else us))))"

section \<open>Relations and metre\<close>

definition sounded :: "phone list \<Rightarrow> word_sound" where
  "sounded ps = (ps, syllabify ps SYLLABLE_RULE)"

fun kind_holds :: "sound_kind \<Rightarrow> word_sound \<Rightarrow> word_sound \<Rightarrow> bool option" where
  "kind_holds PerfectRhyme a b = is_perfect_rhyme a b"
| "kind_holds SlantRhyme a b = is_slant_rhyme a b"
| "kind_holds Assonance a b = is_assonant a b"
| "kind_holds Alliteration a b = is_alliterative a b"

fun layer_enabled :: "sound_layers \<Rightarrow> sound_kind \<Rightarrow> bool" where
  "layer_enabled l PerfectRhyme = la_perfect_rhyme l"
| "layer_enabled l SlantRhyme = la_slant_rhyme l"
| "layer_enabled l Assonance = la_assonance l"
| "layer_enabled l Alliteration = la_alliteration l"

definition all_kinds :: "sound_kind list" where
  "all_kinds = [PerfectRhyme, SlantRhyme, Assonance, Alliteration]"

text \<open>What one pair of words adds: every relation is computed, the enabled ones are kept.\<close>

definition pair_relations ::
  "sound_layers \<Rightarrow> nat \<Rightarrow> nat \<Rightarrow> word_sound \<Rightarrow> word_sound \<Rightarrow> sound_relation list option" where
  "pair_relations layers l r a b =
     map_option concat (collect_options (map (\<lambda>k.
       map_option (\<lambda>holds. if layer_enabled layers k \<and> holds
         then [\<lparr>re_left = l, re_right = r, re_kind = k\<rparr>] else []) (kind_holds k a b)) all_kinds))"

definition right_relations ::
  "sound_layers \<Rightarrow> phone list option list \<Rightarrow> nat \<Rightarrow> word_sound \<Rightarrow> sound_relation list option" where
  "right_relations layers phones l a =
     map_option concat (collect_options (map (\<lambda>r. case phones ! r of
         None \<Rightarrow> Some []
       | Some q \<Rightarrow> pair_relations layers l r a (sounded q)) [l + 1..<length phones]))"

definition find_relations ::
  "sound_layers \<Rightarrow> phone list option list \<Rightarrow> sound_relation list option" where
  "find_relations layers phones =
     (if any_pairwise layers then
        map_option concat (collect_options (map (\<lambda>l. case phones ! l of
            None \<Rightarrow> Some []
          | Some p \<Rightarrow> right_relations layers phones l (sounded p)) [0..<length phones]))
      else Some [])"

definition line_beats :: "phone list option list \<Rightarrow> beat list option" where
  "line_beats phones = map_option concat (collect_options (map (\<lambda>ps.
     beats ps (syllabify ps SYLLABLE_RULE) Accentual WEIGHT_RULE) (List.map_filter id phones)))"

definition sound_meter_of :: "scansion \<Rightarrow> sound_meter" where
  "sound_meter_of s =
     \<lparr>sm_label = foot_label (mt_foot (sc_meter s)) @ '' '' @ [char_of (195 :: nat), char_of (151 :: nat)] @ '' '' @
        nat_str (mt_feet (sc_meter s)),
      sm_fit = fit s, sm_regular = is_regular s\<rparr>"

definition line_meter ::
  "sound_layers \<Rightarrow> string \<Rightarrow> nat list \<Rightarrow> phone list option list \<Rightarrow> sound_meter option option" where
  "line_meter layers selected unresolved phones =
     (if la_meter layers \<and> unresolved = [] \<and> nl \<notin> set selected \<and> cr \<notin> set selected
      then map_option (\<lambda>bs. map_option sound_meter_of (scan_best bs COMMON)) (line_beats phones)
      else Some None)"

definition analyze ::
  "(nat \<Rightarrow> bool) \<Rightarrow> cmudict \<Rightarrow> string \<Rightarrow> nat \<Rightarrow> nat \<Rightarrow> (nat \<times> nat) list \<Rightarrow> sound_layers
     \<Rightarrow> (sound_error + sound_reading) option" where
  "analyze uni d src a b choices layers =
     (if a > b \<or> b > length src \<or> \<not> is_char_boundary src a \<or> \<not> is_char_boundary src b
      then Some (Inl InvalidSelection)
      else if b - a > MAX_SELECTION_BYTES then Some (Inl SelectionTooLong)
      else let selected = byte_slice src a b; ranges = tokenize uni selected a; n = length ranges
           in if n > MAX_TOKENS then Some (Inl TooManyTokens)
              else if list_ex (\<lambda>(i, _). i \<ge> n) choices then Some (Inl ChoiceOutside)
              else if any_pairwise layers \<and> n * (n - 1) div 2 > MAX_PAIRS then Some (Inl TooManyPairs)
              else case resolve_tokens d src choices 0 ranges of
                Inl e \<Rightarrow> Some (Inl e)
              | Inr (tokens, phones, unresolved) \<Rightarrow>
                  Option.bind (find_relations layers phones) (\<lambda>relations.
                  Option.bind (line_meter layers selected unresolved phones) (\<lambda>meter.
                    Some (Inr \<lparr>sr_selection = (a, b), sr_tokens = tokens, sr_relations = relations,
                      sr_meter = meter, sr_unresolved = unresolved\<rparr>))))"


section \<open>Which words are found\<close>

text \<open>The maximal runs of word characters.\<close>

fun word_runs :: "(nat \<Rightarrow> bool) \<Rightarrow> string list \<Rightarrow> string \<Rightarrow> string list" where
  "word_runs uni [] acc = (if acc = [] then [] else [acc])"
| "word_runs uni (g # gs) acc =
     (if word_character uni g then word_runs uni gs (acc @ g)
      else if acc = [] then word_runs uni gs [] else acc # word_runs uni gs [])"

text \<open>Ranges one after the other between two bounds.\<close>

fun ordered :: "nat \<Rightarrow> nat \<Rightarrow> (nat \<times> nat) list \<Rightarrow> bool" where
  "ordered lo hi [] \<longleftrightarrow> lo \<le> hi"
| "ordered lo hi ((a, b) # rs) \<longleftrightarrow> lo \<le> a \<and> a < b \<and> ordered b hi rs"

lemma ordered_mono: "ordered lo hi rs \<Longrightarrow> hi \<le> hi' \<Longrightarrow> ordered lo hi' rs"
  by (induction lo hi rs rule: ordered.induct) auto

lemma ordered_snoc: "ordered lo a rs \<Longrightarrow> a < b \<Longrightarrow> b \<le> hi \<Longrightarrow> ordered lo hi (rs @ [(a, b)])"
  by (induction lo a rs rule: ordered.induct) auto

lemma token_scan_ordered:
  assumes "\<forall>g \<in> set gs. g \<noteq> []" and "index + length (concat gs) = length s"
    and "ordered offset (offset + (case start of Some m \<Rightarrow> m | None \<Rightarrow> index)) ranges"
    and "case start of Some m \<Rightarrow> m < index | None \<Rightarrow> True"
  shows "ordered offset (offset + length s) (token_scan uni s offset gs index start ranges)"
  using assms
proof (induction gs arbitrary: index start ranges)
  case Nil
  then show ?case by (cases start) (auto intro: ordered_snoc ordered_mono)
next
  case (Cons g gs)
  let ?next = "\<lambda>start ranges. ordered offset (offset + length s)
    (token_scan uni s offset gs (index + length g) start ranges)"
  have len: "index + length g + length (concat gs) = length s" using Cons.prems(2) by simp
  have go: "ordered offset (offset + (case start of Some m \<Rightarrow> m | None \<Rightarrow> index + length g)) ranges \<Longrightarrow>
      (case start of Some m \<Rightarrow> m < index + length g | None \<Rightarrow> True) \<Longrightarrow> ?next start ranges" for start ranges
    using Cons.IH [OF _ len] Cons.prems(1) by simp
  show ?case
    using Cons.prems
    by (cases start; cases "word_character uni g")
      (auto intro!: go intro: ordered_snoc ordered_mono)
qed

definition run_so_far :: "string \<Rightarrow> nat option \<Rightarrow> string" where
  "run_so_far pre start = (case start of Some m \<Rightarrow> drop m pre | None \<Rightarrow> [])"

lemma token_scan_runs:
  assumes "\<forall>g \<in> set gs. g \<noteq> []" and "case start of Some m \<Rightarrow> m < length pre | None \<Rightarrow> True"
    and "s = pre @ concat gs"
  shows "map (\<lambda>(a, b). byte_slice s (a - offset) (b - offset)) (token_scan uni s offset gs (length pre) start ranges) =
    map (\<lambda>(a, b). byte_slice s (a - offset) (b - offset)) ranges @
    filter (has_letter uni) (word_runs uni gs (run_so_far pre start))"
  using assms
proof (induction gs arbitrary: pre start ranges)
  case Nil
  then show ?case by (cases start) (auto simp: run_so_far_def byte_slice_def)
next
  case (Cons g gs)
  have step: "token_scan uni s offset gs (length pre + length g) = token_scan uni s offset gs (length (pre @ g))"
    by simp
  show ?case
    using Cons.prems Cons.IH [where pre = "pre @ g"]
    by (cases start; cases "word_character uni g") (simp_all add: step run_so_far_def byte_slice_def)
qed

lemma str_chars_nonempty_all: "\<forall>g \<in> set (str_chars s). g \<noteq> []"
  using str_chars_nonempty by blast

lemma tokenize_ordered: "ordered offset (offset + length s) (tokenize uni s offset)"
  unfolding tokenize_def using str_chars_nonempty_all by (intro token_scan_ordered) simp_all

lemma tokenize_words:
  "map (\<lambda>(a, b). byte_slice s (a - offset) (b - offset)) (tokenize uni s offset) =
    filter (has_letter uni) (word_runs uni (str_chars s) [])"
  unfolding tokenize_def
  using token_scan_runs [OF str_chars_nonempty_all, where start = None and pre = "[]" and s = s
      and offset = offset and uni = uni and ranges = "[]"]
  by (simp add: run_so_far_def)

section \<open>What a reading holds\<close>

definition token_phones :: "cmudict \<Rightarrow> sound_token \<Rightarrow> phone list option" where
  "token_phones d t = map_option (\<lambda>c. the (pronunciations d (plain_apostrophes (tk_word t))) ! c) (tk_selected t)"

definition token_ok :: "cmudict \<Rightarrow> string \<Rightarrow> (nat \<times> nat) list \<Rightarrow> nat \<Rightarrow> sound_token \<Rightarrow> bool" where
  "token_ok d src choices i t \<longleftrightarrow>
     (let prons = (case pronunciations d (plain_apostrophes (tk_word t)) of Some ps \<Rightarrow> ps | None \<Rightarrow> [])
      in tk_word t = byte_slice src (tk_start t) (tk_end t) \<and> tk_variants t = map phone_label prons \<and>
         (case tk_selected t of None \<Rightarrow> prons = [] \<and> map_of choices i = None
          | Some c \<Rightarrow> c < length prons \<and> (case map_of choices i of None \<Rightarrow> c = 0 \<and> tk_defaulted t
              | Some c' \<Rightarrow> c = c' \<and> \<not> tk_defaulted t)))"

lemma resolve_tokens_Inr:
  "resolve_tokens d src choices i rs = Inr (ts, ps, us) \<Longrightarrow>
    map (\<lambda>t. (tk_start t, tk_end t)) ts = rs \<and> ps = map (token_phones d) ts \<and>
    us = map fst (filter (\<lambda>(_, t). tk_selected t = None) (enumerate i ts)) \<and>
    list_all (\<lambda>(j, t). token_ok d src choices j t) (enumerate i ts)"
proof (induction d src choices i rs arbitrary: ts ps us rule: resolve_tokens.induct)
  case (2 d src choices i a b rs)
  let ?prons = "case pronunciations d (plain_apostrophes (byte_slice src a b)) of Some ps \<Rightarrow> ps | None \<Rightarrow> []"
  let ?sel = "if ?prons = [] then None else Some (case map_of choices i of Some c \<Rightarrow> c | None \<Rightarrow> 0)"
  let ?t = "\<lparr>tk_word = byte_slice src a b, tk_start = a, tk_end = b, tk_variants = map phone_label ?prons,
    tk_selected = ?sel, tk_defaulted = (?sel \<noteq> None \<and> map_of choices i = None)\<rparr>"
  from "2.prems" have good: "\<not> (case map_of choices i of Some c \<Rightarrow> c \<ge> length ?prons | None \<Rightarrow> False)"
    by (auto simp: Let_def)
  with "2.prems" obtain ts' ps' us' where rest: "resolve_tokens d src choices (i + 1) rs = Inr (ts', ps', us')"
    and eqs: "ts = ?t # ts'" "ps = map_option (\<lambda>c. ?prons ! c) ?sel # ps'"
      "us = (if ?sel = None then i # us' else us')"
    by (auto simp: Let_def split: sum.splits)
  have "token_ok d src choices i ?t" using good
    by (auto simp: token_ok_def Let_def split: option.splits)
  moreover have "map_option (\<lambda>c. ?prons ! c) ?sel = token_phones d ?t"
    by (cases "pronunciations d (plain_apostrophes (byte_slice src a b))") (simp_all add: token_phones_def)
  ultimately show ?case
    using "2.IH" [OF refl refl refl good refl refl rest] eqs by simp
qed simp

text \<open>Collecting lists of facts that are each characterised.\<close>

lemma collect_concat:
  assumes "\<And>x. x \<in> set xs \<Longrightarrow> \<exists>ys. f x = Some ys \<and> (\<forall>y. y \<in> set ys \<longleftrightarrow> P x y)"
  shows "\<exists>zs. map_option concat (collect_options (map f xs)) = Some zs \<and> (\<forall>y. y \<in> set zs \<longleftrightarrow> (\<exists>x \<in> set xs. P x y))"
  using assms
proof (induction xs)
  case (Cons x xs)
  from Cons.prems [of x] obtain ys where "f x = Some ys" "\<forall>y. y \<in> set ys \<longleftrightarrow> P x y" by auto
  moreover from Cons obtain zs where "map_option concat (collect_options (map f xs)) = Some zs"
    "\<forall>y. y \<in> set zs \<longleftrightarrow> (\<exists>x \<in> set xs. P x y)" by auto
  ultimately show ?case by auto
qed simp

lemma kind_holds_sounded: "kind_holds k (sounded p) (sounded q) \<noteq> None"
  unfolding sounded_def by (cases k) (simp_all add: relations_syllabify)

lemma kind_holds_sym: "kind_holds k a b = kind_holds k b a"
  by (cases k)
    (simp_all add: perfect.kin_sym [of a b] slant.kin_sym [of a b] assonant.kin_sym [of a b]
      alliterative.kin_sym [of a b])

lemma set_all_kinds: "k \<in> set all_kinds"
  by (cases k) (simp_all add: all_kinds_def)

definition related :: "sound_layers \<Rightarrow> phone list option list \<Rightarrow> sound_relation \<Rightarrow> bool" where
  "related layers phones rel \<longleftrightarrow> layer_enabled layers (re_kind rel) \<and> re_left rel < re_right rel \<and>
     re_right rel < length phones \<and>
     (case (phones ! re_left rel, phones ! re_right rel) of
        (Some p, Some q) \<Rightarrow> kind_holds (re_kind rel) (sounded p) (sounded q) = Some True
      | _ \<Rightarrow> False)"

lemma pair_relations_Some:
  "\<exists>ys. pair_relations layers l r (sounded p) (sounded q) = Some ys \<and> (\<forall>y. y \<in> set ys \<longleftrightarrow>
    re_left y = l \<and> re_right y = r \<and> layer_enabled layers (re_kind y) \<and>
    kind_holds (re_kind y) (sounded p) (sounded q) = Some True)"
proof -
  let ?f = "\<lambda>k. map_option (\<lambda>holds. if layer_enabled layers k \<and> holds
         then [\<lparr>re_left = l, re_right = r, re_kind = k\<rparr>] else []) (kind_holds k (sounded p) (sounded q))"
  let ?P = "\<lambda>k y. y = \<lparr>re_left = l, re_right = r, re_kind = k\<rparr> \<and> layer_enabled layers k \<and>
    kind_holds k (sounded p) (sounded q) = Some True"
  have "\<exists>ys. ?f k = Some ys \<and> (\<forall>y. y \<in> set ys \<longleftrightarrow> ?P k y)" for k
  proof -
    obtain v where "kind_holds k (sounded p) (sounded q) = Some v" using kind_holds_sounded by blast
    then show ?thesis by (cases "layer_enabled layers k \<and> v") auto
  qed
  then have "\<exists>zs. map_option concat (collect_options (map ?f all_kinds)) = Some zs \<and>
      (\<forall>y. y \<in> set zs \<longleftrightarrow> (\<exists>k \<in> set all_kinds. ?P k y))"
    by (rule collect_concat)
  moreover have "(\<exists>k \<in> set all_kinds. ?P k y) \<longleftrightarrow> re_left y = l \<and> re_right y = r \<and>
      layer_enabled layers (re_kind y) \<and> kind_holds (re_kind y) (sounded p) (sounded q) = Some True" for y
    using set_all_kinds [of "re_kind y"] by (cases y) auto
  ultimately show ?thesis unfolding pair_relations_def by simp
qed

lemma right_relations_Some:
  "\<exists>ys. right_relations layers phones l (sounded p) = Some ys \<and> (\<forall>y. y \<in> set ys \<longleftrightarrow>
    re_left y = l \<and> l < re_right y \<and> re_right y < length phones \<and> layer_enabled layers (re_kind y) \<and>
    (case phones ! re_right y of Some q \<Rightarrow> kind_holds (re_kind y) (sounded p) (sounded q) = Some True | None \<Rightarrow> False))"
proof -
  let ?f = "\<lambda>r. case phones ! r of None \<Rightarrow> Some []
       | Some q \<Rightarrow> pair_relations layers l r (sounded p) (sounded q)"
  let ?P = "\<lambda>r y. re_left y = l \<and> re_right y = r \<and> layer_enabled layers (re_kind y) \<and>
    (case phones ! r of Some q \<Rightarrow> kind_holds (re_kind y) (sounded p) (sounded q) = Some True | None \<Rightarrow> False)"
  have "\<exists>ys. ?f r = Some ys \<and> (\<forall>y. y \<in> set ys \<longleftrightarrow> ?P r y)" for r
    using pair_relations_Some [of layers l r p] by (cases "phones ! r") simp_all
  then have "\<exists>zs. map_option concat (collect_options (map ?f [l + 1..<length phones])) = Some zs \<and>
      (\<forall>y. y \<in> set zs \<longleftrightarrow> (\<exists>r \<in> set [l + 1..<length phones]. ?P r y))"
    by (rule collect_concat)
  moreover have "(\<exists>r \<in> set [l + 1..<length phones]. ?P r y) \<longleftrightarrow> l < re_right y \<and> re_right y < length phones \<and> ?P (re_right y) y" for y
    by auto
  ultimately show ?thesis unfolding right_relations_def by (elim exE conjE) (intro exI conjI, assumption, auto)
qed

lemma find_relations_Some:
  "\<exists>ys. find_relations layers phones = Some ys \<and> (\<forall>y. y \<in> set ys \<longleftrightarrow> related layers phones y)"
proof (cases "any_pairwise layers")
  case False
  then have "\<not> layer_enabled layers k" for k by (cases k) (simp_all add: any_pairwise_def)
  with False show ?thesis by (simp add: find_relations_def related_def)
next
  case True
  let ?f = "\<lambda>l. case phones ! l of None \<Rightarrow> Some [] | Some p \<Rightarrow> right_relations layers phones l (sounded p)"
  let ?P = "\<lambda>l y. re_left y = l \<and> related layers phones y"
  have "\<exists>ys. ?f l = Some ys \<and> (\<forall>y. y \<in> set ys \<longleftrightarrow> ?P l y)" for l
  proof (cases "phones ! l")
    case None
    then show ?thesis by (auto simp: related_def)
  next
    case (Some p)
    from right_relations_Some [of layers phones l p] obtain ys where
      ys: "right_relations layers phones l (sounded p) = Some ys"
      "\<And>y. y \<in> set ys \<longleftrightarrow> re_left y = l \<and> l < re_right y \<and> re_right y < length phones \<and> layer_enabled layers (re_kind y) \<and>
    (case phones ! re_right y of Some q \<Rightarrow> kind_holds (re_kind y) (sounded p) (sounded q) = Some True | None \<Rightarrow> False)"
      by blast
    have "y \<in> set ys \<longleftrightarrow> ?P l y" for y using ys(2) [of y] Some by (auto simp: related_def)
    with Some ys(1) show ?thesis by simp
  qed
  then have "\<exists>zs. map_option concat (collect_options (map ?f [0..<length phones])) = Some zs \<and>
      (\<forall>y. y \<in> set zs \<longleftrightarrow> (\<exists>l \<in> set [0..<length phones]. ?P l y))"
    by (rule collect_concat)
  moreover have "(\<exists>l \<in> set [0..<length phones]. ?P l y) \<longleftrightarrow> related layers phones y" for y
    by (auto simp: related_def)
  ultimately show ?thesis using True unfolding find_relations_def by simp
qed

lemma collect_all: "(\<And>x. f x \<noteq> None) \<Longrightarrow> collect_options (map f xs) \<noteq> None"
proof (induction xs)
  case (Cons x xs)
  then obtain y where "f x = Some y" by blast
  with Cons show ?case by simp
qed simp

lemma line_meter_Some: "line_meter layers sel unresolved phones \<noteq> None"
proof -
  have "beats ps ss Accentual r \<noteq> None" for ps ss r
  proof -
    have "collect_options (map (beat_of ps Accentual r) ss) \<noteq> None"
      by (rule collect_all) (simp add: beat_of_def)
    then show ?thesis by (simp add: beats_def beats_into_def)
  qed
  then have "collect_options (map (\<lambda>ps. beats ps (syllabify ps SYLLABLE_RULE) Accentual WEIGHT_RULE) qs) \<noteq> None" for qs
    by (rule collect_all)
  then show ?thesis by (simp add: line_meter_def line_beats_def)
qed


section \<open>Labels are read back\<close>

lemma position_distinct:
  "distinct (map f xs) \<Longrightarrow> i < length xs \<Longrightarrow> position (\<lambda>e. f e = f (xs ! i)) xs = Some i"
proof (induction xs arbitrary: i)
  case (Cons x xs)
  then show ?case by (cases i) (auto simp: nth_mem image_iff)
qed simp

definition plain_char :: "char \<Rightarrow> bool" where
  "plain_char c \<longleftrightarrow> byte c < 128 \<and> \<not> ws_char [c]"

lemma arpabet_names:
  "list_all (\<lambda>e. fst e \<noteq> [] \<and> list_all plain_char (fst e) \<and> last (fst e) \<notin> set ''012'') ARPABET"
  by (simp add: ARPABET_def plain_char_def ws_char_def is_whitespace_def byte_def)

lemma arpabet_distinct: "distinct (map (\<lambda>e. to_ascii_lowercase (fst e)) ARPABET)"
  by (simp add: ARPABET_def to_ascii_lowercase_def ascii_lower_def is_ascii_upper_def byte_def)

definition table_phone :: "phone \<Rightarrow> bool" where
  "table_phone p \<longleftrightarrow> unat (ph_id p) < length ARPABET \<and>
     snd (ARPABET ! unat (ph_id p)) = (ph_class p, ph_long p) \<and> (ph_stress p = Unstressed \<longrightarrow> is_vowel p)"

lemma stress_digit_mark:
  assumes "name \<noteq> []" and "last name \<notin> set ''012''" and "ph_stress p = Unstressed \<longrightarrow> is_vowel p"
  shows "stress_digit (name @ stress_mark p) = (name, ph_stress p)"
  using assms by (cases "ph_stress p") (auto simp: stress_digit_def stress_mark_def)

lemma phone_of_text:
  assumes "table_phone p"
  shows "phone_of (phone_text p) = Some p"
proof -
  let ?i = "unat (ph_id p)"
  from assms have i: "?i < length ARPABET" and stress: "ph_stress p = Unstressed \<longrightarrow> is_vowel p"
    by (auto simp: table_phone_def)
  from assms obtain n where row: "ARPABET ! ?i = (n, ph_class p, ph_long p)"
    by (cases "ARPABET ! ?i") (simp add: table_phone_def)
  from i arpabet_names have name: "n \<noteq> []" "last n \<notin> set ''012''"
    by (auto simp: list_all_length row dest!: spec [of _ ?i])
  have pos: "position (\<lambda>e. eq_ignore_ascii_case (fst e) n) ARPABET = Some ?i"
    using position_distinct [OF arpabet_distinct i] by (simp add: eq_ignore_ascii_case_def row)
  have "phone_text p = n @ stress_mark p"
    using i by (simp add: phone_text_def symbol_def list_get_def row)
  then have "phone_of (phone_text p) = Some (with_stress (ph_stress p) (with_long (ph_long p) (phone_new (of_nat ?i) (ph_class p))))"
    unfolding phone_of_def using stress_digit_mark [OF name stress] pos row by simp
  then show ?thesis by (cases p) (simp add: with_stress_def with_long_def phone_new_def)
qed

lemma split_groups_plain:
  "list_all plain_char w \<Longrightarrow> split_groups (map (\<lambda>c. [c]) w @ gs) acc = split_groups gs (acc @ w)"
  by (induction w arbitrary: acc) (auto simp: plain_char_def)

lemma split_join:
  "\<forall>w \<in> set ws. w \<noteq> [] \<and> list_all plain_char w \<Longrightarrow>
    split_groups (map (\<lambda>c. [c]) (join_spaces ws)) [] = ws"
proof (induction ws rule: join_spaces.induct)
  case (2 x)
  then show ?case using split_groups_plain [of x "[]" "[]"] by simp
next
  case (3 x y zs)
  have "ws_char '' ''" by code_simp
  with 3 show ?case by (simp add: split_groups_plain)
qed simp

lemma phone_text_plain:
  assumes "table_phone p"
  shows "phone_text p \<noteq> [] \<and> list_all plain_char (phone_text p)"
proof -
  have "list_all plain_char ''012''" by code_simp
  moreover have "fst (ARPABET ! unat (ph_id p)) \<noteq> []" "list_all plain_char (fst (ARPABET ! unat (ph_id p)))"
    using assms arpabet_names by (auto simp: list_all_length table_phone_def)
  ultimately show ?thesis
    using assms by (auto simp: phone_text_def symbol_def list_get_def table_phone_def stress_mark_def split: stress.split)
qed

section \<open>Properties\<close>

lemma ordered_mem: "ordered lo hi rs \<Longrightarrow> (a, b) \<in> set rs \<Longrightarrow> lo \<le> a \<and> a < b \<and> b \<le> hi"
proof (induction lo hi rs rule: ordered.induct)
  case (2 lo hi x y rs)
  have "ordered l h qs \<Longrightarrow> l \<le> h" for l h qs by (induction l h qs rule: ordered.induct) auto
  with 2 show ?case by fastforce
qed simp

lemma byte_slice_slice:
  "a \<le> x \<Longrightarrow> y \<le> b \<Longrightarrow> byte_slice (byte_slice s a b) (x - a) (y - a) = byte_slice s x y"
  by (simp add: byte_slice_def drop_take min_def)

lemma analyze_Inr:
  assumes "analyze uni d src a b choices layers = Some (Inr r)"
  shows "map tk_word (sr_tokens r) = filter (has_letter uni) (word_runs uni (str_chars (byte_slice src a b)) [])"
    and "ordered a b (map (\<lambda>t. (tk_start t, tk_end t)) (sr_tokens r))"
    and "list_all (\<lambda>(i, t). token_ok d src choices i t) (enumerate 0 (sr_tokens r))"
    and "length (sr_tokens r) \<le> MAX_TOKENS" and "b - a \<le> MAX_SELECTION_BYTES"
    and "y \<in> set (sr_relations r) \<longleftrightarrow> related layers (map (token_phones d) (sr_tokens r)) y"
    and "sr_unresolved r = map fst (filter (\<lambda>(_, t). tk_selected t = None) (enumerate 0 (sr_tokens r)))"
    and "sr_meter r \<noteq> None \<Longrightarrow> la_meter layers \<and> sr_unresolved r = []"
proof -
  let ?sel = "byte_slice src a b"
  from assms obtain phones where ab: "a \<le> b" "b \<le> length src" and sel: "b - a \<le> MAX_SELECTION_BYTES"
    and few: "length (tokenize uni ?sel a) \<le> MAX_TOKENS"
    and res: "resolve_tokens d src choices 0 (tokenize uni ?sel a) = Inr (sr_tokens r, phones, sr_unresolved r)"
    and rel: "find_relations layers phones = Some (sr_relations r)"
    and met: "line_meter layers ?sel (sr_unresolved r) phones = Some (sr_meter r)"
    by (auto simp: analyze_def Let_def split: if_splits sum.splits prod.splits Option.bind_splits)
  note tokens = resolve_tokens_Inr [OF res]
  then have ranges: "map (\<lambda>t. (tk_start t, tk_end t)) (sr_tokens r) = tokenize uni ?sel a" by blast
  have "a + length ?sel = b" using ab by (simp add: byte_slice_def)
  then have ord: "ordered a b (tokenize uni ?sel a)" using tokenize_ordered [of a ?sel uni] by simp
  with ranges show "ordered a b (map (\<lambda>t. (tk_start t, tk_end t)) (sr_tokens r))" by simp
  from tokens show ok: "list_all (\<lambda>(i, t). token_ok d src choices i t) (enumerate 0 (sr_tokens r))" by blast
  have "tk_word t = byte_slice ?sel (tk_start t - a) (tk_end t - a)" if t: "t \<in> set (sr_tokens r)" for t
  proof -
    from t ranges have "(tk_start t, tk_end t) \<in> set (tokenize uni ?sel a)" by (metis (no_types, lifting) image_eqI set_map)
    with ord have "a \<le> tk_start t" "tk_end t \<le> b" by (auto dest: ordered_mem)
    moreover have "tk_word t = byte_slice src (tk_start t) (tk_end t)"
    proof -
      from t obtain j where "j < length (sr_tokens r)" "t = sr_tokens r ! j" by (metis in_set_conv_nth)
      then have "(j, t) \<in> set (enumerate 0 (sr_tokens r))" by (simp add: in_set_enumerate_eq)
      with ok have "token_ok d src choices j t" by (auto simp: list_all_iff)
      then show ?thesis by (simp add: token_ok_def Let_def)
    qed
    ultimately show ?thesis by (simp add: byte_slice_slice)
  qed
  then have "map tk_word (sr_tokens r) =
      map (\<lambda>(x, y). byte_slice ?sel (x - a) (y - a)) (map (\<lambda>t. (tk_start t, tk_end t)) (sr_tokens r))"
    by simp
  then show "map tk_word (sr_tokens r) = filter (has_letter uni) (word_runs uni (str_chars ?sel) [])"
    unfolding ranges tokenize_words .
  have "length (sr_tokens r) = length (tokenize uni ?sel a)" using ranges by (metis length_map)
  with few show "length (sr_tokens r) \<le> MAX_TOKENS" by simp
  show "b - a \<le> MAX_SELECTION_BYTES" by (rule sel)
  from tokens have "phones = map (token_phones d) (sr_tokens r)" by blast
  with find_relations_Some [of layers phones] rel
  show "y \<in> set (sr_relations r) \<longleftrightarrow> related layers (map (token_phones d) (sr_tokens r)) y" by simp
  from tokens show "sr_unresolved r = map fst (filter (\<lambda>(_, t). tk_selected t = None) (enumerate 0 (sr_tokens r)))"
    by blast
  show "sr_meter r \<noteq> None \<Longrightarrow> la_meter layers \<and> sr_unresolved r = []"
    using met by (auto simp: line_meter_def split: if_splits)
qed

lemma analyze_Some: "analyze uni d src a b choices layers \<noteq> None"
proof
  assume "analyze uni d src a b choices layers = None"
  then obtain phones unresolved where
    "find_relations layers phones = None \<or> line_meter layers (byte_slice src a b) unresolved phones = None"
    unfolding analyze_def Let_def
    by (auto split: if_splits sum.splits prod.splits Option.bind_splits)
  with find_relations_Some [of layers phones]
    line_meter_Some [of layers "byte_slice src a b" unresolved phones]
  show False by auto
qed

text \<open>
  a sound reading never panics. When it is given, its tokens are exactly the maximal runs of
  word characters of the selection that have a letter, in order and with their exact ranges, at
  most 128 of them; each carries every pronunciation the dictionary has and the chosen one, which
  is the caller's if there is a choice and the first otherwise, and none exactly if it has none.
\<close>

theorem analyze_tokens_exact:
  "(case analyze uni d src a b choices layers of
      None \<Rightarrow> False
    | Some (Inl e) \<Rightarrow> True
    | Some (Inr r) \<Rightarrow>
        map tk_word (sr_tokens r) = filter (has_letter uni) (word_runs uni (str_chars (byte_slice src a b)) []) \<and>
        ordered a b (map (\<lambda>t. (tk_start t, tk_end t)) (sr_tokens r)) \<and>
        list_all (\<lambda>(i, t). token_ok d src choices i t) (enumerate 0 (sr_tokens r)) \<and>
        length (sr_tokens r) \<le> MAX_TOKENS \<and> b - a \<le> MAX_SELECTION_BYTES)"
  using analyze_Some [of uni d src a b choices layers] analyze_Inr(1-5)
  by (simp split: option.split sum.split)

text \<open>
  C35: the relations of a sound reading are exactly the pairs of resolved words, the earlier one on
  the left, whose chosen pronunciations are kin in a way that was asked for; hearing a pair the
  other way round changes nothing. A metre is only given if it was asked for and every word is
  resolved.
\<close>

theorem analyze_relations_exact:
  assumes "analyze uni d src a b choices layers = Some (Inr r)"
  shows "(\<forall>y. (y \<in> set (sr_relations r)) = related layers (map (token_phones d) (sr_tokens r)) y) \<and>
    (\<forall>k p q. kind_holds k (sounded p) (sounded q) = kind_holds k (sounded q) (sounded p)) \<and>
    sr_unresolved r = map fst (filter (\<lambda>(_, t). tk_selected t = None) (enumerate 0 (sr_tokens r))) \<and>
    (sr_meter r = None \<or> la_meter layers \<and> sr_unresolved r = [])"
  using analyze_Inr(6-8) [OF assms] kind_holds_sym by (intro conjI allI) auto

definition cat_phones :: "phone list" where
  "cat_phones = [phone_new 19 Stop, with_stress Primary (phone_new 1 Vowel), phone_new 30 Stop]"

definition hat_phones :: "phone list" where
  "hat_phones = [phone_new 15 Fricative, with_stress Primary (phone_new 1 Vowel), phone_new 30 Stop]"

definition rhyme_dictionary :: cmudict where
  "rhyme_dictionary = \<lparr>cd_entries = [(''cat'', [cat_phones]), (''hat'', [hat_phones])], cd_count = 2\<rparr>"

definition all_layers :: sound_layers where
  "all_layers = \<lparr>la_perfect_rhyme = True, la_slant_rhyme = True, la_assonance = True, la_alliteration = True, la_meter = True\<rparr>"

theorem analyze_relations_exact_witness:
  "\<exists>r. analyze (\<lambda>_. False) rhyme_dictionary ''cat Hat'' 0 7 [] all_layers = Some (Inr r) \<and>
    related all_layers (map (token_phones rhyme_dictionary) (sr_tokens r)) \<lparr>re_left = 0, re_right = 1, re_kind = PerfectRhyme\<rparr>"
proof -
  have sel: "byte_slice ''cat Hat'' 0 7 = ''cat Hat''" by (simp add: byte_slice_def)
  have tok: "tokenize (\<lambda>_. False) ''cat Hat'' 0 = [(0, 3), (4, 7)]" by code_simp
  have "(case resolve_tokens rhyme_dictionary ''cat Hat'' [] 0 [(0, 3), (4, 7)] of
      Inr (_, phones, us) \<Rightarrow> phones = [Some cat_phones, Some hat_phones] \<and> us = [] | Inl _ \<Rightarrow> False)" by code_simp
  then obtain ts where res: "resolve_tokens rhyme_dictionary ''cat Hat'' [] 0 [(0, 3), (4, 7)] =
      Inr (ts, [Some cat_phones, Some hat_phones], [])"
    by (auto split: sum.splits)
  obtain rels where rels: "find_relations all_layers [Some cat_phones, Some hat_phones] = Some rels"
    using find_relations_Some by blast
  have "(case find_relations all_layers [Some cat_phones, Some hat_phones] of
      Some rels \<Rightarrow> \<lparr>re_left = 0, re_right = 1, re_kind = PerfectRhyme\<rparr> \<in> set rels | None \<Rightarrow> False)" by code_simp
  with rels have rhyme: "\<lparr>re_left = 0, re_right = 1, re_kind = PerfectRhyme\<rparr> \<in> set rels" by simp
  obtain met where met: "line_meter all_layers ''cat Hat'' [] [Some cat_phones, Some hat_phones] = Some met"
    using line_meter_Some by blast
  have bound: "is_char_boundary ''cat Hat'' 7" by (simp add: is_char_boundary_def)
  let ?r = "\<lparr>sr_selection = (0, 7), sr_tokens = ts, sr_relations = rels, sr_meter = met, sr_unresolved = []\<rparr>"
  have run: "analyze (\<lambda>_. False) rhyme_dictionary ''cat Hat'' 0 7 [] all_layers = Some (Inr ?r)"
    by (simp add: analyze_def sel tok res rels met bound Let_def MAX_SELECTION_BYTES_def MAX_TOKENS_def
        MAX_PAIRS_def del: resolve_tokens.simps)
  from analyze_relations_exact [OF run] rhyme show ?thesis by (intro exI [of _ ?r] conjI run) simp
qed

text \<open>
  The ARPAbet label of a pronunciation is read back as that pronunciation, whenever its phones
  are those of the table and only vowels are marked as unstressed.
\<close>

theorem phone_label_read_back:
  assumes "list_all table_phone ps"
  shows "pronounce (phone_label ps) = Some ps"
proof -
  have plain: "\<forall>w \<in> set (map phone_text ps). w \<noteq> [] \<and> list_all plain_char w"
    using assms phone_text_plain by (auto simp: list_all_iff)
  have "list_all plain_char w \<Longrightarrow> \<forall>c \<in> set w. byte c < 128" for w
    by (auto simp: plain_char_def list_all_iff)
  moreover have "set (join_spaces ws) \<subseteq> insert CHR '' '' (\<Union> (set ` set ws))" for ws
    by (induction ws rule: join_spaces.induct) auto
  ultimately have "\<forall>c \<in> set (phone_label ps). byte c < 128"
    using plain unfolding phone_label_def by (fastforce simp: byte_def)
  then have "split_whitespace (phone_label ps) = map phone_text ps"
    using split_join [OF plain] by (simp add: split_whitespace_def str_chars_ascii phone_label_def)
  moreover have "map (phone_of \<circ> phone_text) ps = map Some ps"
    using assms phone_of_text by (auto simp: list_all_iff)
  ultimately show ?thesis by (simp add: pronounce_def collect_options_Some)
qed

theorem phone_label_read_back_witness:
  "pronounce (phone_label [phone_new 27 Liquid, with_stress Primary (phone_new 10 Vowel), phone_new 8 Stop]) =
    Some [phone_new 27 Liquid, with_stress Primary (phone_new 10 Vowel), phone_new 8 Stop]"
  by (rule phone_label_read_back) (simp add: table_phone_def ARPABET_def phone_new_def with_stress_def)

end
