(* ===== verification/Link_Scan.thy ===== *)
theory Link_Scan
  imports Sound_Reading
begin

text \<open>
  Inline links with their byte spans (\<open>knot-readings/src/links.rs\<close>): a scan of the source for
  simple inline links, and the joining of its hits with the links of the parsed preview.

  The preview comes from another package; the links collected from it, in document order and with
  no spans yet, are the argument of \<open>extract_links\<close>.
\<close>

section \<open>The scan\<close>

definition MAX_SCANNED_LINKS :: nat where "MAX_SCANNED_LINKS = 4096"

record reading_link =
  li_target :: string
  li_rel :: "string option"
  li_text :: string
  li_span :: "(nat \<times> nat) option"

record scanned =
  sn_target :: string
  sn_text :: string
  sn_span :: "nat \<times> nat"

definition backslash :: char where "backslash = CHR 0x5C"
definition backtick :: char where "backtick = CHR 0x60"

function find_unescaped :: "string \<Rightarrow> nat \<Rightarrow> nat \<Rightarrow> char \<Rightarrow> nat option" where
  "find_unescaped src index stop needle =
     (if index < stop then
        if src ! index = backslash \<and> index + 1 < stop \<and> is_ascii_punctuation (src ! (index + 1))
        then find_unescaped src (index + 2) stop needle
        else if src ! index = needle then Some index
        else find_unescaped src (index + 1) stop needle
      else None)"
  by pat_completeness auto
termination by (relation "measure (\<lambda>(_, index, stop, _). stop - index)") auto

declare find_unescaped.simps [simp del]

lemma find_unescaped_Some:
  "find_unescaped src index stop needle = Some i \<Longrightarrow> index \<le> i \<and> i < stop \<and> src ! i = needle"
proof (induction src index stop needle rule: find_unescaped.induct)
  case (1 src index stop needle)
  from 1 show ?case
    by (subst (asm) (3) find_unescaped.simps) (auto split: if_splits)
qed

fun literal_chars :: "string list \<Rightarrow> string" where
  "literal_chars [] = []"
| "literal_chars [g] = g"
| "literal_chars (g # h # gs) =
     (if g = [backslash] \<and> length h = 1 \<and> is_ascii_punctuation (hd h)
      then h @ literal_chars gs else g @ literal_chars (h # gs))"

definition literal_label :: "string \<Rightarrow> string" where
  "literal_label label = literal_chars (str_chars label)"

definition run_end :: "string \<Rightarrow> nat \<Rightarrow> nat \<Rightarrow> nat" where
  "run_end src index stop =
     (case find (\<lambda>i. src ! i \<noteq> backtick) [index..<stop] of Some i \<Rightarrow> i | None \<Rightarrow> stop)"

lemma run_end_bounds:
  "src ! index = backtick \<Longrightarrow> index < stop \<Longrightarrow> index < run_end src index stop \<and> run_end src index stop \<le> stop"
  by (auto simp: run_end_def dest!: find_Some_in split: option.split)
    (metis le_neq_implies_less)

text \<open>The end of a link whose destination closes at \<open>url_end\<close>: after its attributes, if it has some.\<close>

definition link_end :: "string \<Rightarrow> nat \<Rightarrow> nat \<Rightarrow> nat" where
  "link_end src url_end stop =
     (let e = url_end + 1
      in if e < stop \<and> src ! e = CHR ''{''
         then (case find_unescaped src (e + 1) stop (CHR ''}'') of Some a \<Rightarrow> a + 1 | None \<Rightarrow> e)
         else e)"

lemma link_end_bounds: "url_end < stop \<Longrightarrow> url_end < link_end src url_end stop \<and> link_end src url_end stop \<le> stop"
  by (auto simp: link_end_def Let_def dest!: find_unescaped_Some split: option.split)

lemma link_end_after: "index < url_end \<Longrightarrow> url_end < stop \<Longrightarrow> index < link_end src url_end stop"
  using link_end_bounds [of url_end stop src] by linarith

function scan_link_line ::
  "string \<Rightarrow> nat \<Rightarrow> nat \<Rightarrow> nat \<Rightarrow> nat option \<Rightarrow> scanned list \<Rightarrow> nat option \<times> scanned list" where
  "scan_link_line src start stop index code out =
     (if index < stop then
        (case code of
           Some run \<Rightarrow>
             if src ! index \<noteq> backtick then scan_link_line src start stop (index + 1) code out
             else let e = run_end src index stop
                  in scan_link_line src start stop e (if e - index = run then None else code) out
         | None \<Rightarrow>
             if src ! index = backslash then
               (if index + 1 < stop \<and> is_ascii_punctuation (src ! (index + 1))
                then scan_link_line src start stop (index + 2) code out
                else scan_link_line src start stop (index + 1) code out)
             else if src ! index = backtick then
               let e = run_end src index stop
               in scan_link_line src start stop e (Some (e - index)) out
             else if src ! index \<noteq> CHR ''['' then scan_link_line src start stop (index + 1) code out
             else if index > start \<and> src ! (index - 1) = CHR ''!''
             then scan_link_line src start stop (index + 1) code out
             else case find_unescaped src (index + 1) stop (CHR '']'') of
               None \<Rightarrow> (code, out)
             | Some label_end \<Rightarrow>
                 if label_end + 1 \<ge> stop \<or> src ! (label_end + 1) \<noteq> CHR ''(''
                 then scan_link_line src start stop (label_end + 1) code out
                 else case find_unescaped src (label_end + 2) stop (CHR '')'') of
                   None \<Rightarrow> (code, out)
                 | Some url_end \<Rightarrow>
                     let hit = \<lparr>sn_target = byte_slice src (label_end + 2) url_end,
                           sn_text = literal_label (byte_slice src (index + 1) label_end),
                           sn_span = (index, link_end src url_end stop)\<rparr>
                     in if length (out @ [hit]) \<ge> MAX_SCANNED_LINKS then (code, out @ [hit])
                        else scan_link_line src start stop (link_end src url_end stop) code (out @ [hit]))
      else (code, out))"
  by pat_completeness auto

termination
  by (relation "measure (\<lambda>(_, _, stop, index, _, _). stop - index)")
    (auto dest!: find_unescaped_Some run_end_bounds intro!: diff_less_mono2 link_end_after)

declare scan_link_line.simps [simp del]

text \<open>The loop over lines, with the open fence and the open inline code.\<close>

definition line_end_of :: "string \<Rightarrow> nat \<Rightarrow> nat" where
  "line_end_of src start = (case str_find [nl] (drop start src) of None \<Rightarrow> length src | Some o' \<Rightarrow> start + o')"

lemma line_end_of_bounds: "start \<le> length src \<Longrightarrow> start \<le> line_end_of src start \<and> line_end_of src start \<le> length src"
  using str_find_Some [of "[nl]" "drop start src"]
  by (auto simp: line_end_of_def split: option.split)

function scan_source ::
  "string \<Rightarrow> nat \<Rightarrow> (char \<times> nat) option \<Rightarrow> nat option \<Rightarrow> scanned list \<Rightarrow> scanned list" where
  "scan_source src start fence code out =
     (if start \<le> length src then
        let stop = line_end_of src start;
            trimmed = trim_start (byte_slice src start stop);
            marker = (case trimmed of [] \<Rightarrow> None | c # _ \<Rightarrow> Some c);
            run = length (takeWhile (\<lambda>c. Some c = marker) trimmed);
            (fence, code, out) =
              (if (marker = Some backtick \<or> marker = Some (CHR ''~'')) \<and> run \<ge> 3
               then ((case fence of
                        None \<Rightarrow> map_option (\<lambda>m. (m, run)) marker
                      | Some (opening, len) \<Rightarrow> if marker = Some opening \<and> run \<ge> len then None else fence),
                     None, out)
               else if fence = None
               then (let code = (if trimmed = [] then None else code);
                         (code, out) = scan_link_line src start stop start code out
                     in (fence, code, out))
               else (fence, code, out))
        in if length out \<ge> MAX_SCANNED_LINKS then out
           else scan_source src (stop + 1) fence code out
      else out)"
  by pat_completeness auto

termination
  by (relation "measure (\<lambda>(src, start, _, _, _). Suc (length src) - start)")
    (auto dest: line_end_of_bounds intro!: diff_less_mono2)

declare scan_source.simps [simp del]

definition scan_links :: "string \<Rightarrow> scanned list" where
  "scan_links src = scan_source src 0 None None []"

section \<open>Joining\<close>

text \<open>The first candidate that is left and has the link's target and text is taken.\<close>

fun take_candidate :: "reading_link \<Rightarrow> scanned option list \<Rightarrow> (nat \<times> nat) option \<times> scanned option list" where
  "take_candidate l [] = (None, [])"
| "take_candidate l (None # cs) = (case take_candidate l cs of (s, cs) \<Rightarrow> (s, None # cs))"
| "take_candidate l (Some h # cs) =
     (if sn_target h = li_target l \<and> sn_text h = li_text l then (Some (sn_span h), None # cs)
      else case take_candidate l cs of (s, cs) \<Rightarrow> (s, Some h # cs))"

fun place_links :: "reading_link list \<Rightarrow> scanned option list \<Rightarrow> reading_link list" where
  "place_links [] cs = []"
| "place_links (l # ls) cs =
     (case take_candidate l cs of (s, cs) \<Rightarrow>
        (case s of None \<Rightarrow> l | Some sp \<Rightarrow> l\<lparr>li_span := Some sp\<rparr>) # place_links ls cs)"

definition extract_links :: "string \<Rightarrow> reading_link list \<Rightarrow> reading_link list" where
  "extract_links src parsed = place_links parsed (map Some (scan_links src))"

section \<open>What a hit is\<close>

text \<open>The source of a hit is its label in brackets, its target in parentheses, and perhaps
  attributes in braces.\<close>

definition hit_ok :: "string \<Rightarrow> scanned \<Rightarrow> bool" where
  "hit_ok src h \<longleftrightarrow> (case sn_span h of (a, b) \<Rightarrow> a < b \<and> b \<le> length src \<and>
     (\<exists>label attrs. byte_slice src a b = ''['' @ label @ '']('' @ sn_target h @ '')'' @ attrs \<and>
       sn_text h = literal_label label \<and> (attrs = [] \<or> (\<exists>x. attrs = ''{'' @ x @ ''}''))))"

lemma byte_slice_split:
  assumes "a \<le> m" and "m \<le> b"
  shows "byte_slice s a b = byte_slice s a m @ byte_slice s m b"
proof -
  from assms have "b - a = (m - a) + (b - m)" and "a + (m - a) = m" by simp_all
  then have "take (b - a) (drop a s) = take (m - a) (drop a s) @ take (b - m) (drop m s)"
    by (metis take_add drop_drop add.commute)
  then show ?thesis by (simp add: byte_slice_def)
qed

lemma byte_slice_one: "i < length s \<Longrightarrow> byte_slice s i (Suc i) = [s ! i]"
  by (simp add: byte_slice_def take_Suc_conv_app_nth)

lemma byte_slice_pieces:
  assumes "i < j" and "j \<le> k" and "k < length s"
  shows "byte_slice s i (Suc k) = s ! i # byte_slice s (Suc i) k @ [s ! k] \<or> i = k"
  using byte_slice_split [of i "Suc i" "Suc k" s] byte_slice_split [of "Suc i" k "Suc k" s] assms
  by (simp add: byte_slice_one)

lemma link_end_attributes:
  assumes "url_end < stop" and "stop \<le> length src"
  shows "byte_slice src (Suc url_end) (link_end src url_end stop) = [] \<or>
    (\<exists>x. byte_slice src (Suc url_end) (link_end src url_end stop) = ''{'' @ x @ ''}'')"
proof (cases "link_end src url_end stop = Suc url_end")
  case True
  then show ?thesis by (simp add: byte_slice_def)
next
  case False
  then obtain a where e: "src ! Suc url_end = CHR ''{''" "link_end src url_end stop = Suc a"
    and "find_unescaped src (url_end + 1 + 1) stop (CHR ''}'') = Some a"
    by (auto simp: link_end_def Let_def split: option.splits if_splits)
  then have "Suc url_end < a" "a < stop" "src ! a = CHR ''}''" by (auto dest: find_unescaped_Some)
  with e byte_slice_pieces [of "Suc url_end" a a src] assms show ?thesis by auto
qed

lemma hit_okI:
  assumes "src ! index = CHR ''[''" and "find_unescaped src (index + 1) stop (CHR '']'') = Some label_end"
    and "label_end + 1 < stop" and "src ! (label_end + 1) = CHR ''(''"
    and "find_unescaped src (label_end + 2) stop (CHR '')'') = Some url_end" and "stop \<le> length src"
  shows "hit_ok src \<lparr>sn_target = byte_slice src (label_end + 2) url_end,
    sn_text = literal_label (byte_slice src (index + 1) label_end), sn_span = (index, link_end src url_end stop)\<rparr>"
proof -
  from find_unescaped_Some [OF assms(2)] find_unescaped_Some [OF assms(5)]
  have i: "index < label_end" "src ! label_end = CHR '']''" "label_end + 2 \<le> url_end" "url_end < stop"
    "src ! url_end = CHR '')''" by auto
  from link_end_bounds [OF i(4), of src] have e: "url_end < link_end src url_end stop" "link_end src url_end stop \<le> stop"
    by auto
  let ?e = "link_end src url_end stop" and ?attrs = "byte_slice src (Suc url_end) (link_end src url_end stop)"
  have "byte_slice src index ?e = byte_slice src index (Suc label_end) @ byte_slice src (Suc label_end) (Suc url_end) @ ?attrs"
    using i e byte_slice_split [of index "Suc label_end" ?e src] byte_slice_split [of "Suc label_end" "Suc url_end" ?e src]
    by simp
  also have "byte_slice src index (Suc label_end) = ''['' @ byte_slice src (index + 1) label_end @ '']''"
    using byte_slice_pieces [of index label_end label_end src] i assms by simp
  also have "byte_slice src (Suc label_end) (Suc url_end) = ''('' @ byte_slice src (label_end + 2) url_end @ '')''"
    using byte_slice_pieces [of "Suc label_end" url_end url_end src] i assms by simp
  finally show ?thesis
    using link_end_attributes [OF i(4) assms(6)] i e assms(6)
    unfolding hit_ok_def scanned.simps prod.case
    by (intro conjI exI [of _ "byte_slice src (index + 1) label_end"] exI [of _ ?attrs]) simp_all
qed

definition hits_ok :: "string \<Rightarrow> nat \<Rightarrow> scanned list \<Rightarrow> bool" where
  "hits_ok src stop out \<longleftrightarrow> list_all (hit_ok src) out \<and> ordered 0 stop (map sn_span out)"

lemma hits_ok_mono: "hits_ok src i out \<Longrightarrow> i \<le> j \<Longrightarrow> hits_ok src j out"
  by (auto simp: hits_ok_def intro: ordered_mono)

lemma hits_ok_snoc:
  "hits_ok src i out \<Longrightarrow> hit_ok src h \<Longrightarrow> fst (sn_span h) = i \<Longrightarrow> snd (sn_span h) = j \<Longrightarrow> hits_ok src j (out @ [h])"
  by (cases "sn_span h") (auto simp: hits_ok_def hit_ok_def intro: ordered_snoc)

lemma scan_link_line_ok:
  assumes "hits_ok src index out" and "length out < MAX_SCANNED_LINKS" and "index \<le> stop" and "stop \<le> length src"
  shows "hits_ok src stop (snd (scan_link_line src start stop index code out)) \<and>
    length (snd (scan_link_line src start stop index code out)) \<le> MAX_SCANNED_LINKS"
  using assms
proof (induction "stop - index" arbitrary: index code out rule: less_induct)
  case less
  let ?P = "\<lambda>r. hits_ok src stop (snd r) \<and> length (snd r) \<le> MAX_SCANNED_LINKS"
  have stay: "?P (c, out)" for c :: "nat option" using less.prems by (auto intro: hits_ok_mono)
  have go: "?P (scan_link_line src start stop i c hits)"
    if "index < i" "i \<le> stop" "hits_ok src i hits" "length hits < MAX_SCANNED_LINKS" for i c hits
    using less.hyps [of i hits c] that less.prems(3,4) by simp
  have step: "?P (scan_link_line src start stop i c out)" if "index < i" "i \<le> stop" for i c
    using go [OF that hits_ok_mono [OF less.prems(1)] less.prems(2)] that(1) by simp
  show ?case
  proof (cases "index < stop")
    case False
    then show ?thesis using stay by (subst (1 2) scan_link_line.simps) simp
  next
    case True
    have tick: "index < run_end src index stop \<and> run_end src index stop \<le> stop" if "src ! index = backtick"
      using run_end_bounds [OF that True] .
    have hit: "?P (if length (out @ [h]) \<ge> MAX_SCANNED_LINKS then (c, out @ [h])
        else scan_link_line src start stop (link_end src url_end stop) c (out @ [h]))"
      if "src ! index = CHR ''[''" "find_unescaped src (index + 1) stop (CHR '']'') = Some label_end"
        "\<not> (label_end + 1 \<ge> stop \<or> src ! (label_end + 1) \<noteq> CHR ''('')"
        "find_unescaped src (label_end + 2) stop (CHR '')'') = Some url_end"
        "h = \<lparr>sn_target = byte_slice src (label_end + 2) url_end,
          sn_text = literal_label (byte_slice src (index + 1) label_end), sn_span = (index, link_end src url_end stop)\<rparr>"
      for label_end url_end h c
    proof -
      have "hit_ok src h" using hit_okI [OF that(1,2) _ _ that(4) less.prems(4)] that(3,5) by simp
      then have ok: "hits_ok src (link_end src url_end stop) (out @ [h])"
        using less.prems(1) that(5) by (intro hits_ok_snoc) simp_all
      have "index < url_end" "url_end < stop"
        using find_unescaped_Some [OF that(2)] find_unescaped_Some [OF that(4)] by auto
      with link_end_bounds have e: "index < link_end src url_end stop" "link_end src url_end stop \<le> stop"
        by (auto intro: link_end_after)
      with go ok less.prems(2) show ?thesis by (auto intro: hits_ok_mono)
    qed
    show ?thesis
    proof (cases code)
      case (Some run)
      with True tick step show ?thesis by (subst (1 2) scan_link_line.simps) (simp add: Let_def)
    next
      case None
      have "?P (case find_unescaped src (index + 1) stop (CHR '']'') of
               None \<Rightarrow> (code, out)
             | Some label_end \<Rightarrow>
                 if label_end + 1 \<ge> stop \<or> src ! (label_end + 1) \<noteq> CHR ''(''
                 then scan_link_line src start stop (label_end + 1) code out
                 else case find_unescaped src (label_end + 2) stop (CHR '')'') of
                   None \<Rightarrow> (code, out)
                 | Some url_end \<Rightarrow>
                     let hit = \<lparr>sn_target = byte_slice src (label_end + 2) url_end,
                           sn_text = literal_label (byte_slice src (index + 1) label_end),
                           sn_span = (index, link_end src url_end stop)\<rparr>
                     in if length (out @ [hit]) \<ge> MAX_SCANNED_LINKS then (code, out @ [hit])
                        else scan_link_line src start stop (link_end src url_end stop) code (out @ [hit]))"
        if "src ! index = CHR ''[''"
      proof (cases "find_unescaped src (index + 1) stop (CHR '']'')")
        case None
        then show ?thesis using stay by simp
      next
        case label: (Some label_end)
        show ?thesis
        proof (cases "label_end + 1 \<ge> stop \<or> src ! (label_end + 1) \<noteq> CHR ''(''")
          case True
          with label step [of "label_end + 1" code] find_unescaped_Some [OF label] show ?thesis by simp
        next
          case False
          show ?thesis
          proof (cases "find_unescaped src (label_end + 2) stop (CHR '')'')")
            case None
            with label False stay show ?thesis by simp
          next
            case (Some url_end)
            from hit [OF that label False Some refl] label False Some show ?thesis
              by (simp only: option.case if_False Let_def)
          qed
        qed
      qed
      then show ?thesis using True None step
        by (subst (1 2) scan_link_line.simps) (simp add: Let_def tick)
    qed
  qed
qed

text \<open>One line of the source: the fence, the inline code and the hits after it.\<close>

lemma scan_source_ok:
  assumes "hits_ok src (min start (length src)) out" and "length out < MAX_SCANNED_LINKS"
  shows "hits_ok src (length src) (scan_source src start fence code out) \<and>
    length (scan_source src start fence code out) \<le> MAX_SCANNED_LINKS"
  using assms
proof (induction "Suc (length src) - start" arbitrary: start fence code out rule: less_induct)
  case less
  let ?P = "\<lambda>hits. hits_ok src (length src) hits \<and> length hits \<le> MAX_SCANNED_LINKS"
  let ?stop = "line_end_of src start"
  show ?case
  proof (cases "start \<le> length src")
    case False
    with less.prems show ?thesis by (subst (1 2) scan_source.simps) (simp add: min_def)
  next
    case True
    from line_end_of_bounds [OF True] have stop: "start \<le> ?stop" "?stop \<le> length src" by auto
    have go: "?P (if length hits \<ge> MAX_SCANNED_LINKS then hits else scan_source src (?stop + 1) f c hits)"
      if "hits_ok src ?stop hits" "length hits \<le> MAX_SCANNED_LINKS" for f c hits
    proof (cases "length hits \<ge> MAX_SCANNED_LINKS")
      case True
      with that stop show ?thesis by (auto intro: hits_ok_mono)
    next
      case False
      have "hits_ok src (min (?stop + 1) (length src)) hits" using that(1) stop by (auto intro: hits_ok_mono)
      with False less.hyps [of "?stop + 1" hits f c] True stop show ?thesis by simp
    qed
    have keep: "hits_ok src ?stop out" using less.prems(1) True stop by (auto intro: hits_ok_mono)
    have line: "hits_ok src ?stop (snd (scan_link_line src start ?stop start c out)) \<and>
        length (snd (scan_link_line src start ?stop start c out)) \<le> MAX_SCANNED_LINKS" for c
      using less.prems True stop by (intro scan_link_line_ok) (simp_all add: min_def)
    show ?thesis
      using True keep line less.prems(2)
      by (subst (1 2) scan_source.simps)
        (simp only: if_True Let_def split_beta fst_conv snd_conv, rule go, auto split: prod.splits)
  qed
qed

lemma scan_links_ok: "hits_ok src (length src) (scan_links src) \<and> length (scan_links src) \<le> MAX_SCANNED_LINKS"
  unfolding scan_links_def by (rule scan_source_ok) (simp_all add: hits_ok_def MAX_SCANNED_LINKS_def)

section \<open>Each hit is used once\<close>

abbreviation matches_link :: "reading_link \<Rightarrow> scanned \<Rightarrow> bool" where
  "matches_link l h \<equiv> sn_target h = li_target l \<and> sn_text h = li_text l"

definition free_hits :: "scanned option list \<Rightarrow> scanned list" where
  "free_hits cs = List.map_filter id cs"

lemma free_hits_simps [simp]:
  "free_hits [] = []" "free_hits (None # cs) = free_hits cs" "free_hits (Some h # cs) = h # free_hits cs"
  by (simp_all add: free_hits_def map_filter_simps)

lemma free_hits_all [simp]: "free_hits (map Some hs) = hs"
  by (induction hs) simp_all

text \<open>The first free hit that matches is taken, and no other.\<close>

lemma take_candidate_spec:
  "take_candidate l cs = (s, cs') \<Longrightarrow>
    (case s of None \<Rightarrow> free_hits cs' = free_hits cs \<and> (\<forall>h \<in> set (free_hits cs). \<not> matches_link l h)
     | Some sp \<Rightarrow> \<exists>pre h post. free_hits cs = pre @ h # post \<and> free_hits cs' = pre @ post \<and> sn_span h = sp \<and>
         matches_link l h \<and> (\<forall>g \<in> set pre. \<not> matches_link l g))"
proof (induction l cs arbitrary: s cs' rule: take_candidate.induct)
  case (2 l cs)
  then obtain cs1 where "take_candidate l cs = (s, cs1)" "cs' = None # cs1" by (auto split: prod.splits)
  with "2.IH" show ?case by (cases s) simp_all
next
  case (3 l h cs)
  show ?case
  proof (cases "matches_link l h")
    case True
    with "3.prems" show ?thesis by (auto intro!: exI [of _ "[]"])
  next
    case False
    with "3.prems" obtain cs1 where rec: "take_candidate l cs = (s, cs1)" "cs' = Some h # cs1"
      by (auto split: prod.splits if_splits)
    show ?thesis
    proof (cases s)
      case None
      with "3.IH" [OF False rec(1)] False rec(2) show ?thesis by simp
    next
      case (Some sp)
      with "3.IH" [OF False rec(1)] obtain pre g post where "free_hits cs = pre @ g # post" "free_hits cs1 = pre @ post"
        "sn_span g = sp" "matches_link l g" "\<forall>g \<in> set pre. \<not> matches_link l g" by auto
      with Some False rec(2) show ?thesis
        by (simp only: option.case) (rule exI [of _ "h # pre"], rule exI [of _ g], rule exI [of _ post], simp)
    qed
  qed
qed simp

lemma place_links_spec:
  "length (place_links ls cs) = length ls \<and>
   (\<forall>i < length ls. place_links ls cs ! i = ls ! i \<or>
      (\<exists>h \<in> set (free_hits cs). matches_link (ls ! i) h \<and> place_links ls cs ! i = (ls ! i)\<lparr>li_span := Some (sn_span h)\<rparr>))"
proof (induction ls arbitrary: cs)
  case (Cons l ls)
  obtain s cs' where t: "take_candidate l cs = (s, cs')" by fastforce
  have sub: "set (free_hits cs') \<subseteq> set (free_hits cs)"
    using take_candidate_spec [OF t] by (cases s) auto
  have hd: "s = None \<or> (\<exists>h \<in> set (free_hits cs). matches_link l h \<and> s = Some (sn_span h))"
    using take_candidate_spec [OF t] by (cases s) auto
  show ?case
  proof (intro conjI allI impI)
    show "length (place_links (l # ls) cs) = length (l # ls)" using Cons [of cs'] t by simp
    fix i assume i: "i < length (l # ls)"
    show "place_links (l # ls) cs ! i = (l # ls) ! i \<or> (\<exists>h \<in> set (free_hits cs). matches_link ((l # ls) ! i) h \<and>
        place_links (l # ls) cs ! i = ((l # ls) ! i)\<lparr>li_span := Some (sn_span h)\<rparr>)"
    proof (cases i)
      case 0
      with t hd show ?thesis by auto
    next
      case (Suc j)
      with i Cons [of cs'] t sub show ?thesis by (auto dest!: spec [of _ j])
    qed
  qed
qed simp

definition placed_spans :: "reading_link list \<Rightarrow> (nat \<times> nat) list" where
  "placed_spans ls = List.map_filter li_span ls"

lemma place_links_distinct:
  assumes "distinct (map sn_span (free_hits cs))" and "\<forall>l \<in> set ls. li_span l = None"
  shows "distinct (placed_spans (place_links ls cs)) \<and>
    set (placed_spans (place_links ls cs)) \<subseteq> set (map sn_span (free_hits cs))"
  using assms
proof (induction ls arbitrary: cs)
  case Nil
  then show ?case by (simp add: placed_spans_def map_filter_simps)
next
  case (Cons l ls)
  obtain s cs' where t: "take_candidate l cs = (s, cs')" by fastforce
  from take_candidate_spec [OF t] Cons.prems(1)
  have d: "distinct (map sn_span (free_hits cs'))"
    and left: "set (map sn_span (free_hits cs')) \<subseteq> set (map sn_span (free_hits cs)) -
      (case s of None \<Rightarrow> {} | Some sp \<Rightarrow> {sp})"
    and took: "s = None \<or> the s \<in> set (map sn_span (free_hits cs))"
    by (cases s; force)+
  from Cons.IH [OF d] Cons.prems(2) have rest: "distinct (placed_spans (place_links ls cs'))"
    "set (placed_spans (place_links ls cs')) \<subseteq> set (map sn_span (free_hits cs'))" by auto
  show ?case
  proof (cases s)
    case None
    with t rest left Cons.prems(2) show ?thesis by (auto simp: placed_spans_def map_filter_simps)
  next
    case (Some sp)
    with t rest left took Cons.prems(2) show ?thesis by (auto simp: placed_spans_def map_filter_simps)
  qed
qed

lemma ordered_distinct: "ordered lo hi rs \<Longrightarrow> distinct rs \<and> (\<forall>(a, b) \<in> set rs. lo \<le> a)"
  by (induction lo hi rs rule: ordered.induct) fastforce+

section \<open>Properties\<close>

text \<open>
  C39: the links reported are those of the parsed preview, in order and with nothing changed but
  their spans. A link that has a span has that of a scanned hit with its target and text, whose
  source is the label in brackets, the target in parentheses and perhaps attributes in braces; no
  two links share a span, and the scan reports at most 4,096 of them.
\<close>

theorem extract_links_faithful:
  assumes "\<forall>l \<in> set parsed. li_span l = None"
  shows "length (extract_links src parsed) = length parsed \<and>
    (\<forall>i < length parsed. extract_links src parsed ! i = parsed ! i \<or>
      (\<exists>h \<in> set (scan_links src). hit_ok src h \<and> sn_target h = li_target (parsed ! i) \<and> sn_text h = li_text (parsed ! i) \<and>
        extract_links src parsed ! i = (parsed ! i)\<lparr>li_span := Some (sn_span h)\<rparr>)) \<and>
    distinct (placed_spans (extract_links src parsed)) \<and>
    ordered 0 (length src) (map sn_span (scan_links src)) \<and> length (scan_links src) \<le> MAX_SCANNED_LINKS"
proof -
  from scan_links_ok have ok: "list_all (hit_ok src) (scan_links src)"
    and ord: "ordered 0 (length src) (map sn_span (scan_links src))"
    and few: "length (scan_links src) \<le> MAX_SCANNED_LINKS"
    by (auto simp: hits_ok_def)
  from place_links_distinct [of "map Some (scan_links src)" parsed] ordered_distinct [OF ord] assms
  have "distinct (placed_spans (extract_links src parsed))" by (simp add: extract_links_def)
  with place_links_spec [of parsed "map Some (scan_links src)"] ok ord few show ?thesis
    by (auto simp: extract_links_def list_all_iff)
qed

definition linked_source :: string where
  "linked_source = ''[a](b)''"

theorem extract_links_faithful_witness:
  "\<exists>l. extract_links linked_source [\<lparr>li_target = ''b'', li_rel = None, li_text = ''a'', li_span = None\<rparr>] = [l] \<and>
    li_span l = Some (0, 6) \<and> li_target l = ''b''"
proof -
  let ?l = "\<lparr>li_target = ''b'', li_rel = None, li_text = ''a'', li_span = None\<rparr>"
  have "scan_links linked_source = [\<lparr>sn_target = ''b'', sn_text = ''a'', sn_span = (0, 6)\<rparr>]"
    by (simp add: linked_source_def scan_links_def scan_source.simps scan_link_line.simps find_unescaped.simps
        backslash_def backtick_def line_end_of_def nl_def byte_slice_def trim_start_def utf8_width_def ws_char_def
        is_whitespace_def byte_def link_end_def Let_def MAX_SCANNED_LINKS_def literal_label_def)
  then have run: "extract_links linked_source [?l] = [?l\<lparr>li_span := Some (0, 6)\<rparr>]"
    by (simp add: extract_links_def)
  have "li_target (extract_links linked_source [?l] ! 0) = ''b''"
    using extract_links_faithful [of "[?l]" linked_source] by auto
  with run show ?thesis by simp
qed

end
