(* ===== verification/Reading_Run.thy ===== *)
theory Reading_Run
  imports Knot_FileSystem "HOL-Library.Char_ord" "HOL-Library.List_Lexorder" "HOL-Library.Sublist"
begin

text \<open>
  The rest of \<open>knot-readings\<close> that has logic of its own: running a reading script within its
  bounds (\<open>lib.rs\<close>), finding the scripts of a directory (\<open>scripts.rs\<close>), and the draft of a metre
  alignment with its history (\<open>metre_alignment.rs\<close>).

  The script engine (\<open>rhai\<close>), the hash (\<open>blake3\<close>) and the scenes (\<open>scenomise\<close>) are other packages:
  they are arguments of the definitions that use them.
\<close>

section \<open>Reading scripts\<close>

record reading_script =
  rs_name :: string
  rs_source :: string
  rs_hash :: bytes

definition script_new :: "(string \<Rightarrow> bytes) \<Rightarrow> string \<Rightarrow> string \<Rightarrow> reading_script" where
  "script_new blake n src = \<lparr>rs_name = n, rs_source = src, rs_hash = blake src\<rparr>"

definition hex_digit :: "nat \<Rightarrow> char" where
  "hex_digit n = (if n < 10 then char_of (48 + n) else char_of (87 + n))"

definition hex32 :: "bytes \<Rightarrow> string" where
  "hex32 bs = concat (map (\<lambda>b. [hex_digit (byte b div 16), hex_digit (byte b mod 16)]) bs)"

definition hash_hex :: "reading_script \<Rightarrow> string" where
  "hash_hex s = hex32 (rs_hash s)"

record reading_budget =
  bu_max_ops :: nat
  bu_max_source_bytes :: nat
  bu_max_rows :: nat
  bu_max_note_bytes :: nat

definition default_budget :: reading_budget where
  "default_budget = \<lparr>bu_max_ops = 200000, bu_max_source_bytes = 64 * 1024, bu_max_rows = 2000,
     bu_max_note_bytes = 64 * 1024\<rparr>"

record reading_row =
  rr_label :: string
  rr_span :: "(nat \<times> nat) option"
  rr_document :: "string option"

record reading_note =
  rn_format :: string
  rn_text :: string

datatype reading_item = Row reading_row | Note reading_note

record 's reading_provenance =
  rp_source :: 's
  rp_script_name :: string
  rp_script_hash :: bytes
  rp_ops_used :: nat
  rp_elapsed_micros :: nat
  rp_budget :: reading_budget

record 's reading_result =
  rd_rows :: "reading_row list"
  rd_notes :: "reading_note list"
  rd_provenance :: "'s reading_provenance"

datatype budget_reason =
    ZeroOps
  | SourceTooLong nat nat
  | TooManyRows nat nat
  | NoteTooLong nat nat
  | EngineLimit string

datatype reading_error =
    Compile string "nat option" "nat option"
  | Runtime string
  | Budget budget_reason reading_budget
  | Shape string

text \<open>A value of the engine, as far as it is told apart: an item, an array, anything else.\<close>

datatype dynamic = DItem reading_item | DArray "dynamic list" | DOther string

fun type_name :: "dynamic \<Rightarrow> string" where
  "type_name (DItem _) = ''ReadingItem''"
| "type_name (DArray _) = ''array''"
| "type_name (DOther t) = t"

datatype eval_error =
    TooManyOperations string
  | DataTooLarge string
  | TooManyModules string
  | OtherEval string

fun classify :: "eval_error \<Rightarrow> reading_budget \<Rightarrow> reading_error" where
  "classify (TooManyOperations m) b = Budget (EngineLimit m) b"
| "classify (DataTooLarge m) b = Budget (EngineLimit m) b"
| "classify (TooManyModules m) b = Budget (EngineLimit m) b"
| "classify (OtherEval m) b = Runtime m"

fun cast_items :: "dynamic list \<Rightarrow> reading_error + reading_item list" where
  "cast_items [] = Inr []"
| "cast_items (DItem i # ds) = (case cast_items ds of Inl e \<Rightarrow> Inl e | Inr is \<Rightarrow> Inr (i # is))"
| "cast_items (d # ds) = Inl (Shape (type_name d))"

fun rows_of :: "reading_item list \<Rightarrow> reading_row list" where
  "rows_of [] = []"
| "rows_of (Row r # is) = r # rows_of is"
| "rows_of (Note n # is) = rows_of is"

fun notes_of :: "reading_item list \<Rightarrow> reading_note list" where
  "notes_of [] = []"
| "notes_of (Row r # is) = notes_of is"
| "notes_of (Note n # is) = n # notes_of is"

definition returned_items :: "dynamic \<Rightarrow> reading_error + reading_item list" where
  "returned_items v = (case v of DItem i \<Rightarrow> Inr [i] | DArray ds \<Rightarrow> cast_items ds | DOther t \<Rightarrow> Inl (Shape t))"

definition coerce_items ::
  "dynamic \<Rightarrow> reading_budget \<Rightarrow> reading_error + reading_row list \<times> reading_note list" where
  "coerce_items v b = (case returned_items v of
     Inl e \<Rightarrow> Inl e
   | Inr items \<Rightarrow>
       let rows = rows_of items; notes = notes_of items
       in if length rows > bu_max_rows b then Inl (Budget (TooManyRows (length rows) (bu_max_rows b)) b)
          else case find (\<lambda>n. length (rn_text n) > bu_max_note_bytes b) notes of
            Some over \<Rightarrow> Inl (Budget (NoteTooLong (length (rn_text over)) (bu_max_note_bytes b)) b)
          | None \<Rightarrow> Inr (rows, notes))"

text \<open>
  The engine: \<open>compile\<close> gives a program or a message with its position, \<open>eval\<close> a value or an
  error, with the operations it counted. Lines and columns are reported as \<open>u16\<close>.
\<close>

record ('p, 'i) engine =
  en_compile :: "string \<Rightarrow> (string \<times> nat option \<times> nat option) + 'p"
  en_eval :: "'i \<Rightarrow> reading_budget \<Rightarrow> 'p \<Rightarrow> (eval_error + dynamic) \<times> nat"
  en_elapsed :: nat

definition run_reading ::
  "('p, 'i) engine \<Rightarrow> ('i \<Rightarrow> 's) \<Rightarrow> reading_script \<Rightarrow> 'i \<Rightarrow> reading_budget \<Rightarrow> reading_error + 's reading_result" where
  "run_reading en source_id script input b =
     (if bu_max_ops b = 0 then Inl (Budget ZeroOps b)
      else if length (rs_source script) > bu_max_source_bytes b
      then Inl (Budget (SourceTooLong (length (rs_source script)) (bu_max_source_bytes b)) b)
      else case en_compile en (rs_source script) of
        Inl (m, line, column) \<Rightarrow>
          Inl (Compile m (map_option (\<lambda>n. n mod 2 ^ 16) line) (map_option (\<lambda>n. n mod 2 ^ 16) column))
      | Inr ast \<Rightarrow> (case en_eval en input b ast of
          (Inl e, _) \<Rightarrow> Inl (classify e b)
        | (Inr v, ops) \<Rightarrow> (case coerce_items v b of
            Inl e \<Rightarrow> Inl e
          | Inr (rows, notes) \<Rightarrow> Inr \<lparr>rd_rows = rows, rd_notes = notes,
              rd_provenance = \<lparr>rp_source = source_id input, rp_script_name = rs_name script,
                rp_script_hash = rs_hash script, rp_ops_used = ops,
                rp_elapsed_micros = min (en_elapsed en) (2 ^ 64 - 1), rp_budget = b\<rparr>\<rparr>)))"

lemma coerce_items_Inr:
  "coerce_items v b = Inr (rows, notes) \<longleftrightarrow>
    (\<exists>items. returned_items v = Inr items \<and> rows = rows_of items \<and> notes = notes_of items \<and>
      length rows \<le> bu_max_rows b \<and> (\<forall>n \<in> set notes. length (rn_text n) \<le> bu_max_note_bytes b))"
  by (auto simp: coerce_items_def Let_def find_None_all not_less split: sum.splits option.splits dest!: find_Some_in)
    (metis not_le)

lemma classify_budget: "classify e b = Budget r c \<Longrightarrow> c = b"
  by (cases e) auto

section \<open>The scripts of a directory\<close>

datatype load_note =
    UnreadableEntry
  | NotRegular string
  | OverLimit string nat
  | Uninspected string io_kind
  | BeyondLimit string nat
  | NotUtf8 string
  | Unread string io_kind

definition utf8_extension :: "path \<Rightarrow> string option" where
  "utf8_extension p = Option.bind (path_extension p) (\<lambda>e. if utf8_valid e then Some e else None)"

text \<open>Listing a directory is the argument \<open>list_dir\<close>; \<open>lossy\<close> is \<open>to_string_lossy\<close>.\<close>

fun inspect_entries ::
  "(string \<Rightarrow> string) \<Rightarrow> path \<Rightarrow> nat \<Rightarrow> (io_kind + string) list
     \<Rightarrow> ('e, (string \<times> path) list \<times> load_note list) prog" where
  "inspect_entries lossy dir max_bytes [] = ret ([], [])"
| "inspect_entries lossy dir max_bytes (Inl e # es) =
     bind (inspect_entries lossy dir max_bytes es) (\<lambda>(cs, ns). ret (cs, UnreadableEntry # ns))"
| "inspect_entries lossy dir max_bytes (Inr n # es) =
     (let p = dir @ [n]; name = lossy n
      in if utf8_extension p \<noteq> Some ''rhai'' then inspect_entries lossy dir max_bytes es
         else bind (attempt (fs_symlink_metadata p)) (\<lambda>m.
           bind (inspect_entries lossy dir max_bytes es) (\<lambda>(cs, ns).
             case m of
               Inr md \<Rightarrow>
                 if \<not> meta_is_file md then ret (cs, NotRegular name # ns)
                 else if meta_len md > max_bytes then ret (cs, OverLimit name (meta_len md) # ns)
                 else ret ((name, p) # cs, ns)
             | Inl e \<Rightarrow> ret (cs, Uninspected name e # ns))))"


fun read_candidates ::
  "(string \<Rightarrow> bytes) \<Rightarrow> nat \<Rightarrow> (string \<times> path) list \<Rightarrow> nat
     \<Rightarrow> ('e, reading_script list \<times> load_note list) prog" where
  "read_candidates blake max_scripts [] count = ret ([], [])"
| "read_candidates blake max_scripts ((name, p) # cs) count =
     (if count \<ge> max_scripts
      then bind (read_candidates blake max_scripts cs count) (\<lambda>(ss, ns).
             ret (ss, BeyondLimit name max_scripts # ns))
      else bind (attempt (fs_read p)) (\<lambda>r. case r of
          Inr bs \<Rightarrow>
            if utf8_valid bs
            then bind (read_candidates blake max_scripts cs (count + 1)) (\<lambda>(ss, ns).
                   ret (script_new blake name bs # ss, ns))
            else bind (read_candidates blake max_scripts cs count) (\<lambda>(ss, ns). ret (ss, NotUtf8 name # ns))
        | Inl e \<Rightarrow> bind (read_candidates blake max_scripts cs count) (\<lambda>(ss, ns). ret (ss, Unread name e # ns))))"

definition load_dir ::
  "(path \<Rightarrow> (io_kind, (io_kind + string) list) prog) \<Rightarrow> (string \<Rightarrow> string) \<Rightarrow> (string \<Rightarrow> bytes)
     \<Rightarrow> path \<Rightarrow> nat \<Rightarrow> nat \<Rightarrow> ('e, reading_script list \<times> load_note list) prog" where
  "load_dir list_dir lossy blake dir max_scripts max_bytes =
     bind (attempt (list_dir dir)) (\<lambda>r. case r of
       Inl _ \<Rightarrow> ret ([], [])
     | Inr es \<Rightarrow>
         bind (inspect_entries lossy dir max_bytes es) (\<lambda>(cs, ns).
         bind (read_candidates blake max_scripts (sort_key fst cs) 0) (\<lambda>(ss, ns').
           ret (ss, ns @ ns'))))"

section \<open>The draft of a metre alignment\<close>

text \<open>
  What the draft calls of a scene and of a proposal. \<open>apply_edit\<close> is the proposed facts put into
  the scene with the revision that \<open>preview\<close> computes from its origin and the facts.
\<close>

record ('s, 'p) scene_calls =
  scn_validate :: "'s \<Rightarrow> string + unit"
  scn_is_metre :: "'s \<Rightarrow> bool"
  scn_revision :: "'s \<Rightarrow> string"
  scn_proposed :: "'p \<Rightarrow> 's \<Rightarrow> string + 's"
  scn_unchanged :: "'p \<Rightarrow> bool"
  scn_stamp :: "string \<Rightarrow> 's \<Rightarrow> string + 's"

record 's metre_draft =
  md_scene :: 's
  md_origin :: string
  md_undo :: "'s list"
  md_redo :: "'s list"

definition draft_new :: "('s, 'p) scene_calls \<Rightarrow> 's \<Rightarrow> string + 's metre_draft" where
  "draft_new k scene =
     (case scn_validate k scene of
        Inl e \<Rightarrow> Inl e
      | Inr _ \<Rightarrow>
          if \<not> scn_is_metre k scene then Inl ''A metre reading is required''
          else Inr \<lparr>md_scene = scene, md_origin = scn_revision k scene, md_undo = [], md_redo = []\<rparr>)"

definition preview :: "('s, 'p) scene_calls \<Rightarrow> 'p \<Rightarrow> 's metre_draft \<Rightarrow> string + 's" where
  "preview k proposal d =
     (case scn_proposed k proposal (md_scene d) of
        Inl e \<Rightarrow> Inl e
      | Inr facts \<Rightarrow>
          if scn_unchanged k proposal then Inr (md_scene d)
          else case scn_stamp k (md_origin d) facts of
            Inl e \<Rightarrow> Inl e
          | Inr next \<Rightarrow> (case scn_validate k next of Inl e \<Rightarrow> Inl e | Inr _ \<Rightarrow> Inr next))"

text \<open>The stacks have their top at the end, as the vectors do.\<close>

definition draft_commit :: "('s, 'p) scene_calls \<Rightarrow> 'p \<Rightarrow> 's metre_draft \<Rightarrow> (string + unit) \<times> 's metre_draft" where
  "draft_commit k proposal d =
     (case preview k proposal d of
        Inl e \<Rightarrow> (Inl e, d)
      | Inr next \<Rightarrow>
          if scn_unchanged k proposal then (Inr (), d)
          else let undo = md_undo d @ [md_scene d];
                   undo = (if length undo > 32 then tl undo else undo)
               in (Inr (), d\<lparr>md_undo := undo, md_redo := [], md_scene := next\<rparr>))"

definition draft_undo :: "'s metre_draft \<Rightarrow> 's metre_draft" where
  "draft_undo d =
     (if md_undo d = [] then d
      else d\<lparr>md_undo := butlast (md_undo d), md_redo := md_redo d @ [md_scene d], md_scene := last (md_undo d)\<rparr>)"

definition draft_redo :: "'s metre_draft \<Rightarrow> 's metre_draft" where
  "draft_redo d =
     (if md_redo d = [] then d
      else d\<lparr>md_redo := butlast (md_redo d), md_undo := md_undo d @ [md_scene d], md_scene := last (md_redo d)\<rparr>)"

datatype 'p draft_event = CommitEdit 'p | UndoEdit | RedoEdit

fun draft_step :: "('s, 'p) scene_calls \<Rightarrow> 'p draft_event \<Rightarrow> 's metre_draft \<Rightarrow> 's metre_draft" where
  "draft_step k (CommitEdit p) d = snd (draft_commit k p d)"
| "draft_step k UndoEdit d = draft_undo d"
| "draft_step k RedoEdit d = draft_redo d"

text \<open>Everything in the history validates, and the two stacks together stay within the limit.\<close>

definition draft_ok :: "('s, 'p) scene_calls \<Rightarrow> 's metre_draft \<Rightarrow> bool" where
  "draft_ok k d \<longleftrightarrow> (\<forall>s \<in> set (md_scene d # md_undo d @ md_redo d). scn_validate k s = Inr ()) \<and>
     length (md_undo d) + length (md_redo d) \<le> 32"

lemma preview_valid:
  "preview k p d = Inr s \<Longrightarrow> \<not> scn_unchanged k p \<Longrightarrow> scn_validate k s = Inr ()"
  by (auto simp: preview_def split: sum.splits if_splits)

lemma draft_commit_ok: "draft_ok k d \<Longrightarrow> draft_ok k (snd (draft_commit k p d))"
  using preview_valid [of k p d]
  by (auto simp: draft_commit_def draft_ok_def Let_def split: sum.split
      dest!: list.set_sel(2) [rotated])

lemma neq_Nil_conv_snoc: "xs \<noteq> [] \<longleftrightarrow> (\<exists>ys y. xs = ys @ [y])"
  by (cases xs rule: rev_cases) auto

lemma draft_undo_ok: "draft_ok k d \<Longrightarrow> draft_ok k (draft_undo d)"
  and draft_redo_ok: "draft_ok k d \<Longrightarrow> draft_ok k (draft_redo d)"
  by (auto simp: draft_undo_def draft_redo_def draft_ok_def neq_Nil_conv_snoc)

interpretation drafts: machine "draft_step k" "draft_ok k"
  for k :: "('s, 'p) scene_calls"
proof
  fix d :: "'s metre_draft" and ev :: "'p draft_event"
  assume "draft_ok k d"
  then show "draft_ok k (draft_step k ev d)"
    by (cases ev) (auto intro: draft_commit_ok draft_undo_ok draft_redo_ok)
qed

lemma undo_redo: "md_undo d \<noteq> [] \<Longrightarrow> draft_redo (draft_undo d) = d"
  by (simp add: draft_undo_def draft_redo_def)

lemma redo_undo: "md_redo d \<noteq> [] \<Longrightarrow> draft_undo (draft_redo d) = d"
  by (simp add: draft_undo_def draft_redo_def)


section \<open>Loading is bounded\<close>

text \<open>Every candidate becomes a script or a note, in the order of the candidates.\<close>

definition loaded :: "(string \<Rightarrow> bytes) \<Rightarrow> nat \<Rightarrow> (string \<times> path) list \<Rightarrow> reading_script list \<times> load_note list \<Rightarrow> bool" where
  "loaded blake room cs r \<longleftrightarrow> length (fst r) \<le> room \<and> length (fst r) + length (snd r) = length cs \<and>
     subseq (map rs_name (fst r)) (map fst cs) \<and>
     (\<forall>s \<in> set (fst r). utf8_valid (rs_source s) \<and> rs_hash s = blake (rs_source s))"

lemma loaded_skip: "loaded blake room cs (ss, ns) \<Longrightarrow> loaded blake room (c # cs) (ss, n # ns)"
  by (auto simp: loaded_def)

lemma loaded_take:
  "loaded blake (room - 1) cs (ss, ns) \<Longrightarrow> 0 < room \<Longrightarrow> utf8_valid bs \<Longrightarrow>
    loaded blake room ((name, p) # cs) (script_new blake name bs # ss, ns)"
  by (auto simp: loaded_def script_new_def)

lemma ensures_read_candidates:
  "ensures (read_candidates blake limit cs count :: ('e, reading_script list \<times> load_note list) prog)
     (loaded blake (limit - count) cs)"
proof (induction cs arbitrary: count)
  case Nil
  then show ?case by (simp add: loaded_def)
next
  case (Cons c cs)
  obtain name p where c: "c = (name, p)" by fastforce
  have skip: "ensures (bind (read_candidates blake limit cs count) (\<lambda>(ss, ns). ret (ss, n # ns))
      :: ('e, reading_script list \<times> load_note list) prog) (loaded blake (limit - count) (c # cs))" for n
    by (rule ensures_bind [OF Cons.IH]) (auto intro: loaded_skip)
  have keep: "ensures (bind (read_candidates blake limit cs (count + 1)) (\<lambda>(ss, ns). ret (script_new blake name bs # ss, ns))
      :: ('e, reading_script list \<times> load_note list) prog) (loaded blake (limit - count) (c # cs))" if "utf8_valid bs" "\<not> count \<ge> limit" for bs
    by (rule ensures_bind [OF Cons.IH]) (use that in \<open>auto simp: c intro!: loaded_take\<close>)
  show ?case
  proof (cases "count \<ge> limit")
    case True
    then show ?thesis using skip [of "BeyondLimit name limit"] by (simp add: c)
  next
    case False
    have "ensures ((case r of
          Inr bs \<Rightarrow>
            if utf8_valid bs
            then bind (read_candidates blake limit cs (count + 1)) (\<lambda>(ss, ns). ret (script_new blake name bs # ss, ns))
            else bind (read_candidates blake limit cs count) (\<lambda>(ss, ns). ret (ss, NotUtf8 name # ns))
        | Inl e \<Rightarrow> bind (read_candidates blake limit cs count) (\<lambda>(ss, ns). ret (ss, Unread name e # ns)))
        :: ('e, reading_script list \<times> load_note list) prog) (loaded blake (limit - count) (c # cs))" for r
      using skip keep [OF _ False] by (cases r) (simp_all split: if_split)
    with False show ?thesis by (simp add: c ensures_bind_any)
  qed
qed

lemma sorted_subseq: "subseq xs ys \<Longrightarrow> sorted ys \<Longrightarrow> sorted (xs :: 'a :: linorder list)"
  by (induction rule: list_emb.induct) (auto dest: list_emb_set)

lemma ensures_load_dir:
  "ensures (load_dir list_dir lossy blake dir max_scripts max_bytes) (\<lambda>r.
     length (fst r) \<le> max_scripts \<and> sorted (map rs_name (fst r)) \<and>
     (\<forall>s \<in> set (fst r). utf8_valid (rs_source s) \<and> rs_hash s = blake (rs_source s)))"
proof -
  have read: "ensures (read_candidates blake max_scripts (sort_key fst cs) 0) (\<lambda>r.
     length (fst r) \<le> max_scripts \<and> sorted (map rs_name (fst r)) \<and>
     (\<forall>s \<in> set (fst r). utf8_valid (rs_source s) \<and> rs_hash s = blake (rs_source s)))" for cs
    by (rule ensures_mono [OF ensures_read_candidates])
      (auto simp: loaded_def dest: sorted_subseq)
  show ?thesis
    unfolding load_dir_def
    by (auto intro!: ensures_bind_any ensures_bind [OF read] split: sum.split)
qed

lemma looks_inspect [intro]: "looks (inspect_entries lossy dir max_bytes es)"
proof (induction lossy dir max_bytes es rule: inspect_entries.induct)
  case (3 lossy dir max_bytes n es)
  then show ?case by (auto simp: Let_def intro!: looks_bind looks_attempt split: sum.split)
qed (auto intro!: looks_bind)

lemma looks_read_candidates [intro]: "looks (read_candidates blake limit cs count)"
  by (induction blake limit cs count rule: read_candidates.induct)
    (auto intro!: looks_bind looks_attempt split: sum.split)

lemma looks_load_dir: "looks (list_dir dir) \<Longrightarrow> looks (load_dir list_dir lossy blake dir max_scripts max_bytes)"
  unfolding load_dir_def by (auto intro!: looks_bind looks_attempt split: sum.split)

lemma hex32_length [simp]: "length (hex32 bs) = 2 * length bs"
  by (induction bs) (simp_all add: hex32_def)

section \<open>Properties\<close>


text \<open>
  whatever is committed, undone and redone, every scene of a draft's history validates and the
  history holds at most 32 scenes; an undo is taken back by a redo and a redo by an undo, and a
  commit that changes the scene is undone to the scene before it.
\<close>

theorem draft_history_kept:
  fixes d :: "'s metre_draft"
  assumes "draft_ok k d" and "d' = fold (draft_step k) evs d"
  shows "draft_ok k d' \<and>
    (md_undo d' = [] \<or> draft_redo (draft_undo d') = d') \<and> (md_redo d' = [] \<or> draft_undo (draft_redo d') = d') \<and>
    (case preview k p d' of
       Inl e \<Rightarrow> draft_commit k p d' = (Inl e, d')
     | Inr s \<Rightarrow> if scn_unchanged k p then draft_commit k p d' = (Inr (), d')
         else md_scene (snd (draft_commit k p d')) = s \<and> md_scene (draft_undo (snd (draft_commit k p d'))) = md_scene d')"
proof (intro conjI)
  show "draft_ok k d'" using drafts.run_inv [OF assms(1)] assms(2) by simp
  show "md_undo d' = [] \<or> draft_redo (draft_undo d') = d'" using undo_redo by blast
  show "md_redo d' = [] \<or> draft_undo (draft_redo d') = d'" using redo_undo by blast
  have "tl (xs @ [x]) \<noteq> [] \<and> last (tl (xs @ [x])) = x" if "31 < length xs" for xs :: "'s list" and x
    using that by (cases xs) auto
  then show "case preview k p d' of
       Inl e \<Rightarrow> draft_commit k p d' = (Inl e, d')
     | Inr s \<Rightarrow> if scn_unchanged k p then draft_commit k p d' = (Inr (), d')
         else md_scene (snd (draft_commit k p d')) = s \<and> md_scene (draft_undo (snd (draft_commit k p d'))) = md_scene d'"
    by (auto simp: draft_commit_def draft_undo_def Let_def split: sum.split)
qed

text \<open>A scene that is a number below a hundred, and proposals that replace it.\<close>

definition number_scenes :: "(nat, nat) scene_calls" where
  "number_scenes = \<lparr>scn_validate = (\<lambda>s. if s < 100 then Inr () else Inl ''too large''), scn_is_metre = (\<lambda>_. True),
     scn_revision = nat_str, scn_proposed = (\<lambda>p _. Inr p), scn_unchanged = (\<lambda>p. p = 0), scn_stamp = (\<lambda>_ s. Inr s)\<rparr>"

definition number_draft :: "nat metre_draft" where
  "number_draft = \<lparr>md_scene = 5, md_origin = ''5'', md_undo = [], md_redo = []\<rparr>"

theorem draft_history_kept_witness:
  "draft_ok number_scenes (fold (draft_step number_scenes) [CommitEdit 7, CommitEdit 9, UndoEdit] number_draft) \<and>
   md_scene (fold (draft_step number_scenes) [CommitEdit 7, CommitEdit 9, UndoEdit] number_draft) = 7"
proof -
  have "draft_ok number_scenes number_draft" by (simp add: draft_ok_def number_scenes_def number_draft_def)
  from draft_history_kept [OF this refl, of "[CommitEdit 7, CommitEdit 9, UndoEdit]" 0]
  show ?thesis
    by (simp add: draft_commit_def preview_def draft_undo_def number_scenes_def number_draft_def Let_def)
qed

text \<open>
  loading a directory of scripts only reads; it returns at most as many as asked for, ordered by
  name, each with a source that is UTF-8 and with the hash of exactly that source.
\<close>

theorem load_dir_bounded:
  assumes "looks (list_dir dir)"
  shows "looks (load_dir list_dir lossy blake dir max_scripts max_bytes) \<and>
    ensures (load_dir list_dir lossy blake dir max_scripts max_bytes) (\<lambda>r.
      length (fst r) \<le> max_scripts \<and> sorted (map rs_name (fst r)) \<and>
      list_all (\<lambda>s. utf8_valid (rs_source s) \<and> rs_hash s = blake (rs_source s)) (fst r))"
  using ensures_load_dir [of list_dir lossy blake dir max_scripts max_bytes]
  by (simp add: looks_load_dir assms list_all_iff)

theorem load_dir_bounded_witness:
  "\<exists>fs'. load_dir (\<lambda>_. ret [Inr ''a.rhai'', Inr ''b.txt'']) id id [''notes''] 1 8
      (sample_fs\<lparr>entries := [[''notes''] \<mapsto> Folder, [''notes'', ''a.rhai''] \<mapsto> Name 0]\<rparr>) =
    (Done ([\<lparr>rs_name = ''a.rhai'', rs_source = ''old'', rs_hash = ''old''\<rparr>], []) :: (nat, _) outcome, fs') \<and>
    same_tree (sample_fs\<lparr>entries := [[''notes''] \<mapsto> Folder, [''notes'', ''a.rhai''] \<mapsto> Name 0]\<rparr>) fs'"
proof -
  let ?fs = "sample_fs\<lparr>entries := [[''notes''] \<mapsto> Folder, [''notes'', ''a.rhai''] \<mapsto> Name 0]\<rparr>"
  let ?m = "load_dir (\<lambda>_. ret [Inr ''a.rhai'', Inr ''b.txt'']) id id [''notes''] 1 8
    :: (nat, reading_script list \<times> load_note list) prog"
  have "fst (?m ?fs) = Done ([\<lparr>rs_name = ''a.rhai'', rs_source = ''old'', rs_hash = ''old''\<rparr>], [])" by code_simp
  then obtain fs' where run: "?m ?fs = (Done ([\<lparr>rs_name = ''a.rhai'', rs_source = ''old'', rs_hash = ''old''\<rparr>], []), fs')"
    by (metis prod.collapse)
  have "looks ((\<lambda>_. ret [Inr ''a.rhai'', Inr ''b.txt'']) [''notes''] :: (io_kind, (io_kind + string) list) prog)"
    by simp
  from load_dir_bounded [OF this, where lossy = id and blake = id and max_scripts = 1 and max_bytes = 8] have "looks ?m" by blast
  moreover have "calm ?fs" by (simp add: calm_def sample_fs_def)
  ultimately have "same_tree ?fs fs'" using run by (blast dest: looksD)
  with run show ?thesis by blast
qed

end
