(* ===== verification/Key_Names.thy ===== *)
theory Key_Names
  imports Knot_Text
begin

text \<open>
  The spellings of 32-byte identities: \<open>did_key.rs\<close>, which names a verifying key by its base58 form,
  and \<open>hex32\<close> of \<open>settings.rs\<close>. Both are one-to-one, so what is signed and what is minted can be
  read back from a name.
\<close>

type_synonym id32 = string

section \<open>Definitions\<close>

definition base58_alphabet :: string where
  "base58_alphabet = ''123456789ABCDEFGHJKLMNPQRSTUVWXYZabcdefghijkmnopqrstuvwxyz''"

text \<open>
  One step of a conversion between bases, over the digits so far, the lowest first: every digit is
  multiplied by \<open>m\<close>, a carry goes through them in base \<open>n\<close>, and what is left of it becomes new digits.
  (No base is below two; the test makes the recursion total.)
\<close>

fun carry_into :: "nat \<Rightarrow> nat \<Rightarrow> nat \<Rightarrow> nat list \<Rightarrow> nat list \<times> nat" where
  "carry_into m n carry [] = ([], carry)"
| "carry_into m n carry (d # ds) =
     (let carry = carry + d * m; (ds', left) = carry_into m n (carry div n) ds
      in (carry mod n # ds', left))"

function carry_out :: "nat \<Rightarrow> nat \<Rightarrow> nat list" where
  "carry_out n carry =
     (if carry = 0 \<or> n < 2 then [] else carry mod n # carry_out n (carry div n))"
  by pat_completeness auto
termination
  by (relation "measure snd") auto

definition shift_in :: "nat \<Rightarrow> nat \<Rightarrow> nat \<Rightarrow> nat list \<Rightarrow> nat list" where
  "shift_in m n value digits =
     (let (ds, carry) = carry_into m n value digits in ds @ carry_out n carry)"

definition base58btc :: "string \<Rightarrow> string" where
  "base58btc bs =
     (let zeros = length (takeWhile (\<lambda>c. byte c = 0) bs);
          digits = fold (\<lambda>c. shift_in 256 58 (byte c)) (drop zeros bs) []
      in replicate zeros CHR ''1'' @ map (\<lambda>d. base58_alphabet ! d) (rev digits))"

fun position :: "char \<Rightarrow> string \<Rightarrow> nat option" where
  "position c [] = None"
| "position c (d # ds) = (if d = c then Some 0 else map_option Suc (position c ds))"

fun decode_digits :: "string \<Rightarrow> nat list \<Rightarrow> nat list option" where
  "decode_digits [] bs = Some bs"
| "decode_digits (c # cs) bs = (case position c base58_alphabet of
     None \<Rightarrow> None | Some value \<Rightarrow> decode_digits cs (shift_in 58 256 value bs))"

definition base58btc_decode :: "string \<Rightarrow> string option" where
  "base58btc_decode s =
     (let ones = length (takeWhile (\<lambda>c. c = CHR ''1'') s)
      in map_option (\<lambda>bs. replicate ones (char_of (0 :: nat)) @ map char_of (rev bs)) (decode_digits (drop ones s) []))"

definition ED25519_PUB_MULTICODEC :: string where
  "ED25519_PUB_MULTICODEC = [char_of (237 :: nat), char_of (1 :: nat)]"

definition did_key :: "id32 \<Rightarrow> string" where
  "did_key k = ''did:key:z'' @ base58btc (ED25519_PUB_MULTICODEC @ k)"

definition did_key_verifying_key :: "string \<Rightarrow> id32 option" where
  "did_key_verifying_key did =
     (if \<not> starts_with did ''did:key:'' then None
      else let multibase = drop 8 did
        in if \<not> starts_with multibase ''z'' then None
           else case base58btc_decode (drop 1 multibase) of
               None \<Rightarrow> None
             | Some decoded \<Rightarrow>
                 if length decoded < 2 \<or> take 2 decoded \<noteq> ED25519_PUB_MULTICODEC then None
                 else if length (drop 2 decoded) = 32 then Some (drop 2 decoded) else None)"

text \<open>\<open>{byte:02x}\<close> of every byte.\<close>

definition hex_digit :: "nat \<Rightarrow> char" where
  "hex_digit n = ''0123456789abcdef'' ! n"

definition hex32 :: "id32 \<Rightarrow> string" where
  "hex32 k = concat (map (\<lambda>c. [hex_digit (byte c div 16), hex_digit (byte c mod 16)]) k)"

section \<open>Digits\<close>

primrec value_of :: "nat \<Rightarrow> nat list \<Rightarrow> nat" where
  "value_of n [] = 0"
| "value_of n (d # ds) = d + n * value_of n ds"

text \<open>Digits of a number in base \<open>n\<close>, the highest not zero.\<close>

definition numeral_in :: "nat \<Rightarrow> nat list \<Rightarrow> bool" where
  "numeral_in n ds \<longleftrightarrow> (\<forall>d \<in> set ds. d < n) \<and> (ds \<noteq> [] \<longrightarrow> last ds \<noteq> 0)"

lemma value_append: "value_of n (xs @ ys) = value_of n xs + n ^ length xs * value_of n ys"
  by (induction xs) (simp_all add: algebra_simps)

lemma value_less: "(\<forall>d \<in> set ds. d < n) \<Longrightarrow> value_of n ds < n ^ length ds"
proof (induction ds)
  case (Cons d ds)
  then have "n * Suc (value_of n ds) \<le> n * n ^ length ds" by (intro mult_le_mono2) simp
  with Cons.prems show ?case by simp
qed simp

lemma numeral_in_Cons: "numeral_in n (d # ds) \<longleftrightarrow> d < n \<and> numeral_in n ds \<and> (ds = [] \<longrightarrow> d \<noteq> 0)"
  by (auto simp: numeral_in_def)

lemma numeral_value_pos: "numeral_in n ds \<Longrightarrow> ds \<noteq> [] \<Longrightarrow> 0 < value_of n ds"
  by (induction ds) (auto simp: numeral_in_Cons)

lemma numeral_unique:
  "numeral_in n xs \<Longrightarrow> numeral_in n ys \<Longrightarrow> value_of n xs = value_of n ys \<Longrightarrow> xs = ys"
proof (induction xs arbitrary: ys)
  case Nil
  then show ?case using numeral_value_pos [of n ys] by auto
next
  case (Cons x xs)
  then obtain y ys' where ys: "ys = y # ys'" using numeral_value_pos [OF Cons.prems(1)] by (cases ys) auto
  have x: "x < n" and y: "y < n" and eq: "x + n * value_of n xs = y + n * value_of n ys'"
    using Cons.prems ys by (auto simp: numeral_in_Cons)
  have "(x + n * value_of n xs) mod n = x" "(y + n * value_of n ys') mod n = y"
    "(x + n * value_of n xs) div n = value_of n xs" "(y + n * value_of n ys') div n = value_of n ys'"
    using x y by simp_all
  with eq have "x = y" and "value_of n xs = value_of n ys'" by metis+
  with Cons ys show ?case by (auto simp: numeral_in_Cons)
qed

lemma carry_into_value:
  "0 < n \<Longrightarrow> carry_into m n c ds = (ds', left) \<Longrightarrow>
    length ds' = length ds \<and> (\<forall>d \<in> set ds'. d < n) \<and> value_of n ds' + n ^ length ds * left = c + m * value_of n ds"
proof (induction ds arbitrary: c ds' left)
  case (Cons d ds)
  let ?c = "c + d * m"
  obtain es where es: "carry_into m n (?c div n) ds = (es, left)" "ds' = ?c mod n # es"
    using Cons.prems(2) by (auto simp: Let_def split: prod.splits)
  let ?v = "value_of n ds"
  from Cons.IH [OF Cons.prems(1) es(1)] have ih: "length es = length ds" "\<forall>d \<in> set es. d < n"
    "value_of n es + n ^ length ds * left = ?c div n + m * ?v" by auto
  have "value_of n ds' + n ^ length (d # ds) * left = ?c mod n + n * (value_of n es + n ^ length ds * left)"
    by (simp add: es(2) distrib_left mult.assoc)
  also have "\<dots> = (?c mod n + n * (?c div n)) + n * (m * ?v)"
    unfolding ih(3) by (simp add: distrib_left del: mod_mult_div_eq)
  also have "\<dots> = c + m * value_of n (d # ds)"
    by (simp add: distrib_left mult.commute mult.left_commute)
  finally show ?case using ih Cons.prems(1) es(2) by simp
qed simp

lemma carry_out_value: "2 \<le> n \<Longrightarrow> value_of n (carry_out n c) = c \<and> numeral_in n (carry_out n c)"
proof (induction n c rule: carry_out.induct)
  case (1 n carry)
  show ?case
  proof (cases "carry = 0")
    case True
    then show ?thesis by (simp add: numeral_in_def)
  next
    case False
    with 1 have ih: "value_of n (carry_out n (carry div n)) = carry div n" "numeral_in n (carry_out n (carry div n))"
      by auto
    have "carry mod n \<noteq> 0" if "carry_out n (carry div n) = []"
      using ih(1) that False by (metis div_mult_mod_eq value_of.simps(1) mult_0 add_0)
    with ih False 1(2) show ?thesis by (subst (1 2) carry_out.simps) (auto simp: numeral_in_Cons)
  qed
qed

declare carry_out.simps [simp del]

lemma shift_in_value:
  assumes "2 \<le> n" and "1 \<le> m" and "numeral_in n ds"
  shows "value_of n (shift_in m n v ds) = v + m * value_of n ds \<and> numeral_in n (shift_in m n v ds)"
proof -
  obtain es left where es: "carry_into m n v ds = (es, left)" by force
  with carry_into_value [OF _ es] assms(1) have
    l: "length es = length ds" "\<forall>d \<in> set es. d < n" "value_of n es + n ^ length ds * left = v + m * value_of n ds"
    by auto
  have out: "value_of n (carry_out n left) = left" "numeral_in n (carry_out n left)"
    using carry_out_value [OF assms(1)] by auto
  have "last es \<noteq> 0" if "carry_out n left = []" "es \<noteq> []"
  proof
    assume "last es = 0"
    with that l(1) obtain es' d ds' where snoc: "es = es' @ [0]" "ds = ds' @ [d]"
      by (metis append_butlast_last_id length_0_conv)
    have "value_of n es = value_of n es'" and less: "value_of n es' < n ^ length es'"
      using value_less [of es' n] l(2) snoc by (simp_all add: value_append)
    moreover have "left = 0" using that(1) out(1) by simp
    moreover have "d \<noteq> 0" using assms(3) snoc by (simp add: numeral_in_def)
    then have "n ^ length ds' * 1 \<le> n ^ length ds' * d" by (intro mult_le_mono2) linarith
    then have "n ^ length ds' \<le> value_of n ds" unfolding snoc(2) value_append value_of.simps mult_0_right add_0_right by linarith
    moreover have "value_of n ds \<le> m * value_of n ds" using mult_le_mono1 [OF assms(2)] by simp
    then have "n ^ length ds' \<le> v + m * value_of n ds" using calculation(4) by linarith
    ultimately show False using l(1,3) snoc by simp
  qed
  with l out show ?thesis
    by (auto simp: shift_in_def es value_append numeral_in_def last_append)
qed

lemma fold_shift_in:
  assumes "2 \<le> n" and "1 \<le> m"
  shows "numeral_in n ds \<Longrightarrow> numeral_in n (fold (shift_in m n) vs ds) \<and>
    value_of n (fold (shift_in m n) vs ds) = value_of m (rev vs) + m ^ length vs * value_of n ds"
proof (induction vs arbitrary: ds)
  case (Cons v vs)
  from shift_in_value [OF assms Cons.prems, of v] Cons.IH [of "shift_in m n v ds"] show ?case
    by (simp add: value_append algebra_simps)
qed simp

text \<open>A number is converted: the digits in base \<open>m\<close>, the highest first, to those in base \<open>n\<close>, the lowest first.\<close>

definition convert :: "nat \<Rightarrow> nat \<Rightarrow> nat list \<Rightarrow> nat list" where
  "convert m n vs = fold (shift_in m n) vs []"

lemma convert_numeral: "2 \<le> n \<Longrightarrow> 1 \<le> m \<Longrightarrow> numeral_in n (convert m n vs)"
  and convert_value: "2 \<le> n \<Longrightarrow> 1 \<le> m \<Longrightarrow> value_of n (convert m n vs) = value_of m (rev vs)"
proof -
  have "numeral_in n []" by (simp add: numeral_in_def)
  then show "numeral_in n (convert m n vs)" "value_of n (convert m n vs) = value_of m (rev vs)" if "2 \<le> n" "1 \<le> m"
    using fold_shift_in [OF that, of "[]" vs] by (simp_all add: convert_def)
qed

lemma convert_back:
  assumes "2 \<le> n" and "2 \<le> m" and "numeral_in m (rev vs)"
  shows "convert n m (rev (convert m n vs)) = rev vs"
  using assms by (intro numeral_unique [of m]) (simp_all add: convert_numeral convert_value)

section \<open>Base 58\<close>

lemma position_nth: "distinct cs \<Longrightarrow> position c cs = Some i \<longleftrightarrow> i < length cs \<and> cs ! i = c"
proof (induction cs arbitrary: i)
  case (Cons d ds)
  then have d: "d \<noteq> ds ! j" if "j < length ds" for j using that by (metis distinct.simps(2) nth_mem)
  show ?case
  proof (cases i)
    case 0
    then show ?thesis by simp
  next
    case (Suc j)
    with Cons.IH [of j] Cons.prems d [of j] show ?thesis by simp blast
  qed
qed simp

lemma alphabet: "distinct base58_alphabet" "length base58_alphabet = 58" "base58_alphabet ! 0 = CHR ''1''"
  by (simp_all add: base58_alphabet_def)

lemma position_alphabet: "position c base58_alphabet = Some i \<longleftrightarrow> i < 58 \<and> c = base58_alphabet ! i"
  using position_nth [OF alphabet(1), of c i] by (auto simp: alphabet(2))

lemma alphabet_one: "i < 58 \<Longrightarrow> base58_alphabet ! i = CHR ''1'' \<longleftrightarrow> i = 0"
  using nth_eq_iff_index_eq [OF alphabet(1), of i 0] alphabet by auto

lemma decode_digits_collect: "decode_digits cs bs =
    map_option (\<lambda>vs. fold (shift_in 58 256) vs bs) (collect_options (map (\<lambda>c. position c base58_alphabet) cs))"
  by (induction cs arbitrary: bs) (auto simp: option.map_comp comp_def split: option.split)

lemma positions_alphabet: "map (\<lambda>c. position c base58_alphabet) cs = map Some vs \<longleftrightarrow>
    (\<forall>v \<in> set vs. v < 58) \<and> cs = map ((!) base58_alphabet) vs"
  by (induction vs arbitrary: cs) (auto simp: map_eq_Cons_conv position_alphabet)

lemma decode_digits_Some: "decode_digits cs bs = Some r \<longleftrightarrow>
    (\<exists>vs. (\<forall>v \<in> set vs. v < 58) \<and> cs = map ((!) base58_alphabet) vs \<and> r = fold (shift_in 58 256) vs bs)"
  by (auto simp: decode_digits_collect collect_options_Some positions_alphabet)

lemma numeral_rev: "numeral_in n (rev vs) \<longleftrightarrow> (\<forall>v \<in> set vs. v < n) \<and> (vs \<noteq> [] \<longrightarrow> hd vs \<noteq> 0)"
  by (auto simp: numeral_in_def last_rev)

text \<open>The zeros in front, and the rest.\<close>

lemma split_leading:
  obtains k rest where "xs = replicate k a @ rest" and "rest = [] \<or> hd rest \<noteq> a"
    and "length (takeWhile (\<lambda>x. x = a) xs) = k"
proof -
  have "takeWhile (\<lambda>x. x = a) xs = replicate (length (takeWhile (\<lambda>x. x = a) xs)) a"
    by (metis (mono_tags) replicate_length_same set_takeWhileD)
  then have "xs = replicate (length (takeWhile (\<lambda>x. x = a) xs)) a @ dropWhile (\<lambda>x. x = a) xs"
    by (metis takeWhile_dropWhile_id)
  with that hd_dropWhile [of "\<lambda>x. x = a" xs] show thesis by blast
qed

lemma length_leading: "rest = [] \<or> \<not> P (hd rest) \<Longrightarrow> P a \<Longrightarrow> length (takeWhile P (replicate k a @ rest)) = k"
  by (cases rest) (simp_all add: takeWhile_append)

lemma base58btc_eq:
  assumes "rest = [] \<or> byte (hd rest) \<noteq> 0"
  shows "base58btc (replicate k (char_of (0 :: nat)) @ rest) =
    replicate k CHR ''1'' @ map ((!) base58_alphabet) (rev (convert 256 58 (map byte rest)))"
proof -
  have "length (takeWhile (\<lambda>c. byte c = 0) (replicate k (char_of (0 :: nat)) @ rest)) = k"
    using assms by (intro length_leading) (auto simp: byte_def)
  then show ?thesis by (simp add: base58btc_def convert_def fold_map comp_def)
qed

lemma base58btc_decode_eq:
  assumes "\<forall>v \<in> set vs. v < 58" and "vs = [] \<or> hd vs \<noteq> 0"
  shows "base58btc_decode (replicate k CHR ''1'' @ map ((!) base58_alphabet) vs) =
    Some (replicate k (char_of (0 :: nat)) @ map char_of (rev (convert 58 256 vs)))"
proof -
  have "length (takeWhile (\<lambda>c. c = CHR ''1'') (replicate k CHR ''1'' @ map ((!) base58_alphabet) vs)) = k"
    using assms by (intro length_leading) (auto simp: hd_map alphabet_one)
  moreover have "decode_digits (map ((!) base58_alphabet) vs) [] = Some (convert 58 256 vs)"
    using assms(1) by (auto simp: decode_digits_Some convert_def)
  ultimately show ?thesis by (simp add: base58btc_decode_def)
qed

lemma char_of_byte [simp]: "char_of (byte c) = c"
  by (simp add: byte_def)

lemma map_char_of_byte: "map char_of (map byte cs) = cs"
  by (induction cs) simp_all

lemma base58btc_decode_encode: "base58btc_decode (base58btc bs) = Some bs"
proof -
  obtain k rest where bs: "bs = replicate k (char_of (0 :: nat)) @ rest" and rest: "rest = [] \<or> hd rest \<noteq> char_of (0 :: nat)"
    by (rule split_leading)
  have hd: "rest = [] \<or> byte (hd rest) \<noteq> 0" using rest by (metis char_of_byte)
  then have num: "numeral_in 256 (rev (map byte rest))" by (auto simp: numeral_rev hd_map)
  let ?vs = "rev (convert 256 58 (map byte rest))"
  have "numeral_in 58 (rev ?vs)" by (simp add: convert_numeral)
  then have "base58btc_decode (base58btc bs) = Some (replicate k (char_of (0 :: nat)) @ map char_of (rev (convert 58 256 ?vs)))"
    unfolding bs base58btc_eq [OF hd] numeral_rev by (intro base58btc_decode_eq) auto
  also have "convert 58 256 ?vs = rev (map byte rest)" using num by (intro convert_back) simp_all
  finally show ?thesis using map_char_of_byte by (simp add: bs)
qed

lemma base58btc_encode_decode:
  assumes "base58btc_decode s = Some bs"
  shows "s = base58btc bs"
proof -
  obtain k cs where s: "s = replicate k CHR ''1'' @ cs" and cs: "cs = [] \<or> hd cs \<noteq> CHR ''1''"
    and k: "length (takeWhile (\<lambda>c. c = CHR ''1'') s) = k" by (rule split_leading)
  from assms k obtain r where "decode_digits cs [] = Some r" by (auto simp: base58btc_decode_def s)
  then obtain vs where vs: "\<forall>v \<in> set vs. v < 58" "cs = map ((!) base58_alphabet) vs"
    by (auto simp: decode_digits_Some)
  then have hd: "vs = [] \<or> hd vs \<noteq> 0" using cs by (cases vs) (auto simp: alphabet(3) intro: gr0I)
  with vs have num: "numeral_in 58 (rev vs)" by (auto simp: numeral_rev)
  let ?bs = "rev (convert 58 256 vs)"
  have "numeral_in 256 (rev ?bs)" by (simp add: convert_numeral)
  then have small: "\<forall>v \<in> set ?bs. v < 256" "?bs = [] \<or> hd ?bs \<noteq> 0"
    unfolding numeral_rev by auto
  have bytes: "map byte (map char_of ?bs) = ?bs" using small(1) unfolding map_map by (intro map_idI) (simp del: map_map)
  have "?bs = [] \<or> byte (hd (map char_of ?bs)) \<noteq> 0"
    using small by (cases ?bs) auto
  then have "base58btc (replicate k (char_of (0 :: nat)) @ map char_of ?bs) =
      replicate k CHR ''1'' @ map ((!) base58_alphabet) (rev (convert 256 58 ?bs))"
    using base58btc_eq [of "map char_of ?bs" k] bytes by auto
  also have "convert 256 58 ?bs = rev vs" using num by (intro convert_back) simp_all
  finally show ?thesis using assms base58btc_decode_eq [OF vs(1) hd, of k] by (simp add: s vs(2))
qed

text \<open>
  C21: base58 is exact. A text decodes to some bytes if and only if it is what those bytes encode to;
  so every list of bytes comes back, leading zeros included, and no two texts name the same bytes.
\<close>

theorem base58btc_exact: "base58btc_decode s = Some bs \<longleftrightarrow> s = base58btc bs"
  using base58btc_decode_encode base58btc_encode_decode by blast

lemma did_key_exact: "did_key_verifying_key did = Some k \<longleftrightarrow> length k = 32 \<and> did = did_key k"
proof
  assume "did_key_verifying_key did = Some k"
  then obtain m r bs where "did = ''did:key:'' @ m" "m = ''z'' @ r" "base58btc_decode r = Some bs"
    "take 2 bs = ED25519_PUB_MULTICODEC" "drop 2 bs = k" "length k = 32"
    by (auto simp: did_key_verifying_key_def starts_with_iff Let_def split: if_splits option.splits)
  moreover from this have "bs = ED25519_PUB_MULTICODEC @ k" by (metis append_take_drop_id)
  ultimately show "length k = 32 \<and> did = did_key k" by (simp add: did_key_def base58btc_encode_decode)
next
  assume "length k = 32 \<and> did = did_key k"
  then show "did_key_verifying_key did = Some k"
    by (simp add: did_key_verifying_key_def did_key_def base58btc_decode_encode ED25519_PUB_MULTICODEC_def)
qed

lemma did_key_inj: "length j = 32 \<Longrightarrow> length k = 32 \<Longrightarrow> did_key j = did_key k \<Longrightarrow> j = k"
  by (metis did_key_exact option.inject)

end
