(* ===== verification/Peer_Relations.thy ===== *)
theory Peer_Relations
  imports Key_Names Text_Merge File_Catalog
begin

text \<open>
  \<open>relations.rs\<close> and \<open>predicates.rs\<close> of \<open>knot-editor\<close>: the relations that writers assert between
  passages, the vocabulary they use, and the predicates they define themselves. A serialized value
  is a text, a map, or something else; the codec beneath is not part of the repository.
\<close>

section \<open>The core vocabulary\<close>

definition KNOT_REL_VOCAB :: string where
  "KNOT_REL_VOCAB = ''https://mere.computer/ns/rel#''"

datatype core_predicate = Cites | Quotes | Supports | Contradicts | Questions | Elaborates | ExampleOf
  | Summarizes

definition all_core :: "core_predicate list" where
  "all_core = [Cites, Quotes, Supports, Contradicts, Questions, Elaborates, ExampleOf, Summarizes]"

fun core_slug :: "core_predicate \<Rightarrow> string" where
  "core_slug Cites = ''cites''"
| "core_slug Quotes = ''quotes''"
| "core_slug Supports = ''supports''"
| "core_slug Contradicts = ''contradicts''"
| "core_slug Questions = ''questions''"
| "core_slug Elaborates = ''elaborates''"
| "core_slug ExampleOf = ''example-of''"
| "core_slug Summarizes = ''summarizes''"

fun core_iri :: "core_predicate \<Rightarrow> string" where
  "core_iri Cites = KNOT_REL_VOCAB @ ''cites''"
| "core_iri Quotes = KNOT_REL_VOCAB @ ''quotes''"
| "core_iri Supports = KNOT_REL_VOCAB @ ''supports''"
| "core_iri Contradicts = KNOT_REL_VOCAB @ ''contradicts''"
| "core_iri Questions = KNOT_REL_VOCAB @ ''questions''"
| "core_iri Elaborates = KNOT_REL_VOCAB @ ''elaborates''"
| "core_iri ExampleOf = KNOT_REL_VOCAB @ ''example-of''"
| "core_iri Summarizes = KNOT_REL_VOCAB @ ''summarizes''"

definition core_sub_kind :: "core_predicate \<Rightarrow> string" where
  "core_sub_kind = core_slug"

fun core_label :: "core_predicate \<Rightarrow> string" where
  "core_label Cites = ''cites''"
| "core_label Quotes = ''quotes''"
| "core_label Supports = ''supports''"
| "core_label Contradicts = ''contradicts''"
| "core_label Questions = ''questions''"
| "core_label Elaborates = ''elaborates''"
| "core_label ExampleOf = ''example of''"
| "core_label Summarizes = ''summarizes''"

definition core_from_slug :: "string \<Rightarrow> core_predicate option" where
  "core_from_slug s = find (\<lambda>c. core_slug c = s) all_core"

definition core_from_iri :: "string \<Rightarrow> core_predicate option" where
  "core_from_iri s = find (\<lambda>c. core_iri c = s) all_core"

section \<open>References to predicates\<close>

datatype predicate_ref = Core core_predicate | Defined id32 | Unrecognized string

datatype wire_value = WireText string | WireMap "(string \<times> wire_value) list" | WireOther

definition serialize_ref :: "predicate_ref \<Rightarrow> wire_value" where
  "serialize_ref p = (case p of
     Core core \<Rightarrow> WireText (core_slug core)
   | Defined i \<Rightarrow> WireMap [(''defined'', WireText (hex32 i))]
   | Unrecognized l \<Rightarrow> WireText l)"

definition is_ascii_hexdigit :: "char \<Rightarrow> bool" where
  "is_ascii_hexdigit c \<longleftrightarrow> is_ascii_digit c \<or> 65 \<le> byte c \<and> byte c \<le> 70 \<or> 97 \<le> byte c \<and> byte c \<le> 102"

definition hex_value :: "char \<Rightarrow> nat" where
  "hex_value c = (if is_ascii_digit c then byte c - 48 else if is_ascii_upper c then byte c - 55 else byte c - 87)"

fun hex_pairs :: "string \<Rightarrow> string" where
  "hex_pairs (a # b # cs) = char_of (hex_value a * 16 + hex_value b) # hex_pairs cs"
| "hex_pairs _ = []"

definition parse_lowercase_hex32 :: "string \<Rightarrow> id32 option" where
  "parse_lowercase_hex32 v =
     (if length v \<noteq> 64 \<or> \<not> list_all is_ascii_hexdigit v then None
      else if list_ex is_ascii_upper v then None
      else Some (hex_pairs v))"

definition deserialize_text :: "string \<Rightarrow> predicate_ref" where
  "deserialize_text v = (case core_from_slug v of
     Some c \<Rightarrow> Core c
   | None \<Rightarrow> (case core_from_iri v of Some c \<Rightarrow> Core c | None \<Rightarrow> Unrecognized v))"

definition deserialize_ref :: "wire_value \<Rightarrow> string + predicate_ref" where
  "deserialize_ref w = (case w of
     WireText v \<Rightarrow> Inr (deserialize_text v)
   | WireMap [] \<Rightarrow> Inl ''empty relation predicate map''
   | WireMap ((key, v) # extra) \<Rightarrow>
       if key \<noteq> ''defined'' then Inl (''unknown relation predicate key '' @ [CHR 0x27] @ key @ [CHR 0x27])
       else (case v of
           WireText t \<Rightarrow> (case parse_lowercase_hex32 t of
               None \<Rightarrow> Inl ''defined predicate is not 64 lowercase hex characters''
             | Some i \<Rightarrow> if extra \<noteq> [] then Inl ''relation predicate map has extra keys'' else Inr (Defined i))
         | _ \<Rightarrow> Inl ''invalid type'')
   | WireOther \<Rightarrow> Inl ''invalid type'')"

section \<open>Captured passages\<close>

definition KNOT_RELATION_CONTEXT_CHARS :: nat where "KNOT_RELATION_CONTEXT_CHARS = 32"

definition KNOT_RELATION_CONTEXT_BYTES :: nat where
  "KNOT_RELATION_CONTEXT_BYTES = 4 * KNOT_RELATION_CONTEXT_CHARS"

definition capture_endpoint_context :: "string \<Rightarrow> nat \<Rightarrow> nat \<Rightarrow> string \<times> string" where
  "capture_endpoint_context source start stop =
     ((case str_get source 0 start of
         None \<Rightarrow> []
       | Some before \<Rightarrow> let skip = length (str_chars before) - KNOT_RELATION_CONTEXT_CHARS
           in concat (drop skip (str_chars before))),
      (case str_get source stop (length source) of
         None \<Rightarrow> []
       | Some after \<Rightarrow> concat (take KNOT_RELATION_CONTEXT_CHARS (str_chars after))))"

record relation_position =
  rp_start :: nat
  rp_end :: nat

record relation_endpoint =
  rn_document_id :: string
  rn_document_head :: id32
  rn_quote :: string
  rn_position :: "relation_position option"
  rn_prefix :: string
  rn_suffix :: string

record relation_retraction =
  rt_operation :: id32
  rt_author :: id32
  rt_withdrawn_at_ms :: "nat option"

record relation_assertion =
  ra_id :: id32
  ra_author :: id32
  ra_operation :: id32
  ra_scope :: id32
  ra_predicate :: predicate_ref
  ra_subject :: relation_endpoint
  ra_object :: relation_endpoint
  ra_evidence :: "string option"
  ra_qualification :: "string option"
  ra_retractions :: "relation_retraction list"
  ra_asserted_at_ms :: "nat option"

record unverified_relation =
  un_assertion :: relation_assertion
  un_reason :: string

record rejected_relation =
  rj_operation :: id32
  rj_author :: id32
  rj_reason :: string

definition validate_endpoint :: "relation_endpoint \<Rightarrow> string \<Rightarrow> string + unit" where
  "validate_endpoint e role =
     and_then (ensure_that (\<not> (rn_document_id e = [] \<or> str_trim (rn_document_id e) \<noteq> rn_document_id e \<or>
         NUL \<in> set (rn_document_id e)))
       (''relation '' @ role @ '' document id must be non-empty and trimmed'')) (\<lambda>_.
     and_then (for_each (\<lambda>(field, v). ensure_that (\<not> (NUL \<in> set v \<or> length v > KNOT_RELATION_CONTEXT_BYTES))
         (''relation '' @ role @ '' '' @ field @ '' must be NUL-free and at most '' @
           nat_str KNOT_RELATION_CONTEXT_BYTES @ '' bytes''))
       [(''prefix'', rn_prefix e), (''suffix'', rn_suffix e)]) (\<lambda>_.
     case (rn_quote e = [], rn_position e) of
       (True, None) \<Rightarrow> ensure_that (\<not> (rn_prefix e \<noteq> [] \<or> rn_suffix e \<noteq> []))
         (''relation '' @ role @ '' captures context without a quote and position'')
     | (no_quote, Some p) \<Rightarrow>
         if \<not> no_quote \<and> rp_start p \<le> rp_end p then Inr ()
         else if rp_start p > rp_end p then Inl (''relation '' @ role @ '' position ends before it starts'')
         else Inl (''relation '' @ role @ '' must capture both a quote and UTF-8 byte position, or neither'')
     | (False, None) \<Rightarrow>
         Inl (''relation '' @ role @ '' must capture both a quote and UTF-8 byte position, or neither'')))"

definition validate_relation_payload ::
  "predicate_ref \<Rightarrow> relation_endpoint \<Rightarrow> relation_endpoint \<Rightarrow> string + unit" where
  "validate_relation_payload p subject object = (case p of
     Unrecognized l \<Rightarrow> Inl (''relation predicate '' @ [CHR 0x27] @ l @ [CHR 0x27] @
       '' is neither a core predicate nor a defined predicate'')
   | _ \<Rightarrow> and_then (validate_endpoint subject ''subject'') (\<lambda>_. validate_endpoint object ''object''))"

section \<open>Predicates that writers define\<close>

definition KNOT_PREDICATE_IRI_PREFIX :: string where "KNOT_PREDICATE_IRI_PREFIX = ''urn:knot:rel:''"

definition MERE_SUB_KINDS :: "string list" where
  "MERE_SUB_KINDS = [''hyperlink'', ''user-grouped'', ''agent-derived'', ''cites'', ''quotes'', ''summarizes'',
     ''elaborates'', ''example-of'', ''supports'', ''contradicts'', ''questions'', ''same-entity-as'',
     ''duplicate-of'', ''canonical-mirror-of'', ''depends-on'', ''blocks'', ''next-step'']"

datatype predicate_replacement = Retired | ReplacedBy predicate_ref

record predicate_definition =
  pd_id :: id32
  pd_author :: id32
  pd_operation :: id32
  pd_scope :: id32
  pd_root :: id32
  pd_iri :: string
  pd_slug :: string
  pd_label :: string
  pd_description :: "string option"
  pd_subproperty_of :: "string option"
  pd_lowers_to :: "string option"
  pd_supersedes :: "id32 option"
  pd_replaced_by :: "predicate_replacement option"
  pd_asserted_at_ms :: "nat option"

record rejected_predicate =
  rx_operation :: id32
  rx_author :: id32
  rx_reason :: string

record predicate_catalog =
  pc_definitions :: "predicate_definition list"
  pc_rejected :: "rejected_predicate list"

definition catalog_definition :: "predicate_catalog \<Rightarrow> id32 \<Rightarrow> predicate_definition option" where
  "catalog_definition c i = find (\<lambda>d. pd_id d = i) (pc_definitions c)"

definition root_of :: "predicate_catalog \<Rightarrow> id32 \<Rightarrow> id32 option" where
  "root_of c i = map_option pd_root (catalog_definition c i)"

definition current_definition :: "predicate_catalog \<Rightarrow> id32 \<Rightarrow> predicate_definition option" where
  "current_definition c i =
     Option.bind (root_of c i) (\<lambda>r. find (\<lambda>d. pd_root d = r) (rev (pc_definitions c)))"

definition is_retired :: "predicate_catalog \<Rightarrow> id32 \<Rightarrow> bool" where
  "is_retired c i = (case root_of c i of None \<Rightarrow> False
     | Some r \<Rightarrow> list_ex (\<lambda>d. pd_root d = r \<and> pd_replaced_by d \<noteq> None) (pc_definitions c))"

definition label_of :: "predicate_catalog \<Rightarrow> predicate_ref \<Rightarrow> string option" where
  "label_of c p = (case p of
     Core core \<Rightarrow> Some (core_label core)
   | Defined i \<Rightarrow> map_option pd_label (current_definition c i)
   | Unrecognized _ \<Rightarrow> None)"

definition iri_of :: "predicate_catalog \<Rightarrow> predicate_ref \<Rightarrow> string option" where
  "iri_of c p = (case p of
     Core core \<Rightarrow> Some (core_iri core)
   | Defined i \<Rightarrow> map_option pd_iri (current_definition c i)
   | Unrecognized _ \<Rightarrow> None)"

definition lowers_to :: "predicate_catalog \<Rightarrow> predicate_ref \<Rightarrow> string option" where
  "lowers_to c p = (case p of
     Core core \<Rightarrow> Some (core_sub_kind core)
   | Defined i \<Rightarrow> Option.bind (current_definition c i) pd_lowers_to
   | Unrecognized _ \<Rightarrow> None)"

definition mint_predicate_iri :: "id32 \<Rightarrow> id32 \<Rightarrow> string" where
  "mint_predicate_iri author root =
     (let did = did_key author;
          multibase = (if starts_with did ''did:key:'' then drop 8 did else [])
      in KNOT_PREDICATE_IRI_PREFIX @ multibase @ '':'' @ hex32 root)"

definition is_ascii_alphabetic :: "char \<Rightarrow> bool" where
  "is_ascii_alphabetic c \<longleftrightarrow> is_ascii_upper c \<or> is_ascii_lower c"

definition is_absolute_iri :: "string \<Rightarrow> bool" where
  "is_absolute_iri v =
     (if NUL \<in> set v \<or> list_ex is_whitespace (code_points v) then False
      else let scheme = takeWhile (\<lambda>c. c \<noteq> CHR '':'') v; rest = drop (length scheme + 1) v
        in if CHR '':'' \<notin> set v then False
           else rest \<noteq> [] \<and> scheme \<noteq> [] \<and> is_ascii_alphabetic (hd scheme) \<and>
             list_all (\<lambda>c. is_ascii_alphanumeric c \<or> c \<in> set ''+-.'') scheme)"

definition validate_predicate_definition_payload ::
  "string \<Rightarrow> string \<Rightarrow> string option \<Rightarrow> string option \<Rightarrow> string option \<Rightarrow> string + unit" where
  "validate_predicate_definition_payload slug label description subproperty sub_kind =
     and_then (ensure_that (\<not> (slug = [] \<or> str_trim slug \<noteq> slug \<or>
         \<not> list_all (\<lambda>c. is_ascii_lower c \<or> is_ascii_digit c \<or> c = CHR ''-'') slug))
       (''predicate slug '' @ [CHR 0x27] @ slug @ [CHR 0x27] @ '' must be a non-empty trimmed [a-z0-9-] identifier'')) (\<lambda>_.
     and_then (ensure_that (core_from_slug slug = None)
       (''predicate slug '' @ [CHR 0x27] @ slug @ [CHR 0x27] @ '' is a core predicate'')) (\<lambda>_.
     and_then (ensure_that (\<not> (label = [] \<or> str_trim label \<noteq> label \<or> NUL \<in> set label))
       ''predicate label must be non-empty and trimmed'') (\<lambda>_.
     and_then (if_some (\<lambda>d. ensure_that (\<not> (d = [] \<or> str_trim d \<noteq> d \<or> NUL \<in> set d))
       ''predicate description must be non-empty and trimmed'') description) (\<lambda>_.
     and_then (if_some (\<lambda>s. ensure_that (is_absolute_iri s)
       (''predicate subproperty_of '' @ [CHR 0x27] @ s @ [CHR 0x27] @ '' is not an absolute IRI'')) subproperty) (\<lambda>_.
     if_some (\<lambda>l. ensure_that (l \<in> set MERE_SUB_KINDS)
       (''predicate lowers_to '' @ [CHR 0x27] @ l @ [CHR 0x27] @ '' is not a Mere sub-kind Knot knows'')) sub_kind)))))"

section \<open>The vocabulary is read back\<close>

lemma core_from_slug_slug [simp]: "core_from_slug (core_slug c) = Some c"
  by (cases c) (simp_all add: core_from_slug_def all_core_def)

lemma core_from_iri_iri [simp]: "core_from_iri (core_iri c) = Some c"
  by (cases c) (simp_all add: core_from_iri_def all_core_def KNOT_REL_VOCAB_def)

lemma core_from_slug_Some: "core_from_slug s = Some c \<longleftrightarrow> s = core_slug c"
  using find_Some_in [of "\<lambda>c. core_slug c = s" all_core c] core_from_slug_slug [of c]
  by (auto simp: core_from_slug_def)

lemma core_from_iri_Some: "core_from_iri s = Some c \<longleftrightarrow> s = core_iri c"
  using find_Some_in [of "\<lambda>c. core_iri c = s" all_core c] core_from_iri_iri [of c]
  by (auto simp: core_from_iri_def)

text \<open>No core predicate is spelled like the IRI of one.\<close>

lemma slug_not_iri: "core_from_slug (core_iri c) = None"
  by (cases c) (simp_all add: core_from_slug_def all_core_def KNOT_REL_VOCAB_def)

lemma byte_hex_digit:
  assumes "n < 16"
  shows "byte (hex_digit n) = (if n < 10 then 48 + n else 87 + n)"
proof -
  have "n \<in> set [0..<16]" using assms by simp
  then show ?thesis by (simp add: upt_rec) (elim disjE; simp add: hex_digit_def byte_def)
qed

lemma hex_digit_value:
  "n < 16 \<Longrightarrow> hex_value (hex_digit n) = n \<and> is_ascii_hexdigit (hex_digit n) \<and> \<not> is_ascii_upper (hex_digit n)"
  by (auto simp: hex_value_def is_ascii_hexdigit_def is_ascii_digit_def is_ascii_upper_def byte_hex_digit)

lemma hex_value_digit:
  assumes "is_ascii_hexdigit c" and "\<not> is_ascii_upper c"
  shows "hex_value c < 16 \<and> hex_digit (hex_value c) = c"
proof -
  have "48 \<le> byte c \<and> byte c \<le> 57 \<or> 97 \<le> byte c \<and> byte c \<le> 102"
    using assms by (auto simp: is_ascii_hexdigit_def is_ascii_digit_def is_ascii_upper_def)
  then have less: "hex_value c < 16" and "byte (hex_digit (hex_value c)) = byte c"
    by (auto simp: hex_value_def is_ascii_digit_def is_ascii_upper_def byte_hex_digit)
  then have "hex_digit (hex_value c) = c" by (metis char_of_byte)
  with less show ?thesis ..
qed

lemma hex32_Cons: "hex32 (c # cs) = hex_digit (byte c div 16) # hex_digit (byte c mod 16) # hex32 cs"
  by (simp add: hex32_def)

lemma byte_halves: "byte c div 16 < 16" "byte c mod 16 < 16"
  using byte_less [of c] by (simp_all add: less_mult_imp_div_less)

lemma length_hex32 [simp]: "length (hex32 k) = 2 * length k"
  by (induction k) (simp_all add: hex32_Cons, simp add: hex32_def)

lemma hex_pairs_hex32 [simp]: "hex_pairs (hex32 k) = k"
proof (induction k)
  case Nil
  then show ?case by (simp add: hex32_def)
next
  case (Cons c cs)
  then show ?case using byte_halves [of c] by (simp add: hex32_Cons hex_digit_value)
qed

lemma hex32_lower: "list_all (\<lambda>c. is_ascii_hexdigit c \<and> \<not> is_ascii_upper c) (hex32 k)"
  by (induction k) (simp_all add: hex32_Cons hex_digit_value byte_halves, simp add: hex32_def)

lemma hex32_hex_pairs:
  "even (length v) \<Longrightarrow> list_all (\<lambda>c. is_ascii_hexdigit c \<and> \<not> is_ascii_upper c) v \<Longrightarrow> hex32 (hex_pairs v) = v"
proof (induction v rule: hex_pairs.induct)
  case (1 a b cs)
  from 1(3) have a: "hex_value a < 16 \<and> hex_digit (hex_value a) = a" and b: "hex_value b < 16 \<and> hex_digit (hex_value b) = b"
    using hex_value_digit by auto
  then have "byte (char_of (hex_value a * 16 + hex_value b)) = hex_value a * 16 + hex_value b" by simp
  with 1 a b show ?case by (simp add: hex32_Cons)
qed (auto simp: hex32_def)

lemma parse_hex32_exact: "parse_lowercase_hex32 v = Some k \<longleftrightarrow> length k = 32 \<and> v = hex32 k"
proof
  assume parsed: "parse_lowercase_hex32 v = Some k"
  then have v: "length v = 64" "list_all (\<lambda>c. is_ascii_hexdigit c \<and> \<not> is_ascii_upper c) v" and k: "k = hex_pairs v"
    by (auto simp: parse_lowercase_hex32_def list_all_iff list_ex_iff split: if_splits)
  from v have "hex32 k = v" unfolding k by (intro hex32_hex_pairs) simp_all
  with v(1) show "length k = 32 \<and> v = hex32 k" using length_hex32 [of k] by auto
next
  assume "length k = 32 \<and> v = hex32 k"
  then show "parse_lowercase_hex32 v = Some k"
    using hex32_lower [of k] by (auto simp: parse_lowercase_hex32_def list_all_iff list_ex_iff)
qed

text \<open>The references that a writer can have: an identity has 32 bytes, and an unknown label is unknown.\<close>

definition wf_ref :: "predicate_ref \<Rightarrow> bool" where
  "wf_ref p = (case p of Core _ \<Rightarrow> True | Defined i \<Rightarrow> length i = 32
     | Unrecognized l \<Rightarrow> core_from_slug l = None \<and> core_from_iri l = None)"

lemma ref_read_back_iff: "deserialize_ref (serialize_ref p) = Inr p \<longleftrightarrow> wf_ref p"
proof (cases p)
  case (Defined i)
  then show ?thesis
    using parse_hex32_exact [of "hex32 i" i]
    by (auto simp: serialize_ref_def deserialize_ref_def wf_ref_def split: option.splits)
qed (auto simp: serialize_ref_def deserialize_ref_def deserialize_text_def wf_ref_def split: option.splits)

lemma deserialized_wf: "deserialize_ref w = Inr p \<Longrightarrow> wf_ref p"
  by (auto simp: deserialize_ref_def deserialize_text_def wf_ref_def parse_hex32_exact
      split: wire_value.splits list.splits option.splits if_splits)

section \<open>What a capture keeps\<close>

lemma length_group: "g \<in> set (str_chars s) \<Longrightarrow> length g \<le> 4"
proof (induction s rule: str_chars.induct)
  case (2 c cs)
  have "utf8_width c \<le> 4" by (simp add: utf8_width_def)
  with 2 show ?case by auto
qed simp

lemma length_concat_le: "(\<And>g. g \<in> set gs \<Longrightarrow> length g \<le> n) \<Longrightarrow> length (concat gs) \<le> n * length gs"
proof (induction gs)
  case (Cons g gs)
  from Cons.IH Cons.prems have "length (concat gs) \<le> n * length gs" by simp
  moreover have "length g \<le> n" using Cons.prems by simp
  ultimately show ?case by simp
qed simp

lemma concat_take_drop: "concat (take k gs) @ concat (drop k gs) = concat gs"
  by (metis append_take_drop_id concat_append)

text \<open>The context of a range is within its limit and stands next to the range.\<close>

lemma capture_context_adjacent:
  assumes "is_char_boundary s a" and "is_char_boundary s b" and "capture_endpoint_context s a b = (pre, suf)"
  shows "length pre \<le> KNOT_RELATION_CONTEXT_BYTES \<and> length suf \<le> KNOT_RELATION_CONTEXT_BYTES \<and>
    ends_with (take a s) pre \<and> starts_with (drop b s) suf \<and> set pre \<subseteq> set s \<and> set suf \<subseteq> set s"
proof -
  have ab: "a \<le> length s" "b \<le> length s" using assms(1,2) is_char_boundary_le by auto
  let ?before = "str_chars (take a s)" and ?after = "str_chars (drop b s)"
  let ?k = "length ?before - KNOT_RELATION_CONTEXT_CHARS"
  have pre: "pre = concat (drop ?k ?before)" and suf: "suf = concat (take KNOT_RELATION_CONTEXT_CHARS ?after)"
    using assms ab by (auto simp: capture_endpoint_context_def str_get_def Let_def)
  have "length pre \<le> 4 * length (drop ?k ?before)"
    unfolding pre by (rule length_concat_le) (auto dest: in_set_dropD length_group)
  moreover have "length suf \<le> 4 * length (take KNOT_RELATION_CONTEXT_CHARS ?after)"
    unfolding suf by (rule length_concat_le) (auto dest: in_set_takeD length_group)
  moreover have split_before: "concat (take ?k ?before) @ pre = take a s"
    unfolding pre by (simp only: concat_take_drop concat_str_chars)
  moreover have split_after: "suf @ concat (drop KNOT_RELATION_CONTEXT_CHARS ?after) = drop b s"
    unfolding suf by (simp only: concat_take_drop concat_str_chars)
  moreover have "set pre \<subseteq> set (take a s)" "set suf \<subseteq> set (drop b s)"
    by (metis split_before set_append Un_upper2) (metis split_after set_append Un_upper1)
  ultimately show ?thesis
    by (auto simp: KNOT_RELATION_CONTEXT_BYTES_def ends_with_def starts_with_iff dest: in_set_takeD in_set_dropD)
      (metis rev_append)+
qed

end
