(* ===== verification/Peer_Documents.thy ===== *)
theory Peer_Documents
  imports Peer_Relations Ordered_Map
begin

text \<open>
  The document part of a projection (\<open>projection_with_cipher_and_strictness\<close> in \<open>sync.rs\<close>): the
  causally closed events are folded into the live versions of every document. Which operation
  happened before which is the question \<open>before\<close> of the causal index, which belongs to another
  package. What a replica shows is independent of the order in which it folds.
\<close>

section \<open>Events\<close>

record predicate_proposal =
  pp_slug :: string
  pp_label :: string
  pp_description :: "string option"
  pp_subproperty_of :: "string option"
  pp_lowers_to :: "string option"
  pp_supersedes :: "id32 option"
  pp_replaced_by :: "predicate_replacement option"

datatype sync_event =
    Put vault_document
  | CaptureFileRevision file_revision
  | Delete string
  | Resolve string "id32 list" "vault_document option"
  | AssertRelation predicate_ref relation_endpoint relation_endpoint "string option" "string option"
  | RetractRelation id32
  | DefinePredicate predicate_proposal
  | RetainCompositionV1 string
  | OrganizeCompositionV1 id32 string id32 string

datatype sync_error = StoreError string | ProcessError string | CausalError string | GroupCryptoError string
  | PayloadError string | WrongEncryptionProfile | InvalidResolution string | InvalidRelation string
  | InvalidPredicate string | InvalidFileRevision string | MissingCheckpoint | CheckpointMigrationRequired
  | CheckpointStorage string | CheckpointReplacementDurability string | StaleRetentionProposal
  | BlockedRetentionProposal | ConcurrentWriter string

definition max_parents :: nat where "max_parents = 64"

text \<open>A decoded event with the writer and the hash of the operation that carried it.\<close>

type_synonym authored = "id32 \<times> id32 \<times> sync_event"

type_synonym versions = "(id32, id32 document_version) ordered_map"

section \<open>The fold\<close>

record document_fold =
  df_current :: "(string, versions) ordered_map"
  df_event_documents :: "id32 \<rightharpoonup> string"
  df_history :: "(id32 \<times> string \<times> vault_document option) list"

definition no_documents :: document_fold where
  "no_documents = \<lparr>df_current = [], df_event_documents = Map.empty, df_history = []\<rparr>"

definition validate_resolution :: "(id32 \<Rightarrow> id32 \<Rightarrow> bool) \<Rightarrow> (id32 \<rightharpoonup> string) \<Rightarrow> id32 \<Rightarrow> string \<Rightarrow> id32 list \<Rightarrow>
    vault_document option \<Rightarrow> sync_error + id32 set" where
  "validate_resolution before event_documents resolution i supersedes document =
     and_then (ensure_that (supersedes \<noteq> []) (InvalidResolution ''resolution names no document versions'')) (\<lambda>_.
     and_then (ensure_that (\<not> length supersedes > max_parents)
       (InvalidResolution (''resolution names '' @ nat_str (length supersedes) @ '' versions; maximum is '' @ nat_str max_parents))) (\<lambda>_.
     and_then (ensure_that (case document of None \<Rightarrow> True | Some d \<Rightarrow> vd_id d = i)
       (InvalidResolution ''chosen document id does not match the resolution'')) (\<lambda>_.
     and_then (ensure_that (distinct supersedes) (InvalidResolution ''resolution repeats a document version'')) (\<lambda>_.
     and_then (for_each (\<lambda>target. case event_documents target of
           None \<Rightarrow> Inl (InvalidResolution ''resolution names an unavailable document version'')
         | Some target_id \<Rightarrow>
             if target_id \<noteq> i then Inl (InvalidResolution ''resolution names a version of another document'')
             else if \<not> before target resolution
             then Inl (InvalidResolution ''resolution names a version outside its causal history'')
             else Inr ()) (sort supersedes)) (\<lambda>_.
     Inr (set supersedes))))))"

text \<open>\<open>versions.retain\<close> for the document \<open>i\<close>, and the new version of \<open>writer\<close>.\<close>

definition drop_versions :: "string \<Rightarrow> (id32 document_version \<Rightarrow> bool) \<Rightarrow> (string, versions) ordered_map \<Rightarrow>
    (string, versions) ordered_map" where
  "drop_versions i gone current =
     map (\<lambda>(j, vs). if j = i then (j, filter (\<lambda>(_, v). \<not> gone v) vs) else (j, vs)) current"

definition place_version :: "id32 \<Rightarrow> id32 \<Rightarrow> string \<Rightarrow> vault_document option \<Rightarrow> (id32 document_version \<Rightarrow> bool) \<Rightarrow>
    document_fold \<Rightarrow> document_fold" where
  "place_version writer operation i document gone st =
     (let current = drop_versions i gone (df_current st);
          versions = (case map_of current i of None \<Rightarrow> [] | Some vs \<Rightarrow> vs);
          v = \<lparr>dv_writer = writer, dv_operation = operation, dv_document = document\<rparr>
      in \<lparr>df_current = om_put i (om_put writer v versions) current,
          df_event_documents = (df_event_documents st)(operation \<mapsto> i),
          df_history = df_history st @ [(operation, i, document)]\<rparr>)"

fun fold_document :: "(id32 \<Rightarrow> id32 \<Rightarrow> bool) \<Rightarrow> authored \<Rightarrow> document_fold \<Rightarrow> sync_error + document_fold" where
  "fold_document before (writer, operation, event) st = (case event of
     Put d \<Rightarrow> Inr (place_version writer operation (vd_id d) (Some d) (\<lambda>v. before (dv_operation v) operation) st)
   | Delete i \<Rightarrow> Inr (place_version writer operation i None (\<lambda>v. before (dv_operation v) operation) st)
   | Resolve i supersedes d \<Rightarrow>
       and_then (validate_resolution before (df_event_documents st) operation i supersedes d) (\<lambda>targets.
         Inr (place_version writer operation i d (\<lambda>v. dv_operation v \<in> targets) st))
   | _ \<Rightarrow> Inr st)"

fun fold_documents :: "(id32 \<Rightarrow> id32 \<Rightarrow> bool) \<Rightarrow> authored list \<Rightarrow> document_fold \<Rightarrow> sync_error + document_fold" where
  "fold_documents before [] st = Inr st"
| "fold_documents before (x # xs) st = and_then (fold_document before x st) (fold_documents before xs)"

section \<open>What a replica has\<close>

text \<open>The document and the value that an event gives it.\<close>

fun writes_to :: "sync_event \<Rightarrow> (string \<times> vault_document option) option" where
  "writes_to (Put d) = Some (vd_id d, Some d)"
| "writes_to (Delete i) = Some (i, None)"
| "writes_to (Resolve i _ d) = Some (i, d)"
| "writes_to _ = None"

text \<open>Whether an event of the same document, by the writer \<open>w'\<close>, takes the place of an operation it knows.\<close>

fun replaces :: "id32 \<Rightarrow> sync_event \<Rightarrow> id32 \<Rightarrow> id32 \<Rightarrow> bool" where
  "replaces w' (Resolve _ supersedes _) w operation \<longleftrightarrow> w = w' \<or> operation \<in> set supersedes"
| "replaces w' e w operation \<longleftrightarrow> True"

definition superseded :: "(id32 \<Rightarrow> id32 \<Rightarrow> bool) \<Rightarrow> authored set \<Rightarrow> string \<Rightarrow> id32 \<Rightarrow> id32 \<Rightarrow> bool" where
  "superseded before L i w operation \<longleftrightarrow> (\<exists>w' o' e d. (w', o', e) \<in> L \<and> writes_to e = Some (i, d) \<and>
     before operation o' \<and> replaces w' e w operation)"

text \<open>
  A version is live when nothing that has seen it takes its place. A resolution is well founded when
  it names distinct operations on its own document that it has seen.
\<close>

definition live :: "(id32 \<Rightarrow> id32 \<Rightarrow> bool) \<Rightarrow> authored set \<Rightarrow> string \<Rightarrow> id32 \<Rightarrow> id32 document_version \<Rightarrow> bool" where
  "live before L i w v \<longleftrightarrow> dv_writer v = w \<and> (\<exists>e. (w, dv_operation v, e) \<in> L \<and> writes_to e = Some (i, dv_document v)) \<and>
     \<not> superseded before L i w (dv_operation v)"

definition resolution_ok :: "(id32 \<Rightarrow> id32 \<Rightarrow> bool) \<Rightarrow> authored set \<Rightarrow> id32 \<Rightarrow> string \<Rightarrow> id32 list \<Rightarrow> vault_document option \<Rightarrow> bool" where
  "resolution_ok before L operation i supersedes d \<longleftrightarrow> supersedes \<noteq> [] \<and> length supersedes \<le> max_parents \<and>
     (\<forall>x. d = Some x \<longrightarrow> vd_id x = i) \<and> distinct supersedes \<and>
     (\<forall>t \<in> set supersedes. before t operation \<and> (\<exists>w e d'. (w, t, e) \<in> L \<and> writes_to e = Some (i, d')))"

text \<open>
  What the causal index promises of an order: an operation comes once and after everything before it,
  and the operations of one writer, each of which observed the last one, are before one another.
\<close>

definition causal_list :: "(id32 \<Rightarrow> id32 \<Rightarrow> bool) \<Rightarrow> authored list \<Rightarrow> bool" where
  "causal_list before xs \<longleftrightarrow> (\<forall>(w, o', e) \<in> set xs. \<not> before o' o') \<and>
     sorted_wrt (\<lambda>(w, a, _) (w', b, _). a \<noteq> b \<and> \<not> before b a \<and> (w = w' \<longrightarrow> before a b)) xs"

definition versions_of :: "document_fold \<Rightarrow> string \<Rightarrow> versions" where
  "versions_of st i = (case map_of (df_current st) i of None \<Rightarrow> [] | Some vs \<Rightarrow> vs)"

section \<open>The fold keeps the live versions\<close>

lemma causal_list_snoc: "causal_list before (xs @ [(w, o', e)]) \<longleftrightarrow> causal_list before xs \<and> \<not> before o' o' \<and>
    (\<forall>(w2, o2, e2) \<in> set xs. o2 \<noteq> o' \<and> \<not> before o' o2 \<and> (w2 = w \<longrightarrow> before o2 o'))"
  by (auto simp: causal_list_def sorted_wrt_append split: prod.splits)

lemma fold_documents_snoc: "fold_documents before (xs @ [x]) st =
    and_then (fold_documents before xs st) (fold_document before x)"
  by (induction xs arbitrary: st) (auto simp: and_then_def split: sum.splits)

lemma map_of_drop_versions: "map_of (drop_versions i gone current) j =
    (if j = i then map_option (filter (\<lambda>(_, v). \<not> gone v)) (map_of current i) else map_of current j)"
  by (induction current) (auto simp: drop_versions_def)

lemma om_ok_drop_versions: "om_ok (drop_versions i gone current) = om_ok current"
  by (simp add: om_ok_def drop_versions_def comp_def case_prod_unfold if_distrib [of fst] cong: if_cong)

lemma om_ok_filter: "om_ok m \<Longrightarrow> om_ok (filter P m)"
  by (induction m) (auto simp: om_ok_def)

lemma map_of_filter_value:
  "distinct (map fst m) \<Longrightarrow> map_of (filter (\<lambda>(_, v). P v) m) k = (case map_of m k of None \<Rightarrow> None | Some v \<Rightarrow> if P v then Some v else None)"
  by (induction m) (auto simp: map_of_eq_None_iff split: option.split)

definition fold_ok :: "document_fold \<Rightarrow> bool" where
  "fold_ok st \<longleftrightarrow> om_ok (df_current st) \<and> (\<forall>i. om_ok (versions_of st i))"

lemma versions_of_place:
  assumes "fold_ok st"
  shows "versions_of (place_version w o' i d gone st) j =
    (if j = i then om_put w \<lparr>dv_writer = w, dv_operation = o', dv_document = d\<rparr> (filter (\<lambda>(_, v). \<not> gone v) (versions_of st i))
     else versions_of st j)"
  using assms
  by (auto simp: versions_of_def place_version_def Let_def map_of_om_put map_of_drop_versions split: option.split)

lemma fold_ok_place: "fold_ok st \<Longrightarrow> fold_ok (place_version w o' i d gone st)"
  unfolding fold_ok_def
  by (auto simp: versions_of_place fold_ok_def om_ok_put om_ok_filter)
    (auto simp: place_version_def Let_def om_ok_put om_ok_drop_versions)

lemma lookup_place:
  assumes "fold_ok st"
  shows "map_of (versions_of (place_version w o' i d gone st) j) w2 =
    (if j = i then if w2 = w then Some \<lparr>dv_writer = w, dv_operation = o', dv_document = d\<rparr>
       else case map_of (versions_of st i) w2 of None \<Rightarrow> None | Some v \<Rightarrow> if gone v then None else Some v
     else map_of (versions_of st j) w2)"
  using assms om_distinct [of "versions_of st i"]
  by (auto simp: versions_of_place map_of_om_put map_of_filter_value fold_ok_def split: option.split)

text \<open>What one more event changes about the live versions.\<close>

lemma live_other:
  assumes "writes_to e = None \<or> (\<exists>i d. writes_to e = Some (i, d) \<and> i \<noteq> j)"
  shows "live before (insert (w, o', e) S) j w2 v = live before S j w2 v"
proof -
  have "superseded before (insert (w, o', e) S) j w2 a = superseded before S j w2 a" for a
    using assms by (auto simp: superseded_def)
  with assms show ?thesis by (auto simp: live_def)
qed

lemma live_insert:
  assumes new: "\<forall>(w2, o2, e2) \<in> S. o2 \<noteq> o' \<and> \<not> before o' o2 \<and> (w2 = w \<longrightarrow> before o2 o')" "\<not> before o' o'"
    and e: "writes_to e = Some (i, d)"
  shows "live before (insert (w, o', e) S) i w2 v \<longleftrightarrow>
    (if w2 = w then v = \<lparr>dv_writer = w, dv_operation = o', dv_document = d\<rparr>
     else live before S i w2 v \<and> \<not> (before (dv_operation v) o' \<and> replaces w e w2 (dv_operation v)))"
proof -
  have sup: "superseded before (insert (w, o', e) S) i w3 a \<longleftrightarrow>
      superseded before S i w3 a \<or> before a o' \<and> replaces w e w3 a" for a w3
    using e by (auto simp: superseded_def)
  show ?thesis
  proof (cases "w2 = w")
    case False
    then show ?thesis by (auto simp: live_def sup)
  next
    case True
    have "replaces w e w a" for a by (cases e) auto
    then have l: "live before (insert (w, o', e) S) i w v \<longleftrightarrow> dv_writer v = w \<and>
        (\<exists>e2. (w, dv_operation v, e2) \<in> insert (w, o', e) S \<and> writes_to e2 = Some (i, dv_document v)) \<and>
        \<not> superseded before S i w (dv_operation v) \<and> \<not> before (dv_operation v) o'"
      by (simp add: live_def sup)
    have old: "before a o'" if "(w, a, e2) \<in> S" for a e2 using new(1) that by auto
    have fresh: "\<not> superseded before S i w o'" using new(1) by (auto simp: superseded_def)
    show ?thesis unfolding True l
    proof (intro iffI)
      assume "dv_writer v = w \<and> (\<exists>e2. (w, dv_operation v, e2) \<in> insert (w, o', e) S \<and> writes_to e2 = Some (i, dv_document v)) \<and>
        \<not> superseded before S i w (dv_operation v) \<and> \<not> before (dv_operation v) o'"
      with old e show "if w = w then v = \<lparr>dv_writer = w, dv_operation = o', dv_document = d\<rparr> else live before S i w v \<and>
          \<not> (before (dv_operation v) o' \<and> replaces w e w (dv_operation v))"
        by (cases v) auto
    qed (use fresh new(2) e in auto)
  qed
qed

lemma fold_document_None: "writes_to e = None \<Longrightarrow> fold_document before (w, o', e) st = Inr st"
  by (cases e) auto

text \<open>The code of a resolution checks that it is well founded.\<close>

lemma validate_resolution_Inr: "validate_resolution before known r i sups d = Inr T \<longleftrightarrow> T = set sups \<and>
    sups \<noteq> [] \<and> length sups \<le> max_parents \<and> (\<forall>x. d = Some x \<longrightarrow> vd_id x = i) \<and> distinct sups \<and>
    (\<forall>t \<in> set sups. known t = Some i \<and> before t r)"
proof -
  have "(case known t of None \<Rightarrow> Inl x | Some j \<Rightarrow> if j \<noteq> i then Inl y else if \<not> before t r then Inl z else Inr ()) = Inr () \<longleftrightarrow>
      known t = Some i \<and> before t r" for t and x y z :: sync_error
    by (auto split: option.splits)
  then show ?thesis by (auto simp: validate_resolution_def ok_iff not_less split: option.splits)
qed

fun event_ok :: "(id32 \<Rightarrow> id32 \<Rightarrow> bool) \<Rightarrow> authored set \<Rightarrow> id32 \<Rightarrow> sync_event \<Rightarrow> bool" where
  "event_ok before L operation (Resolve i supersedes d) = resolution_ok before L operation i supersedes d"
| "event_ok before L operation _ = True"

definition known_ok :: "document_fold \<Rightarrow> authored set \<Rightarrow> bool" where
  "known_ok st L \<longleftrightarrow> (\<forall>a i. df_event_documents st a = Some i \<longleftrightarrow>
     (\<exists>w e d. (w, a, e) \<in> L \<and> writes_to e = Some (i, d)))"

text \<open>The versions that an event drops, beside the one of its writer.\<close>

fun gone_by :: "(id32 \<Rightarrow> id32 \<Rightarrow> bool) \<Rightarrow> id32 \<Rightarrow> sync_event \<Rightarrow> id32 document_version \<Rightarrow> bool" where
  "gone_by before operation (Resolve _ supersedes _) v \<longleftrightarrow> dv_operation v \<in> set supersedes"
| "gone_by before operation _ v \<longleftrightarrow> before (dv_operation v) operation"

lemma gone_by_replaces: "event_ok before S o' e \<Longrightarrow> w2 \<noteq> w \<Longrightarrow>
    gone_by before o' e v \<longleftrightarrow> before (dv_operation v) o' \<and> replaces w e w2 (dv_operation v)"
  by (cases e) (auto simp: resolution_ok_def)

lemma fold_document_Inr:
  assumes "known_ok st S" and "writes_to e = Some (i, d)"
  shows "fold_document before (w, o', e) st = Inr st' \<longleftrightarrow>
    event_ok before S o' e \<and> st' = place_version w o' i d (gone_by before o' e) st"
proof (cases e)
  case (Resolve j sups d')
  have "validate_resolution before (df_event_documents st) o' i sups d = Inr T \<longleftrightarrow>
      T = set sups \<and> resolution_ok before S o' i sups d" for T
    using assms(1) by (auto simp: validate_resolution_Inr resolution_ok_def known_ok_def)
  moreover have "gone_by before o' e = (\<lambda>v. dv_operation v \<in> set sups)" using Resolve by (simp add: fun_eq_iff)
  ultimately show ?thesis using Resolve assms(2) by (auto simp: ok_iff)
next
  case (Put x)
  then have "gone_by before o' e = (\<lambda>v. before (dv_operation v) o')" by (simp add: fun_eq_iff)
  with Put assms(2) show ?thesis by auto
next
  case (Delete x)
  then have "gone_by before o' e = (\<lambda>v. before (dv_operation v) o')" by (simp add: fun_eq_iff)
  with Delete assms(2) show ?thesis by auto
qed (use assms in auto)

text \<open>The state that a fold over the events of \<open>L\<close> has reached.\<close>

definition folded :: "(id32 \<Rightarrow> id32 \<Rightarrow> bool) \<Rightarrow> authored set \<Rightarrow> document_fold \<Rightarrow> bool" where
  "folded before L st \<longleftrightarrow> fold_ok st \<and> known_ok st L \<and>
     (\<forall>i w v. map_of (versions_of st i) w = Some v \<longleftrightarrow> live before L i w v) \<and>
     (\<forall>i. map_of (df_current st) i \<noteq> None \<longleftrightarrow> (\<exists>w a e d. (w, a, e) \<in> L \<and> writes_to e = Some (i, d)))"

lemma folded_nothing: "folded before {} no_documents"
  by (auto simp: folded_def fold_ok_def known_ok_def no_documents_def versions_of_def live_def om_ok_def)

lemma folded_step:
  assumes st: "folded before S st"
    and new: "\<forall>(w2, o2, e2) \<in> S. o2 \<noteq> o' \<and> \<not> before o' o2 \<and> (w2 = w \<longrightarrow> before o2 o')" "\<not> before o' o'"
    and run: "fold_document before (w, o', e) st = Inr st'"
  shows "folded before (insert (w, o', e) S) st'"
proof (cases "writes_to e")
  case None
  with run have "st' = st" by (simp add: fold_document_None del: fold_document.simps)
  moreover have "(\<exists>w2 e2 d. (w2, a, e2) \<in> insert (w, o', e) S \<and> writes_to e2 = Some (i, d)) \<longleftrightarrow>
      (\<exists>w2 e2 d. (w2, a, e2) \<in> S \<and> writes_to e2 = Some (i, d))" for a i
    using None by auto
  then have "known_ok st (insert (w, o', e) S) = known_ok st S"
    by (simp add: known_ok_def del: insert_iff)
  ultimately show ?thesis using st live_other [of e] None by (auto simp: folded_def)
next
  case (Some x)
  obtain i d where x: "x = (i, d)" by force
  from st have known: "known_ok st S" and ok: "fold_ok st" by (simp_all add: folded_def)
  from run fold_document_Inr [OF known] Some x have e: "event_ok before S o' e"
    and st': "st' = place_version w o' i d (gone_by before o' e) st" by auto
  have "known_ok st' (insert (w, o', e) S)"
    using known new(1) Some x by (fastforce simp: known_ok_def st' place_version_def Let_def)
  moreover have "map_of (versions_of st' j) w2 = Some v \<longleftrightarrow> live before (insert (w, o', e) S) j w2 v" for j w2 v
  proof (cases "j = i")
    case False
    then show ?thesis using st live_other [of e j before w o' S w2 v] Some x
      by (auto simp: st' lookup_place [OF ok] folded_def)
  next
    case True
    have old: "live before S i w2 u \<longleftrightarrow> map_of (versions_of st i) w2 = Some u" for u
      using st by (simp add: folded_def)
    show ?thesis
      unfolding True live_insert [OF new, of e i d w2 v, OF Some [unfolded x]] old st' lookup_place [OF ok]
      using gone_by_replaces [OF e, of w2 w] by (auto split: option.split)
  qed
  moreover have "map_of (df_current st') j \<noteq> None \<longleftrightarrow>
      (\<exists>w2 a e2 d2. (w2, a, e2) \<in> insert (w, o', e) S \<and> writes_to e2 = Some (j, d2))" for j
    using st Some x
    by (auto simp: st' place_version_def Let_def map_of_om_put map_of_drop_versions folded_def)
  ultimately show ?thesis using fold_ok_place [OF ok] by (simp add: folded_def st')
qed

lemma fold_documents_folded:
  "causal_list before L \<Longrightarrow> fold_documents before L no_documents = Inr st \<Longrightarrow> folded before (set L) st"
proof (induction L arbitrary: st rule: rev_induct)
  case Nil
  then show ?case by (simp add: folded_nothing)
next
  case (snoc x xs)
  obtain w o' e where x: "x = (w, o', e)" by (cases x)
  from snoc.prems x obtain st1 where "fold_documents before xs no_documents = Inr st1"
    and "fold_document before (w, o', e) st1 = Inr st"
    by (auto simp: fold_documents_snoc ok_iff)
  with snoc x folded_step [of before "set xs" st1 o' w e st] show ?case
    by (simp add: causal_list_snoc)
qed

text \<open>A fold returns when every resolution is well founded among all the events; those after it do not matter.\<close>

definition resolutions_ok :: "(id32 \<Rightarrow> id32 \<Rightarrow> bool) \<Rightarrow> authored set \<Rightarrow> bool" where
  "resolutions_ok before L \<longleftrightarrow> (\<forall>(w, a, e) \<in> L. event_ok before L a e)"

lemma event_ok_later:
  assumes "\<not> before o' a"
  shows "event_ok before (insert (w, o', e) S) a e2 = event_ok before S a e2"
proof (cases e2)
  case (Resolve i sups d)
  have "before t a \<and> (\<exists>w2 e3 d'. (w2, t, e3) \<in> insert (w, o', e) S \<and> writes_to e3 = Some (i, d')) \<longleftrightarrow>
      before t a \<and> (\<exists>w2 e3 d'. (w2, t, e3) \<in> S \<and> writes_to e3 = Some (i, d'))" for t
    using assms by auto
  with Resolve show ?thesis by (simp add: resolution_ok_def del: insert_iff)
qed simp_all

lemma fold_documents_returns:
  "causal_list before L \<Longrightarrow> (\<exists>st. fold_documents before L no_documents = Inr st) \<longleftrightarrow> resolutions_ok before (set L)"
proof (induction L rule: rev_induct)
  case Nil
  then show ?case by (simp add: resolutions_ok_def)
next
  case (snoc x xs)
  obtain w o' e where x: "x = (w, o', e)" by (cases x)
  from snoc.prems x have causal: "causal_list before xs" and new: "\<not> before o' o'"
    "\<forall>(w2, o2, e2) \<in> set xs. o2 \<noteq> o' \<and> \<not> before o' o2 \<and> (w2 = w \<longrightarrow> before o2 o')"
    by (auto simp: causal_list_snoc)
  have "resolutions_ok before (set (xs @ [x])) \<longleftrightarrow> resolutions_ok before (set xs) \<and> event_ok before (set xs) o' e"
    using new event_ok_later [of before o' _ w e "set xs"] by (fastforce simp: resolutions_ok_def x)
  moreover have "(\<exists>st'. fold_document before (w, o', e) st = Inr st') \<longleftrightarrow> event_ok before (set xs) o' e"
    if "fold_documents before xs no_documents = Inr st" for st
  proof (cases "writes_to e")
    case None
    then show ?thesis by (cases e) auto
  next
    case (Some p)
    obtain i d where "p = (i, d)" by force
    with Some fold_documents_folded [OF causal that] fold_document_Inr [of st "set xs" e i d before w o'] show ?thesis
      by (simp add: folded_def del: fold_document.simps)
  qed
  ultimately show ?case using snoc.IH [OF causal] by (auto simp: fold_documents_snoc ok_iff x simp del: fold_document.simps)
qed

definition live_versions :: "(id32 \<Rightarrow> id32 \<Rightarrow> bool) \<Rightarrow> authored list \<Rightarrow> (string, versions) ordered_map option" where
  "live_versions before L = (case fold_documents before L no_documents of
     Inl _ \<Rightarrow> None | Inr st \<Rightarrow> Some (df_current st))"

lemma folded_current_unique:
  assumes "folded before S st" and "folded before S st'"
  shows "df_current st = df_current st'"
proof (rule om_same)
  show "om_ok (df_current st)" "om_ok (df_current st')" using assms by (simp_all add: folded_def fold_ok_def)
  have "map_of (versions_of st i) w = Some v \<longleftrightarrow> map_of (versions_of st' i) w = Some v" for i w v
    using assms by (simp add: folded_def)
  then have "map_of (versions_of st i) w = map_of (versions_of st' i) w" for i w
    by (metis not_None_eq)
  then have "versions_of st i = versions_of st' i" for i
    using assms by (intro om_same) (auto simp: folded_def fold_ok_def)
  moreover have "map_of (df_current st) i = None \<longleftrightarrow> map_of (df_current st') i = None" for i
    using assms unfolding folded_def by metis
  ultimately show "map_of (df_current st) = map_of (df_current st')"
    unfolding versions_of_def fun_eq_iff by (metis (mono_tags, lifting) not_None_eq option.simps(5))
qed

lemma live_versions_set:
  assumes "causal_list before L" and "causal_list before M" and "set L = set M"
  shows "live_versions before L = live_versions before M"
proof (cases "resolutions_ok before (set L)")
  case True
  with fold_documents_returns [OF assms(1)] fold_documents_returns [OF assms(2)] assms(3) obtain st st' where
    "fold_documents before L no_documents = Inr st" "fold_documents before M no_documents = Inr st'" by auto
  moreover from this have "df_current st = df_current st'"
    using fold_documents_folded assms folded_current_unique by metis
  ultimately show ?thesis by (simp add: live_versions_def)
next
  case False
  with fold_documents_returns [OF assms(1)] fold_documents_returns [OF assms(2)] assms(3) show ?thesis
    by (auto simp: live_versions_def split: sum.split)
qed

section \<open>Properties\<close>

text \<open>One note, put by one writer and then changed by two who have not seen each other.\<close>

definition sample_before :: "id32 \<Rightarrow> id32 \<Rightarrow> bool" where
  "sample_before a b \<longleftrightarrow> (a, b) \<in> set [(''1'', ''2''), (''1'', ''3''), (''1'', ''4''), (''2'', ''4'')]"

definition sample_note :: "string \<Rightarrow> vault_document" where
  "sample_note body = \<lparr>vd_id = ''n'', vd_title = ''t'', vd_body = body, vd_media_type = ''text/plain''\<rparr>"

definition sample_log :: "authored list" where
  "sample_log = [(''A'', ''1'', Put (sample_note ''a'')), (''A'', ''2'', Put (sample_note ''b'')),
     (''B'', ''3'', Delete ''n''), (''C'', ''4'', Resolve ''n'' [''2''] (Some (sample_note ''c'')))]"

definition sample_log_other :: "authored list" where
  "sample_log_other = [(''A'', ''1'', Put (sample_note ''a'')), (''B'', ''3'', Delete ''n''),
     (''A'', ''2'', Put (sample_note ''b'')), (''C'', ''4'', Resolve ''n'' [''2''] (Some (sample_note ''c'')))]"

lemmas sample_defs = sample_before_def sample_note_def sample_log_def sample_log_other_def

lemma sample_causal: "causal_list sample_before sample_log" "causal_list sample_before sample_log_other"
  by (simp_all add: sample_defs causal_list_def)

text \<open>
  C3: After the fold over a causal order a document shows, for a writer, exactly the live version of
  that writer: one that an event of the order made and that nothing which had seen it replaced.
\<close>

theorem live_versions_exact:
  assumes "causal_list before L" and "fold_documents before L no_documents = Inr st"
  shows "map_of (versions_of st i) w = Some v \<longleftrightarrow> live before (set L) i w v"
  using fold_documents_folded [OF assms] by (simp add: folded_def)

theorem live_versions_exact_witness:
  "live sample_before (set sample_log) ''n'' ''B'' \<lparr>dv_writer = ''B'', dv_operation = ''3'', dv_document = None\<rparr>"
proof -
  have run: "case fold_documents sample_before sample_log no_documents of Inl _ \<Rightarrow> False
    | Inr st \<Rightarrow> map_of (versions_of st ''n'') ''B'' = Some \<lparr>dv_writer = ''B'', dv_operation = ''3'', dv_document = None\<rparr>"
    by code_simp
  then obtain st where "fold_documents sample_before sample_log no_documents = Inr st"
    "map_of (versions_of st ''n'') ''B'' = Some \<lparr>dv_writer = ''B'', dv_operation = ''3'', dv_document = None\<rparr>"
    by (auto split: sum.splits)
  with live_versions_exact [OF sample_causal(1) this(1)] show ?thesis by simp
qed

text \<open>
  C7: Two replicas that have the same events show the same live versions of every document, or fail
  both, whichever causal orders they fold them in.
\<close>

theorem projection_converges:
  assumes "causal_list before L" and "causal_list before M" and "set L = set M"
  shows "live_versions before L = live_versions before M"
  using assms by (rule live_versions_set)

theorem projection_converges_witness:
  "live_versions sample_before sample_log = live_versions sample_before sample_log_other"
  by (rule projection_converges [OF sample_causal]) (auto simp: sample_log_def sample_log_other_def)

text \<open>
  C15: The fold fails exactly when some resolution among the events is not well founded: it names no
  version or too many, repeats one, chooses a document of another name, or names an operation that is
  no version of its document or that it has not seen.
\<close>

theorem fold_fails_exactly:
  assumes "causal_list before L"
  shows "(\<exists>e. fold_documents before L no_documents = Inl e) \<longleftrightarrow> \<not> resolutions_ok before (set L)"
  using fold_documents_returns [OF assms] by (cases "fold_documents before L no_documents") auto

theorem fold_fails_exactly_witness:
  "\<not> resolutions_ok sample_before (set [(''C'', ''4'', Resolve ''n'' [''2''] None)])"
proof -
  have "causal_list sample_before [(''C'', ''4'', Resolve ''n'' [''2''] None)]"
    by (simp add: sample_before_def causal_list_def)
  from fold_fails_exactly [OF this] show ?thesis
    by (auto simp: validate_resolution_def no_documents_def ensure_that_def max_parents_def)
qed

end
