(* ===== verification/Peer_Fold.thy ===== *)
theory Peer_Fold
  imports Peer_Documents
begin

text \<open>
  The relation part of a projection (\<open>fold_relations\<close> in \<open>sync.rs\<close>): the signed events, in causal
  order, are folded into the relations that hold up, those that cannot be checked yet, those that
  are refused, and the catalog of the predicates that writers defined. The result is compared with
  a description that names no order.
\<close>

section \<open>Signed events\<close>

record signed_event =
  sg_operation :: id32
  sg_author :: id32
  sg_asserted_at_ms :: "nat option"
  sg_event :: sync_event

definition authored_event :: "signed_event \<Rightarrow> authored" where
  "authored_event x = (sg_author x, sg_operation x, sg_event x)"

record relation_fold =
  rf_relations :: "relation_assertion list"
  rf_rejected :: "rejected_relation list"
  rf_unverified :: "unverified_relation list"
  rf_catalog :: predicate_catalog

datatype relation_location = Valid nat | Unverified nat

record relation_state =
  rs_author :: id32
  rs_location :: relation_location

datatype capture_error = Rejected string | Unverifiable string

definition file_revision_as_vault_document :: "file_revision \<Rightarrow> vault_document" where
  "file_revision_as_vault_document r = \<lparr>vd_id = fr_document_id r, vd_title = fr_title r,
     vd_body = fr_body r, vd_media_type = fr_media_type r\<rparr>"

section \<open>Definitions of predicates\<close>

record predicate_origin =
  po_operation :: id32
  po_author :: id32
  po_scope :: id32
  po_asserted_at_ms :: "nat option"

definition fold_predicate_definition :: "predicate_catalog \<Rightarrow> (id32 \<Rightarrow> id32 \<Rightarrow> bool) \<Rightarrow> predicate_origin \<Rightarrow>
    predicate_proposal \<Rightarrow> string + predicate_definition" where
  "fold_predicate_definition catalog before origin p =
     and_then (validate_predicate_definition_payload (pp_slug p) (pp_label p) (pp_description p)
       (pp_subproperty_of p) (pp_lowers_to p)) (\<lambda>_.
     and_then (case pp_supersedes p of
         None \<Rightarrow> Inr (po_operation origin, mint_predicate_iri (po_author origin) (po_operation origin))
       | Some i \<Rightarrow> (case catalog_definition catalog i of
           None \<Rightarrow> Inl ''definition supersedes an unavailable predicate definition''
         | Some previous \<Rightarrow>
             if pd_author previous \<noteq> po_author origin
             then Inl ''only the minting author may supersede a predicate definition''
             else if \<not> before (pd_id previous) (po_operation origin)
             then Inl ''definition does not causally observe the definition it supersedes''
             else if pd_slug previous \<noteq> pp_slug p
             then Inl ''a superseding definition keeps the chain's slug''
             else Inr (pd_root previous, pd_iri previous))) (\<lambda>(root, iri).
     if pp_supersedes p = None \<and> list_ex (\<lambda>d. pd_root d = pd_id d \<and> pd_author d = po_author origin \<and>
          pd_scope d = po_scope origin \<and> pd_slug d = pp_slug p \<and> \<not> is_retired catalog (pd_id d))
          (pc_definitions catalog)
     then Inl (''predicate slug '' @ [CHR 0x27] @ pp_slug p @ [CHR 0x27] @
       '' is already minted and live for this author in this scope'')
     else Inr \<lparr>pd_id = po_operation origin, pd_author = po_author origin, pd_operation = po_operation origin,
       pd_scope = po_scope origin, pd_root = root, pd_iri = iri, pd_slug = pp_slug p, pd_label = pp_label p,
       pd_description = pp_description p, pd_subproperty_of = pp_subproperty_of p, pd_lowers_to = pp_lowers_to p,
       pd_supersedes = pp_supersedes p, pd_replaced_by = pp_replaced_by p,
       pd_asserted_at_ms = po_asserted_at_ms origin\<rparr>))"

definition validate_asserted_predicate :: "predicate_catalog \<Rightarrow> (id32 \<Rightarrow> id32 \<Rightarrow> bool) \<Rightarrow> predicate_ref \<Rightarrow>
    id32 \<Rightarrow> string + unit" where
  "validate_asserted_predicate catalog before p assertion = (case p of
     Defined i \<Rightarrow> (case root_of catalog i of
         None \<Rightarrow> Inl ''relation names an unavailable predicate definition''
       | Some root \<Rightarrow>
           if \<not> before i assertion then Inl ''assertion does not causally observe its predicate definition''
           else if list_ex (\<lambda>d. pd_root d = root \<and> pd_replaced_by d \<noteq> None \<and> before (pd_id d) assertion)
             (pc_definitions catalog)
           then Inl ''relation names a retired predicate definition''
           else Inr ())
   | _ \<Rightarrow> Inr ())"

section \<open>Captures\<close>

text \<open>Positions are \<open>u64\<close> and a \<open>usize\<close> has 64 bits, so that the conversions cannot fail.\<close>

definition validate_endpoint_capture :: "relation_endpoint \<Rightarrow> vault_document \<Rightarrow> string \<Rightarrow> capture_error + unit" where
  "validate_endpoint_capture e document role = (case rn_position e of
     None \<Rightarrow> Inr ()
   | Some p \<Rightarrow>
       let source = vd_body document in
       if \<not> utf8_valid source
       then Inl (Unverifiable (''relation '' @ role @ '' document source is not UTF-8 for capture verification''))
       else (case str_get source (rp_start p) (rp_end p) of
         None \<Rightarrow> Inl (Rejected (''relation '' @ role @ '' position is not a valid UTF-8 source range''))
       | Some quote \<Rightarrow>
           if quote \<noteq> rn_quote e
           then Inl (Rejected (''relation '' @ role @ '' quote does not match the captured source range''))
           else if rn_prefix e \<noteq> [] \<and> \<not> ends_with (take (rp_start p) source) (rn_prefix e)
           then Inl (Rejected (''relation '' @ role @ '' prefix does not precede the captured source range''))
           else if rn_suffix e \<noteq> [] \<and> \<not> starts_with (drop (rp_end p) source) (rn_suffix e)
           then Inl (Rejected (''relation '' @ role @ '' suffix does not follow the captured source range''))
           else Inr ()))"

definition validate_relation_capture :: "relation_assertion \<Rightarrow> (id32 \<rightharpoonup> vault_document) \<Rightarrow>
    (id32 \<Rightarrow> id32 \<Rightarrow> bool) \<Rightarrow> capture_error + unit" where
  "validate_relation_capture a documents before = for_each (\<lambda>(role, e). case documents (rn_document_head e) of
       None \<Rightarrow> Inl (Unverifiable (''relation '' @ role @ '' document head is unavailable for capture verification''))
     | Some document \<Rightarrow>
         if vd_id document \<noteq> rn_document_id e
         then Inl (Rejected (''relation '' @ role @ '' document id does not match its captured head''))
         else if \<not> before (rn_document_head e) (ra_operation a)
         then Inl (Rejected (''relation '' @ role @ '' assertion does not causally observe its document head''))
         else validate_endpoint_capture e document role)
     [(''subject'', ra_subject a), (''object'', ra_object a)]"

section \<open>The fold\<close>

text \<open>The result of the fold, with the two maps that the loop keeps beside it.\<close>

record relation_replay = relation_fold +
  rr_documents :: "id32 \<rightharpoonup> vault_document"
  rr_assertions :: "id32 \<rightharpoonup> relation_state"

definition no_relations :: relation_replay where
  "no_relations = \<lparr>rf_relations = [], rf_rejected = [], rf_unverified = [],
     rf_catalog = \<lparr>pc_definitions = [], pc_rejected = []\<rparr>, rr_documents = Map.empty, rr_assertions = Map.empty\<rparr>"

definition reject_relation :: "signed_event \<Rightarrow> string \<Rightarrow> relation_replay \<Rightarrow> relation_replay" where
  "reject_relation x reason st = st\<lparr>rf_rejected := rf_rejected st @
     [\<lparr>rj_operation = sg_operation x, rj_author = sg_author x, rj_reason = reason\<rparr>]\<rparr>"

definition origin_of :: "id32 \<Rightarrow> signed_event \<Rightarrow> predicate_origin" where
  "origin_of scope x = \<lparr>po_operation = sg_operation x, po_author = sg_author x, po_scope = scope,
     po_asserted_at_ms = sg_asserted_at_ms x\<rparr>"

definition add_definition :: "(id32 \<Rightarrow> id32 \<Rightarrow> bool) \<Rightarrow> id32 \<Rightarrow> signed_event \<Rightarrow> predicate_proposal \<Rightarrow>
    predicate_catalog \<Rightarrow> predicate_catalog" where
  "add_definition before scope x p c = (case fold_predicate_definition c before (origin_of scope x) p of
     Inr d \<Rightarrow> c\<lparr>pc_definitions := pc_definitions c @ [d]\<rparr>
   | Inl reason \<Rightarrow> c\<lparr>pc_rejected := pc_rejected c @
       [\<lparr>rx_operation = sg_operation x, rx_author = sg_author x, rx_reason = reason\<rparr>]\<rparr>)"

text \<open>The document that an event makes available to captures.\<close>

definition captured_document :: "sync_event \<Rightarrow> vault_document option" where
  "captured_document e = (case e of
     Put d \<Rightarrow> Some d
   | Resolve _ _ d \<Rightarrow> d
   | CaptureFileRevision r \<Rightarrow>
       if validate_revision r = Inr () then Some (file_revision_as_vault_document r) else None
   | _ \<Rightarrow> None)"

definition add_assertion :: "(id32 \<Rightarrow> id32 \<Rightarrow> bool) \<Rightarrow> signed_event \<Rightarrow> relation_assertion \<Rightarrow> relation_replay \<Rightarrow>
    relation_replay" where
  "add_assertion before x a st =
     (case and_then (validate_relation_payload (ra_predicate a) (ra_subject a) (ra_object a))
        (\<lambda>_. validate_asserted_predicate (rf_catalog st) before (ra_predicate a) (sg_operation x)) of
        Inl reason \<Rightarrow> reject_relation x reason st
      | Inr _ \<Rightarrow> (case validate_relation_capture a (rr_documents st) before of
          Inr _ \<Rightarrow> st\<lparr>rf_relations := rf_relations st @ [a],
            rr_assertions := (rr_assertions st)(sg_operation x \<mapsto>
              \<lparr>rs_author = sg_author x, rs_location = Valid (length (rf_relations st))\<rparr>)\<rparr>
        | Inl (Unverifiable reason) \<Rightarrow> st\<lparr>rf_unverified := rf_unverified st @ [\<lparr>un_assertion = a, un_reason = reason\<rparr>],
            rr_assertions := (rr_assertions st)(sg_operation x \<mapsto>
              \<lparr>rs_author = sg_author x, rs_location = Unverified (length (rf_unverified st))\<rparr>)\<rparr>
        | Inl (Rejected reason) \<Rightarrow> reject_relation x reason st))"

definition push_retraction :: "relation_retraction \<Rightarrow> relation_assertion \<Rightarrow> relation_assertion" where
  "push_retraction r a = a\<lparr>ra_retractions := ra_retractions a @ [r]\<rparr>"

definition retraction_of :: "signed_event \<Rightarrow> relation_retraction" where
  "retraction_of x = \<lparr>rt_operation = sg_operation x, rt_author = sg_author x,
     rt_withdrawn_at_ms = sg_asserted_at_ms x\<rparr>"

text \<open>An index outside of a vector panics.\<close>

definition add_retraction :: "(id32 \<Rightarrow> id32 \<Rightarrow> bool) \<Rightarrow> signed_event \<Rightarrow> id32 \<Rightarrow> relation_replay \<Rightarrow>
    (sync_error, relation_replay) outcome" where
  "add_retraction before x assertion st = (case rr_assertions st assertion of
     None \<Rightarrow> Done (reject_relation x ''retraction names no valid or unverified relation assertion'' st)
   | Some state \<Rightarrow>
       if rs_author state \<noteq> sg_author x
       then Done (reject_relation x ''only the assertion's signed author may retract it'' st)
       else if \<not> before assertion (sg_operation x)
       then Done (reject_relation x ''retraction does not causally observe its assertion'' st)
       else (case rs_location state of
         Valid i \<Rightarrow>
           if i < length (rf_relations st)
           then Done (st\<lparr>rf_relations := (rf_relations st)[i := push_retraction (retraction_of x) (rf_relations st ! i)]\<rparr>)
           else Halt Panicked
       | Unverified i \<Rightarrow>
           if i < length (rf_unverified st)
           then (let u = rf_unverified st ! i
             in Done (st\<lparr>rf_unverified := (rf_unverified st)[i :=
                  u\<lparr>un_assertion := push_retraction (retraction_of x) (un_assertion u)\<rparr>]\<rparr>))
           else Halt Panicked))"

definition assertion_of :: "id32 \<Rightarrow> signed_event \<Rightarrow> relation_assertion option" where
  "assertion_of scope x = (case sg_event x of
     AssertRelation p subject object evidence qualification \<Rightarrow>
       Some \<lparr>ra_id = sg_operation x, ra_author = sg_author x, ra_operation = sg_operation x, ra_scope = scope,
         ra_predicate = p, ra_subject = subject, ra_object = object, ra_evidence = evidence,
         ra_qualification = qualification, ra_retractions = [], ra_asserted_at_ms = sg_asserted_at_ms x\<rparr>
   | _ \<Rightarrow> None)"

definition fold_relation :: "(id32 \<Rightarrow> id32 \<Rightarrow> bool) \<Rightarrow> id32 \<Rightarrow> signed_event \<Rightarrow> relation_replay \<Rightarrow>
    (sync_error, relation_replay) outcome" where
  "fold_relation before scope x st = (case sg_event x of
     DefinePredicate p \<Rightarrow> Done (st\<lparr>rf_catalog := add_definition before scope x p (rf_catalog st)\<rparr>)
   | AssertRelation _ _ _ _ _ \<Rightarrow> (case assertion_of scope x of
       Some a \<Rightarrow> Done (add_assertion before x a st) | None \<Rightarrow> Done st)
   | RetractRelation assertion \<Rightarrow> add_retraction before x assertion st
   | e \<Rightarrow> (case captured_document e of
       Some d \<Rightarrow> Done (st\<lparr>rr_documents := (rr_documents st)(sg_operation x \<mapsto> d)\<rparr>)
     | None \<Rightarrow> Done st))"

fun replay_relations :: "(id32 \<Rightarrow> id32 \<Rightarrow> bool) \<Rightarrow> id32 \<Rightarrow> signed_event list \<Rightarrow> relation_replay \<Rightarrow>
    (sync_error, relation_replay) outcome" where
  "replay_relations before scope [] st = Done st"
| "replay_relations before scope (x # xs) st = chain (fold_relation before scope x st) (replay_relations before scope xs)"

definition fold_relations :: "(id32 \<Rightarrow> id32 \<Rightarrow> bool) \<Rightarrow> id32 \<Rightarrow> signed_event list \<Rightarrow> (sync_error, relation_fold) outcome" where
  "fold_relations before scope xs = map_done relation_fold.truncate (replay_relations before scope xs no_relations)"

section \<open>Causal order\<close>

definition causal_events :: "(id32 \<Rightarrow> id32 \<Rightarrow> bool) \<Rightarrow> signed_event list \<Rightarrow> bool" where
  "causal_events before xs = causal_list before (map authored_event xs)"

lemma causal_events_Nil [simp]: "causal_events before []"
  by (simp add: causal_events_def causal_list_def)

lemma causal_events_snoc: "causal_events before (xs @ [x]) \<longleftrightarrow> causal_events before xs \<and>
    \<not> before (sg_operation x) (sg_operation x) \<and> (\<forall>y \<in> set xs. sg_operation y \<noteq> sg_operation x \<and>
      \<not> before (sg_operation x) (sg_operation y) \<and> (sg_author y = sg_author x \<longrightarrow> before (sg_operation y) (sg_operation x)))"
  by (auto simp: causal_events_def causal_list_snoc authored_event_def)

lemma causal_events_same:
  "causal_events before xs \<Longrightarrow> x \<in> set xs \<Longrightarrow> y \<in> set xs \<Longrightarrow> sg_operation x = sg_operation y \<Longrightarrow> x = y"
  by (induction xs rule: rev_induct) (auto simp: causal_events_snoc)

lemma causal_events_filter: "causal_events before xs \<Longrightarrow> causal_events before (filter P xs)"
  by (induction xs rule: rev_induct) (auto simp: causal_events_snoc)

text \<open>Two causal orders of the same events list the events of one writer in the same order.\<close>

lemma causal_one_writer:
  assumes "causal_events before xs" and "causal_events before ys" and "set xs = set ys"
    and "\<forall>x \<in> set xs. sg_author x = w"
  shows "xs = ys"
  using assms
proof (induction xs arbitrary: ys rule: rev_induct)
  case Nil
  then show ?case by simp
next
  case (snoc x xs)
  then obtain zs y where ys: "ys = zs @ [y]" by (cases ys rule: rev_cases) auto
  have y: "y = x"
  proof (rule ccontr)
    assume ne: "y \<noteq> x"
    with snoc.prems(3) ys have "x \<in> set zs" "y \<in> set xs" by auto
    with snoc.prems ys show False by (auto simp: causal_events_snoc)
  qed
  from snoc.prems have "x \<notin> set xs" by (auto simp: causal_events_snoc)
  moreover from snoc.prems ys y have "y \<notin> set zs" by (auto simp: causal_events_snoc)
  ultimately have "set xs = set zs" using snoc.prems(3) ys y by auto
  with snoc y ys show ?case by (auto simp: causal_events_snoc)
qed

lemma causal_filter_same:
  assumes "causal_events before xs" and "causal_events before ys" and "set xs = set ys"
    and "\<And>x. P x \<Longrightarrow> sg_author x = w"
  shows "filter P xs = filter P ys"
  using assms by (intro causal_one_writer [of before _ _ w]) (auto intro: causal_events_filter)

section \<open>The catalog\<close>

definition catalog_step :: "(id32 \<Rightarrow> id32 \<Rightarrow> bool) \<Rightarrow> id32 \<Rightarrow> signed_event \<Rightarrow> predicate_catalog \<Rightarrow> predicate_catalog" where
  "catalog_step before scope x c = (case sg_event x of
     DefinePredicate p \<Rightarrow> add_definition before scope x p c | _ \<Rightarrow> c)"

definition catalog_of :: "(id32 \<Rightarrow> id32 \<Rightarrow> bool) \<Rightarrow> id32 \<Rightarrow> signed_event list \<Rightarrow> predicate_catalog" where
  "catalog_of before scope xs = fold (catalog_step before scope) xs \<lparr>pc_definitions = [], pc_rejected = []\<rparr>"

text \<open>What the definition that an event adds is.\<close>

definition admits :: "(id32 \<Rightarrow> id32 \<Rightarrow> bool) \<Rightarrow> id32 \<Rightarrow> predicate_catalog \<Rightarrow> signed_event \<Rightarrow> predicate_definition option" where
  "admits before scope c x = (case sg_event x of
     DefinePredicate p \<Rightarrow> (case fold_predicate_definition c before (origin_of scope x) p of
       Inr d \<Rightarrow> Some d | Inl _ \<Rightarrow> None)
   | _ \<Rightarrow> None)"

lemma catalog_of_snoc: "pc_definitions (catalog_of before scope (xs @ [x])) = pc_definitions (catalog_of before scope xs) @
    (case admits before scope (catalog_of before scope xs) x of None \<Rightarrow> [] | Some d \<Rightarrow> [d])"
  by (auto simp: catalog_of_def catalog_step_def add_definition_def admits_def split: sync_event.split sum.split)

lemma catalog_of_Nil [simp]: "pc_definitions (catalog_of before scope []) = []"
  by (simp add: catalog_of_def)

definition roots_of :: "predicate_definition list \<Rightarrow> predicate_definition \<Rightarrow> bool" where
  "roots_of ds d \<longleftrightarrow> (\<exists>r \<in> set ds. pd_id r = pd_root d \<and> pd_root r = pd_id r \<and> pd_author r = pd_author d \<and>
     pd_slug r = pd_slug d \<and> pd_iri r = pd_iri d \<and> pd_iri d = mint_predicate_iri (pd_author d) (pd_root d))"

definition retired_root :: "predicate_definition list \<Rightarrow> id32 \<Rightarrow> bool" where
  "retired_root ds r \<longleftrightarrow> (\<exists>d \<in> set ds. pd_root d = r \<and> pd_replaced_by d \<noteq> None)"

definition catalog_ok :: "id32 \<Rightarrow> signed_event list \<Rightarrow> predicate_definition list \<Rightarrow> bool" where
  "catalog_ok scope xs ds \<longleftrightarrow> distinct (map pd_id ds) \<and>
     (\<forall>d \<in> set ds. roots_of ds d \<and> pd_scope d = scope \<and> (\<exists>x \<in> set xs. pd_id d = sg_operation x \<and> pd_author d = sg_author x)) \<and>
     (\<forall>d \<in> set ds. \<forall>e \<in> set ds. pd_author d = pd_author e \<longrightarrow> pd_slug d = pd_slug e \<longrightarrow>
        \<not> retired_root ds (pd_root d) \<longrightarrow> \<not> retired_root ds (pd_root e) \<longrightarrow> pd_root d = pd_root e)"

lemma find_by_id: "distinct (map f ds) \<Longrightarrow> find (\<lambda>d. f d = i) ds = Some d \<longleftrightarrow> d \<in> set ds \<and> f d = i"
  by (induction ds) (auto simp: rev_image_eqI)

lemma catalog_definition_Some:
  "distinct (map pd_id (pc_definitions c)) \<Longrightarrow> catalog_definition c i = Some d \<longleftrightarrow> d \<in> set (pc_definitions c) \<and> pd_id d = i"
  by (simp add: catalog_definition_def find_by_id)

lemma is_retired_iff:
  assumes "distinct (map pd_id (pc_definitions c))" and "d \<in> set (pc_definitions c)"
  shows "is_retired c (pd_id d) \<longleftrightarrow> retired_root (pc_definitions c) (pd_root d)"
proof -
  have "catalog_definition c (pd_id d) = Some d" using assms by (simp add: catalog_definition_Some)
  then show ?thesis by (auto simp: is_retired_def root_of_def retired_root_def list_ex_iff)
qed

text \<open>When a definition is admitted, and what it then says.\<close>

lemma fold_predicate_definition_Inr:
  assumes "distinct (map pd_id (pc_definitions c))"
  shows "fold_predicate_definition c before (origin_of scope x) p = Inr d \<longleftrightarrow>
    validate_predicate_definition_payload (pp_slug p) (pp_label p) (pp_description p) (pp_subproperty_of p) (pp_lowers_to p) = Inr () \<and>
    (\<exists>root iri. d = \<lparr>pd_id = sg_operation x, pd_author = sg_author x, pd_operation = sg_operation x,
       pd_scope = scope, pd_root = root, pd_iri = iri, pd_slug = pp_slug p, pd_label = pp_label p,
       pd_description = pp_description p, pd_subproperty_of = pp_subproperty_of p, pd_lowers_to = pp_lowers_to p,
       pd_supersedes = pp_supersedes p, pd_replaced_by = pp_replaced_by p, pd_asserted_at_ms = sg_asserted_at_ms x\<rparr> \<and>
     (case pp_supersedes p of
        None \<Rightarrow> root = sg_operation x \<and> iri = mint_predicate_iri (sg_author x) (sg_operation x) \<and>
          \<not> (\<exists>e \<in> set (pc_definitions c). pd_root e = pd_id e \<and> pd_author e = sg_author x \<and> pd_scope e = scope \<and>
            pd_slug e = pp_slug p \<and> \<not> retired_root (pc_definitions c) (pd_root e))
      | Some i \<Rightarrow> (\<exists>e \<in> set (pc_definitions c). pd_id e = i \<and> pd_author e = sg_author x \<and> before i (sg_operation x) \<and>
          pd_slug e = pp_slug p \<and> root = pd_root e \<and> iri = pd_iri e)))"
proof (cases "pp_supersedes p")
  case None
  have "list_ex (\<lambda>e. pd_root e = pd_id e \<and> pd_author e = sg_author x \<and> pd_scope e = scope \<and> pd_slug e = pp_slug p \<and>
      \<not> is_retired c (pd_id e)) (pc_definitions c) \<longleftrightarrow>
    (\<exists>e \<in> set (pc_definitions c). pd_root e = pd_id e \<and> pd_author e = sg_author x \<and> pd_scope e = scope \<and>
      pd_slug e = pp_slug p \<and> \<not> retired_root (pc_definitions c) (pd_root e))"
    using is_retired_iff [OF assms] by (auto simp: list_ex_iff)
  then show ?thesis using None
    by (simp add: fold_predicate_definition_def ok_iff origin_of_def) auto
next
  case (Some i)
  show ?thesis
  proof (cases "catalog_definition c i")
    case None
    then have "\<not> (\<exists>e \<in> set (pc_definitions c). pd_id e = i)" using catalog_definition_Some [OF assms, of i] by auto
    with None Some show ?thesis by (simp add: fold_predicate_definition_def ok_iff origin_of_def)
  next
    fix e assume e: "catalog_definition c i = Some e"
    then have "f \<in> set (pc_definitions c) \<and> pd_id f = i \<longleftrightarrow> f = e" for f
      by (metis catalog_definition_Some [OF assms] option.inject)
    with e Some show ?thesis by (simp add: fold_predicate_definition_def ok_iff origin_of_def) fastforce
  qed
qed

lemma admits_Some: "admits before scope c x = Some d \<longleftrightarrow>
    (\<exists>p. sg_event x = DefinePredicate p \<and> fold_predicate_definition c before (origin_of scope x) p = Inr d)"
  by (auto simp: admits_def split: sync_event.splits sum.splits)

lemma retired_root_append: "retired_root ds r \<Longrightarrow> retired_root (ds @ es) r"
  by (auto simp: retired_root_def)

lemma roots_of_append: "roots_of ds d \<Longrightarrow> roots_of (ds @ es) d"
  by (auto simp: roots_of_def)

lemma catalog_ok_admits:
  assumes ok: "catalog_ok scope xs (pc_definitions c)" and causal: "causal_events before (xs @ [x])"
    and d: "admits before scope c x = Some d"
  shows "catalog_ok scope (xs @ [x]) (pc_definitions c @ [d])"
proof -
  let ?ds = "pc_definitions c"
  from ok have distinct: "distinct (map pd_id ?ds)"
    and ids: "\<forall>e \<in> set ?ds. roots_of ?ds e \<and> pd_scope e = scope \<and> (\<exists>y \<in> set xs. pd_id e = sg_operation y \<and> pd_author e = sg_author y)"
    and live: "\<forall>e \<in> set ?ds. \<forall>f \<in> set ?ds. pd_author e = pd_author f \<longrightarrow> pd_slug e = pd_slug f \<longrightarrow>
        \<not> retired_root ?ds (pd_root e) \<longrightarrow> \<not> retired_root ?ds (pd_root f) \<longrightarrow> pd_root e = pd_root f"
    by (simp_all add: catalog_ok_def)
  from d obtain p where p: "sg_event x = DefinePredicate p"
    and inr: "fold_predicate_definition c before (origin_of scope x) p = Inr d" by (auto simp: admits_Some)
  note facts = inr [unfolded fold_predicate_definition_Inr [OF distinct]]
  from facts have fields: "pd_id d = sg_operation x" "pd_author d = sg_author x" "pd_scope d = scope" "pd_slug d = pp_slug p"
    by auto
  have fresh: "pd_id d \<notin> set (map pd_id ?ds)" using ids causal fields(1) by (fastforce simp: causal_events_snoc)
  have root: "roots_of (?ds @ [d]) d \<and> (\<forall>f \<in> set ?ds. pd_author f = pd_author d \<longrightarrow> pd_slug f = pd_slug d \<longrightarrow>
      \<not> retired_root ?ds (pd_root f) \<longrightarrow> \<not> retired_root ?ds (pd_root d) \<longrightarrow> pd_root f = pd_root d)"
  proof (cases "pp_supersedes p")
    case None
    with facts have r: "pd_root d = sg_operation x" "pd_iri d = mint_predicate_iri (sg_author x) (sg_operation x)"
      and none: "\<not> (\<exists>e \<in> set ?ds. pd_root e = pd_id e \<and> pd_author e = sg_author x \<and> pd_scope e = scope \<and>
        pd_slug e = pp_slug p \<and> \<not> retired_root ?ds (pd_root e))" by auto
    have "retired_root ?ds (pd_root f)" if f: "f \<in> set ?ds" "pd_author f = pd_author d" "pd_slug f = pd_slug d" for f
    proof -
      from ids f(1) obtain r where "r \<in> set ?ds" "pd_id r = pd_root f" "pd_root r = pd_id r" "pd_author r = pd_author f"
        "pd_slug r = pd_slug f" "pd_scope r = scope" by (fastforce simp: roots_of_def)
      with none f fields show ?thesis by metis
    qed
    moreover have "roots_of (?ds @ [d]) d" using r fields by (simp add: roots_of_def)
    ultimately show ?thesis by auto
  next
    case (Some i)
    with facts obtain e where e: "e \<in> set ?ds" "pd_author e = sg_author x" "pd_slug e = pp_slug p"
      "pd_root d = pd_root e" "pd_iri d = pd_iri e" by auto
    from ids e(1) have "roots_of ?ds e" by blast
    with e fields have "roots_of ?ds d" by (simp add: roots_of_def)
    then have "roots_of (?ds @ [d]) d" by (rule roots_of_append)
    moreover have "pd_root f = pd_root d" if "f \<in> set ?ds" "pd_author f = pd_author d" "pd_slug f = pd_slug d"
      "\<not> retired_root ?ds (pd_root f)" "\<not> retired_root ?ds (pd_root d)" for f
      using live e fields that by metis
    ultimately show ?thesis by blast
  qed
  have still: "\<not> retired_root ?ds r" if "\<not> retired_root (?ds @ [d]) r" for r
    using that retired_root_append by blast
  have "roots_of (?ds @ [d]) e \<and> pd_scope e = scope \<and>
      (\<exists>y \<in> set (xs @ [x]). pd_id e = sg_operation y \<and> pd_author e = sg_author y)" if "e \<in> set (?ds @ [d])" for e
    using that ids root fields by (auto intro: roots_of_append)
  moreover have "pd_root e = pd_root f" if "e \<in> set (?ds @ [d])" "f \<in> set (?ds @ [d])" "pd_author e = pd_author f"
      "pd_slug e = pd_slug f" "\<not> retired_root (?ds @ [d]) (pd_root e)" "\<not> retired_root (?ds @ [d]) (pd_root f)" for e f
  proof -
    from that(1,2) consider "e \<in> set ?ds" "f \<in> set ?ds" | "e \<in> set ?ds" "f = d" | "e = d" "f \<in> set ?ds" | "e = d" "f = d" by auto
    then show ?thesis
    proof cases
      case 1
      with live that(3,4) still [OF that(5)] still [OF that(6)] show ?thesis by blast
    next
      case 2
      with root that(3,4) still [OF that(5)] still [OF that(6)] show ?thesis by simp
    next
      case 3
      with root that(3,4) still [OF that(5)] still [OF that(6)] show ?thesis by simp
    qed simp
  qed
  ultimately show ?thesis using distinct fresh by (simp add: catalog_ok_def)
qed

lemma catalog_of_ok: "causal_events before xs \<Longrightarrow> catalog_ok scope xs (pc_definitions (catalog_of before scope xs))"
proof (induction xs rule: rev_induct)
  case Nil
  then show ?case by (simp add: catalog_ok_def)
next
  case (snoc x xs)
  then have ok: "catalog_ok scope xs (pc_definitions (catalog_of before scope xs))" by (simp add: causal_events_snoc)
  then have "catalog_ok scope (xs @ [x]) (pc_definitions (catalog_of before scope xs))"
    by (auto simp: catalog_ok_def)
  with catalog_ok_admits [OF ok snoc.prems] show ?case by (auto simp: catalog_of_snoc split: option.split)
qed

text \<open>A writer's definitions depend on that writer's events only.\<close>

lemma admits_by_author:
  assumes ok: "catalog_ok scope xs (pc_definitions c)"
    and c': "pc_definitions c' = filter (\<lambda>d. pd_author d = sg_author x) (pc_definitions c)"
  shows "admits before scope c' x = admits before scope c x"
proof -
  let ?ds = "pc_definitions c" and ?w = "sg_author x"
  from ok have distinct: "distinct (map pd_id ?ds)" and roots: "\<forall>e \<in> set ?ds. roots_of ?ds e" by (simp_all add: catalog_ok_def)
  from distinct have distinct': "distinct (map pd_id (pc_definitions c'))" by (simp add: c' distinct_map_filter)
  have "retired_root (pc_definitions c') (pd_root e) \<longleftrightarrow> retired_root ?ds (pd_root e)"
    if e: "e \<in> set ?ds" "pd_root e = pd_id e" "pd_author e = ?w" for e
  proof -
    have "pd_author d = ?w" if d: "d \<in> set ?ds" "pd_root d = pd_root e" for d
    proof -
      from roots d(1) obtain r where "r \<in> set ?ds" "pd_id r = pd_root d" "pd_author r = pd_author d" by (auto simp: roots_of_def)
      with d e distinct have "r = e" by (metis distinct_map inj_on_eq_iff)
      with e \<open>pd_author r = pd_author d\<close> show ?thesis by simp
    qed
    then show ?thesis by (auto simp: retired_root_def c')
  qed
  then have roots_same: "(\<exists>e \<in> set (pc_definitions c'). pd_root e = pd_id e \<and> pd_author e = ?w \<and> pd_scope e = scope \<and>
        pd_slug e = s \<and> \<not> retired_root (pc_definitions c') (pd_root e)) \<longleftrightarrow>
      (\<exists>e \<in> set ?ds. pd_root e = pd_id e \<and> pd_author e = ?w \<and> pd_scope e = scope \<and> pd_slug e = s \<and> \<not> retired_root ?ds (pd_root e))" for s
    by (auto simp: c')
  have known_same: "(\<exists>e \<in> set (pc_definitions c'). pd_id e = i \<and> pd_author e = ?w \<and> P e) \<longleftrightarrow>
      (\<exists>e \<in> set ?ds. pd_id e = i \<and> pd_author e = ?w \<and> P e)" for i P
    by (auto simp: c')
  have "fold_predicate_definition c' before (origin_of scope x) p = Inr d \<longleftrightarrow>
      fold_predicate_definition c before (origin_of scope x) p = Inr d" for p d
    unfolding fold_predicate_definition_Inr [OF distinct] fold_predicate_definition_Inr [OF distinct'] roots_same known_same ..
  then have "admits before scope c' x = Some d \<longleftrightarrow> admits before scope c x = Some d" for d
    by (simp add: admits_Some)
  then show ?thesis by (metis not_None_eq)
qed

lemma admits_author: "distinct (map pd_id (pc_definitions c)) \<Longrightarrow> admits before scope c x = Some d \<Longrightarrow> pd_author d = sg_author x"
  by (auto simp: admits_Some fold_predicate_definition_Inr)

lemma catalog_by_author: "causal_events before xs \<Longrightarrow>
    filter (\<lambda>d. pd_author d = w) (pc_definitions (catalog_of before scope xs)) =
    pc_definitions (catalog_of before scope (filter (\<lambda>x. sg_author x = w) xs))"
proof (induction xs rule: rev_induct)
  case Nil
  then show ?case by simp
next
  case (snoc x xs)
  then have causal: "causal_events before xs" by (simp add: causal_events_snoc)
  let ?c = "catalog_of before scope xs"
  from catalog_of_ok [OF causal] have ok: "catalog_ok scope xs (pc_definitions ?c)" .
  then have author: "pd_author d = sg_author x" if "admits before scope ?c x = Some d" for d
    using that by (intro admits_author) (simp_all add: catalog_ok_def)
  show ?case
  proof (cases "sg_author x = w")
    case False
    with author snoc.IH [OF causal] show ?thesis by (auto simp: catalog_of_snoc split: option.split)
  next
    case True
    with snoc.IH [OF causal] have
      "pc_definitions (catalog_of before scope (filter (\<lambda>y. sg_author y = w) xs)) = filter (\<lambda>d. pd_author d = sg_author x) (pc_definitions ?c)"
      by simp
    from admits_by_author [OF ok this] author True snoc.IH [OF causal] show ?thesis
      by (auto simp: catalog_of_snoc split: option.split)
  qed
qed

lemma catalog_same:
  assumes "causal_events before xs" and "causal_events before ys" and "set xs = set ys"
  shows "set (pc_definitions (catalog_of before scope xs)) = set (pc_definitions (catalog_of before scope ys))"
proof -
  have "filter (\<lambda>d. pd_author d = w) (pc_definitions (catalog_of before scope xs)) =
      filter (\<lambda>d. pd_author d = w) (pc_definitions (catalog_of before scope ys))" for w
    using causal_filter_same [OF assms, of "\<lambda>x. sg_author x = w" w] by (simp add: catalog_by_author assms)
  then have "d \<in> set (filter (\<lambda>e. pd_author e = pd_author d) (pc_definitions (catalog_of before scope xs))) \<longleftrightarrow>
      d \<in> set (filter (\<lambda>e. pd_author e = pd_author d) (pc_definitions (catalog_of before scope ys)))" for d by simp
  then show ?thesis by auto
qed

end
