(* ===== verification/Peer_Replay.thy ===== *)
theory Peer_Replay
  imports Peer_Fold "HOL-Library.Multiset"
begin

text \<open>
  What the fold of relations computes, said without an order: an assertion holds up when its
  predicate is defined and live in what it has seen and both of its passages are where it says, and
  it is withdrawn by the retractions of its author that have seen it.
\<close>

section \<open>The relations that hold up\<close>

definition documents_of :: "signed_event list \<Rightarrow> id32 \<rightharpoonup> vault_document" where
  "documents_of xs = fold (\<lambda>x m. case captured_document (sg_event x) of
     Some d \<Rightarrow> m(sg_operation x \<mapsto> d) | None \<Rightarrow> m) xs Map.empty"

definition upheld :: "(id32 \<Rightarrow> id32 \<Rightarrow> bool) \<Rightarrow> predicate_catalog \<Rightarrow> (id32 \<rightharpoonup> vault_document) \<Rightarrow> relation_assertion \<Rightarrow> bool" where
  "upheld before c docs a \<longleftrightarrow> validate_relation_payload (ra_predicate a) (ra_subject a) (ra_object a) = Inr () \<and>
     validate_asserted_predicate c before (ra_predicate a) (ra_operation a) = Inr () \<and>
     validate_relation_capture a docs before = Inr ()"

text \<open>A retraction counts when it comes from the author of the assertion, who has seen the assertion.\<close>

definition retracts :: "(id32 \<Rightarrow> id32 \<Rightarrow> bool) \<Rightarrow> relation_assertion \<Rightarrow> signed_event \<Rightarrow> bool" where
  "retracts before a y \<longleftrightarrow> sg_event y = RetractRelation (ra_id a) \<and> sg_author y = ra_author a \<and>
     before (ra_id a) (sg_operation y)"

definition withdrawn :: "(id32 \<Rightarrow> id32 \<Rightarrow> bool) \<Rightarrow> signed_event list \<Rightarrow> relation_assertion \<Rightarrow> relation_assertion" where
  "withdrawn before xs a = a\<lparr>ra_retractions := map retraction_of (filter (retracts before a) xs)\<rparr>"

definition assertions_upheld :: "(id32 \<Rightarrow> id32 \<Rightarrow> bool) \<Rightarrow> id32 \<Rightarrow> signed_event list \<Rightarrow> signed_event list \<Rightarrow> relation_assertion list" where
  "assertions_upheld before scope all xs =
     filter (upheld before (catalog_of before scope all) (documents_of all)) (List.map_filter (assertion_of scope) xs)"

definition relations_spec :: "(id32 \<Rightarrow> id32 \<Rightarrow> bool) \<Rightarrow> id32 \<Rightarrow> signed_event list \<Rightarrow> relation_assertion list" where
  "relations_spec before scope xs = map (withdrawn before xs) (assertions_upheld before scope xs xs)"

lemma documents_of_snoc: "documents_of (xs @ [x]) = (case captured_document (sg_event x) of
    Some d \<Rightarrow> (documents_of xs)(sg_operation x \<mapsto> d) | None \<Rightarrow> documents_of xs)"
  by (simp add: documents_of_def split: option.split)

lemma documents_of_Some: "causal_events before xs \<Longrightarrow> documents_of xs i = Some d \<longleftrightarrow>
    (\<exists>x \<in> set xs. sg_operation x = i \<and> captured_document (sg_event x) = Some d)"
proof (induction xs rule: rev_induct)
  case Nil
  then show ?case by (simp add: documents_of_def)
next
  case (snoc x xs)
  then show ?case by (auto simp: documents_of_snoc causal_events_snoc split: option.splits)
qed

lemma assertion_of_fields:
  "assertion_of scope x = Some a \<Longrightarrow> ra_id a = sg_operation x \<and> ra_operation a = sg_operation x \<and>
     ra_author a = sg_author x \<and> ra_retractions a = [] \<and> ra_scope a = scope"
  by (auto simp: assertion_of_def split: sync_event.splits)

text \<open>What an event adds to the catalog or to the documents does not bear on what has not seen it.\<close>

lemma asserted_predicate_Inr:
  assumes "distinct (map pd_id (pc_definitions c))"
  shows "validate_asserted_predicate c before (Defined i) o' = Inr u \<longleftrightarrow>
    (\<exists>d \<in> set (pc_definitions c). pd_id d = i \<and> before i o' \<and>
       \<not> (\<exists>e \<in> set (pc_definitions c). pd_root e = pd_root d \<and> pd_replaced_by e \<noteq> None \<and> before (pd_id e) o'))"
proof (cases "catalog_definition c i")
  case None
  then have "\<not> (\<exists>d \<in> set (pc_definitions c). pd_id d = i)" by (auto simp: catalog_definition_def find_None_all)
  with None show ?thesis by (auto simp: validate_asserted_predicate_def root_of_def)
next
  case (Some d)
  then have "e \<in> set (pc_definitions c) \<and> pd_id e = i \<longleftrightarrow> e = d" for e
    by (metis catalog_definition_Some [OF assms] option.inject)
  then have "(\<exists>e \<in> set (pc_definitions c). pd_id e = i \<and> P e) \<longleftrightarrow> P d" for P by metis
  with Some show ?thesis by (simp add: validate_asserted_predicate_def root_of_def list_ex_iff)
qed

lemma asserted_predicate_later:
  assumes ok: "catalog_ok scope (xs @ [y]) (pc_definitions (catalog_of before scope (xs @ [y])))"
    and "catalog_ok scope xs (pc_definitions (catalog_of before scope xs))" and y: "\<not> before (sg_operation y) o'"
  shows "validate_asserted_predicate (catalog_of before scope (xs @ [y])) before p o' = Inr () \<longleftrightarrow>
    validate_asserted_predicate (catalog_of before scope xs) before p o' = Inr ()"
proof (cases p)
  case (Defined i)
  from assms have distinct: "distinct (map pd_id (pc_definitions (catalog_of before scope xs)))"
    "distinct (map pd_id (pc_definitions (catalog_of before scope (xs @ [y]))))" by (simp_all add: catalog_ok_def)
  show ?thesis
  proof (cases "admits before scope (catalog_of before scope xs) y")
    case None
    then show ?thesis unfolding Defined asserted_predicate_Inr [OF distinct(1)] asserted_predicate_Inr [OF distinct(2)]
      by (simp add: catalog_of_snoc)
  next
    fix d assume d: "admits before scope (catalog_of before scope xs) y = Some d"
    then have "\<not> before (pd_id d) o'" using y distinct(1) by (auto simp: admits_Some fold_predicate_definition_Inr)
    with d show ?thesis unfolding Defined asserted_predicate_Inr [OF distinct(1)] asserted_predicate_Inr [OF distinct(2)]
      by (auto simp: catalog_of_snoc)
  qed
qed (simp_all add: validate_asserted_predicate_def)

lemma capture_Inr: "validate_relation_capture a docs before = Inr u \<longleftrightarrow>
    (\<forall>(role, e) \<in> {(''subject'', ra_subject a), (''object'', ra_object a)}. \<exists>d. docs (rn_document_head e) = Some d \<and>
       vd_id d = rn_document_id e \<and> before (rn_document_head e) (ra_operation a) \<and> validate_endpoint_capture e d role = Inr ())"
  by (auto simp: validate_relation_capture_def ok_iff split: option.splits if_splits)

lemma upheld_later:
  assumes "causal_events before (xs @ [y])" and y: "\<not> before (sg_operation y) (ra_operation a)"
  shows "upheld before (catalog_of before scope (xs @ [y])) (documents_of (xs @ [y])) a \<longleftrightarrow>
    upheld before (catalog_of before scope xs) (documents_of xs) a"
proof -
  have "causal_events before xs" using assms(1) by (simp add: causal_events_snoc)
  note ok = catalog_of_ok [OF assms(1), of scope] catalog_of_ok [OF this, of scope]
  have "before k (ra_operation a) \<Longrightarrow> documents_of (xs @ [y]) k = documents_of xs k" for k
    using y by (auto simp: documents_of_snoc split: option.split)
  then have "validate_relation_capture a (documents_of (xs @ [y])) before = Inr () \<longleftrightarrow>
      validate_relation_capture a (documents_of xs) before = Inr ()"
    unfolding capture_Inr by auto
  with asserted_predicate_later [OF ok y] show ?thesis by (simp add: upheld_def)
qed

lemma map_filter_snoc: "List.map_filter f (xs @ [y]) = List.map_filter f xs @ (case f y of None \<Rightarrow> [] | Some a \<Rightarrow> [a])"
  by (simp add: List.map_filter_def split: option.split)

lemma in_map_filter: "a \<in> set (List.map_filter f xs) \<longleftrightarrow> (\<exists>x \<in> set xs. f x = Some a)"
  by (force simp: List.map_filter_def)

lemma assertions_upheld_snoc:
  assumes "causal_events before (xs @ [y])"
  shows "assertions_upheld before scope (xs @ [y]) (xs @ [y]) = assertions_upheld before scope xs xs @
    (case assertion_of scope y of None \<Rightarrow> [] | Some a \<Rightarrow>
       if upheld before (catalog_of before scope xs) (documents_of xs) a then [a] else [])"
proof -
  have "\<not> before (sg_operation y) (ra_operation a)" if "a \<in> set (List.map_filter (assertion_of scope) (xs @ [y]))" for a
    using that assms by (auto simp: in_map_filter causal_events_snoc dest!: assertion_of_fields)
  then have "filter (upheld before (catalog_of before scope (xs @ [y])) (documents_of (xs @ [y])))
        (List.map_filter (assertion_of scope) (xs @ [y])) =
      filter (upheld before (catalog_of before scope xs) (documents_of xs)) (List.map_filter (assertion_of scope) (xs @ [y]))"
    by (intro filter_cong refl upheld_later [OF assms])
  then show ?thesis by (simp add: assertions_upheld_def map_filter_snoc split: option.split)
qed

section \<open>The fold computes them\<close>

text \<open>Where the loop has put an assertion, as pairs of its identity and its state.\<close>

definition slots :: "(id32 \<times> id32) list \<Rightarrow> (nat \<Rightarrow> relation_location) \<Rightarrow> (id32 \<times> relation_state) set" where
  "slots ks loc = (\<lambda>n. (fst (ks ! n), \<lparr>rs_author = snd (ks ! n), rs_location = loc n\<rparr>)) ` {..<length ks}"

definition name_and_author :: "relation_assertion \<Rightarrow> id32 \<times> id32" where
  "name_and_author a = (ra_id a, ra_author a)"

definition located :: "relation_replay \<Rightarrow> bool" where
  "located st \<longleftrightarrow> Map.graph (rr_assertions st) = slots (map name_and_author (rf_relations st)) Valid \<union>
     slots (map (name_and_author \<circ> un_assertion) (rf_unverified st)) Unverified"

definition known_ids :: "relation_replay \<Rightarrow> signed_event list \<Rightarrow> bool" where
  "known_ids st xs \<longleftrightarrow> dom (rr_assertions st) \<subseteq> sg_operation ` set xs"

definition replayed :: "(id32 \<Rightarrow> id32 \<Rightarrow> bool) \<Rightarrow> id32 \<Rightarrow> signed_event list \<Rightarrow> relation_replay \<Rightarrow> bool" where
  "replayed before scope xs st \<longleftrightarrow> rf_catalog st = catalog_of before scope xs \<and> rr_documents st = documents_of xs \<and>
     rf_relations st = relations_spec before scope xs \<and> located st \<and> known_ids st xs"

lemma replayed_Nil: "replayed before scope [] no_relations"
  by (simp add: replayed_def no_relations_def catalog_of_def documents_of_def relations_spec_def
      assertions_upheld_def List.map_filter_def located_def known_ids_def slots_def)

lemma withdrawn_fields [simp]: "ra_id (withdrawn before xs a) = ra_id a" "ra_author (withdrawn before xs a) = ra_author a"
  by (simp_all add: withdrawn_def)

lemma retraction_fields [simp]: "ra_id (push_retraction r a) = ra_id a" "ra_author (push_retraction r a) = ra_author a"
  by (simp_all add: push_retraction_def)

lemma withdrawn_snoc: "withdrawn before (xs @ [y]) a =
    (if retracts before a y then push_retraction (retraction_of y) (withdrawn before xs a) else withdrawn before xs a)"
  by (simp add: withdrawn_def push_retraction_def)

lemma relations_spec_same:
  assumes "causal_events before (xs @ [y])" and "assertion_of scope y = None" and "\<And>i. sg_event y \<noteq> RetractRelation i"
  shows "relations_spec before scope (xs @ [y]) = relations_spec before scope xs"
proof -
  have "\<not> retracts before a y" for a using assms(3) by (simp add: retracts_def)
  then show ?thesis using assms(1,2) by (simp add: relations_spec_def assertions_upheld_snoc withdrawn_snoc)
qed

lemma relations_spec_assert:
  assumes causal: "causal_events before (xs @ [y])" and a: "assertion_of scope y = Some a"
  shows "relations_spec before scope (xs @ [y]) = relations_spec before scope xs @
    (if upheld before (catalog_of before scope xs) (documents_of xs) a then [a] else [])"
proof -
  have none: "\<not> retracts before b y" for b using a by (auto simp: retracts_def assertion_of_def)
  have "filter (retracts before a) xs = []"
    using causal assertion_of_fields [OF a] by (auto simp: filter_empty_conv retracts_def causal_events_snoc)
  then have "withdrawn before xs a = a" using assertion_of_fields [OF a] by (simp add: withdrawn_def)
  with none a show ?thesis by (simp add: relations_spec_def assertions_upheld_snoc [OF causal] withdrawn_snoc)
qed

lemma relations_spec_retract:
  assumes causal: "causal_events before (xs @ [y])" and y: "sg_event y = RetractRelation i"
  shows "relations_spec before scope (xs @ [y]) = map (\<lambda>a. if ra_id a = i \<and> sg_author y = ra_author a \<and> before i (sg_operation y)
    then push_retraction (retraction_of y) a else a) (relations_spec before scope xs)"
proof -
  have none: "assertion_of scope y = None" using y by (simp add: assertion_of_def)
  have step: "withdrawn before (xs @ [y]) a = (if ra_id a = i \<and> sg_author y = ra_author a \<and> before i (sg_operation y)
      then push_retraction (retraction_of y) (withdrawn before xs a) else withdrawn before xs a)" for a
    using y by (auto simp: withdrawn_snoc retracts_def)
  show ?thesis unfolding relations_spec_def assertions_upheld_snoc [OF causal] none
    by (simp add: step)
qed

lemma slots_snoc: "slots (ks @ [(i, w)]) loc = insert (i, \<lparr>rs_author = w, rs_location = loc (length ks)\<rparr>) (slots ks loc)"
  by (auto simp: slots_def lessThan_Suc nth_append)

lemma located_append:
  assumes "located st" and "known_ids st xs" and "ra_id a \<notin> sg_operation ` set xs"
  shows "located (st\<lparr>rf_relations := rf_relations st @ [a], rr_assertions := (rr_assertions st)(ra_id a \<mapsto>
      \<lparr>rs_author = ra_author a, rs_location = Valid (length (rf_relations st))\<rparr>)\<rparr>)"
    and "located (st\<lparr>rf_unverified := rf_unverified st @ [\<lparr>un_assertion = a, un_reason = r\<rparr>], rr_assertions :=
      (rr_assertions st)(ra_id a \<mapsto> \<lparr>rs_author = ra_author a, rs_location = Unverified (length (rf_unverified st))\<rparr>)\<rparr>)"
proof -
  have "rr_assertions st (ra_id a) = None" using assms(2,3) by (auto simp: known_ids_def)
  then have "Map.graph ((rr_assertions st)(ra_id a \<mapsto> s)) = insert (ra_id a, s) (Map.graph (rr_assertions st))" for s
    by (simp add: graph_map_upd fun_upd_idem)
  with assms(1) show "located (st\<lparr>rf_relations := rf_relations st @ [a], rr_assertions := (rr_assertions st)(ra_id a \<mapsto>
      \<lparr>rs_author = ra_author a, rs_location = Valid (length (rf_relations st))\<rparr>)\<rparr>)"
    "located (st\<lparr>rf_unverified := rf_unverified st @ [\<lparr>un_assertion = a, un_reason = r\<rparr>], rr_assertions :=
      (rr_assertions st)(ra_id a \<mapsto> \<lparr>rs_author = ra_author a, rs_location = Unverified (length (rf_unverified st))\<rparr>)\<rparr>)"
    by (simp_all add: located_def name_and_author_def slots_snoc)
qed

lemma located_update:
  "n < length xs \<Longrightarrow> name_and_author b = name_and_author (xs ! n) \<Longrightarrow> map name_and_author (xs[n := b]) = map name_and_author xs"
  by (simp add: map_update) (metis list_update_id map_update nth_map)

text \<open>An assertion that is found is where its state says.\<close>

lemma located_Some:
  assumes "located st" and "rr_assertions st i = Some s"
  shows "(\<exists>n < length (rf_relations st). ra_id (rf_relations st ! n) = i \<and> s = \<lparr>rs_author = ra_author (rf_relations st ! n), rs_location = Valid n\<rparr>) \<or>
    (\<exists>n < length (rf_unverified st). ra_id (un_assertion (rf_unverified st ! n)) = i \<and>
      s = \<lparr>rs_author = ra_author (un_assertion (rf_unverified st ! n)), rs_location = Unverified n\<rparr>)"
proof -
  from assms(2) have "(i, s) \<in> Map.graph (rr_assertions st)" by (simp add: in_graphI)
  with assms(1) show ?thesis unfolding located_def slots_def by (auto simp: name_and_author_def)
qed

lemma located_relation:
  assumes "located st" and "n < length (rf_relations st)"
  shows "rr_assertions st (ra_id (rf_relations st ! n)) = Some \<lparr>rs_author = ra_author (rf_relations st ! n), rs_location = Valid n\<rparr>"
proof -
  from assms(2) have "(ra_id (rf_relations st ! n), \<lparr>rs_author = ra_author (rf_relations st ! n), rs_location = Valid n\<rparr>) \<in>
      slots (map name_and_author (rf_relations st)) Valid"
    by (force simp: slots_def name_and_author_def)
  with assms(1) show ?thesis by (auto simp: located_def intro: in_graphD)
qed

lemma catalog_of_other: "(\<And>p. sg_event y \<noteq> DefinePredicate p) \<Longrightarrow> catalog_of before scope (xs @ [y]) = catalog_of before scope xs"
  by (simp add: catalog_of_def catalog_step_def split: sync_event.split)

lemma known_ids_later: "known_ids st xs \<Longrightarrow> rr_assertions st' = rr_assertions st \<Longrightarrow> known_ids st' (xs @ [y])"
  by (auto simp: known_ids_def)

lemma known_ids_upd: "known_ids st xs \<Longrightarrow> rr_assertions st' = (rr_assertions st)(sg_operation y \<mapsto> s) \<Longrightarrow> known_ids st' (xs @ [y])"
  by (auto simp: known_ids_def)

lemma located_cong: "located st \<Longrightarrow> rr_assertions st' = rr_assertions st \<Longrightarrow>
    map name_and_author (rf_relations st') = map name_and_author (rf_relations st) \<Longrightarrow>
    map (name_and_author \<circ> un_assertion) (rf_unverified st') = map (name_and_author \<circ> un_assertion) (rf_unverified st) \<Longrightarrow> located st'"
  by (simp add: located_def)

lemma replayed_assert:
  assumes st: "replayed before scope xs st" and causal: "causal_events before (xs @ [y])" and a: "assertion_of scope y = Some a"
  shows "replayed before scope (xs @ [y]) (add_assertion before y a st)"
proof -
  note fields = assertion_of_fields [OF a]
  have kind: "sg_event y \<noteq> DefinePredicate p" "captured_document (sg_event y) = None" for p
    using a by (auto simp: assertion_of_def captured_document_def split: sync_event.splits)
  then have same: "catalog_of before scope (xs @ [y]) = catalog_of before scope xs" "documents_of (xs @ [y]) = documents_of xs"
    by (simp_all add: catalog_of_other documents_of_snoc)
  from st have located: "located st" and known: "known_ids st xs" by (simp_all add: replayed_def)
  have fresh: "ra_id a \<notin> sg_operation ` set xs" using causal fields by (auto simp: causal_events_snoc)
  note append = located_append [OF located known fresh]
  have refused: "replayed before scope (xs @ [y]) (reject_relation y r st)" if "\<not> upheld before (rf_catalog st) (rr_documents st) a" for r
    using st that same relations_spec_assert [OF causal a] known_ids_later [OF known]
      located_cong [OF located, of "reject_relation y r st"]
    by (simp add: replayed_def reject_relation_def)
  show ?thesis
  proof (cases "and_then (validate_relation_payload (ra_predicate a) (ra_subject a) (ra_object a))
        (\<lambda>_. validate_asserted_predicate (rf_catalog st) before (ra_predicate a) (sg_operation y))")
    case (Inl r)
    then have "\<not> upheld before (rf_catalog st) (rr_documents st) a"
      using fields by (auto simp: upheld_def)
    with refused Inl show ?thesis by (simp add: add_assertion_def)
  next
    case (Inr u)
    note first = this
    then have up: "upheld before (rf_catalog st) (rr_documents st) a \<longleftrightarrow> validate_relation_capture a (rr_documents st) before = Inr ()"
      using fields by (auto simp: upheld_def ok_iff)
    show ?thesis
    proof (cases "validate_relation_capture a (rr_documents st) before")
      case (Inr v)
      with up st relations_spec_assert [OF causal a] have "relations_spec before scope (xs @ [y]) = rf_relations st @ [a]"
        by (simp add: replayed_def)
      with first Inr st same append(1) known_ids_upd [OF known] fields show ?thesis
        by (simp add: add_assertion_def replayed_def)
    next
      case (Inl e)
      show ?thesis
      proof (cases e)
        case (Rejected r)
        with refused first Inl up show ?thesis by (simp add: add_assertion_def)
      next
        case (Unverifiable r)
        from Inl up st relations_spec_assert [OF causal a] have "relations_spec before scope (xs @ [y]) = rf_relations st"
          by (simp add: replayed_def)
        with first Inl Unverifiable st same append(2) known_ids_upd [OF known] fields show ?thesis
          by (simp add: add_assertion_def replayed_def)
      qed
    qed
  qed
qed

lemma map_update_at:
  assumes "n < length xs" and "\<And>m. m < length xs \<Longrightarrow> P (xs ! m) \<longleftrightarrow> m = n"
  shows "map (\<lambda>a. if P a then f a else a) xs = xs[n := f (xs ! n)]"
  using assms by (intro nth_equalityI) (auto simp: nth_list_update)

lemma map_update_none: "(\<And>m. m < length xs \<Longrightarrow> \<not> P (xs ! m)) \<Longrightarrow> map (\<lambda>a. if P a then f a else a) xs = xs"
  by (intro nth_equalityI) auto

lemma replayed_retract:
  assumes st: "replayed before scope xs st" and causal: "causal_events before (xs @ [y])" and y: "sg_event y = RetractRelation i"
  shows "\<exists>st'. add_retraction before y i st = Done st' \<and> replayed before scope (xs @ [y]) st'"
proof -
  let ?hit = "\<lambda>a. ra_id a = i \<and> sg_author y = ra_author a \<and> before i (sg_operation y)"
  from st have located: "located st" and known: "known_ids st xs" and
    rel: "relations_spec before scope (xs @ [y]) = map (\<lambda>a. if ?hit a then push_retraction (retraction_of y) a else a) (rf_relations st)"
    using relations_spec_retract [OF causal y] by (simp_all add: replayed_def)
  have same: "catalog_of before scope (xs @ [y]) = rf_catalog st" "documents_of (xs @ [y]) = rr_documents st"
    using st y by (simp_all add: replayed_def catalog_of_other documents_of_snoc captured_document_def)
  have at: "rr_assertions st i = Some \<lparr>rs_author = sg_author y, rs_location = Valid m\<rparr> \<and> before i (sg_operation y)"
    if "m < length (rf_relations st)" "?hit (rf_relations st ! m)" for m
    using located_relation [OF located that(1)] that(2) by auto
  have kept: "replayed before scope (xs @ [y]) st'" if "rf_catalog st' = rf_catalog st" "rr_documents st' = rr_documents st"
    "rr_assertions st' = rr_assertions st" "rf_relations st' = relations_spec before scope (xs @ [y])"
    "map name_and_author (rf_relations st') = map name_and_author (rf_relations st)"
    "map (name_and_author \<circ> un_assertion) (rf_unverified st') = map (name_and_author \<circ> un_assertion) (rf_unverified st)" for st'
    using that same located_cong [OF located that(3,5,6)] known_ids_later [OF known that(3)] by (simp add: replayed_def)
  have refused: "replayed before scope (xs @ [y]) (reject_relation y r st)"
    if "\<And>m. m < length (rf_relations st) \<Longrightarrow> \<not> ?hit (rf_relations st ! m)" for r
    by (rule kept) (simp_all add: reject_relation_def rel map_update_none [where P = ?hit, OF that])
  show ?thesis
  proof (cases "rr_assertions st i")
    case None
    with at have "\<not> ?hit (rf_relations st ! m)" if "m < length (rf_relations st)" for m using that by fastforce
    with refused None show ?thesis by (simp add: add_retraction_def)
  next
    case (Some s)
    show ?thesis
    proof (cases "rs_author s = sg_author y \<and> before i (sg_operation y)")
      case False
      with at Some have "\<not> ?hit (rf_relations st ! m)" if "m < length (rf_relations st)" for m using that by fastforce
      with refused Some False show ?thesis by (auto simp: add_retraction_def)
    next
      case True
      from located_Some [OF located Some] show ?thesis
      proof (elim disjE exE conjE)
        fix n assume n: "n < length (rf_relations st)" "ra_id (rf_relations st ! n) = i"
          "s = \<lparr>rs_author = ra_author (rf_relations st ! n), rs_location = Valid n\<rparr>"
        have "?hit (rf_relations st ! m) \<longleftrightarrow> m = n" if "m < length (rf_relations st)" for m
          using at [OF that] Some n True by auto
        then have "relations_spec before scope (xs @ [y]) =
            (rf_relations st)[n := push_retraction (retraction_of y) (rf_relations st ! n)]"
          unfolding rel by (rule map_update_at [OF n(1)])
        moreover have "map name_and_author ((rf_relations st)[n := push_retraction (retraction_of y) (rf_relations st ! n)]) =
            map name_and_author (rf_relations st)"
          by (rule located_update [OF n(1)]) (simp add: name_and_author_def)
        ultimately show ?thesis using n True Some by (simp add: add_retraction_def kept)
      next
        fix n assume n: "n < length (rf_unverified st)" "ra_id (un_assertion (rf_unverified st ! n)) = i"
          "s = \<lparr>rs_author = ra_author (un_assertion (rf_unverified st ! n)), rs_location = Unverified n\<rparr>"
        let ?u = "rf_unverified st ! n"
        have "\<not> ?hit (rf_relations st ! m)" if "m < length (rf_relations st)" for m
          using at [OF that] Some n by auto
        then have "rf_relations st = relations_spec before scope (xs @ [y])"
          unfolding rel by (rule map_update_none [where P = ?hit, symmetric])
        moreover have "map (name_and_author \<circ> un_assertion)
            ((rf_unverified st)[n := ?u\<lparr>un_assertion := push_retraction (retraction_of y) (un_assertion ?u)\<rparr>]) =
            map (name_and_author \<circ> un_assertion) (rf_unverified st)"
          using n(1) by (simp add: map_update name_and_author_def list_update_same_conv)
        ultimately show ?thesis using n True Some by (simp add: add_retraction_def Let_def kept)
      qed
    qed
  qed
qed

lemma replayed_other:
  assumes st: "replayed before scope xs st" and causal: "causal_events before (xs @ [y])"
    and y: "assertion_of scope y = None" "\<And>i. sg_event y \<noteq> RetractRelation i"
    and st': "st' = st\<lparr>rf_catalog := catalog_of before scope (xs @ [y]), rr_documents := documents_of (xs @ [y])\<rparr>"
  shows "replayed before scope (xs @ [y]) st'"
  using st relations_spec_same [OF causal y] located_cong [of st st'] known_ids_later [of st xs st' y]
  by (simp add: replayed_def st')

lemma fold_relation_other:
  assumes "assertion_of scope y = None" and "\<forall>i. sg_event y \<noteq> RetractRelation i" and "\<forall>p. sg_event y \<noteq> DefinePredicate p"
  shows "fold_relation before scope y st = Done (st\<lparr>rr_documents := (case captured_document (sg_event y) of
    Some d \<Rightarrow> (rr_documents st)(sg_operation y \<mapsto> d) | None \<Rightarrow> rr_documents st)\<rparr>)"
  using assms by (cases "sg_event y") (simp_all add: fold_relation_def assertion_of_def split: option.split)

lemma replayed_step:
  assumes st: "replayed before scope xs st" and causal: "causal_events before (xs @ [y])"
  shows "\<exists>st'. fold_relation before scope y st = Done st' \<and> replayed before scope (xs @ [y]) st'"
proof -
  from st have cat: "rf_catalog st = catalog_of before scope xs" and docs: "rr_documents st = documents_of xs"
    by (simp_all add: replayed_def)
  have other: "replayed before scope (xs @ [y])
      (st\<lparr>rf_catalog := catalog_of before scope (xs @ [y]), rr_documents := documents_of (xs @ [y])\<rparr>)"
    if "assertion_of scope y = None" "\<And>i. sg_event y \<noteq> RetractRelation i"
    using replayed_other [OF st causal that] by simp
  consider p where "sg_event y = DefinePredicate p" | i where "sg_event y = RetractRelation i"
    | p s q e l where "sg_event y = AssertRelation p s q e l"
    | "assertion_of scope y = None" "\<forall>i. sg_event y \<noteq> RetractRelation i" "\<forall>p. sg_event y \<noteq> DefinePredicate p"
    by (cases "sg_event y") (auto simp: assertion_of_def)
  then show ?thesis
  proof cases
    case (3 p s q e l)
    then obtain a where a: "assertion_of scope y = Some a" by (simp add: assertion_of_def)
    from replayed_assert [OF st causal a] 3 a show ?thesis by (simp add: fold_relation_def)
  next
    case (2 i)
    with replayed_retract [OF st causal this] show ?thesis by (simp add: fold_relation_def)
  next
    case (1 p)
    then have "catalog_of before scope (xs @ [y]) = add_definition before scope y p (rf_catalog st)"
      "documents_of (xs @ [y]) = rr_documents st"
      by (simp_all add: catalog_of_def catalog_step_def cat [unfolded catalog_of_def] documents_of_snoc captured_document_def docs)
    with other 1 show ?thesis by (simp add: fold_relation_def assertion_of_def)
  next
    case 4
    have "st\<lparr>rf_catalog := catalog_of before scope xs, rr_documents := d\<rparr> = st\<lparr>rr_documents := d\<rparr>" for d
      by (simp flip: cat)
    with other 4 show ?thesis unfolding fold_relation_other [OF 4] docs
      by (simp add: catalog_of_other documents_of_snoc)
  qed
qed

lemma replay_snoc: "replay_relations before scope (xs @ [x]) st = chain (replay_relations before scope xs st) (fold_relation before scope x)"
proof (induction xs arbitrary: st)
  case Nil
  show ?case by (cases "fold_relation before scope x st") simp_all
next
  case (Cons y xs)
  then show ?case by (cases "fold_relation before scope y st") simp_all
qed

lemma replay_replayed:
  "causal_events before xs \<Longrightarrow> \<exists>st. replay_relations before scope xs no_relations = Done st \<and> replayed before scope xs st"
proof (induction xs rule: rev_induct)
  case Nil
  then show ?case by (simp add: replayed_Nil)
next
  case (snoc y xs)
  then obtain st where "replay_relations before scope xs no_relations = Done st" "replayed before scope xs st"
    by (auto simp: causal_events_snoc)
  with replayed_step [OF this(2) snoc.prems] show ?case by (simp add: replay_snoc)
qed

text \<open>The fold returns, and its relations and its catalog are the described ones.\<close>

lemma fold_relations_exact:
  assumes "causal_events before xs"
  shows "\<exists>f. fold_relations before scope xs = Done f \<and> rf_relations f = relations_spec before scope xs \<and>
    rf_catalog f = catalog_of before scope xs"
  using replay_replayed [OF assms, of scope] by (auto simp: fold_relations_def relation_fold.truncate_def replayed_def)

section \<open>Replicas agree\<close>

lemma upheld_same:
  assumes "causal_events before xs" and "causal_events before ys" and "set xs = set ys"
  shows "upheld before (catalog_of before scope xs) (documents_of xs) = upheld before (catalog_of before scope ys) (documents_of ys)"
proof -
  have "documents_of xs i = Some d \<longleftrightarrow> documents_of ys i = Some d" for i d
    using documents_of_Some [OF assms(1)] documents_of_Some [OF assms(2)] assms(3) by simp
  then have docs: "documents_of xs = documents_of ys" by (metis ext not_None_eq)
  have distinct: "distinct (map pd_id (pc_definitions (catalog_of before scope xs)))"
    "distinct (map pd_id (pc_definitions (catalog_of before scope ys)))"
    using catalog_of_ok [OF assms(1)] catalog_of_ok [OF assms(2)] by (auto simp: catalog_ok_def)
  have "validate_asserted_predicate (catalog_of before scope xs) before p i = Inr () \<longleftrightarrow>
      validate_asserted_predicate (catalog_of before scope ys) before p i = Inr ()" for p i
  proof (cases p)
    case (Defined k)
    show ?thesis unfolding Defined asserted_predicate_Inr [OF distinct(1)] asserted_predicate_Inr [OF distinct(2)] catalog_same [OF assms] ..
  qed (simp_all add: validate_asserted_predicate_def)
  then show ?thesis by (simp add: upheld_def docs fun_eq_iff)
qed

lemma withdrawn_same:
  assumes "causal_events before xs" and "causal_events before ys" and "set xs = set ys"
  shows "withdrawn before xs = withdrawn before ys"
proof -
  have "filter (retracts before a) xs = filter (retracts before a) ys" for a
    by (rule causal_filter_same [OF assms, of _ "ra_author a"]) (simp add: retracts_def)
  then show ?thesis by (simp add: withdrawn_def fun_eq_iff)
qed

lemma relations_spec_set:
  assumes "causal_events before xs" and "causal_events before ys" and "set xs = set ys"
  shows "set (relations_spec before scope xs) = set (relations_spec before scope ys)"
proof -
  have "set (List.map_filter (assertion_of scope) xs) = set (List.map_filter (assertion_of scope) ys)"
    using assms(3) by (auto simp: in_map_filter)
  then show ?thesis
    by (simp add: relations_spec_def assertions_upheld_def upheld_same [OF assms] withdrawn_same [OF assms])
qed

section \<open>Nothing is lost\<close>

fun is_relation_event :: "sync_event \<Rightarrow> bool" where
  "is_relation_event (AssertRelation _ _ _ _ _) = True"
| "is_relation_event (RetractRelation _) = True"
| "is_relation_event _ = False"

definition retraction_operations :: "relation_assertion \<Rightarrow> id32 multiset" where
  "retraction_operations a = mset (map rt_operation (ra_retractions a))"

definition accounted :: "'a relation_fold_scheme \<Rightarrow> id32 multiset" where
  "accounted f = mset (map ra_id (rf_relations f)) + mset (map (ra_id \<circ> un_assertion) (rf_unverified f)) +
     mset (map rj_operation (rf_rejected f)) +
     (\<Sum>a \<leftarrow> rf_relations f. retraction_operations a) + (\<Sum>u \<leftarrow> rf_unverified f. retraction_operations (un_assertion u))"

lemma sum_update_add:
  fixes f :: "'a \<Rightarrow> 'b multiset"
  assumes "n < length xs" and "f b = add_mset x (f (xs ! n))"
  shows "(\<Sum>a \<leftarrow> xs[n := b]. f a) = add_mset x (\<Sum>a \<leftarrow> xs. f a)"
  using assms
proof (induction xs arbitrary: n)
  case (Cons c cs)
  then show ?case by (cases n) simp_all
qed simp

lemma map_update_same: "n < length xs \<Longrightarrow> f b = f (xs ! n) \<Longrightarrow> map f (xs[n := b]) = map f xs"
  by (metis list_update_id map_update nth_map)

lemma accounted_add: "ra_id a = sg_operation x \<Longrightarrow> ra_retractions a = [] \<Longrightarrow>
    accounted (add_assertion before x a st) = add_mset (sg_operation x) (accounted st)"
  by (auto simp: add_assertion_def accounted_def reject_relation_def retraction_operations_def
      split: sum.split capture_error.split)

lemma accounted_reject: "accounted (reject_relation x r st) = add_mset (sg_operation x) (accounted st)"
  by (simp add: reject_relation_def accounted_def)

lemma accounted_retract:
  assumes "add_retraction before x i st = Done st'"
  shows "accounted st' = add_mset (sg_operation x) (accounted st)"
proof -
  have push: "retraction_operations (push_retraction (retraction_of x) a) = add_mset (sg_operation x) (retraction_operations a)" for a
    by (simp add: retraction_operations_def push_retraction_def retraction_of_def)
  consider r where "st' = reject_relation x r st" | s where "rr_assertions st i = Some s" "rs_author s = sg_author x" "before i (sg_operation x)"
    using assms by (auto simp: add_retraction_def split: option.splits if_splits)
  then show ?thesis
  proof cases
    case (1 r)
    then show ?thesis by (simp add: accounted_reject)
  next
    case (2 s)
    show ?thesis
    proof (cases "rs_location s")
      case (Valid n)
      with assms 2 have "n < length (rf_relations st)"
        "st' = st\<lparr>rf_relations := (rf_relations st)[n := push_retraction (retraction_of x) (rf_relations st ! n)]\<rparr>"
        by (auto simp: add_retraction_def split: if_splits)
      then show ?thesis by (simp add: accounted_def map_update_same sum_update_add push)
    next
      case (Unverified n)
      let ?u = "rf_unverified st ! n"
      from assms 2 Unverified have "n < length (rf_unverified st)"
        "st' = st\<lparr>rf_unverified := (rf_unverified st)[n := ?u\<lparr>un_assertion := push_retraction (retraction_of x) (un_assertion ?u)\<rparr>]\<rparr>"
        by (auto simp: add_retraction_def Let_def split: if_splits)
      then show ?thesis by (simp add: accounted_def map_update_same sum_update_add [where x = "sg_operation x"] push)
    qed
  qed
qed

lemma accounted_step:
  assumes "fold_relation before scope x st = Done st'"
  shows "accounted st' = (if is_relation_event (sg_event x) then {#sg_operation x#} else {#}) + accounted st"
proof (cases "is_relation_event (sg_event x)")
  case False
  with assms show ?thesis
    by (cases "sg_event x") (auto simp: fold_relation_def accounted_def split: option.splits)
next
  case True
  then consider a where "assertion_of scope x = Some a" | i where "sg_event x = RetractRelation i"
    by (cases "sg_event x") (auto simp: assertion_of_def)
  then show ?thesis
  proof cases
    case (1 a)
    then have "st' = add_assertion before x a st"
      using assms by (auto simp: fold_relation_def assertion_of_def split: sync_event.splits)
    with True accounted_add [of a x] assertion_of_fields [OF 1] show ?thesis by simp
  next
    case (2 i)
    with assms accounted_retract [of before x i st st'] True show ?thesis by (simp add: fold_relation_def)
  qed
qed

lemma accounted_replay: "replay_relations before scope xs st = Done st' \<Longrightarrow>
    accounted st' = mset (map sg_operation (filter (\<lambda>x. is_relation_event (sg_event x)) xs)) + accounted st"
proof (induction xs arbitrary: st)
  case (Cons x xs)
  then obtain st1 where "fold_relation before scope x st = Done st1" "replay_relations before scope xs st1 = Done st'"
    by (cases "fold_relation before scope x st") auto
  with Cons.IH accounted_step [OF this(1)] show ?case by (simp add: add.assoc)
qed simp

lemma fold_relations_accounted: "fold_relations before scope xs = Done f \<Longrightarrow>
    accounted f = mset (map sg_operation (filter (\<lambda>x. is_relation_event (sg_event x)) xs))"
  using accounted_replay [of before scope xs no_relations]
  by (auto simp: fold_relations_def map_done_eq_Done relation_fold.truncate_def accounted_def no_relations_def)

section \<open>What is kept of a passage\<close>

lemma endpoint_capture_slice: "validate_endpoint_capture e d role = Inr u \<Longrightarrow> rn_position e = Some p \<Longrightarrow>
    str_get (vd_body d) (rp_start p) (rp_end p) = Some (rn_quote e)"
  by (auto simp: validate_endpoint_capture_def Let_def split: if_splits option.splits)

lemma relation_capture_slice:
  assumes causal: "causal_events before xs" and run: "fold_relations before scope xs = Done f"
    and a: "a \<in> set (rf_relations f)" "e \<in> {ra_subject a, ra_object a}"
  shows "\<exists>x \<in> set xs. \<exists>d. sg_operation x = rn_document_head e \<and> before (rn_document_head e) (ra_operation a) \<and>
    captured_document (sg_event x) = Some d \<and> vd_id d = rn_document_id e \<and>
    (\<forall>p. rn_position e = Some p \<longrightarrow> str_get (vd_body d) (rp_start p) (rp_end p) = Some (rn_quote e))"
proof -
  from fold_relations_exact [OF causal, of scope] run have "rf_relations f = relations_spec before scope xs" by auto
  with a(1) obtain b where b: "upheld before (catalog_of before scope xs) (documents_of xs) b" "a = withdrawn before xs b"
    by (auto simp: relations_spec_def assertions_upheld_def)
  with a(2) have "e \<in> {ra_subject b, ra_object b}" "ra_operation a = ra_operation b" by (auto simp: withdrawn_def)
  with b(1) obtain d role where "documents_of xs (rn_document_head e) = Some d" "vd_id d = rn_document_id e"
    "before (rn_document_head e) (ra_operation a)" "validate_endpoint_capture e d role = Inr ()"
    by (auto simp: upheld_def capture_Inr)
  with documents_of_Some [OF causal] endpoint_capture_slice show ?thesis by blast
qed

section \<open>Properties\<close>

definition relation_before :: "id32 \<Rightarrow> id32 \<Rightarrow> bool" where
  "relation_before a b \<longleftrightarrow> (a, b) \<in> set [(''1'', ''2''), (''1'', ''3''), (''2'', ''3''), (''1'', ''4''), (''1'', ''5''), (''5'', ''6'')]"

definition passage :: relation_endpoint where
  "passage = \<lparr>rn_document_id = ''n'', rn_document_head = ''1'', rn_quote = ''el'',
     rn_position = Some \<lparr>rp_start = 1, rp_end = 3\<rparr>, rn_prefix = ''h'', rn_suffix = ''lo''\<rparr>"

definition whole_note :: relation_endpoint where
  "whole_note = \<lparr>rn_document_id = ''n'', rn_document_head = ''1'', rn_quote = [], rn_position = None,
     rn_prefix = [], rn_suffix = []\<rparr>"

definition signed :: "id32 \<Rightarrow> id32 \<Rightarrow> sync_event \<Rightarrow> signed_event" where
  "signed i w e = \<lparr>sg_operation = i, sg_author = w, sg_asserted_at_ms = None, sg_event = e\<rparr>"

definition relation_log :: "signed_event list" where
  "relation_log = [signed ''1'' ''A'' (Put (sample_note ''hello'')),
     signed ''2'' ''B'' (AssertRelation (Core Cites) passage whole_note None None),
     signed ''3'' ''B'' (RetractRelation ''2''),
     signed ''4'' ''C'' (AssertRelation (Core Quotes) whole_note passage None None)]"

definition relation_log_other :: "signed_event list" where
  "relation_log_other = [signed ''1'' ''A'' (Put (sample_note ''hello'')),
     signed ''4'' ''C'' (AssertRelation (Core Quotes) whole_note passage None None),
     signed ''2'' ''B'' (AssertRelation (Core Cites) passage whole_note None None),
     signed ''3'' ''B'' (RetractRelation ''2'')]"

lemma relation_log_causal: "causal_events relation_before relation_log" "causal_events relation_before relation_log_other"
  by (simp_all add: relation_log_def relation_log_other_def signed_def relation_before_def causal_events_def
      authored_event_def causal_list_def)

text \<open>
  C4: The relations that the fold keeps are exactly the assertions whose predicate is defined and not
  retired in what they have seen and whose passages are where they say, each with the retractions of
  its own author that have seen it; the description does not mention the order of the fold.
\<close>

theorem relations_exact:
  assumes "causal_events before xs"
  shows "map_done rf_relations (fold_relations before scope xs) = Done (relations_spec before scope xs)"
  using fold_relations_exact [OF assms, of scope] by auto

theorem relations_exact_witness:
  "map_done rf_relations (fold_relations relation_before ''s'' relation_log) = Done (relations_spec relation_before ''s'' relation_log)"
  by (rule relations_exact [OF relation_log_causal(1)])

text \<open>
  C16: Two replicas with the same events keep the same relations, with the same retractions, whichever
  causal orders they fold them in.
\<close>

theorem relations_converge:
  assumes "causal_events before xs" and "causal_events before ys" and "set xs = set ys"
    and "fold_relations before scope xs = Done f" and "fold_relations before scope ys = Done g"
  shows "set (rf_relations f) = set (rf_relations g)"
proof -
  from fold_relations_exact [OF assms(1), of scope] assms(4) have "rf_relations f = relations_spec before scope xs" by simp
  moreover from fold_relations_exact [OF assms(2), of scope] assms(5) have "rf_relations g = relations_spec before scope ys" by simp
  ultimately show ?thesis using relations_spec_set [OF assms(1-3), of scope] by simp
qed

theorem relations_converge_witness:
  "\<exists>f g. fold_relations relation_before ''s'' relation_log = Done f \<and> fold_relations relation_before ''s'' relation_log_other = Done g \<and>
    set (rf_relations f) = set (rf_relations g) \<and> map ra_id (rf_relations f) = [''2'', ''4'']"
proof -
  have "map_done (\<lambda>f. map ra_id (rf_relations f)) (fold_relations relation_before ''s'' relation_log) = Done [''2'', ''4'']"
    by code_simp
  then obtain f where f: "fold_relations relation_before ''s'' relation_log = Done f" "map ra_id (rf_relations f) = [''2'', ''4'']"
    by (auto simp: map_done_eq_Done)
  obtain g where g: "fold_relations relation_before ''s'' relation_log_other = Done g"
    using fold_relations_exact [OF relation_log_causal(2)] by blast
  have "set relation_log = set relation_log_other" by (auto simp: relation_log_def relation_log_other_def)
  from relations_converge [OF relation_log_causal this f(1) g] f g show ?thesis by (intro exI conjI)
qed

text \<open>
  C14: Every passage of a kept relation is authentic: the document was there when the relation was
  asserted, under the name that the relation gives, and the quoted text is the slice of its source at
  the given position.
\<close>

theorem quotes_are_slices:
  assumes "causal_events before xs" and "fold_relations before scope xs = Done f"
    and "a \<in> set (rf_relations f)" and "e \<in> {ra_subject a, ra_object a}" and "rn_position e = Some p"
  shows "\<exists>x \<in> set xs. \<exists>d. sg_operation x = rn_document_head e \<and> before (sg_operation x) (ra_operation a) \<and>
    captured_document (sg_event x) = Some d \<and> vd_id d = rn_document_id e \<and>
    str_get (vd_body d) (rp_start p) (rp_end p) = Some (rn_quote e)"
  using relation_capture_slice [OF assms(1-4)] assms(5) by fastforce

theorem quotes_are_slices_witness:
  "\<exists>x \<in> set relation_log. \<exists>d. sg_operation x = ''1'' \<and> captured_document (sg_event x) = Some d \<and>
    str_get (vd_body d) 1 3 = Some ''el''"
proof -
  have "map_done (\<lambda>f. map ra_subject (rf_relations f)) (fold_relations relation_before ''s'' relation_log) = Done [passage, whole_note]"
    by code_simp
  then obtain f where f: "fold_relations relation_before ''s'' relation_log = Done f"
    "map ra_subject (rf_relations f) = [passage, whole_note]"
    by (auto simp: map_done_eq_Done)
  have "passage \<in> set (map ra_subject (rf_relations f))" unfolding f(2) by simp
  then obtain a where a: "a \<in> set (rf_relations f)" "ra_subject a = passage" by auto
  have e: "passage \<in> {ra_subject a, ra_object a}" using a(2) by simp
  have p: "rn_position passage = Some \<lparr>rp_start = 1, rp_end = 3\<rparr>" by (simp add: passage_def)
  from quotes_are_slices [OF relation_log_causal(1) f(1) a(1) e p] show ?thesis by (auto simp: passage_def)
qed

text \<open>
  Every relation event is accounted for once: an assertion is kept, is unverified or is rejected,
  and a retraction is on an assertion or is rejected.
\<close>

theorem relation_accounting:
  assumes "fold_relations before scope xs = Done f"
  shows "accounted f = mset (map sg_operation (filter (\<lambda>x. is_relation_event (sg_event x)) xs))"
  using assms by (rule fold_relations_accounted)

theorem relation_accounting_witness:
  "\<exists>f. fold_relations relation_before ''s'' relation_log = Done f \<and> accounted f = {#''2'', ''3'', ''4''#}"
proof -
  obtain f where "fold_relations relation_before ''s'' relation_log = Done f"
    using fold_relations_exact [OF relation_log_causal(1)] by blast
  with relation_accounting [OF this] show ?thesis by (auto simp: relation_log_def signed_def add_mset_commute)
qed

text \<open>
  C17: A writer has at most one live predicate of a name: two definitions with the same author and the
  same slug whose chains are not retired belong to the same chain.
\<close>

theorem one_live_predicate:
  assumes "causal_events before xs" and "fold_relations before scope xs = Done f"
    and "d \<in> set (pc_definitions (rf_catalog f))" and "e \<in> set (pc_definitions (rf_catalog f))"
    and "pd_author d = pd_author e" and "pd_slug d = pd_slug e"
    and "\<not> is_retired (rf_catalog f) (pd_id d)" and "\<not> is_retired (rf_catalog f) (pd_id e)"
  shows "pd_root d = pd_root e"
proof -
  from fold_relations_exact [OF assms(1), of scope] assms(2) have f: "rf_catalog f = catalog_of before scope xs" by simp
  note ok = catalog_of_ok [OF assms(1), of scope, folded f]
  then have "distinct (map pd_id (pc_definitions (rf_catalog f)))" by (simp add: catalog_ok_def)
  note is_retired_iff [OF this assms(3)] is_retired_iff [OF this assms(4)]
  with ok assms(3-8) show ?thesis unfolding catalog_ok_def by blast
qed

definition sample_proposal :: "string \<Rightarrow> id32 option \<Rightarrow> predicate_proposal" where
  "sample_proposal label previous = \<lparr>pp_slug = ''rhymes'', pp_label = label, pp_description = None,
     pp_subproperty_of = None, pp_lowers_to = None, pp_supersedes = previous, pp_replaced_by = None\<rparr>"

definition predicate_log :: "signed_event list" where
  "predicate_log = [signed ''5'' ''D'' (DefinePredicate (sample_proposal ''rhymes'' None)),
     signed ''6'' ''D'' (DefinePredicate (sample_proposal ''rhymes with'' (Some ''5'')))]"

theorem one_live_predicate_witness:
  "\<exists>f d e. fold_relations relation_before ''s'' predicate_log = Done f \<and> pc_definitions (rf_catalog f) = [d, e] \<and>
    pd_root d = pd_root e"
proof -
  let ?view = "\<lambda>f. map (\<lambda>d. (pd_id d, pd_author d, pd_slug d, is_retired (rf_catalog f) (pd_id d))) (pc_definitions (rf_catalog f))"
  have causal: "causal_events relation_before predicate_log"
    by (simp add: predicate_log_def signed_def relation_before_def causal_events_def authored_event_def causal_list_def)
  have "map_done ?view (fold_relations relation_before ''s'' predicate_log) =
      Done [(''5'', ''D'', ''rhymes'', False), (''6'', ''D'', ''rhymes'', False)]" by code_simp
  then obtain f where f: "fold_relations relation_before ''s'' predicate_log = Done f"
    "?view f = [(''5'', ''D'', ''rhymes'', False), (''6'', ''D'', ''rhymes'', False)]"
    by (auto simp: map_done_eq_Done)
  from f(2) obtain d e where de: "pc_definitions (rf_catalog f) = [d, e]" "pd_author d = ''D''" "pd_author e = ''D''"
    "pd_slug d = ''rhymes''" "pd_slug e = ''rhymes''" "\<not> is_retired (rf_catalog f) (pd_id d)" "\<not> is_retired (rf_catalog f) (pd_id e)"
    by (auto simp: map_eq_Cons_conv)
  have "pd_root d = pd_root e" by (rule one_live_predicate [OF causal f(1)]) (simp_all add: de)
  with f(1) de(1) show ?thesis by blast
qed

end
