(* ===== verification/Peer_Projection.thy ===== *)
theory Peer_Projection
  imports Peer_Replay
begin

text \<open>
  A replica of a note space (\<open>KnotSyncStore\<close> in \<open>sync.rs\<close>): which operations it admits, how it decodes
  the closed ones, and the projection that it shows. The encryption, the encoding of events and the
  causal index belong to other packages and are arguments: what they unseal and decode, which stored
  operations are closed and in which order, and which operation happened before which.
\<close>

section \<open>Operations and ciphers\<close>

definition SYNC_AAD :: bytes where "SYNC_AAD = ''mere.knot.sync-operation.v1''"

datatype encryption_profile = PersonalVaultV1 | CommonsDataV1

datatype ('v, 'k) cipher = Personal 'v | CommonsData 'k

datatype strictness = Tolerant | Strict

record operation =
  op_hash :: id32
  op_author :: id32
  op_seq_num :: nat
  op_space_id :: id32
  op_encryption :: encryption_profile
  op_parents :: "id32 list"
  op_asserted_at_ms :: "nat option"
  op_body :: "bytes option"

record stored_operation =
  so_operation :: operation
  so_log_id :: nat

record ('v, 'k, 'e) codec =
  cd_unseal :: "'v \<Rightarrow> bytes \<Rightarrow> bytes \<Rightarrow> string + bytes"
  cd_envelope :: "bytes \<Rightarrow> string + 'e"
  cd_open :: "'k \<Rightarrow> 'e \<Rightarrow> string + bytes"
  cd_event :: "bytes \<Rightarrow> string + sync_event"

record causal_api =
  ca_closed :: "stored_operation list \<Rightarrow> string + nat list \<times> (id32 \<times> id32 list) list"
  ca_before :: "stored_operation list \<Rightarrow> id32 \<Rightarrow> id32 \<Rightarrow> bool"
  ca_frontier :: "stored_operation list \<Rightarrow> string + id32 list"

fun cipher_profile :: "('v, 'k) cipher \<Rightarrow> encryption_profile" where
  "cipher_profile (Personal _) = PersonalVaultV1"
| "cipher_profile (CommonsData _) = CommonsDataV1"

fun default_strictness :: "('v, 'k) cipher \<Rightarrow> strictness" where
  "default_strictness (Personal _) = Tolerant"
| "default_strictness (CommonsData _) = Strict"

datatype asserted_time = Now | At nat | NoTime

text \<open>The clock gives the milliseconds since the epoch, or fails.\<close>

fun resolve_time :: "nat option \<Rightarrow> asserted_time \<Rightarrow> nat option" where
  "resolve_time clock Now = clock"
| "resolve_time clock (At milliseconds) = Some milliseconds"
| "resolve_time clock NoTime = None"

fun show_sync_error :: "sync_error \<Rightarrow> string" where
  "show_sync_error (StoreError s) = s"
| "show_sync_error (ProcessError s) = s"
| "show_sync_error (CausalError s) = s"
| "show_sync_error (GroupCryptoError s) = s"
| "show_sync_error (PayloadError s) = ''sync payload: '' @ s"
| "show_sync_error WrongEncryptionProfile = ''sync cipher does not match the space's signed encryption profile''"
| "show_sync_error (InvalidResolution s) = ''invalid conflict resolution: '' @ s"
| "show_sync_error (InvalidRelation s) = ''invalid relation assertion: '' @ s"
| "show_sync_error (InvalidPredicate s) = ''invalid predicate definition: '' @ s"
| "show_sync_error (InvalidFileRevision s) = ''invalid file revision capture: '' @ s"
| "show_sync_error MissingCheckpoint = ''Knot sync has no durable projection checkpoint''"
| "show_sync_error CheckpointMigrationRequired =
    ''Knot checkpoint storage requires authorized closed-store repair before use''"
| "show_sync_error (CheckpointStorage s) = ''Knot local storage: '' @ s"
| "show_sync_error (CheckpointReplacementDurability s) =
    ''Knot storage replacement committed, but directory durability is unconfirmed: '' @ s"
| "show_sync_error StaleRetentionProposal = ''reviewed Knot epoch proposal is stale''"
| "show_sync_error BlockedRetentionProposal = ''Knot epoch proposal is blocked''"
| "show_sync_error (ConcurrentWriter i) = ''document '' @ i @ '' has operations from more than one writer''"

section \<open>Admission\<close>

record policy =
  po_space_id :: id32
  po_writers :: "id32 set"
  po_encryption :: encryption_profile

text \<open>\<open>causality\<close> is the check of the causal metadata by the causal package.\<close>

definition admit :: "('v, 'k, 'e) codec \<Rightarrow> (operation \<Rightarrow> string + unit) \<Rightarrow> policy \<Rightarrow> operation \<Rightarrow> (string \<times> string) + unit" where
  "admit codec causality policy op =
     and_then (ensure_that (op_space_id op = po_space_id policy)
       (''wrong-knot-space'', ''operation addresses a different Knot vault'')) (\<lambda>_.
     and_then (ensure_that (op_encryption op = po_encryption policy)
       (''wrong-knot-encryption-profile'', ''operation uses a different Knot encryption profile'')) (\<lambda>_.
     and_then (ensure_that (op_author op \<in> po_writers policy)
       (''unrecognized-knot-writer'', ''operation author is not admitted to this Knot vault'')) (\<lambda>_.
     case op_body op of
       None \<Rightarrow> Inl (''missing-knot-event'', ''Knot sync operations require a sealed body'')
     | Some body \<Rightarrow>
         and_then (if po_encryption policy = CommonsDataV1
           then (case cd_envelope codec body of
               Inl e \<Rightarrow> Inl (''invalid-knot-group-ciphertext'', ''Commons Knot body is not a data-envelope: '' @ e)
             | Inr _ \<Rightarrow> Inr ())
           else Inr ()) (\<lambda>_.
         case causality op of Inl e \<Rightarrow> Inl (''invalid-knot-causality'', e) | Inr _ \<Rightarrow> Inr ()))))"

definition admit_writer :: "id32 \<Rightarrow> policy \<Rightarrow> bool \<times> policy" where
  "admit_writer w p = (w \<notin> po_writers p, p\<lparr>po_writers := insert w (po_writers p)\<rparr>)"

definition deny_writer :: "id32 \<Rightarrow> policy \<Rightarrow> bool \<times> policy" where
  "deny_writer w p = (w \<in> po_writers p, p\<lparr>po_writers := po_writers p - {w}\<rparr>)"

definition replace_admitted_writers :: "id32 list \<Rightarrow> policy \<Rightarrow> bool \<times> policy" where
  "replace_admitted_writers ws p = (let new = set ws
     in if po_writers p = new then (False, p) else (True, p\<lparr>po_writers := new\<rparr>))"

definition require_cipher :: "policy \<Rightarrow> ('v, 'k) cipher \<Rightarrow> sync_error + unit" where
  "require_cipher p c = ensure_that (cipher_profile c = po_encryption p) WrongEncryptionProfile"

definition require_admitted_writer :: "policy \<Rightarrow> id32 \<Rightarrow> sync_error + unit" where
  "require_admitted_writer p w = ensure_that (w \<in> po_writers p)
     (PayloadError ''signing writer is not admitted to this Knot vault'')"

section \<open>Decoding\<close>

fun le_bytes :: "nat \<Rightarrow> nat \<Rightarrow> bytes" where
  "le_bytes 0 n = []"
| "le_bytes (Suc k) n = char_of (n mod 256) # le_bytes k (n div 256)"

definition operation_aad :: "id32 \<Rightarrow> id32 \<Rightarrow> nat \<Rightarrow> bytes" where
  "operation_aad space_id author seq_num = SYNC_AAD @ space_id @ author @ le_bytes 4 seq_num"

definition decode_event :: "('v, 'k, 'e) codec \<Rightarrow> ('v, 'k) cipher \<Rightarrow> operation \<Rightarrow> sync_error + sync_event" where
  "decode_event codec cipher op = (case op_body op of
     None \<Rightarrow> Inl (PayloadError ''operation body is absent'')
   | Some body \<Rightarrow>
       let aad = operation_aad (op_space_id op) (op_author op) (op_seq_num op)
       in and_then (case cipher of
             Personal vault \<Rightarrow> map_error PayloadError (cd_unseal codec vault aad body)
           | CommonsData keys \<Rightarrow> and_then (map_error PayloadError (cd_envelope codec body))
               (\<lambda>envelope. map_error GroupCryptoError (cd_open codec keys envelope)))
          (\<lambda>plaintext. map_error PayloadError (cd_event codec plaintext)))"

definition signed_event_of :: "operation \<Rightarrow> sync_event \<Rightarrow> signed_event" where
  "signed_event_of op e = \<lparr>sg_operation = op_hash op, sg_author = op_author op,
     sg_asserted_at_ms = op_asserted_at_ms op, sg_event = e\<rparr>"

definition undecodable_event :: "operation \<Rightarrow> sync_error \<Rightarrow> rejected_relation" where
  "undecodable_event op e = \<lparr>rj_operation = op_hash op, rj_author = op_author op,
     rj_reason = ''closed event could not be decoded: '' @ show_sync_error e\<rparr>"

text \<open>
  The events of the closed operations in causal order, and the records of those that could not be
  decoded; an index outside of the records panics.
\<close>

fun decode_closed :: "('v, 'k, 'e) codec \<Rightarrow> ('v, 'k) cipher \<Rightarrow> strictness \<Rightarrow> stored_operation list \<Rightarrow> nat list \<Rightarrow>
    (sync_error, signed_event list \<times> rejected_relation list) outcome" where
  "decode_closed codec cipher strictness records [] = Done ([], [])"
| "decode_closed codec cipher strictness records (n # order) =
     (if n < length records then
        (let op = so_operation (records ! n) in
         case decode_event codec cipher op of
           Inr e \<Rightarrow> chain (decode_closed codec cipher strictness records order) (\<lambda>(es, bad). Done (signed_event_of op e # es, bad))
         | Inl e \<Rightarrow> (case strictness of
             Strict \<Rightarrow> Raise e
           | Tolerant \<Rightarrow> chain (decode_closed codec cipher strictness records order) (\<lambda>(es, bad). Done (es, undecodable_event op e # bad))))
      else Halt Panicked)"

section \<open>The projection\<close>

record document_conflict =
  dc_id :: string
  dc_versions :: "id32 document_version list"

record document_projection =
  dp_documents :: "vault_document list"
  dp_conflicts :: "document_conflict list"
  dp_automatic_merges :: "id32 automatic_merge list"
  dp_pending :: "(id32 \<times> id32 list) list"
  dp_document_heads :: "(string, id32) ordered_map"
  dp_relations :: "relation_assertion list"
  dp_rejected_relations :: "rejected_relation list"
  dp_unverified_relations :: "unverified_relation list"
  dp_predicates :: predicate_catalog

definition of_result :: "'e + 'a \<Rightarrow> ('e, 'a) outcome" where
  "of_result r = (case r of Inl e \<Rightarrow> Raise e | Inr a \<Rightarrow> Done a)"

record 'c merge_api =
  mg_djot :: "'c djot_api"
  mg_diff :: diff
  mg_head :: "id32 \<Rightarrow> id32 list \<Rightarrow> vault_document \<Rightarrow> string + id32"

record settled_documents =
  sd_documents :: "vault_document list"
  sd_conflicts :: "document_conflict list"
  sd_merges :: "id32 automatic_merge list"
  sd_heads :: "(string, id32) ordered_map"

definition settle_document :: "'c merge_api \<Rightarrow> (id32 \<Rightarrow> id32 \<Rightarrow> bool) \<Rightarrow> (id32 \<times> string \<times> vault_document option) list \<Rightarrow>
    string \<times> versions \<Rightarrow> settled_documents \<Rightarrow> (sync_error, settled_documents) outcome" where
  "settle_document mg before history = (\<lambda>(i, versions) sd.
     if length versions = 1 then
       (let v = snd (hd versions) in Done (sd\<lparr>sd_heads := om_put i (dv_operation v) (sd_heads sd),
          sd_documents := sd_documents sd @ (case dv_document v of None \<Rightarrow> [] | Some d \<Rightarrow> [d])\<rparr>))
     else (case automatic_text_merge (mg_djot mg) (mg_diff mg) before history i (map snd versions) of
       Done m \<Rightarrow> chain (of_result (map_error PayloadError (mg_head mg (am_base m) (am_supersedes m) (am_document m))))
         (\<lambda>h. Done (sd\<lparr>sd_heads := om_put i h (sd_heads sd), sd_documents := sd_documents sd @ [am_document m],
            sd_merges := sd_merges sd @ [m]\<rparr>))
     | Raise _ \<Rightarrow> Done (sd\<lparr>sd_conflicts := sd_conflicts sd @ [\<lparr>dc_id = i, dc_versions = map snd versions\<rparr>]\<rparr>)
     | Halt h \<Rightarrow> Halt h))"

fun settle_documents :: "'c merge_api \<Rightarrow> (id32 \<Rightarrow> id32 \<Rightarrow> bool) \<Rightarrow> (id32 \<times> string \<times> vault_document option) list \<Rightarrow>
    (string, versions) ordered_map \<Rightarrow> settled_documents \<Rightarrow> (sync_error, settled_documents) outcome" where
  "settle_documents mg before history [] sd = Done sd"
| "settle_documents mg before history (x # xs) sd =
     chain (settle_document mg before history x sd) (settle_documents mg before history xs)"

definition nothing_settled :: settled_documents where
  "nothing_settled = \<lparr>sd_documents = [], sd_conflicts = [], sd_merges = [], sd_heads = []\<rparr>"

definition projection :: "('v, 'k, 'e) codec \<Rightarrow> causal_api \<Rightarrow> 'c merge_api \<Rightarrow> policy \<Rightarrow> stored_operation list \<Rightarrow>
    ('v, 'k) cipher \<Rightarrow> strictness \<Rightarrow> (sync_error, document_projection) outcome" where
  "projection codec causal mg policy records cipher strictness =
     chain (of_result (require_cipher policy cipher)) (\<lambda>_.
     chain (of_result (map_error CausalError (ca_closed causal records))) (\<lambda>(order, pending).
     chain (decode_closed codec cipher strictness records order) (\<lambda>(events, undecodable).
     let before = ca_before causal records in
     chain (fold_relations before (po_space_id policy) events) (\<lambda>rf.
     chain (of_result (fold_documents before (map authored_event events) no_documents)) (\<lambda>df.
     chain (settle_documents mg before (df_history df) (df_current df) nothing_settled) (\<lambda>sd.
     Done \<lparr>dp_documents = sd_documents sd, dp_conflicts = sd_conflicts sd, dp_automatic_merges = sd_merges sd,
       dp_pending = pending, dp_document_heads = sd_heads sd, dp_relations = rf_relations rf,
       dp_rejected_relations = rf_rejected rf @ undecodable, dp_unverified_relations = rf_unverified rf,
       dp_predicates = rf_catalog rf\<rparr>))))))"

definition projection_with_cipher :: "('v, 'k, 'e) codec \<Rightarrow> causal_api \<Rightarrow> 'c merge_api \<Rightarrow> policy \<Rightarrow> stored_operation list \<Rightarrow>
    ('v, 'k) cipher \<Rightarrow> (sync_error, document_projection) outcome" where
  "projection_with_cipher codec causal mg policy records cipher =
     projection codec causal mg policy records cipher (default_strictness cipher)"

definition documents_with_cipher :: "('v, 'k, 'e) codec \<Rightarrow> causal_api \<Rightarrow> 'c merge_api \<Rightarrow> policy \<Rightarrow> stored_operation list \<Rightarrow>
    ('v, 'k) cipher \<Rightarrow> (sync_error, vault_document list) outcome" where
  "documents_with_cipher codec causal mg policy records cipher =
     chain (projection_with_cipher codec causal mg policy records cipher) (\<lambda>p. case dp_conflicts p of
       c # _ \<Rightarrow> Raise (ConcurrentWriter (dc_id c))
     | [] \<Rightarrow> Done (dp_documents p))"

section \<open>What a reader may see\<close>

definition relation_history_visible_to :: "document_projection \<Rightarrow> string set \<Rightarrow> relation_assertion list" where
  "relation_history_visible_to p admitted = filter (\<lambda>a. rn_document_id (ra_subject a) \<in> admitted \<and>
     rn_document_id (ra_object a) \<in> admitted) (dp_relations p)"

definition relations_visible_to :: "document_projection \<Rightarrow> string set \<Rightarrow> relation_assertion list" where
  "relations_visible_to p admitted = filter (\<lambda>a. ra_retractions a = []) (relation_history_visible_to p admitted)"

definition predicate_label :: "document_projection \<Rightarrow> relation_assertion \<Rightarrow> string option" where
  "predicate_label p a = label_of (dp_predicates p) (ra_predicate a)"

definition predicate_iri :: "document_projection \<Rightarrow> relation_assertion \<Rightarrow> string option" where
  "predicate_iri p a = iri_of (dp_predicates p) (ra_predicate a)"

section \<open>Retained operations\<close>

text \<open>The first closed operation with the given hash, if any.\<close>

fun find_operation :: "stored_operation list \<Rightarrow> id32 \<Rightarrow> nat list \<Rightarrow> (sync_error, operation option) outcome" where
  "find_operation records i [] = Done None"
| "find_operation records i (n # order) =
     (if n < length records then
        (let op = so_operation (records ! n)
         in if op_hash op \<noteq> i then find_operation records i order else Done (Some op))
      else Halt Panicked)"

definition retained_event :: "('v, 'k, 'e) codec \<Rightarrow> causal_api \<Rightarrow> policy \<Rightarrow> stored_operation list \<Rightarrow>
    ('v, 'k) cipher \<Rightarrow> id32 \<Rightarrow> (sync_error, sync_event option) outcome" where
  "retained_event codec causal policy records cipher i =
     chain (of_result (require_cipher policy cipher)) (\<lambda>_.
     chain (of_result (map_error CausalError (ca_closed causal records))) (\<lambda>(order, _).
     chain (find_operation records i order) (\<lambda>found. case found of
       None \<Rightarrow> Done None
     | Some op \<Rightarrow> chain (of_result (decode_event codec cipher op)) (\<lambda>e. Done (Some e)))))"

definition document_version_of :: "string \<Rightarrow> sync_event \<Rightarrow> vault_document option" where
  "document_version_of document_id e = (case e of
     Put d \<Rightarrow> if vd_id d = document_id then Some d else None
   | Resolve i _ (Some d) \<Rightarrow> if i = document_id \<and> vd_id d = i then Some d else None
   | _ \<Rightarrow> None)"

definition document_version_with_cipher :: "('v, 'k, 'e) codec \<Rightarrow> causal_api \<Rightarrow> policy \<Rightarrow> stored_operation list \<Rightarrow>
    ('v, 'k) cipher \<Rightarrow> string \<Rightarrow> id32 \<Rightarrow> (sync_error, vault_document option) outcome" where
  "document_version_with_cipher codec causal policy records cipher document_id i =
     map_done (\<lambda>e. Option.bind e (document_version_of document_id)) (retained_event codec causal policy records cipher i)"

definition file_revision_of :: "string \<Rightarrow> sync_event \<Rightarrow> file_revision option" where
  "file_revision_of document_id e = (case e of
     CaptureFileRevision r \<Rightarrow>
       if fr_document_id r = document_id \<and> validate_revision r = Inr () then Some r else None
   | _ \<Rightarrow> None)"

definition file_revision_with_cipher :: "('v, 'k, 'e) codec \<Rightarrow> causal_api \<Rightarrow> policy \<Rightarrow> stored_operation list \<Rightarrow>
    ('v, 'k) cipher \<Rightarrow> string \<Rightarrow> id32 \<Rightarrow> (sync_error, file_revision option) outcome" where
  "file_revision_with_cipher codec causal policy records cipher document_id i =
     map_done (\<lambda>e. Option.bind e (file_revision_of document_id)) (retained_event codec causal policy records cipher i)"

fun find_captures :: "('v, 'k, 'e) codec \<Rightarrow> ('v, 'k) cipher \<Rightarrow> stored_operation list \<Rightarrow> id32 \<Rightarrow> file_revision \<Rightarrow> nat list \<Rightarrow>
    id32 option \<Rightarrow> (sync_error, id32 option) outcome" where
  "find_captures codec cipher records writer r [] matching = Done matching"
| "find_captures codec cipher records writer r (n # order) matching =
     (if n < length records then
        (let op = so_operation (records ! n) in
         if op_author op \<noteq> writer then find_captures codec cipher records writer r order matching
         else chain (of_result (decode_event codec cipher op)) (\<lambda>e. case e of
             CaptureFileRevision candidate \<Rightarrow>
               if validate_revision candidate = Inr () \<and> candidate = r
               then find_captures codec cipher records writer r order
                 (case matching of None \<Rightarrow> Some (op_hash op)
                  | Some current \<Rightarrow> if op_hash op < current then Some (op_hash op) else Some current)
               else find_captures codec cipher records writer r order matching
           | _ \<Rightarrow> find_captures codec cipher records writer r order matching))
      else Halt Panicked)"

definition find_file_revision_with_cipher :: "('v, 'k, 'e) codec \<Rightarrow> causal_api \<Rightarrow> policy \<Rightarrow> stored_operation list \<Rightarrow>
    ('v, 'k) cipher \<Rightarrow> id32 \<Rightarrow> file_revision \<Rightarrow> (sync_error, id32 option) outcome" where
  "find_file_revision_with_cipher codec causal policy records cipher writer r =
     chain (of_result (map_error InvalidFileRevision (validate_revision r))) (\<lambda>_.
     chain (of_result (require_cipher policy cipher)) (\<lambda>_.
     chain (of_result (map_error CausalError (ca_closed causal records))) (\<lambda>(order, pending).
     if pending \<noteq> [] then Raise (PayloadError ''capture retention requires complete causal history'')
     else find_captures codec cipher records writer r order None)))"

end
