(* ===== verification/Peer_View.thy ===== *)
theory Peer_View
  imports Peer_Projection
begin

text \<open>
  What a projection shows of the operations that a replica has: every closed operation is folded or
  reported, every document is settled or in conflict over exactly its live versions, a reader sees the
  relations that nobody withdrew, and a strict projection that succeeds is the tolerant one.
\<close>

section \<open>Decoding\<close>

lemma chain_Done: "chain m f = Done b \<longleftrightarrow> (\<exists>a. m = Done a \<and> f a = Done b)"
  by (cases m) auto

lemma of_result_Done: "of_result r = Done a \<longleftrightarrow> r = Inr a"
  by (cases r) (auto simp: of_result_def)

lemma decode_strict: "decode_closed codec cipher Strict records order = Done r \<Longrightarrow>
    snd r = [] \<and> decode_closed codec cipher s records order = Done r"
proof (induction order arbitrary: r)
  case (Cons n order)
  from Cons.prems have n: "n < length records" by (auto split: if_splits)
  with Cons.prems obtain e where e: "decode_event codec cipher (so_operation (records ! n)) = Inr e"
    by (auto simp: Let_def split: sum.splits)
  with Cons.prems n obtain q where q: "decode_closed codec cipher Strict records order = Done q"
    and r: "r = (signed_event_of (so_operation (records ! n)) e # fst q, snd q)"
    by (auto simp: Let_def chain_Done split: prod.splits)
  from Cons.IH [OF q] e n r show ?case by (simp add: Let_def case_prod_beta)
qed simp

lemma decode_tolerant_total:
  "\<forall>n \<in> set order. n < length records \<Longrightarrow> \<exists>r. decode_closed codec cipher Tolerant records order = Done r"
  by (induction order) (auto simp: Let_def split: sum.split prod.split)

lemma decode_tolerant_parts: "decode_closed codec cipher Tolerant records order = Done (es, bad) \<Longrightarrow>
    mset (map sg_operation es) + mset (map rj_operation bad) = mset (map (\<lambda>n. op_hash (so_operation (records ! n))) order)"
proof (induction order arbitrary: es bad)
  case (Cons n order)
  then have n: "n < length records" by (auto split: if_splits)
  show ?case
  proof (cases "decode_event codec cipher (so_operation (records ! n))")
    case (Inl e)
    with Cons.prems n obtain bad' where "decode_closed codec cipher Tolerant records order = Done (es, bad')"
      "bad = undecodable_event (so_operation (records ! n)) e # bad'"
      by (auto simp: Let_def chain_Done split: prod.splits)
    with Cons.IH [OF this(1)] show ?thesis by (simp add: undecodable_event_def)
  next
    case (Inr e)
    with Cons.prems n obtain es' where "decode_closed codec cipher Tolerant records order = Done (es', bad)"
      "es = signed_event_of (so_operation (records ! n)) e # es'"
      by (auto simp: Let_def chain_Done split: prod.splits)
    with Cons.IH [OF this(1)] show ?thesis by (simp add: signed_event_of_def)
  qed
qed simp

lemma projection_parts:
  assumes "projection codec causal mg policy records cipher strictness = Done p"
  obtains order pending es bad rf df sd where
    "require_cipher policy cipher = Inr ()" "ca_closed causal records = Inr (order, pending)"
    "decode_closed codec cipher strictness records order = Done (es, bad)"
    "fold_relations (ca_before causal records) (po_space_id policy) es = Done rf"
    "fold_documents (ca_before causal records) (map authored_event es) no_documents = Inr df"
    "settle_documents mg (ca_before causal records) (df_history df) (df_current df) nothing_settled = Done sd"
    "p = \<lparr>dp_documents = sd_documents sd, dp_conflicts = sd_conflicts sd, dp_automatic_merges = sd_merges sd,
       dp_pending = pending, dp_document_heads = sd_heads sd, dp_relations = rf_relations rf,
       dp_rejected_relations = rf_rejected rf @ bad, dp_unverified_relations = rf_unverified rf,
       dp_predicates = rf_catalog rf\<rparr>"
  using assms unfolding projection_def Let_def
  by (force simp: chain_Done of_result_Done map_error_Inr split: prod.splits)

lemma projection_folds:
  assumes "projection codec causal mg policy records cipher s = Done p"
    and "ca_closed causal records = Inr (order, pending)" and "decode_closed codec cipher s records order = Done (es, bad)"
  obtains rf df sd where "fold_relations (ca_before causal records) (po_space_id policy) es = Done rf"
    "fold_documents (ca_before causal records) (map authored_event es) no_documents = Inr df"
    "settle_documents mg (ca_before causal records) (df_history df) (df_current df) nothing_settled = Done sd"
    "dp_conflicts p = sd_conflicts sd" "dp_document_heads p = sd_heads sd" "dp_relations p = rf_relations rf"
  using assms(1) by (rule projection_parts) (use assms(2,3) that in simp)

lemma projection_strict:
  assumes "projection codec causal mg policy records cipher Strict = Done p"
  shows "projection codec causal mg policy records cipher s = Done p"
  using assms
proof (rule projection_parts)
  fix order pending es bad rf df sd
  assume parts: "require_cipher policy cipher = Inr ()" "ca_closed causal records = Inr (order, pending)"
    "decode_closed codec cipher Strict records order = Done (es, bad)"
    "fold_relations (ca_before causal records) (po_space_id policy) es = Done rf"
    "fold_documents (ca_before causal records) (map authored_event es) no_documents = Inr df"
    "settle_documents mg (ca_before causal records) (df_history df) (df_current df) nothing_settled = Done sd"
    and p: "p = \<lparr>dp_documents = sd_documents sd, dp_conflicts = sd_conflicts sd, dp_automatic_merges = sd_merges sd,
       dp_pending = pending, dp_document_heads = sd_heads sd, dp_relations = rf_relations rf,
       dp_rejected_relations = rf_rejected rf @ bad, dp_unverified_relations = rf_unverified rf,
       dp_predicates = rf_catalog rf\<rparr>"
  from decode_strict [OF parts(3), of s] have "decode_closed codec cipher s records order = Done (es, bad)" ..
  with parts p show ?thesis by (simp add: projection_def of_result_def map_error_def)
qed

section \<open>Documents\<close>

definition conflicted :: "'c merge_api \<Rightarrow> (id32 \<Rightarrow> id32 \<Rightarrow> bool) \<Rightarrow> (id32 \<times> string \<times> vault_document option) list \<Rightarrow>
    string \<times> versions \<Rightarrow> bool" where
  "conflicted mg before history = (\<lambda>(i, vs). length vs \<noteq> 1 \<and>
     automatic_text_merge (mg_djot mg) (mg_diff mg) before history i (map snd vs) = Raise ())"

definition head_ids :: "settled_documents \<Rightarrow> string set" where
  "head_ids sd = fst ` set (sd_heads sd)"

lemma head_ids_put: "sd_heads sd' = om_put i h (sd_heads sd) \<Longrightarrow> head_ids sd' = insert i (head_ids sd)"
  using keys_om_put [of i h "sd_heads sd"] by (simp add: head_ids_def)

lemma settle_document_cases:
  assumes "settle_document mg before history (i, vs) sd = Done sd'"
  shows "conflicted mg before history (i, vs) \<and> sd' = sd\<lparr>sd_conflicts := sd_conflicts sd @ [\<lparr>dc_id = i, dc_versions = map snd vs\<rparr>]\<rparr> \<or>
    \<not> conflicted mg before history (i, vs) \<and> sd_conflicts sd' = sd_conflicts sd \<and> (\<exists>h. sd_heads sd' = om_put i h (sd_heads sd))"
  using assms
  by (auto simp: settle_document_def conflicted_def Let_def chain_Done split: if_splits outcome.splits)

lemma settle_documents_Done: "settle_documents mg before history xs sd = Done sd' \<Longrightarrow>
    sd_conflicts sd' = sd_conflicts sd @ map (\<lambda>(i, vs). \<lparr>dc_id = i, dc_versions = map snd vs\<rparr>) (filter (conflicted mg before history) xs) \<and>
    head_ids sd' = fst ` set (filter (\<lambda>x. \<not> conflicted mg before history x) xs) \<union> head_ids sd"
proof (induction xs arbitrary: sd)
  case (Cons x xs)
  obtain i vs where x: "x = (i, vs)" by force
  from Cons.prems x obtain sd1 where sd1: "settle_document mg before history (i, vs) sd = Done sd1"
    "settle_documents mg before history xs sd1 = Done sd'" by (auto simp: chain_Done)
  from settle_document_cases [OF sd1(1)] Cons.IH [OF sd1(2)] x show ?case
    by (elim disjE conjE exE) (simp_all add: head_ids_put, simp add: head_ids_def)
qed simp

lemma fold_document_nonempty:
  assumes "fold_document before (w, o', e) st = Inr st'" and "\<And>j vs. map_of (df_current st) j = Some vs \<Longrightarrow> vs \<noteq> []"
    and "map_of (df_current st') j = Some vs"
  shows "vs \<noteq> []"
proof -
  have put: "om_put k v m \<noteq> []" for k :: id32 and v :: "id32 document_version" and m
    using keys_om_put [of k v m] by force
  have place: "vs \<noteq> []" if "map_of (df_current (place_version w o' i d gone st)) j = Some vs" for i d gone
    using that assms(2) put by (auto simp: place_version_def Let_def map_of_om_put map_of_drop_versions split: if_splits option.splits)
  show ?thesis
  proof (cases "writes_to e")
    case None
    with assms show ?thesis by (auto simp: fold_document_None simp del: fold_document.simps)
  next
    case (Some x)
    then show ?thesis using assms place by (cases e) (auto simp: ok_iff)
  qed
qed

lemma fold_documents_nonempty: "fold_documents before xs st = Inr st' \<Longrightarrow>
    (\<And>j vs. map_of (df_current st) j = Some vs \<Longrightarrow> vs \<noteq> []) \<Longrightarrow> map_of (df_current st') j = Some vs \<Longrightarrow> vs \<noteq> []"
proof (induction xs arbitrary: st)
  case (Cons x xs)
  obtain w o' e where x: "x = (w, o', e)" by (cases x)
  from Cons.prems x obtain st1 where st1: "fold_document before (w, o', e) st = Inr st1" "fold_documents before xs st1 = Inr st'"
    by (auto simp: ok_iff simp del: fold_document.simps)
  show ?case
    by (rule Cons.IH [OF st1(2) _ Cons.prems(3)]) (rule fold_document_nonempty [OF st1(1) Cons.prems(2)])
qed simp

definition written :: "signed_event list \<Rightarrow> string \<Rightarrow> bool" where
  "written es i \<longleftrightarrow> (\<exists>x \<in> set es. \<exists>d. writes_to (sg_event x) = Some (i, d))"

lemma written_iff: "written es i \<longleftrightarrow> (\<exists>w a e d. (w, a, e) \<in> set (map authored_event es) \<and> writes_to e = Some (i, d))"
  by (force simp: written_def authored_event_def)

text \<open>What the settled documents are, for a fold over causally ordered events.\<close>

lemma settled_conflict:
  assumes causal: "causal_events before es" and df: "fold_documents before (map authored_event es) no_documents = Inr df"
    and sd: "settle_documents mg before (df_history df) (df_current df) nothing_settled = Done sd"
    and c: "c \<in> set (sd_conflicts sd)"
  shows "set (dc_versions c) = {v. \<exists>w. live before (set (map authored_event es)) (dc_id c) w v} \<and> 2 \<le> length (dc_versions c)"
proof -
  have folded: "folded before (set (map authored_event es)) df"
    using fold_documents_folded [OF causal [unfolded causal_events_def] df] .
  then have ok: "om_ok (df_current df)" "\<And>i. om_ok (versions_of df i)" by (simp_all add: folded_def fold_ok_def)
  from settle_documents_Done [OF sd] c obtain vs where vs: "(dc_id c, vs) \<in> set (df_current df)" "length vs \<noteq> 1"
    "dc_versions c = map snd vs"
    by (auto simp: nothing_settled_def conflicted_def)
  then have map: "map_of (df_current df) (dc_id c) = Some vs" using om_distinct [OF ok(1)] by simp
  then have versions: "versions_of df (dc_id c) = vs" by (simp add: versions_of_def)
  have "(w, v) \<in> set vs \<longleftrightarrow> live before (set (map authored_event es)) (dc_id c) w v" for w v
    using folded om_distinct [OF ok(2)] versions by (metis folded_def map_of_eq_Some_iff)
  then have "set (dc_versions c) = {v. \<exists>w. live before (set (map authored_event es)) (dc_id c) w v}"
    unfolding vs(3) by force
  moreover have "vs \<noteq> []" using fold_documents_nonempty [OF df _ map] by (simp add: no_documents_def)
  ultimately show ?thesis using vs(2,3) by (cases vs) (auto simp: Suc_le_eq)
qed

lemma in_fst_filter: "i \<in> fst ` set (filter P xs) \<longleftrightarrow> (\<exists>v. (i, v) \<in> set xs \<and> P (i, v))"
  by force

lemma settled_or_conflict:
  assumes causal: "causal_events before es" and df: "fold_documents before (map authored_event es) no_documents = Inr df"
    and sd: "settle_documents mg before (df_history df) (df_current df) nothing_settled = Done sd"
  shows "written es i \<longleftrightarrow> (i \<in> head_ids sd) \<noteq> (i \<in> dc_id ` set (sd_conflicts sd))"
    and "i \<in> head_ids sd \<Longrightarrow> i \<notin> dc_id ` set (sd_conflicts sd)"
proof -
  have folded: "folded before (set (map authored_event es)) df"
    using fold_documents_folded [OF causal [unfolded causal_events_def] df] .
  then have ok: "om_ok (df_current df)" by (simp add: folded_def fold_ok_def)
  have keys: "written es i \<longleftrightarrow> i \<in> fst ` set (df_current df)"
    using folded unfolding folded_def written_iff by (metis map_of_eq_None_iff)
  have none: "head_ids nothing_settled = {}" by (simp add: head_ids_def nothing_settled_def)
  let ?hit = "\<lambda>P. \<exists>vs. (i, vs) \<in> set (df_current df) \<and> P (i, vs)"
  have heads: "i \<in> head_ids sd \<longleftrightarrow> ?hit (\<lambda>x. \<not> conflicted mg before (df_history df) x)"
    using conjunct2 [OF settle_documents_Done [OF sd]] by (simp only: none Un_empty_right in_fst_filter)
  have conflicts: "i \<in> dc_id ` set (sd_conflicts sd) \<longleftrightarrow> ?hit (conflicted mg before (df_history df))"
  proof -
    have "dc_id ` set (sd_conflicts sd) = fst ` set (filter (conflicted mg before (df_history df)) (df_current df))"
      using conjunct1 [OF settle_documents_Done [OF sd]] by (simp add: nothing_settled_def image_image case_prod_beta)
    then show ?thesis by (simp only: in_fst_filter)
  qed
  have unique: "vs = vs'" if "(i, vs) \<in> set (df_current df)" "(i, vs') \<in> set (df_current df)" for vs vs'
    using that om_distinct [OF ok] by (metis eq_key_imp_eq_value)
  have "i \<in> fst ` set (df_current df) \<longleftrightarrow> ?hit (\<lambda>_. True)" by force
  with unique show "written es i \<longleftrightarrow> (i \<in> head_ids sd) \<noteq> (i \<in> dc_id ` set (sd_conflicts sd))"
    "i \<in> head_ids sd \<Longrightarrow> i \<notin> dc_id ` set (sd_conflicts sd)"
    unfolding heads conflicts keys by metis+
qed

section \<open>Relations\<close>

text \<open>What a reader sees: the upheld assertions between admitted documents that their author did not withdraw.\<close>

lemma visible_exact:
  assumes causal: "causal_events before es" and run: "fold_relations before scope es = Done rf" and p: "dp_relations p = rf_relations rf"
  shows "a \<in> set (relations_visible_to p D) \<longleftrightarrow> a \<in> set (assertions_upheld before scope es es) \<and>
    rn_document_id (ra_subject a) \<in> D \<and> rn_document_id (ra_object a) \<in> D \<and> \<not> (\<exists>y \<in> set es. retracts before a y)"
proof -
  have rel: "dp_relations p = map (withdrawn before es) (assertions_upheld before scope es es)"
    using fold_relations_exact [OF causal, of scope] run p by (auto simp: relations_spec_def)
  have plain: "ra_retractions b = []" if "b \<in> set (assertions_upheld before scope es es)" for b
    using that by (auto simp: assertions_upheld_def in_map_filter dest: assertion_of_fields)
  have shown: "ra_retractions (withdrawn before es b) = [] \<longleftrightarrow> \<not> (\<exists>y \<in> set es. retracts before b y)" for b
    by (auto simp: withdrawn_def filter_empty_conv)
  have same: "withdrawn before es b = b" if "ra_retractions b = []" "\<not> (\<exists>y \<in> set es. retracts before b y)" for b
  proof -
    from that(2) have "filter (retracts before b) es = []" by (simp add: filter_empty_conv)
    with that(1) show ?thesis by (simp add: withdrawn_def)
  qed
  have "a \<in> set (relations_visible_to p D) \<longleftrightarrow> (\<exists>b \<in> set (assertions_upheld before scope es es). a = withdrawn before es b \<and>
      \<not> (\<exists>y \<in> set es. retracts before b y) \<and> rn_document_id (ra_subject a) \<in> D \<and> rn_document_id (ra_object a) \<in> D)"
    unfolding relations_visible_to_def relation_history_visible_to_def rel using shown by auto
  with plain same show ?thesis by metis
qed

section \<open>Captures\<close>

text \<open>The captures of \<open>r\<close> by \<open>writer\<close> among the closed operations.\<close>

definition captures :: "('v, 'k, 'e) codec \<Rightarrow> ('v, 'k) cipher \<Rightarrow> stored_operation list \<Rightarrow> id32 \<Rightarrow> file_revision \<Rightarrow> nat list \<Rightarrow> id32 set" where
  "captures codec cipher records writer r order = {op_hash op | op. op \<in> (\<lambda>n. so_operation (records ! n)) ` set order \<and>
     op_author op = writer \<and> decode_event codec cipher op = Inr (CaptureFileRevision r)}"

definition least_of :: "id32 option \<Rightarrow> id32 set \<Rightarrow> id32 option" where
  "least_of m A = (let B = set_option m \<union> A in if B = {} then None else Some (Min B))"

lemma finite_captures: "finite (captures codec cipher records writer r order)"
proof (rule finite_subset)
  show "captures codec cipher records writer r order \<subseteq> op_hash ` (\<lambda>n. so_operation (records ! n)) ` set order"
    by (auto simp: captures_def)
qed simp

lemma least_of_step: "finite A \<Longrightarrow>
    least_of (case m of None \<Rightarrow> Some k | Some c \<Rightarrow> if k < c then Some k else Some c) A = least_of m (insert k A)"
  by (cases "A = {}") (auto simp: least_of_def Let_def min_def insert_commute split: option.split)

lemma find_captures_least:
  assumes "find_captures codec cipher records writer r order m = Done m'" and r: "validate_revision r = Inr ()"
  shows "m' = least_of m (captures codec cipher records writer r order)"
  using assms(1)
proof (induction order arbitrary: m)
  case Nil
  then show ?case by (cases m) (auto simp: least_of_def captures_def)
next
  case (Cons n order)
  let ?op = "so_operation (records ! n)" and ?rest = "captures codec cipher records writer r order"
  have step: "captures codec cipher records writer r (n # order) =
      (if op_author ?op = writer \<and> decode_event codec cipher ?op = Inr (CaptureFileRevision r)
       then insert (op_hash ?op) ?rest else ?rest)"
    by (auto simp: captures_def)
  from Cons.prems have n: "n < length records" by (auto split: if_splits)
  show ?case
  proof (cases "op_author ?op = writer \<and> decode_event codec cipher ?op = Inr (CaptureFileRevision r)")
    case True
    with Cons.prems n r have "find_captures codec cipher records writer r order
        (case m of None \<Rightarrow> Some (op_hash ?op) | Some c \<Rightarrow> if op_hash ?op < c then Some (op_hash ?op) else Some c) = Done m'"
      by (simp add: Let_def of_result_def)
    from Cons.IH [OF this] True show ?thesis unfolding step least_of_step [OF finite_captures] by simp
  next
    case False
    have "find_captures codec cipher records writer r order m = Done m'"
    proof (cases "op_author ?op = writer")
      case True
      with Cons.prems n obtain e where "decode_event codec cipher ?op = Inr e"
        by (cases "decode_event codec cipher ?op") (auto simp: Let_def of_result_def)
      with Cons.prems n False True show ?thesis
        by (cases e) (auto simp: Let_def of_result_def)
    qed (use Cons.prems n in \<open>simp add: Let_def\<close>)
    from Cons.IH [OF this] False show ?thesis unfolding step by (simp only: if_False)
  qed
qed

section \<open>Properties\<close>

text \<open>A replica with one note that two writers changed apart, a capture of a file, and an event it cannot read.\<close>

definition sample_capture :: file_revision where
  "sample_capture = \<lparr>fr_document_id = ''f'', fr_title = ''t'', fr_media_type = ''text/plain'', fr_body = ''hello''\<rparr>"

definition sample_events :: "(bytes \<times> sync_event) list" where
  "sample_events = [(''1'', Put (sample_note ''hello'')), (''2'', Put (sample_note ''b'')), (''3'', Delete ''n''),
     (''4'', CaptureFileRevision sample_capture), (''5'', AssertRelation (Core Cites) passage whole_note None None)]"

definition sample_codec :: "(unit, unit, bytes) codec" where
  "sample_codec = \<lparr>cd_unseal = (\<lambda>_ _ body. Inr body), cd_envelope = Inr, cd_open = (\<lambda>_ e. Inr e),
     cd_event = (\<lambda>b. case map_of sample_events b of None \<Rightarrow> Inl ''unknown variant'' | Some e \<Rightarrow> Inr e)\<rparr>"

definition sample_operation :: "id32 \<Rightarrow> id32 \<Rightarrow> stored_operation" where
  "sample_operation i w = \<lparr>so_operation = \<lparr>op_hash = i, op_author = w, op_seq_num = 0, op_space_id = ''s'',
     op_encryption = PersonalVaultV1, op_parents = [], op_asserted_at_ms = None, op_body = Some i\<rparr>, so_log_id = 0\<rparr>"

definition sample_records :: "stored_operation list" where
  "sample_records = [sample_operation ''1'' ''A'', sample_operation ''2'' ''A'', sample_operation ''3'' ''B'',
     sample_operation ''4'' ''C'', sample_operation ''5'' ''D'']"

definition sample_api :: causal_api where
  "sample_api = \<lparr>ca_closed = (\<lambda>records. Inr ([0..<length records], [])),
     ca_before = (\<lambda>_ a b. a = ''1'' \<and> b \<noteq> ''1''), ca_frontier = (\<lambda>records. Inr (map (op_hash \<circ> so_operation) records))\<rparr>"

definition sample_policy :: policy where
  "sample_policy = \<lparr>po_space_id = ''s'', po_writers = {''A'', ''B''}, po_encryption = PersonalVaultV1\<rparr>"

definition sample_merge :: "bool merge_api" where
  "sample_merge = \<lparr>mg_djot = sample_djot, mg_diff = sample_diff, mg_head = (\<lambda>_ _ _. Inr ''m'')\<rparr>"

definition sample_decoded :: "signed_event list" where
  "sample_decoded = [signed ''1'' ''A'' (Put (sample_note ''hello'')), signed ''2'' ''A'' (Put (sample_note ''b'')),
     signed ''3'' ''B'' (Delete ''n''), signed ''4'' ''C'' (CaptureFileRevision sample_capture),
     signed ''5'' ''D'' (AssertRelation (Core Cites) passage whole_note None None)]"

lemmas replica_defs = sample_events_def sample_codec_def sample_operation_def sample_records_def sample_api_def
  sample_policy_def sample_merge_def sample_decoded_def sample_capture_def

abbreviation sample_projection :: "(sync_error, document_projection) outcome" where
  "sample_projection \<equiv> projection sample_codec sample_api sample_merge sample_policy sample_records (Personal ()) Strict"

lemma sample_decodes: "decode_closed sample_codec (Personal ()) s sample_records [0..<5] = Done (sample_decoded, [])"
  by (simp add: replica_defs decode_event_def upt_rec Let_def map_error_def signed_event_of_def signed_def sample_note_def)

lemma sample_replica_causal: "causal_events (ca_before sample_api sample_records) sample_decoded"
  by (simp add: replica_defs signed_def causal_events_def authored_event_def causal_list_def)

lemma sample_closed: "ca_closed sample_api sample_records = Inr ([0..<5], [])"
  by code_simp

lemma sample_projected: "\<exists>p. sample_projection = Done p \<and> map dc_id (dp_conflicts p) = [''n''] \<and>
    map ra_id (dp_relations p) = [''5'']"
proof -
  have "map_done (\<lambda>p. (map dc_id (dp_conflicts p), map ra_id (dp_relations p))) sample_projection = Done ([''n''], [''5''])"
    by code_simp
  then show ?thesis by (auto simp: map_done_eq_Done)
qed

text \<open>
  A strict projection that succeeds is what the tolerant one shows: the strictness only decides
  what happens to an event that cannot be decoded.
\<close>

theorem strict_is_tolerant:
  assumes "projection codec causal mg policy records cipher Strict = Done p"
  shows "projection codec causal mg policy records cipher Tolerant = Done p"
  using assms by (rule projection_strict)

theorem strict_is_tolerant_witness:
  "projection sample_codec sample_api sample_merge sample_policy sample_records (Personal ()) Tolerant = sample_projection"
  using sample_projected strict_is_tolerant by metis

text \<open>
  A tolerant replica decodes or reports each closed operation exactly once.
\<close>

theorem closed_operations_accounted:
  assumes "decode_closed codec cipher Tolerant records order = Done (es, bad)"
  shows "mset (map sg_operation es) + mset (map rj_operation bad) = mset (map (\<lambda>n. op_hash (so_operation (records ! n))) order)"
  using assms by (rule decode_tolerant_parts)

theorem closed_operations_accounted_witness:
  "mset (map sg_operation sample_decoded) = {#''1'', ''2'', ''3'', ''4'', ''5''#}"
  using closed_operations_accounted [OF sample_decodes]
  by (simp add: sample_records_def sample_operation_def upt_rec add_mset_commute)

text \<open>
  C18: A conflict that a projection shows lists exactly the live versions of its document, and there
  are at least two of them.
\<close>

theorem conflicts_exact:
  assumes "projection codec causal mg policy records cipher s = Done p"
    and "ca_closed causal records = Inr (order, pending)" and "decode_closed codec cipher s records order = Done (es, bad)"
    and "causal_events (ca_before causal records) es" and "c \<in> set (dp_conflicts p)"
  shows "set (dc_versions c) = {v. \<exists>w. live (ca_before causal records) (set (map authored_event es)) (dc_id c) w v} \<and>
    2 \<le> length (dc_versions c)"
proof -
  obtain df sd where parts: "fold_documents (ca_before causal records) (map authored_event es) no_documents = Inr df"
    "settle_documents mg (ca_before causal records) (df_history df) (df_current df) nothing_settled = Done sd"
    and p: "dp_conflicts p = sd_conflicts sd"
    using projection_folds [OF assms(1-3)] by metis
  show ?thesis by (rule settled_conflict [OF assms(4) parts assms(5) [unfolded p]])
qed

theorem conflicts_exact_witness:
  "\<exists>p c. sample_projection = Done p \<and> c \<in> set (dp_conflicts p) \<and> 2 \<le> length (dc_versions c)"
proof -
  obtain p where p: "sample_projection = Done p" "map dc_id (dp_conflicts p) = [''n'']" using sample_projected by (elim exE conjE) (rule that)
  from p(2) obtain c where c: "c \<in> set (dp_conflicts p)" by (cases "dp_conflicts p") auto
  from conjunct2 [OF conflicts_exact [OF p(1) sample_closed sample_decodes sample_replica_causal c]] p(1) c show ?thesis
    by (intro exI conjI)
qed

text \<open>
  C13: A projection loses no document: what some event wrote has a head or is in conflict, never both,
  and nothing else has a head or is in conflict.
\<close>

theorem no_document_lost:
  assumes "projection codec causal mg policy records cipher s = Done p"
    and "ca_closed causal records = Inr (order, pending)" and "decode_closed codec cipher s records order = Done (es, bad)"
    and "causal_events (ca_before causal records) es"
  shows "if written es i then (i \<in> fst ` set (dp_document_heads p)) \<noteq> (i \<in> dc_id ` set (dp_conflicts p))
    else i \<notin> fst ` set (dp_document_heads p) \<and> i \<notin> dc_id ` set (dp_conflicts p)"
proof -
  obtain df sd where parts: "fold_documents (ca_before causal records) (map authored_event es) no_documents = Inr df"
    "settle_documents mg (ca_before causal records) (df_history df) (df_current df) nothing_settled = Done sd"
    and p: "dp_conflicts p = sd_conflicts sd" "dp_document_heads p = sd_heads sd"
    using projection_folds [OF assms(1-3)] by metis
  show ?thesis using settled_or_conflict [OF assms(4) parts, of i] unfolding p head_ids_def by auto
qed

theorem no_document_lost_witness:
  "\<exists>p. sample_projection = Done p \<and> (''n'' \<in> fst ` set (dp_document_heads p)) \<noteq> (''n'' \<in> dc_id ` set (dp_conflicts p))"
proof -
  obtain p where p: "sample_projection = Done p" using sample_projected by (elim exE conjE) (rule that)
  have "written sample_decoded ''n''" by (auto simp: written_def sample_decoded_def signed_def sample_note_def)
  with no_document_lost [OF p sample_closed sample_decodes sample_replica_causal, of "''n''"] p show ?thesis by auto
qed

text \<open>
  A reader is shown a relation exactly when it holds up, both of its documents are admitted to the
  reader, and its author has not withdrawn it by an event that had seen it.
\<close>

theorem relations_visible_exact:
  assumes "projection codec causal mg policy records cipher s = Done p"
    and "ca_closed causal records = Inr (order, pending)" and "decode_closed codec cipher s records order = Done (es, bad)"
    and "causal_events (ca_before causal records) es"
  shows "a \<in> set (relations_visible_to p D) \<longleftrightarrow>
    a \<in> set (assertions_upheld (ca_before causal records) (po_space_id policy) es es) \<and>
    rn_document_id (ra_subject a) \<in> D \<and> rn_document_id (ra_object a) \<in> D \<and>
    \<not> (\<exists>y \<in> set es. retracts (ca_before causal records) a y)"
proof -
  obtain rf where "fold_relations (ca_before causal records) (po_space_id policy) es = Done rf" "dp_relations p = rf_relations rf"
    using projection_folds [OF assms(1-3)] by metis
  then show ?thesis by (rule visible_exact [OF assms(4)])
qed

theorem relations_visible_exact_witness:
  "\<exists>p. sample_projection = Done p \<and> relations_visible_to p {''n''} \<noteq> [] \<and> relations_visible_to p {} = []"
proof -
  obtain p where p: "sample_projection = Done p" "map ra_id (dp_relations p) = [''5'']" using sample_projected by (elim exE conjE) (rule that)
  note visible = relations_visible_exact [OF p(1) sample_closed sample_decodes sample_replica_causal]
  define a where "a = the (assertion_of ''s'' (signed ''5'' ''D'' (AssertRelation (Core Cites) passage whole_note None None)))"
  have up: "assertions_upheld (ca_before sample_api sample_records) (po_space_id sample_policy) sample_decoded sample_decoded = [a]"
    unfolding a_def by code_simp
  have ends: "rn_document_id (ra_subject a) = ''n''" "rn_document_id (ra_object a) = ''n''"
    unfolding a_def by code_simp+
  have "\<not> (\<exists>y \<in> set sample_decoded. retracts (ca_before sample_api sample_records) a y)"
    by (simp add: retracts_def sample_decoded_def signed_def)
  then have "a \<in> set (relations_visible_to p {''n''})"
    unfolding visible up using ends by simp
  then have "relations_visible_to p {''n''} \<noteq> []" by force
  moreover have "relations_visible_to p {} = []" by (simp add: relations_visible_to_def relation_history_visible_to_def)
  ultimately show ?thesis using p(1) by (intro exI conjI)
qed

text \<open>
  Looking for a capture of a file that a writer retained gives the least hash of the matching
  operations, or nothing when there is none: it does not depend on the order of the traversal.
\<close>

theorem find_capture_least:
  assumes "find_file_revision_with_cipher codec causal policy records cipher writer r = Done m"
    and "ca_closed causal records = Inr (order, pending)"
  shows "m = least_of None (captures codec cipher records writer r order)"
proof -
  from assms have "validate_revision r = Inr ()" "find_captures codec cipher records writer r order None = Done m"
    by (auto simp: find_file_revision_with_cipher_def chain_Done of_result_Done map_error_Inr split: if_splits)
  with find_captures_least show ?thesis by blast
qed

theorem find_capture_least_witness:
  "least_of None (captures sample_codec (Personal ()) sample_records ''C'' sample_capture [0..<5]) = Some ''4''"
proof -
  have "find_file_revision_with_cipher sample_codec sample_api sample_policy sample_records (Personal ()) ''C'' sample_capture = Done (Some ''4'')"
    by code_simp
  from find_capture_least [OF this sample_closed] show ?thesis by simp
qed

end
