(* ===== verification/Composition_Item.thy ===== *)
theory Composition_Item
  imports Knot_Text Ordered_Map Complex_Main
begin

text \<open>
  Collected material (\<open>knot-composition\<close>): items with their provenance, their validation, and the
  organization that can change beside them. Projection recipes are compiled and metre scenes are
  checked by other packages; what those say is an argument.
\<close>

section \<open>Bounds\<close>

definition STORE_VERSION :: nat where "STORE_VERSION = 1"
definition MAX_STORE_BYTES :: nat where "MAX_STORE_BYTES = 16 * 1024 * 1024"
definition MAX_ITEMS :: nat where "MAX_ITEMS = 10000"
definition MAX_TEXT_BYTES :: nat where "MAX_TEXT_BYTES = 1024 * 1024"
definition MAX_LABEL_BYTES :: nat where "MAX_LABEL_BYTES = 16 * 1024"
definition MAX_ID_BYTES :: nat where "MAX_ID_BYTES = 256"
definition MAX_TAGS :: nat where "MAX_TAGS = 64"
definition MAX_TAG_BYTES :: nat where "MAX_TAG_BYTES = 1024"
definition MAX_PACK_SOURCES :: nat where "MAX_PACK_SOURCES = 64"

lemmas composition_bounds = MAX_STORE_BYTES_def MAX_ITEMS_def MAX_TEXT_BYTES_def MAX_LABEL_BYTES_def
  MAX_ID_BYTES_def MAX_TAGS_def MAX_TAG_BYTES_def MAX_PACK_SOURCES_def

section \<open>Anchors\<close>

record document_anchor =
  da_document_address :: string
  da_exact_quote :: string
  da_start :: nat
  da_end :: nat
  da_source_hash :: "string option"

datatype anchor_error = InvalidAddress | InvalidRange | InvalidHash | StaleSource | QuoteMismatch

fun show_anchor_error :: "anchor_error \<Rightarrow> string" where
  "show_anchor_error InvalidAddress = ''document address is empty or too large''"
| "show_anchor_error InvalidRange = ''quotation range is invalid, too large, or not a UTF-8 byte range''"
| "show_anchor_error InvalidHash = ''source hash is not a lowercase BLAKE3 digest''"
| "show_anchor_error StaleSource = ''document source differs from the captured source''"
| "show_anchor_error QuoteMismatch = ''original byte range no longer matches the copied quotation''"

definition bad_address :: "string \<Rightarrow> bool" where
  "bad_address a \<longleftrightarrow> str_trim a = [] \<or> length a > MAX_LABEL_BYTES"

text \<open>\<open>digest\<close> is the hexadecimal BLAKE3 hash.\<close>

definition anchor_capture :: "(string \<Rightarrow> string) \<Rightarrow> string \<Rightarrow> string \<Rightarrow> nat \<Rightarrow> nat \<Rightarrow> anchor_error + document_anchor" where
  "anchor_capture digest address source start stop =
     (if bad_address address then Inl InvalidAddress
      else case str_get source start stop of
        None \<Rightarrow> Inl InvalidRange
      | Some quote \<Rightarrow>
          if quote \<noteq> [] \<and> length quote \<le> MAX_TEXT_BYTES
          then Inr \<lparr>da_document_address = address, da_exact_quote = quote, da_start = start, da_end = stop,
            da_source_hash = Some (digest source)\<rparr>
          else Inl InvalidRange)"

definition hash_shaped :: "string \<Rightarrow> bool" where
  "hash_shaped h \<longleftrightarrow> length h = 64 \<and> list_all (\<lambda>c. is_ascii_digit c \<or> 97 \<le> byte c \<and> byte c \<le> 102) h"

definition validate_shape :: "document_anchor \<Rightarrow> anchor_error + unit" where
  "validate_shape a =
     and_then (ensure_that (\<not> bad_address (da_document_address a)) InvalidAddress) (\<lambda>_.
     and_then (ensure_that (\<not> (da_exact_quote a = [] \<or> length (da_exact_quote a) > MAX_TEXT_BYTES \<or>
         (if da_end a < da_start a then None else Some (da_end a - da_start a)) \<noteq> Some (length (da_exact_quote a)))) InvalidRange) (\<lambda>_.
     ensure_that (case da_source_hash a of None \<Rightarrow> True | Some h \<Rightarrow> hash_shaped h) InvalidHash))"

definition validate_source :: "(string \<Rightarrow> string) \<Rightarrow> document_anchor \<Rightarrow> string \<Rightarrow> anchor_error + unit" where
  "validate_source digest a source =
     and_then (validate_shape a) (\<lambda>_.
     and_then (ensure_that (case da_source_hash a of None \<Rightarrow> True | Some h \<Rightarrow> h = digest source) StaleSource) (\<lambda>_.
     case str_get source (da_start a) (da_end a) of
       None \<Rightarrow> Inl InvalidRange
     | Some quote \<Rightarrow> ensure_that (quote = da_exact_quote a) QuoteMismatch))"

section \<open>Items\<close>

datatype item_kind = WordItem | PassageItem | SenseItem | PronunciationItem | NoteItem | ProjectionRecipe | MetreAlignment

record pack_source =
  ks_pack_id :: string
  ks_pack_version :: string
  ks_entry_ref :: string

record ('r, 'm) collection_item =
  ci_id :: string
  ci_collection :: string
  ci_kind :: item_kind
  ci_label :: string
  ci_text :: string
  ci_projection_recipe :: "'r option"
  ci_metre_scene :: "'m option"
  ci_pack_sources :: "pack_source list"
  ci_document_source :: "document_anchor option"
  ci_author_notes :: string
  ci_tags :: "string list"
  ci_order :: int

datatype collection_error = CollectionIo string | Malformed string | UnsupportedStore nat | InvalidItem string
  | AnchorError anchor_error | DuplicateItem string | StoreTooLarge | ConcurrentChange | DurabilityUncertain string

fun show_collection_error :: "collection_error \<Rightarrow> string" where
  "show_collection_error (CollectionIo e) = ''collection I/O failed: '' @ e"
| "show_collection_error (Malformed e) = ''collection store is malformed: '' @ e"
| "show_collection_error (UnsupportedStore v) = ''unsupported collection version '' @ nat_str v"
| "show_collection_error (InvalidItem r) = ''invalid collection material: '' @ r"
| "show_collection_error (AnchorError e) = ''invalid document provenance: '' @ show_anchor_error e"
| "show_collection_error (DuplicateItem i) = ''collection item already exists: '' @ i"
| "show_collection_error StoreTooLarge = ''collection store exceeds its bounded size or item count''"
| "show_collection_error ConcurrentChange = ''collection store changed externally; reopen before editing''"
| "show_collection_error (DurabilityUncertain e) =
    ''collection saved, but directory synchronization failed: '' @ e @ ''; reopen before retrying''"

text \<open>What the packages of scenes and projections say: whether a scene has metrical facts, their check of it,
  its encoded length, and the check of a recipe.\<close>

record ('r, 'm) item_env =
  ie_metre_grid :: "'m \<Rightarrow> bool"
  ie_scene :: "'m \<Rightarrow> string + unit"
  ie_scene_bytes :: "'m \<Rightarrow> string + nat"
  ie_max_scene_bytes :: nat
  ie_recipe :: "'r \<Rightarrow> collection_error + unit"

definition bounded_nonempty :: "string \<Rightarrow> string \<Rightarrow> nat \<Rightarrow> collection_error + unit" where
  "bounded_nonempty name v bound =
     ensure_that (\<not> (str_trim v = [] \<or> length v > bound)) (InvalidItem (name @ '' is empty or too large''))"

definition validate_metre :: "('r, 'm) item_env \<Rightarrow> item_kind \<Rightarrow> 'm option \<Rightarrow> collection_error + unit" where
  "validate_metre env kind scene = (case scene of
     Some m \<Rightarrow>
       if kind = MetreAlignment then
         and_then (ensure_that (ie_metre_grid env m) (InvalidItem ''Metre alignment requires metrical facts'')) (\<lambda>_.
         and_then (map_error InvalidItem (ie_scene env m)) (\<lambda>_.
         and_then (map_error Malformed (ie_scene_bytes env m)) (\<lambda>n.
         ensure_that (\<not> n > ie_max_scene_bytes env) (InvalidItem ''Metre scene exceeds one MiB''))))
       else Inl (InvalidItem ''Metre kind and payload must match'')
   | None \<Rightarrow> ensure_that (kind \<noteq> MetreAlignment) (InvalidItem ''Metre kind and payload must match''))"

definition validate_recipe_of :: "('r, 'm) item_env \<Rightarrow> item_kind \<Rightarrow> 'r option \<Rightarrow> collection_error + unit" where
  "validate_recipe_of env kind recipe = (case recipe of
     Some r \<Rightarrow>
       if kind = ProjectionRecipe then ie_recipe env r
       else Inl (InvalidItem ''projection recipe kind and typed payload must match'')
   | None \<Rightarrow> ensure_that (kind \<noteq> ProjectionRecipe) (InvalidItem ''projection recipe kind and typed payload must match''))"

definition validate_pack_source :: "pack_source \<Rightarrow> collection_error + unit" where
  "validate_pack_source s =
     and_then (bounded_nonempty ''pack id'' (ks_pack_id s) MAX_LABEL_BYTES) (\<lambda>_.
     and_then (bounded_nonempty ''pack version'' (ks_pack_version s) MAX_LABEL_BYTES) (\<lambda>_.
     bounded_nonempty ''pack entry reference'' (ks_entry_ref s) MAX_LABEL_BYTES))"

definition validate_item :: "('r, 'm) item_env \<Rightarrow> ('r, 'm) collection_item \<Rightarrow> collection_error + unit" where
  "validate_item env i =
     and_then (validate_metre env (ci_kind i) (ci_metre_scene i)) (\<lambda>_.
     and_then (validate_recipe_of env (ci_kind i) (ci_projection_recipe i)) (\<lambda>_.
     and_then (bounded_nonempty ''item id'' (ci_id i) MAX_ID_BYTES) (\<lambda>_.
     and_then (bounded_nonempty ''collection'' (ci_collection i) MAX_ID_BYTES) (\<lambda>_.
     and_then (bounded_nonempty ''label'' (ci_label i) MAX_LABEL_BYTES) (\<lambda>_.
     and_then (ensure_that (\<not> (ci_text i = [] \<or> length (ci_text i) > MAX_TEXT_BYTES))
       (InvalidItem ''copied text is empty or too large'')) (\<lambda>_.
     and_then (ensure_that (\<not> length (ci_author_notes i) > MAX_TEXT_BYTES) (InvalidItem ''author notes are too large'')) (\<lambda>_.
     and_then (ensure_that (\<not> (length (ci_tags i) > MAX_TAGS \<or> length (ci_pack_sources i) > MAX_PACK_SOURCES))
       (InvalidItem ''too many tags or pack references'')) (\<lambda>_.
     and_then (for_each (\<lambda>t. bounded_nonempty ''tag'' t MAX_TAG_BYTES) (ci_tags i)) (\<lambda>_.
     and_then (for_each validate_pack_source (ci_pack_sources i)) (\<lambda>_.
     if_some (\<lambda>s. map_error AnchorError (validate_shape s)) (ci_document_source i)))))))))))"

text \<open>The identifiers are \<open>Uuid::new_v4\<close>.\<close>

definition new_item :: "string \<Rightarrow> item_kind \<Rightarrow> string \<Rightarrow> string \<Rightarrow> ('r, 'm) collection_item" where
  "new_item uuid kind label t = \<lparr>ci_id = uuid, ci_collection = ''Commonplace'', ci_kind = kind, ci_label = label,
     ci_text = t, ci_projection_recipe = None, ci_metre_scene = None, ci_pack_sources = [], ci_document_source = None,
     ci_author_notes = [], ci_tags = [], ci_order = 0\<rparr>"

definition in_collection :: "string \<Rightarrow> ('r, 'm) collection_item \<Rightarrow> ('r, 'm) collection_item" where
  "in_collection c i = i\<lparr>ci_collection := c\<rparr>"

definition with_projection_recipe :: "'r \<Rightarrow> ('r, 'm) collection_item \<Rightarrow> ('r, 'm) collection_item" where
  "with_projection_recipe r i = i\<lparr>ci_kind := ProjectionRecipe, ci_projection_recipe := Some r\<rparr>"

definition with_metre_scene :: "'m \<Rightarrow> ('r, 'm) collection_item \<Rightarrow> ('r, 'm) collection_item" where
  "with_metre_scene m i = i\<lparr>ci_kind := MetreAlignment, ci_metre_scene := Some m\<rparr>"

definition with_pack_source :: "pack_source \<Rightarrow> ('r, 'm) collection_item \<Rightarrow> ('r, 'm) collection_item" where
  "with_pack_source s i = i\<lparr>ci_pack_sources := ci_pack_sources i @ [s]\<rparr>"

definition with_document_source :: "document_anchor \<Rightarrow> ('r, 'm) collection_item \<Rightarrow> ('r, 'm) collection_item" where
  "with_document_source a i = i\<lparr>ci_document_source := Some a\<rparr>"

definition with_author_notes :: "string \<Rightarrow> ('r, 'm) collection_item \<Rightarrow> ('r, 'm) collection_item" where
  "with_author_notes n i = i\<lparr>ci_author_notes := n\<rparr>"

definition with_tags :: "string list \<Rightarrow> ('r, 'm) collection_item \<Rightarrow> ('r, 'm) collection_item" where
  "with_tags ts i = i\<lparr>ci_tags := ts\<rparr>"

definition with_order :: "int \<Rightarrow> ('r, 'm) collection_item \<Rightarrow> ('r, 'm) collection_item" where
  "with_order n i = i\<lparr>ci_order := n\<rparr>"

definition validate_items :: "('r, 'm) item_env \<Rightarrow> ('r, 'm) collection_item list \<Rightarrow> collection_error + unit" where
  "validate_items env items =
     and_then (ensure_that (\<not> length items > MAX_ITEMS) StoreTooLarge) (\<lambda>_.
     for_each (\<lambda>n. and_then (validate_item env (items ! n)) (\<lambda>_.
       ensure_that (ci_id (items ! n) \<notin> ci_id ` set (take n items)) (DuplicateItem (ci_id (items ! n))))) [0..<length items])"

section \<open>Organization\<close>

record organization =
  og_label :: string
  og_collection :: string
  og_author_notes :: string
  og_tags :: "string list"
  og_order :: int
  og_archived :: bool

definition organization_from_item :: "('r, 'm) collection_item \<Rightarrow> organization" where
  "organization_from_item i = \<lparr>og_label = ci_label i, og_collection = ci_collection i, og_author_notes = ci_author_notes i,
     og_tags = ci_tags i, og_order = ci_order i, og_archived = False\<rparr>"

definition validate_organization :: "organization \<Rightarrow> collection_error + unit" where
  "validate_organization g =
     and_then (bounded_nonempty ''label'' (og_label g) MAX_LABEL_BYTES) (\<lambda>_.
     and_then (bounded_nonempty ''collection'' (og_collection g) MAX_ID_BYTES) (\<lambda>_.
     and_then (ensure_that (\<not> (length (og_author_notes g) > MAX_TEXT_BYTES \<or> length (og_tags g) > MAX_TAGS))
       (InvalidItem ''organization exceeds metadata bounds'')) (\<lambda>_.
     for_each (\<lambda>t. bounded_nonempty ''tag'' t MAX_TAG_BYTES) (og_tags g))))"

section \<open>Recipes\<close>

text \<open>A float that a recipe stores, as far as its checks can tell: its value, or that it is not finite.\<close>

datatype f32 = Finite rat | NonFinite

definition f32_within :: "rat \<Rightarrow> rat \<Rightarrow> f32 \<Rightarrow> bool" where
  "f32_within lo hi x = (case x of Finite v \<Rightarrow> lo \<le> v \<and> v \<le> hi | NonFinite \<Rightarrow> False)"

record ('o, 't) presentation =
  pn_version :: nat
  pn_overview_visible :: bool
  pn_background_visible :: bool
  pn_hidden_background_categories :: "string list"
  pn_foreground_occurrences :: "string list"
  pn_motion_roles :: "(string \<times> 'o) list"
  pn_pan_x :: f32
  pn_pan_y :: f32
  pn_zoom :: f32
  pn_placement_trace :: "'t option"

definition default_presentation :: "('o, 't) presentation" where
  "default_presentation = \<lparr>pn_version = 1, pn_overview_visible = False, pn_background_visible = True,
     pn_hidden_background_categories = [], pn_foreground_occurrences = [], pn_motion_roles = [],
     pn_pan_x = Finite 0, pn_pan_y = Finite 0, pn_zoom = Finite 1, pn_placement_trace = None\<rparr>"

definition refresh_version :: "('o, 't) presentation \<Rightarrow> ('o, 't) presentation" where
  "refresh_version p = p\<lparr>pn_version :=
     if pn_motion_roles p \<noteq> [] then 4
     else if pn_placement_trace p \<noteq> None then 3
     else if pn_hidden_background_categories p \<noteq> [] then 2 else 1\<rparr>"

text \<open>\<open>kinds\<close> and \<open>occurrences\<close> are the relationship kinds and the occurrences of the dataset.\<close>

definition undisclosed :: "string list \<Rightarrow> string list \<Rightarrow> bool" where
  "undisclosed known xs \<longleftrightarrow> list_ex (\<lambda>x. x = [] \<or> x \<notin> set known) xs"

definition validate_presentation :: "string list \<Rightarrow> string list \<Rightarrow> ('o, 't) presentation \<Rightarrow> collection_error + unit" where
  "validate_presentation kinds occurrences p =
     and_then (ensure_that (\<not> (pn_version p \<notin> {1, 2, 3, 4} \<or>
         pn_version p = 1 \<and> pn_hidden_background_categories p \<noteq> [] \<or>
         pn_version p < 3 \<and> pn_placement_trace p \<noteq> None \<or> pn_version p = 3 \<and> pn_placement_trace p = None \<or>
         pn_version p < 4 \<and> pn_motion_roles p \<noteq> [] \<or> pn_version p = 4 \<and> pn_motion_roles p = []))
       (InvalidItem ''unsupported recipe scene presentation version'')) (\<lambda>_.
     and_then (ensure_that (\<not> length (pn_hidden_background_categories p) > 256)
       (InvalidItem ''too many recipe scene background categories'')) (\<lambda>_.
     and_then (ensure_that (\<not> undisclosed kinds (pn_hidden_background_categories p))
       (InvalidItem ''recipe scene background category is invalid or undisclosed'')) (\<lambda>_.
     and_then (ensure_that (\<not> (length (pn_foreground_occurrences p) > 256 \<or> undisclosed occurrences (pn_foreground_occurrences p)))
       (InvalidItem ''recipe scene foreground occurrence is invalid or undisclosed'')) (\<lambda>_.
     and_then (ensure_that (\<not> (length (pn_motion_roles p) > 256 \<or> undisclosed occurrences (map fst (pn_motion_roles p))))
       (InvalidItem ''recipe scene motion role occurrence is invalid or undisclosed'')) (\<lambda>_.
     and_then (ensure_that (f32_within (-4) 4 (pn_pan_x p) \<and> f32_within (-4) 4 (pn_pan_y p))
       (InvalidItem ''recipe scene pan must be finite and within normalized bounds'')) (\<lambda>_.
     ensure_that (f32_within (1 / 4) 4 (pn_zoom p)) (InvalidItem ''recipe scene zoom must be finite and within bounds'')))))))"

record recipe_anchor =
  an_node_id :: string
  an_source :: document_anchor

record ('s, 'd, 'o, 't) recipe_material =
  rc_snapshot :: 's
  rc_dataset :: 'd
  rc_anchors :: "recipe_anchor list"
  rc_presentation :: "('o, 't) presentation option"

record ('s, 'd, 'o, 't) recipe_env =
  re_bytes :: "('s, 'd, 'o, 't) recipe_material \<Rightarrow> string + nat"
  re_compile :: "'s \<Rightarrow> 'd \<Rightarrow> string + unit"
  re_kinds :: "'d \<Rightarrow> string list"
  re_occurrences :: "'d \<Rightarrow> string list"
  re_placement :: "('s, 'd, 'o, 't) recipe_material \<Rightarrow> 't \<Rightarrow> collection_error + unit"

definition validate_recipe_anchor :: "string list \<Rightarrow> recipe_anchor list \<Rightarrow> nat \<Rightarrow> collection_error + unit" where
  "validate_recipe_anchor occurrences anchors n =
     and_then (ensure_that (an_node_id (anchors ! n) \<notin> an_node_id ` set (take n anchors) \<and>
         an_node_id (anchors ! n) \<in> set occurrences) (InvalidItem ''recipe source anchor is duplicate or not disclosed'')) (\<lambda>_.
     and_then (map_error AnchorError (validate_shape (an_source (anchors ! n)))) (\<lambda>_.
     ensure_that (da_source_hash (an_source (anchors ! n)) \<noteq> None)
       (InvalidItem ''recipe source anchor requires a full source hash'')))"

definition validate_recipe :: "('s, 'd, 'o, 't) recipe_env \<Rightarrow> ('s, 'd, 'o, 't) recipe_material \<Rightarrow> collection_error + unit" where
  "validate_recipe env r =
     and_then (ensure_that (\<not> length (rc_anchors r) > 1024) (InvalidItem ''too many recipe source anchors'')) (\<lambda>_.
     and_then (map_error InvalidItem (re_bytes env r)) (\<lambda>n.
     and_then (ensure_that (\<not> n > MAX_TEXT_BYTES) (InvalidItem ''projection recipe material exceeds one MiB'')) (\<lambda>_.
     and_then (map_error (\<lambda>issues. InvalidItem (''invalid projection recipe: '' @ issues))
       (re_compile env (rc_snapshot r) (rc_dataset r))) (\<lambda>_.
     and_then (if_some (\<lambda>p. and_then (validate_presentation (re_kinds env (rc_dataset r)) (re_occurrences env (rc_dataset r)) p) (\<lambda>_.
         if_some (re_placement env r) (pn_placement_trace p))) (rc_presentation r)) (\<lambda>_.
     for_each (validate_recipe_anchor (re_occurrences env (rc_dataset r)) (rc_anchors r)) [0..<length (rc_anchors r)])))))"

section \<open>What validation says\<close>

lemma bounded_nonempty_Inr [ok_iff]: "bounded_nonempty name v n = Inr u \<longleftrightarrow> str_trim v \<noteq> [] \<and> length v \<le> n"
  by (simp add: bounded_nonempty_def ok_iff not_less)

lemma distinct_by_position: "distinct (map f xs) \<longleftrightarrow> (\<forall>n < length xs. f (xs ! n) \<notin> f ` set (take n xs))"
  by (induction xs rule: rev_induct) (auto simp: nth_append less_Suc_eq)

lemma validate_items_Inr: "validate_items env items = Inr u \<longleftrightarrow> length items \<le> MAX_ITEMS \<and> distinct (map ci_id items) \<and>
    (\<forall>i \<in> set items. validate_item env i = Inr ())"
proof -
  have "validate_items env items = Inr u \<longleftrightarrow> length items \<le> MAX_ITEMS \<and>
      (\<forall>n < length items. validate_item env (items ! n) = Inr () \<and> ci_id (items ! n) \<notin> ci_id ` set (take n items))"
    by (simp add: validate_items_def ok_iff not_less atLeast0LessThan Ball_def)
  then show ?thesis unfolding distinct_by_position all_set_conv_all_nth by blast
qed

lemma validate_shape_Inr: "validate_shape a = Inr u \<longleftrightarrow> \<not> bad_address (da_document_address a) \<and> da_exact_quote a \<noteq> [] \<and>
    length (da_exact_quote a) \<le> MAX_TEXT_BYTES \<and> da_end a = da_start a + length (da_exact_quote a) \<and>
    (\<forall>h. da_source_hash a = Some h \<longrightarrow> hash_shaped h)"
  by (auto simp: validate_shape_def ok_iff not_less split: option.splits if_splits)

text \<open>A captured anchor is valid for a source exactly when that source has the same hash and the same quotation there.\<close>

lemma str_get_length: "str_get s a b = Some q \<Longrightarrow> b = a + length q"
  by (auto simp: str_get_def dest: is_char_boundary_le split: if_splits)

lemma captured_anchor_valid:
  assumes "anchor_capture digest address source start stop = Inr a" and "\<And>s. hash_shaped (digest s)"
  shows "validate_source digest a t = Inr () \<longleftrightarrow> digest t = digest source \<and> str_get t start stop = str_get source start stop"
proof -
  from assms(1) obtain quote where q: "\<not> bad_address address" "str_get source start stop = Some quote" "quote \<noteq> []"
    "length quote \<le> MAX_TEXT_BYTES" and a: "a = \<lparr>da_document_address = address, da_exact_quote = quote, da_start = start,
      da_end = stop, da_source_hash = Some (digest source)\<rparr>"
    by (auto simp: anchor_capture_def split: if_splits option.splits)
  have "validate_shape a = Inr ()" using q a assms(2) str_get_length [OF q(2)] by (simp add: validate_shape_Inr)
  with q(2) a show ?thesis by (auto simp: validate_source_def ok_iff split: option.splits)
qed

text \<open>A refreshed version is the right one for what the presentation has.\<close>

lemma refreshed_presentation_valid:
  assumes "length (pn_hidden_background_categories p) \<le> 256" and "\<not> undisclosed kinds (pn_hidden_background_categories p)"
    and "length (pn_foreground_occurrences p) \<le> 256" and "\<not> undisclosed occurrences (pn_foreground_occurrences p)"
    and "length (pn_motion_roles p) \<le> 256" and "\<not> undisclosed occurrences (map fst (pn_motion_roles p))"
    and "f32_within (-4) 4 (pn_pan_x p)" and "f32_within (-4) 4 (pn_pan_y p)" and "f32_within (1 / 4) 4 (pn_zoom p)"
  shows "validate_presentation kinds occurrences (refresh_version p) = Inr ()"
  using assms by (auto simp: validate_presentation_def refresh_version_def ok_iff)

end
