(* ===== verification/Peer_Author.thy ===== *)
theory Peer_Author
  imports Peer_View Composition_Item
begin

text \<open>
  Authoring on a replica (\<open>author_under_gate\<close> and \<open>validate_local_relation_event\<close> in \<open>sync.rs\<close>): an
  event is checked against the closed history before it is sealed, signed and stored. The main
  theorem says that what passes this check is what the fold of every replica will accept.
\<close>

section \<open>Composition material in events\<close>

record ('r, 'm) composition_codec =
  cp_item :: "string \<Rightarrow> string + ('r, 'm) collection_item"
  cp_organization :: "string \<Rightarrow> string + organization"
  cp_env :: "('r, 'm) item_env"

definition composition_item :: "('r, 'm) composition_codec \<Rightarrow> string \<Rightarrow> sync_error + ('r, 'm) collection_item" where
  "composition_item cp json =
     (if length json > MAX_STORE_BYTES then Inl (PayloadError ''composition item exceeds byte limit'')
      else and_then (map_error PayloadError (cp_item cp json)) (\<lambda>item.
        and_then (map_error (\<lambda>e. PayloadError (show_collection_error e)) (validate_item (cp_env cp) item)) (\<lambda>_. Inr item)))"

definition composition_organization :: "('r, 'm) composition_codec \<Rightarrow> string \<Rightarrow> sync_error + organization" where
  "composition_organization cp json =
     (if length json > MAX_STORE_BYTES then Inl (PayloadError ''organization exceeds byte limit'')
      else and_then (map_error PayloadError (cp_organization cp json)) (\<lambda>g.
        and_then (map_error (\<lambda>e. PayloadError (show_collection_error e)) (validate_organization g)) (\<lambda>_. Inr g)))"

section \<open>Local validation\<close>

definition frontier_observes :: "(id32 \<Rightarrow> id32 \<Rightarrow> bool) \<Rightarrow> id32 list \<Rightarrow> id32 \<Rightarrow> bool" where
  "frontier_observes before parents i \<longleftrightarrow> list_ex (\<lambda>p. p = i \<or> before i p) parents"

definition decode_all :: "('v, 'k, 'e) codec \<Rightarrow> ('v, 'k) cipher \<Rightarrow> stored_operation list \<Rightarrow> nat list \<Rightarrow>
    (sync_error, signed_event list) outcome" where
  "decode_all codec cipher records order = map_done fst (decode_closed codec cipher Strict records order)"

definition local_predicate_catalog :: "('v, 'k, 'e) codec \<Rightarrow> ('v, 'k) cipher \<Rightarrow> stored_operation list \<Rightarrow> nat list \<Rightarrow>
    (id32 \<Rightarrow> id32 \<Rightarrow> bool) \<Rightarrow> id32 \<Rightarrow> (sync_error, predicate_catalog) outcome" where
  "local_predicate_catalog codec cipher records order before scope =
     chain (decode_all codec cipher records order) (\<lambda>es. map_done rf_catalog (fold_relations before scope es))"

definition local_document_versions :: "('v, 'k, 'e) codec \<Rightarrow> ('v, 'k) cipher \<Rightarrow> stored_operation list \<Rightarrow> nat list \<Rightarrow>
    (sync_error, id32 \<rightharpoonup> vault_document) outcome" where
  "local_document_versions codec cipher records order = map_done documents_of (decode_all codec cipher records order)"

fun capture_message :: "capture_error \<Rightarrow> string" where
  "capture_message (Rejected m) = m"
| "capture_message (Unverifiable m) = m"

definition validate_local_organization :: "('v, 'k, 'e) codec \<Rightarrow> ('r, 'm) composition_codec \<Rightarrow> ('v, 'k) cipher \<Rightarrow>
    stored_operation list \<Rightarrow> nat list \<Rightarrow> (id32 \<Rightarrow> id32 \<Rightarrow> bool) \<Rightarrow> id32 list \<Rightarrow> id32 \<Rightarrow> string \<Rightarrow> id32 \<Rightarrow> string \<Rightarrow>
    (sync_error, unit) outcome" where
  "validate_local_organization codec cp cipher records order before parents original_author item_id previous json =
     (if item_id = [] \<or> length item_id > 256 then Raise (PayloadError ''invalid organization item identity'')
      else chain (of_result (composition_organization cp json)) (\<lambda>_.
        if \<not> frontier_observes before parents previous
        then Raise (PayloadError ''organization revision is not in the causal past'')
        else chain (find_operation records previous order) (\<lambda>found. case found of
            None \<Rightarrow> Raise (PayloadError ''organization predecessor is unavailable'')
          | Some predecessor \<Rightarrow> chain (of_result (decode_event codec cipher predecessor)) (\<lambda>e.
              chain (case e of
                  RetainCompositionV1 item_json \<Rightarrow>
                    if op_author predecessor = original_author
                    then map_done (\<lambda>item. ci_id item = item_id) (of_result (composition_item cp item_json))
                    else Done False
                | OrganizeCompositionV1 author i _ _ \<Rightarrow> Done (author = original_author \<and> i = item_id)
                | _ \<Rightarrow> Done False) (\<lambda>same_item.
              if same_item then Done () else Raise (PayloadError ''organization predecessor belongs to another item''))))))"

definition validate_local_endpoint :: "(id32 \<rightharpoonup> vault_document) \<Rightarrow> (id32 \<Rightarrow> id32 \<Rightarrow> bool) \<Rightarrow> id32 list \<Rightarrow>
    string \<times> relation_endpoint \<Rightarrow> sync_error + unit" where
  "validate_local_endpoint documents before parents = (\<lambda>(role, e). case documents (rn_document_head e) of
       None \<Rightarrow> Inl (InvalidRelation (''relation '' @ role @ '' document head is unavailable for capture verification''))
     | Some document \<Rightarrow>
         if vd_id document \<noteq> rn_document_id e
         then Inl (InvalidRelation (''relation '' @ role @ '' document id does not match its captured head''))
         else if \<not> frontier_observes before parents (rn_document_head e)
         then Inl (InvalidRelation (''relation '' @ role @ '' assertion does not observe its document head''))
         else map_error (\<lambda>x. InvalidRelation (capture_message x)) (validate_endpoint_capture e document role))"

definition validate_local_predicate :: "predicate_catalog \<Rightarrow> (id32 \<Rightarrow> id32 \<Rightarrow> bool) \<Rightarrow> id32 list \<Rightarrow> id32 \<Rightarrow> sync_error + unit" where
  "validate_local_predicate catalog before parents i = (case root_of catalog i of
       None \<Rightarrow> Inl (InvalidRelation ''relation names an unavailable predicate definition'')
     | Some r \<Rightarrow>
         if \<not> frontier_observes before parents i
         then Inl (InvalidRelation ''assertion does not observe its predicate definition'')
         else if list_ex (\<lambda>d. pd_root d = r \<and> pd_replaced_by d \<noteq> None \<and> frontier_observes before parents (pd_id d))
           (pc_definitions catalog)
         then Inl (InvalidRelation ''relation names a retired predicate definition'')
         else Inr ())"

definition validate_local_assertion :: "('v, 'k, 'e) codec \<Rightarrow> ('v, 'k) cipher \<Rightarrow> stored_operation list \<Rightarrow> nat list \<Rightarrow>
    (id32 \<Rightarrow> id32 \<Rightarrow> bool) \<Rightarrow> id32 list \<Rightarrow> id32 \<Rightarrow> predicate_ref \<Rightarrow> relation_endpoint \<Rightarrow> relation_endpoint \<Rightarrow>
    (sync_error, unit) outcome" where
  "validate_local_assertion codec cipher records order before parents scope p subject object =
     chain (of_result (map_error InvalidRelation (validate_relation_payload p subject object))) (\<lambda>_.
     chain (case p of
         Defined i \<Rightarrow> chain (local_predicate_catalog codec cipher records order before scope) (\<lambda>catalog.
           of_result (validate_local_predicate catalog before parents i))
       | _ \<Rightarrow> Done ()) (\<lambda>_.
     chain (local_document_versions codec cipher records order) (\<lambda>documents.
     of_result (for_each (validate_local_endpoint documents before parents) [(''subject'', subject), (''object'', object)]))))"

definition validate_local_retraction :: "('v, 'k, 'e) codec \<Rightarrow> ('v, 'k) cipher \<Rightarrow> stored_operation list \<Rightarrow> nat list \<Rightarrow>
    (id32 \<Rightarrow> id32 \<Rightarrow> bool) \<Rightarrow> id32 list \<Rightarrow> id32 \<Rightarrow> id32 \<Rightarrow> id32 \<Rightarrow> (sync_error, unit) outcome" where
  "validate_local_retraction codec cipher records order before parents scope author assertion =
     chain (decode_all codec cipher records order) (\<lambda>es.
     chain (fold_relations before scope es) (\<lambda>f.
     case find (\<lambda>(i, _). i = assertion) (map name_and_author (rf_relations f) @
         map (name_and_author \<circ> un_assertion) (rf_unverified f)) of
       None \<Rightarrow> Raise (InvalidRelation ''retraction names no valid or unverified relation assertion'')
     | Some (_, asserted_by) \<Rightarrow>
         if asserted_by \<noteq> author then Raise (InvalidRelation ''only the assertion's signed author may retract it'')
         else if \<not> frontier_observes before parents assertion
         then Raise (InvalidRelation ''retraction does not causally observe its assertion'')
         else Done ()))"

definition validate_local_definition :: "('v, 'k, 'e) codec \<Rightarrow> ('v, 'k) cipher \<Rightarrow> stored_operation list \<Rightarrow> nat list \<Rightarrow>
    (id32 \<Rightarrow> id32 \<Rightarrow> bool) \<Rightarrow> id32 list \<Rightarrow> id32 \<Rightarrow> id32 \<Rightarrow> predicate_proposal \<Rightarrow> (sync_error, unit) outcome" where
  "validate_local_definition codec cipher records order before parents scope author p =
     chain (of_result (map_error InvalidPredicate (validate_predicate_definition_payload (pp_slug p) (pp_label p)
       (pp_description p) (pp_subproperty_of p) (pp_lowers_to p)))) (\<lambda>_.
     case pp_supersedes p of
       None \<Rightarrow> Done ()
     | Some i \<Rightarrow> chain (local_predicate_catalog codec cipher records order before scope) (\<lambda>catalog.
         case catalog_definition catalog i of
           None \<Rightarrow> Raise (InvalidPredicate ''definition supersedes an unavailable predicate definition'')
         | Some previous \<Rightarrow>
             if pd_author previous \<noteq> author
             then Raise (InvalidPredicate ''only the minting author may supersede a predicate definition'')
             else if \<not> frontier_observes before parents (pd_id previous)
             then Raise (InvalidPredicate ''definition does not observe the definition it supersedes'')
             else if pd_slug previous \<noteq> pp_slug p
             then Raise (InvalidPredicate ''a superseding definition keeps the chain's slug'')
             else Done ()))"

definition validate_local_relation_event :: "('v, 'k, 'e) codec \<Rightarrow> ('r, 'm) composition_codec \<Rightarrow> ('v, 'k) cipher \<Rightarrow>
    stored_operation list \<Rightarrow> nat list \<Rightarrow> (id32 \<Rightarrow> id32 \<Rightarrow> bool) \<Rightarrow> id32 list \<Rightarrow> id32 \<Rightarrow> id32 \<Rightarrow> sync_event \<Rightarrow>
    (sync_error, unit) outcome" where
  "validate_local_relation_event codec cp cipher records order before parents scope author event = (case event of
     RetainCompositionV1 item_json \<Rightarrow> map_done (\<lambda>_. ()) (of_result (composition_item cp item_json))
   | OrganizeCompositionV1 original_author item_id previous json \<Rightarrow>
       validate_local_organization codec cp cipher records order before parents original_author item_id previous json
   | CaptureFileRevision r \<Rightarrow> of_result (map_error InvalidFileRevision (validate_revision r))
   | AssertRelation p subject object _ _ \<Rightarrow>
       validate_local_assertion codec cipher records order before parents scope p subject object
   | RetractRelation assertion \<Rightarrow>
       validate_local_retraction codec cipher records order before parents scope author assertion
   | DefinePredicate p \<Rightarrow> validate_local_definition codec cipher records order before parents scope author p
   | _ \<Rightarrow> Done ())"

section \<open>Authoring\<close>

text \<open>
  Sealing, signing and the processing of an operation belong to other packages; a processed operation is
  stored when the policy admits it and its log accepts it.
\<close>

record ('v, 'k, 'e) author_api =
  aa_key :: "bytes \<Rightarrow> id32"
  aa_head :: "stored_operation list \<Rightarrow> id32 \<Rightarrow> string + nat \<times> id32 option"
  aa_event :: "sync_event \<Rightarrow> string + bytes"
  aa_seal :: "'v \<Rightarrow> bytes \<Rightarrow> bytes \<Rightarrow> string + bytes"
  aa_seal_random :: "'k \<Rightarrow> bytes \<Rightarrow> string + 'e"
  aa_envelope :: "'e \<Rightarrow> string + bytes"
  aa_sign :: "bytes \<Rightarrow> operation \<Rightarrow> id32 option \<Rightarrow> operation"
  aa_process :: "(operation \<Rightarrow> (string \<times> string) + unit) \<Rightarrow> operation \<Rightarrow> stored_operation list \<Rightarrow>
    (sync_error + bool) \<times> stored_operation list"

definition seal_event :: "('v, 'k, 'e) author_api \<Rightarrow> ('v, 'k) cipher \<Rightarrow> bytes \<Rightarrow> bytes \<Rightarrow> sync_error + bytes" where
  "seal_event api cipher aad plaintext = (case cipher of
     Personal vault \<Rightarrow> map_error PayloadError (aa_seal api vault aad plaintext)
   | CommonsData keys \<Rightarrow> and_then (map_error GroupCryptoError (aa_seal_random api keys plaintext))
       (\<lambda>envelope. map_error PayloadError (aa_envelope api envelope)))"

definition prepare_operation :: "('v, 'k, 'e) codec \<Rightarrow> ('r, 'm) composition_codec \<Rightarrow> causal_api \<Rightarrow> ('v, 'k, 'e) author_api \<Rightarrow>
    policy \<Rightarrow> nat option \<Rightarrow> bytes \<Rightarrow> ('v, 'k) cipher \<Rightarrow> sync_event \<Rightarrow> asserted_time \<Rightarrow> stored_operation list \<Rightarrow>
    (sync_error, operation) outcome" where
  "prepare_operation codec cp causal api policy clock seed cipher event asserted_at records =
     chain (of_result (require_cipher policy cipher)) (\<lambda>_.
     let author = aa_key api seed; before = ca_before causal records in
     chain (of_result (map_error CausalError (ca_frontier causal records))) (\<lambda>parents.
     chain (of_result (map_error CausalError (ca_closed causal records))) (\<lambda>(order, _).
     chain (validate_local_relation_event codec cp cipher records order before parents (po_space_id policy) author event) (\<lambda>_.
     chain (of_result (map_error CausalError (aa_head api records author))) (\<lambda>(seq_num, backlink).
     chain (of_result (map_error PayloadError (aa_event api event))) (\<lambda>plaintext.
     chain (of_result (seal_event api cipher (operation_aad (po_space_id policy) author seq_num) plaintext)) (\<lambda>ciphertext.
     Done (aa_sign api seed \<lparr>op_hash = [], op_author = author, op_seq_num = seq_num, op_space_id = po_space_id policy,
       op_encryption = po_encryption policy, op_parents = parents, op_asserted_at_ms = resolve_time clock asserted_at,
       op_body = Some ciphertext\<rparr> backlink))))))))"

definition accept_under_gate :: "('v, 'k, 'e) codec \<Rightarrow> (operation \<Rightarrow> string + unit) \<Rightarrow> ('v, 'k, 'e) author_api \<Rightarrow> policy \<Rightarrow>
    operation \<Rightarrow> stored_operation list \<Rightarrow> (sync_error + bool) \<times> stored_operation list" where
  "accept_under_gate codec causality api policy op records = aa_process api (admit codec causality policy) op records"

definition author_under_gate :: "('v, 'k, 'e) codec \<Rightarrow> ('r, 'm) composition_codec \<Rightarrow> causal_api \<Rightarrow>
    (operation \<Rightarrow> string + unit) \<Rightarrow> ('v, 'k, 'e) author_api \<Rightarrow> policy \<Rightarrow> nat option \<Rightarrow> bytes \<Rightarrow> ('v, 'k) cipher \<Rightarrow>
    sync_event \<Rightarrow> asserted_time \<Rightarrow> stored_operation list \<Rightarrow> (sync_error, operation) outcome \<times> stored_operation list" where
  "author_under_gate codec cp causal causality api policy clock seed cipher event asserted_at records =
     (case prepare_operation codec cp causal api policy clock seed cipher event asserted_at records of
       Done op \<Rightarrow> (case accept_under_gate codec causality api policy op records of
           (Inr _, records') \<Rightarrow> (Done op, records')
         | (Inl e, records') \<Rightarrow> (Raise e, records'))
     | Raise e \<Rightarrow> (Raise e, records)
     | Halt h \<Rightarrow> (Halt h, records))"

definition resolve_conflict_event :: "document_conflict \<Rightarrow> vault_document option \<Rightarrow> sync_error + sync_event" where
  "resolve_conflict_event c document =
     and_then (ensure_that (case document of None \<Rightarrow> True | Some d \<Rightarrow> vd_id d = dc_id c)
       (InvalidResolution ''chosen document id does not match the conflict'')) (\<lambda>_.
     Inr (Resolve (dc_id c) (remdups_adj (sort (map dv_operation (dc_versions c)))) document))"

definition resolve_conflict_with_cipher :: "('v, 'k, 'e) codec \<Rightarrow> ('r, 'm) composition_codec \<Rightarrow> causal_api \<Rightarrow>
    (operation \<Rightarrow> string + unit) \<Rightarrow> ('v, 'k, 'e) author_api \<Rightarrow> policy \<Rightarrow> nat option \<Rightarrow> bytes \<Rightarrow> ('v, 'k) cipher \<Rightarrow>
    document_conflict \<Rightarrow> vault_document option \<Rightarrow> stored_operation list \<Rightarrow>
    (sync_error, operation) outcome \<times> stored_operation list" where
  "resolve_conflict_with_cipher codec cp causal causality api policy clock seed cipher c document records =
     (case resolve_conflict_event c document of
       Inl e \<Rightarrow> (Raise e, records)
     | Inr event \<Rightarrow> author_under_gate codec cp causal causality api policy clock seed cipher event Now records)"

text \<open>Whether the revision was retained before, and the operation that retains it.\<close>

definition retain_file_revision_with_cipher :: "('v, 'k, 'e) codec \<Rightarrow> ('r, 'm) composition_codec \<Rightarrow> causal_api \<Rightarrow>
    (operation \<Rightarrow> string + unit) \<Rightarrow> ('v, 'k, 'e) author_api \<Rightarrow> policy \<Rightarrow> nat option \<Rightarrow> bytes \<Rightarrow> ('v, 'k) cipher \<Rightarrow>
    file_revision \<Rightarrow> stored_operation list \<Rightarrow> (sync_error, id32 \<times> bool) outcome \<times> stored_operation list" where
  "retain_file_revision_with_cipher codec cp causal causality api policy clock seed cipher r records =
     (case chain (of_result (require_cipher policy cipher)) (\<lambda>_.
           chain (of_result (require_admitted_writer policy (aa_key api seed))) (\<lambda>_.
           find_file_revision_with_cipher codec causal policy records cipher (aa_key api seed) r)) of
       Done (Some i) \<Rightarrow> (Done (i, True), records)
     | Done None \<Rightarrow> (case author_under_gate codec cp causal causality api policy clock seed cipher
           (CaptureFileRevision r) Now records of
           (m, records') \<Rightarrow> (map_done (\<lambda>op. (op_hash op, False)) m, records'))
     | Raise e \<Rightarrow> (Raise e, records)
     | Halt h \<Rightarrow> (Halt h, records))"

end
