(* ===== verification/Peer_Admission.thy ===== *)
theory Peer_Admission
  imports Peer_Author
begin

text \<open>
  What the local check of an event is worth: the fold of any replica that has the same history
  accepts what the check let through, and the resolution of a conflict that a projection shows leaves
  one live version.
\<close>

section \<open>A new operation\<close>

text \<open>The causal index after an operation \<open>i\<close> with the given parents was appended.\<close>

definition appended :: "(id32 \<Rightarrow> id32 \<Rightarrow> bool) \<Rightarrow> (id32 \<Rightarrow> id32 \<Rightarrow> bool) \<Rightarrow> id32 list \<Rightarrow> id32 \<Rightarrow> bool" where
  "appended before before' parents i \<longleftrightarrow> (\<forall>a. before' a i \<longleftrightarrow> frontier_observes before parents a) \<and>
     (\<forall>a b. b \<noteq> i \<longrightarrow> before' a b = before a b)"

lemma fold_predicate_definition_cong:
  assumes "\<And>a. before' a (po_operation o') = before a (po_operation o')"
  shows "fold_predicate_definition c before' o' p = fold_predicate_definition c before o' p"
  unfolding fold_predicate_definition_def assms ..

lemma fold_relation_cong:
  assumes "\<And>a. before' a (sg_operation x) = before a (sg_operation x)"
  shows "fold_relation before' scope x st = fold_relation before scope x st"
proof (cases "sg_event x")
  case (DefinePredicate p)
  have "fold_predicate_definition c before' (origin_of scope x) p = fold_predicate_definition c before (origin_of scope x) p" for c
    by (rule fold_predicate_definition_cong) (simp add: origin_of_def assms)
  then show ?thesis by (simp add: fold_relation_def DefinePredicate add_definition_def)
next
  case (AssertRelation p s q e l)
  then obtain a where a: "assertion_of scope x = Some a" by (simp add: assertion_of_def)
  have asserted: "validate_asserted_predicate c before' r (sg_operation x) = validate_asserted_predicate c before r (sg_operation x)" for c r
    unfolding validate_asserted_predicate_def assms ..
  have "before' i (ra_operation a) = before i (ra_operation a)" for i
    using assertion_of_fields [OF a] assms by simp
  then have captured: "validate_relation_capture a docs before' = validate_relation_capture a docs before" for docs
    unfolding validate_relation_capture_def by presburger
  have "add_assertion before' x a st = add_assertion before x a st"
    unfolding add_assertion_def asserted captured ..
  then show ?thesis by (simp add: fold_relation_def AssertRelation a)
next
  case (RetractRelation i)
  have "add_retraction before' x i st = add_retraction before x i st" unfolding add_retraction_def assms ..
  with RetractRelation show ?thesis by (simp add: fold_relation_def)
qed (simp_all add: fold_relation_def)

lemma replay_cong:
  "(\<And>x a. x \<in> set xs \<Longrightarrow> before' a (sg_operation x) = before a (sg_operation x)) \<Longrightarrow>
    replay_relations before' scope xs st = replay_relations before scope xs st"
proof (induction xs arbitrary: st)
  case (Cons x xs)
  from Cons.prems have "replay_relations before' scope xs s = replay_relations before scope xs s" for s
    by (intro Cons.IH) simp
  then have "replay_relations before' scope xs = replay_relations before scope xs" by (rule ext)
  moreover have "fold_relation before' scope x st = fold_relation before scope x st"
    by (rule fold_relation_cong) (simp add: Cons.prems)
  ultimately show ?case by simp
qed simp

text \<open>An event that is accepted leaves the lists of what was rejected and of what is unverified alone.\<close>

definition same_rejections :: "'a relation_fold_scheme \<Rightarrow> 'b relation_fold_scheme \<Rightarrow> bool" where
  "same_rejections f g \<longleftrightarrow> rf_rejected f = rf_rejected g \<and> pc_rejected (rf_catalog f) = pc_rejected (rf_catalog g) \<and>
     map un_reason (rf_unverified f) = map un_reason (rf_unverified g)"

lemma checked_assertion_kept:
  assumes new: "appended before before' parents (sg_operation x)" and a: "assertion_of scope x = Some a"
    and payload: "validate_relation_payload (ra_predicate a) (ra_subject a) (ra_object a) = Inr ()"
    and defined: "\<And>i. ra_predicate a = Defined i \<Longrightarrow> validate_local_predicate (rf_catalog st) before parents i = Inr ()"
    and ends: "for_each (validate_local_endpoint (rr_documents st) before parents)
      [(''subject'', ra_subject a), (''object'', ra_object a)] = Inr ()"
  shows "add_assertion before' x a st = st\<lparr>rf_relations := rf_relations st @ [a],
    rr_assertions := (rr_assertions st)(sg_operation x \<mapsto>
      \<lparr>rs_author = sg_author x, rs_location = Valid (length (rf_relations st))\<rparr>)\<rparr>"
proof -
  have observes: "before' i (sg_operation x) \<longleftrightarrow> frontier_observes before parents i" for i
    using new by (simp add: appended_def)
  have "validate_asserted_predicate (rf_catalog st) before' (ra_predicate a) (sg_operation x) = Inr ()"
  proof (cases "ra_predicate a")
    case (Defined i)
    with defined [OF Defined] show ?thesis
      by (auto simp: validate_asserted_predicate_def validate_local_predicate_def observes split: option.splits if_splits)
  qed (simp_all add: validate_asserted_predicate_def)
  moreover have "validate_relation_capture a (rr_documents st) before' = Inr ()"
    using ends assertion_of_fields [OF a]
    by (auto simp: validate_relation_capture_def validate_local_endpoint_def ok_iff observes split: option.splits if_splits)
  ultimately show ?thesis using payload by (simp add: add_assertion_def)
qed

lemma checked_retraction_kept:
  assumes new: "appended before before' parents (sg_operation x)" and located: "located st"
    and found: "find (\<lambda>(j, _). j = i) (map name_and_author (rf_relations st) @
      map (name_and_author \<circ> un_assertion) (rf_unverified st)) = Some (j, sg_author x)"
    and observed: "frontier_observes before parents i" and run: "add_retraction before' x i st = Done st'"
  shows "same_rejections st' st"
proof -
  from find_Some_in [OF found] have j: "j = i" and "(i, sg_author x) \<in> set (map name_and_author (rf_relations st)) \<or>
      (i, sg_author x) \<in> set (map (name_and_author \<circ> un_assertion) (rf_unverified st))" by auto
  moreover have "\<exists>loc. (i, \<lparr>rs_author = w, rs_location = loc\<rparr>) \<in> slots ks f" if "(i, w) \<in> set ks" for w ks f
  proof -
    from that obtain n where "n < length ks" "ks ! n = (i, w)" by (auto simp: in_set_conv_nth)
    then have "(i, \<lparr>rs_author = w, rs_location = f n\<rparr>) \<in> slots ks f" by (force simp: slots_def)
    then show ?thesis ..
  qed
  ultimately obtain loc where "(i, \<lparr>rs_author = sg_author x, rs_location = loc\<rparr>) \<in> Map.graph (rr_assertions st)"
    using located unfolding located_def by blast
  then have "rr_assertions st i = Some \<lparr>rs_author = sg_author x, rs_location = loc\<rparr>" by (rule in_graphD)
  with run observed new show ?thesis
    by (auto simp: add_retraction_def appended_def same_rejections_def Let_def map_update_same
        split: relation_location.splits if_splits)
qed

lemma checked_definition_kept:
  assumes new: "appended before before' parents (sg_operation x)"
    and payload: "validate_predicate_definition_payload (pp_slug p) (pp_label p) (pp_description p) (pp_subproperty_of p) (pp_lowers_to p) = Inr ()"
    and previous: "pp_supersedes p = Some i" "catalog_definition c i = Some d" "pd_author d = sg_author x"
      "frontier_observes before parents (pd_id d)" "pd_slug d = pp_slug p"
  shows "pc_rejected (add_definition before' scope x p c) = pc_rejected c"
  using assms by (simp add: add_definition_def fold_predicate_definition_def origin_of_def appended_def)

lemma causal_events_cong:
  assumes "\<And>x a. x \<in> set xs \<Longrightarrow> before' a (sg_operation x) = before a (sg_operation x)"
  shows "causal_events before' xs = causal_events before xs"
  using assms
proof (induction xs rule: rev_induct)
  case (snoc x xs)
  then have "causal_events before' xs = causal_events before xs" by simp
  moreover have "before' a (sg_operation y) = before a (sg_operation y)" if "y \<in> set (xs @ [x])" for a y
    using that snoc.prems by blast
  ultimately show ?case by (simp add: causal_events_snoc)
qed simp

lemma decode_all_local:
  "decode_all codec cipher records order = Done es \<Longrightarrow> fold_relations before scope es = Done f \<Longrightarrow>
    local_predicate_catalog codec cipher records order before scope = Done (rf_catalog f)"
  by (simp add: local_predicate_catalog_def)

lemma checked_event_accepted:
  assumes valid: "validate_local_relation_event codec cp cipher records order before parents scope (sg_author x) (sg_event x) = Done ()"
    and decode: "decode_all codec cipher records order = Done es"
    and causal: "causal_events before' (es @ [x])" and new: "appended before before' parents (sg_operation x)"
    and chained: "\<forall>p. sg_event x = DefinePredicate p \<longrightarrow> pp_supersedes p \<noteq> None"
    and f: "fold_relations before scope es = Done f" and f': "fold_relations before' scope (es @ [x]) = Done f'"
  shows "same_rejections f' f"
proof -
  have agree: "before' a (sg_operation y) = before a (sg_operation y)" if "y \<in> set es" for a y
    using that causal new by (auto simp: causal_events_snoc appended_def)
  then have "causal_events before es" using causal causal_events_cong [of es before' before] by (simp add: causal_events_snoc)
  then obtain st where st: "replay_relations before scope es no_relations = Done st" "replayed before scope es st"
    using replay_replayed by blast
  from st(2) have located: "located st" and docs: "rr_documents st = documents_of es" by (simp_all add: replayed_def)
  have fst: "f = relation_fold.truncate st" using f st(1) by (simp add: fold_relations_def)
  then have parts: "rf_catalog f = rf_catalog st" "rf_relations f = rf_relations st" "rf_unverified f = rf_unverified st"
    by (simp_all add: relation_fold.truncate_def)
  have "replay_relations before' scope es no_relations = Done st" using replay_cong [of es before' before] agree st(1) by simp
  with f' obtain st' where st': "fold_relation before' scope x st = Done st'" "f' = relation_fold.truncate st'"
    by (auto simp: fold_relations_def replay_snoc map_done_eq_Done)
  have "same_rejections st' st"
  proof (cases "sg_event x")
    case (AssertRelation p s q e l)
    then obtain a where a: "assertion_of scope x = Some a" and fields: "ra_predicate a = p" "ra_subject a = s" "ra_object a = q"
      by (auto simp: assertion_of_def)
    from valid AssertRelation have payload: "validate_relation_payload p s q = Inr ()"
      and defined: "\<And>i. p = Defined i \<Longrightarrow> validate_local_predicate (rf_catalog st) before parents i = Inr ()"
      and ends: "for_each (validate_local_endpoint (rr_documents st) before parents) [(''subject'', s), (''object'', q)] = Inr ()"
      using decode_all_local [OF decode f] decode docs parts(1)
      by (auto simp: validate_local_relation_event_def validate_local_assertion_def local_document_versions_def
          chain_Done of_result_Done map_error_Inr)
    have "st' = add_assertion before' x a st" using st'(1) a AssertRelation by (simp add: fold_relation_def)
    with checked_assertion_kept [OF new a, of st] payload defined ends fields show ?thesis
      by (simp add: same_rejections_def)
  next
    case (RetractRelation i)
    with st'(1) have run: "add_retraction before' x i st = Done st'" by (simp add: fold_relation_def)
    from valid RetractRelation decode f obtain j where
      "find (\<lambda>(j, _). j = i) (map name_and_author (rf_relations st) @ map (name_and_author \<circ> un_assertion) (rf_unverified st)) =
        Some (j, sg_author x)" "frontier_observes before parents i"
      by (auto simp: validate_local_relation_event_def validate_local_retraction_def parts split: option.splits if_splits)
    then show ?thesis using checked_retraction_kept [OF new located _ _ run] by blast
  next
    case (DefinePredicate p)
    with chained obtain i where i: "pp_supersedes p = Some i" by blast
    with valid DefinePredicate decode_all_local [OF decode f] obtain d where
      "validate_predicate_definition_payload (pp_slug p) (pp_label p) (pp_description p) (pp_subproperty_of p) (pp_lowers_to p) = Inr ()"
      "catalog_definition (rf_catalog st) i = Some d" "pd_author d = sg_author x"
      "frontier_observes before parents (pd_id d)" "pd_slug d = pp_slug p"
      by (auto simp: validate_local_relation_event_def validate_local_definition_def chain_Done of_result_Done map_error_Inr parts
          split: option.splits if_splits)
    with checked_definition_kept [OF new] i have
      "pc_rejected (add_definition before' scope x p (rf_catalog st)) = pc_rejected (rf_catalog st)" by blast
    with st'(1) DefinePredicate show ?thesis by (auto simp: fold_relation_def same_rejections_def)
  qed (use st'(1) in \<open>auto simp: fold_relation_def same_rejections_def split: option.splits\<close>)
  then show ?thesis using fst st'(2) by (simp add: same_rejections_def relation_fold.truncate_def)
qed

section \<open>Resolving a conflict\<close>

lemma distinct_dedup: "sorted xs \<Longrightarrow> distinct (remdups_adj xs)"
  by (induction xs rule: remdups_adj.induct) (auto dest: order_antisym)

lemma resolve_conflict_event_Inr: "resolve_conflict_event c d = Inr e \<longleftrightarrow> (\<forall>x. d = Some x \<longrightarrow> vd_id x = dc_id c) \<and>
    e = Resolve (dc_id c) (remdups_adj (sort (map dv_operation (dc_versions c)))) d"
  by (auto simp: resolve_conflict_event_def ok_iff split: option.splits)

lemma authored_set: "(w, a, e) \<in> set (map authored_event es) \<longleftrightarrow>
    (\<exists>y \<in> set es. w = sg_author y \<and> a = sg_operation y \<and> e = sg_event y)"
  by (auto simp: authored_event_def)

lemma live_cong:
  assumes "\<And>y a. y \<in> set es \<Longrightarrow> before' a (sg_operation y) = before a (sg_operation y)"
  shows "live before' (set (map authored_event es)) = live before (set (map authored_event es))"
proof -
  have "superseded before' (set (map authored_event es)) i w a = superseded before (set (map authored_event es)) i w a" for i w a
    unfolding superseded_def authored_set using assms by blast
  then show ?thesis by (intro ext) (simp add: live_def)
qed

lemma resolutions_ok_cong:
  assumes "\<And>y a. y \<in> set es \<Longrightarrow> before' a (sg_operation y) = before a (sg_operation y)"
  shows "resolutions_ok before' (set (map authored_event es)) = resolutions_ok before (set (map authored_event es))"
proof -
  have "event_ok before' S (sg_operation y) e = event_ok before S (sg_operation y) e" if "y \<in> set es" for y e S
    using assms [OF that] by (cases e) (simp_all add: resolution_ok_def)
  then show ?thesis by (auto simp: resolutions_ok_def authored_event_def)
qed

text \<open>After a resolution that names all live versions of a document, only its own version is live.\<close>

lemma resolution_leaves_one:
  assumes causal: "causal_events before (es @ [x])" and ok: "resolutions_ok before (set (map authored_event es))"
    and x: "sg_event x = Resolve i sups d"
    and sups: "set sups = {dv_operation v | v w. live before (set (map authored_event es)) i w v}" "sups \<noteq> []" "distinct sups"
      "length sups \<le> max_parents" "\<forall>y. d = Some y \<longrightarrow> vd_id y = i" "\<forall>t \<in> set sups. before t (sg_operation x)"
  shows "\<exists>st. fold_documents before (map authored_event (es @ [x])) no_documents = Inr st \<and>
    map_of (df_current st) i = Some [(sg_author x, \<lparr>dv_writer = sg_author x, dv_operation = sg_operation x, dv_document = d\<rparr>)]"
proof -
  define S where "S = set (map authored_event es)"
  let ?o = "sg_operation x"
  let ?v = "\<lparr>dv_writer = sg_author x, dv_operation = ?o, dv_document = d\<rparr>" and ?new = "(sg_author x, ?o, Resolve i sups d)"
  have list: "causal_list before (map authored_event (es @ [x]))" using causal by (simp add: causal_events_def)
  have new: "\<forall>(w2, o2, e2) \<in> S. o2 \<noteq> ?o \<and> \<not> before ?o o2 \<and> (w2 = sg_author x \<longrightarrow> before o2 ?o)" "\<not> before ?o ?o"
    using causal by (auto simp: causal_events_snoc authored_event_def S_def)
  note sups = sups [folded S_def]
  have "\<exists>w e d'. (w, t, e) \<in> S \<and> writes_to e = Some (i, d')" if "t \<in> set sups" for t
    using that unfolding sups(1) live_def by blast
  then have now: "event_ok before S ?o (Resolve i sups d)" using sups by (simp add: resolution_ok_def)
  have insert: "set (map authored_event (es @ [x])) = insert ?new S"
    by (auto simp: authored_event_def x S_def)
  have "event_ok before (insert ?new S) a e" if t: "(w, a, e) \<in> insert ?new S" for w a e
  proof -
    have "event_ok before (insert ?new S) a e = event_ok before S a e"
      by (rule event_ok_later) (use t new in auto)
    with t now ok [folded S_def] show ?thesis unfolding resolutions_ok_def by auto
  qed
  then have "resolutions_ok before (set (map authored_event (es @ [x])))"
    unfolding resolutions_ok_def insert by blast
  then obtain st where st: "fold_documents before (map authored_event (es @ [x])) no_documents = Inr st"
    using fold_documents_returns [OF list] by blast
  from fold_documents_folded [OF list st] have folded: "folded before (insert ?new S) st"
    unfolding insert .
  have live: "live before (insert ?new S) i w v \<longleftrightarrow> w = sg_author x \<and> v = ?v" for w v
    using live_insert [OF new, of "Resolve i sups d" i d w v] sups(1,6) by auto
  have "map_of (versions_of st i) w = Some v \<longleftrightarrow> map_of [(sg_author x, ?v)] w = Some v" for w v
    using folded live unfolding folded_def by auto
  then have same: "map_of (versions_of st i) = map_of [(sg_author x, ?v)]"
    by (intro ext) (metis not_None_eq)
  have "versions_of st i = [(sg_author x, ?v)]"
    by (rule om_same) (use folded same in \<open>auto simp: folded_def fold_ok_def om_ok_def\<close>)
  then have "map_of (df_current st) i = Some [(sg_author x, ?v)]"
    by (auto simp: versions_of_def split: option.splits)
  with st show ?thesis by blast
qed

section \<open>Properties\<close>

definition sample_composition :: "(unit, unit) composition_codec" where
  "sample_composition = \<lparr>cp_item = (\<lambda>_. Inl ''none''), cp_organization = (\<lambda>_. Inl ''none''),
     cp_env = \<lparr>ie_metre_grid = (\<lambda>_. True), ie_scene = (\<lambda>_. Inr ()), ie_scene_bytes = (\<lambda>_. Inr 0), ie_max_scene_bytes = 0,
       ie_recipe = (\<lambda>_. Inr ())\<rparr>\<rparr>"

definition sample_parents :: "id32 list" where
  "sample_parents = [''1'', ''2'', ''3'', ''4'', ''5'']"

abbreviation replica_before :: "id32 \<Rightarrow> id32 \<Rightarrow> bool" where
  "replica_before \<equiv> ca_before sample_api sample_records"

definition later_before :: "id32 \<Rightarrow> id32 \<Rightarrow> bool" where
  "later_before a b = (if b = ''9'' then frontier_observes replica_before sample_parents a else replica_before a b)"

lemma later_appended: "appended replica_before later_before sample_parents ''9''"
  by (simp add: appended_def later_before_def)

lemma later_causal:
  assumes "w \<notin> set (map sg_author sample_decoded)"
  shows "causal_events later_before (sample_decoded @ [signed ''9'' w e])"
  unfolding causal_events_snoc
proof (intro conjI ballI impI)
  have ops: "sg_operation y \<noteq> ''9''" if "y \<in> set sample_decoded" for y
    using that by (auto simp: sample_decoded_def signed_def)
  then show "causal_events later_before sample_decoded"
    using sample_replica_causal causal_events_cong [of sample_decoded later_before replica_before]
    by (simp add: later_before_def)
  show "\<not> later_before (sg_operation (signed ''9'' w e)) (sg_operation (signed ''9'' w e))"
    by (simp add: later_before_def signed_def frontier_observes_def sample_parents_def sample_api_def)
  fix y assume y: "y \<in> set sample_decoded"
  from ops [OF y] show "sg_operation y \<noteq> sg_operation (signed ''9'' w e)" by (simp add: signed_def)
  from ops [OF y] show "\<not> later_before (sg_operation (signed ''9'' w e)) (sg_operation y)"
    by (simp add: later_before_def signed_def sample_api_def)
  assume "sg_author y = sg_author (signed ''9'' w e)"
  with assms y show "later_before (sg_operation y) (sg_operation (signed ''9'' w e))"
    by (auto simp: signed_def)
qed


lemma sample_decode_all: "decode_all sample_codec (Personal ()) sample_records [0..<5] = Done sample_decoded"
  by (simp add: decode_all_def sample_decodes)




end
