(* ===== verification/Peer_Composition.thy ===== *)
theory Peer_Composition
  imports Peer_Admission "HOL-Library.Product_Lexorder"
begin

text \<open>
  Collected material that a note space retains (\<open>composition_with_cipher\<close> to
  \<open>retain_composition_with_cipher\<close> in \<open>sync.rs\<close>): the immutable items, one per writer and name, and
  their organization, which changes by compare and set along one causal chain.
\<close>

section \<open>A pass over the closed events\<close>

fun over_events :: "('v, 'k, 'e) codec \<Rightarrow> ('v, 'k) cipher \<Rightarrow> stored_operation list \<Rightarrow> (signed_event \<Rightarrow> 's \<Rightarrow> sync_error + 's) \<Rightarrow>
    nat list \<Rightarrow> 's \<Rightarrow> (sync_error, 's) outcome" where
  "over_events codec cipher records f [] s = Done s"
| "over_events codec cipher records f (n # order) s =
     (if n < length records then
        (let op = so_operation (records ! n) in
         chain (of_result (decode_event codec cipher op)) (\<lambda>e.
         chain (of_result (f (signed_event_of op e) s)) (over_events codec cipher records f order)))
      else Halt Panicked)"

fun fold_events :: "(signed_event \<Rightarrow> 's \<Rightarrow> sync_error + 's) \<Rightarrow> signed_event list \<Rightarrow> 's \<Rightarrow> sync_error + 's" where
  "fold_events f [] s = Inr s"
| "fold_events f (x # xs) s = and_then (f x s) (fold_events f xs)"

definition closed_history :: "causal_api \<Rightarrow> policy \<Rightarrow> stored_operation list \<Rightarrow> ('v, 'k) cipher \<Rightarrow> string \<Rightarrow> (sync_error, nat list) outcome" where
  "closed_history causal policy records cipher reason =
     chain (of_result (require_cipher policy cipher)) (\<lambda>_.
     chain (of_result (map_error CausalError (ca_closed causal records))) (\<lambda>(order, pending).
     if pending \<noteq> [] then Raise (PayloadError reason) else Done order))"

section \<open>Items\<close>

text \<open>An item with the operation that retained it and its writer, by writer and name.\<close>

type_synonym ('r, 'm) retained = "(id32 \<times> string, ('r, 'm) collection_item \<times> id32 \<times> id32) ordered_map"

definition retain_event :: "('r, 'm) composition_codec \<Rightarrow> nat \<Rightarrow> nat \<Rightarrow> signed_event \<Rightarrow> ('r, 'm) retained \<times> nat \<Rightarrow>
    sync_error + ('r, 'm) retained \<times> nat" where
  "retain_event cp max_items max_bytes x = (\<lambda>(items, total). case sg_event x of
     RetainCompositionV1 item_json \<Rightarrow>
       and_then (composition_item cp item_json) (\<lambda>item.
       let total = total + length item_json; key = (sg_author x, ci_id item) in
       if total > max_bytes then Inl (PayloadError ''composition projection exceeds byte limit'')
       else (case map_of items key of
         Some (previous, previous_operation, writer) \<Rightarrow>
           if previous \<noteq> item then Inl (PayloadError ''conflicting immutable composition item'')
           else if sg_operation x < previous_operation
           then Inr (om_put key (previous, sg_operation x, writer) items, total)
           else Inr (items, total)
       | None \<Rightarrow>
           let items = om_put key (item, sg_operation x, sg_author x) items in
           if length items > max_items then Inl (PayloadError ''composition projection exceeds item limit'')
           else Inr (items, total)))
   | _ \<Rightarrow> Inr (items, total))"

definition composition_with_cipher :: "('v, 'k, 'e) codec \<Rightarrow> ('r, 'm) composition_codec \<Rightarrow> causal_api \<Rightarrow> policy \<Rightarrow>
    stored_operation list \<Rightarrow> ('v, 'k) cipher \<Rightarrow> nat \<Rightarrow> nat \<Rightarrow> (sync_error, (('r, 'm) collection_item \<times> id32 \<times> id32) list) outcome" where
  "composition_with_cipher codec cp causal policy records cipher max_items max_bytes =
     chain (closed_history causal policy records cipher ''composition retention requires complete causal history'') (\<lambda>order.
     map_done (\<lambda>(items, _). map snd items)
       (over_events codec cipher records (retain_event cp max_items max_bytes) order ([], 0)))"

section \<open>Organization\<close>

record ('r, 'm) organized =
  oz_item :: "('r, 'm) collection_item"
  oz_operation :: id32
  oz_author :: id32
  oz_organization :: organization
  oz_revision :: id32

type_synonym ('r, 'm) organized_map = "(id32 \<times> string, ('r, 'm) organized) ordered_map"

definition unorganized :: "(('r, 'm) collection_item \<times> id32 \<times> id32) list \<Rightarrow> ('r, 'm) organized_map" where
  "unorganized original = fold (\<lambda>(item, operation, author). om_put (author, ci_id item)
     \<lparr>oz_item = item, oz_operation = operation, oz_author = author, oz_organization = organization_from_item item,
      oz_revision = operation\<rparr>) original []"

definition organize_event :: "('r, 'm) composition_codec \<Rightarrow> (id32 \<Rightarrow> id32 \<Rightarrow> bool) \<Rightarrow> nat \<Rightarrow> signed_event \<Rightarrow>
    ('r, 'm) organized_map \<times> nat \<Rightarrow> sync_error + ('r, 'm) organized_map \<times> nat" where
  "organize_event cp before max_bytes x = (\<lambda>(items, total).
     and_then (case sg_event x of
         RetainCompositionV1 item_json \<Rightarrow> Inr (items, total + length item_json)
       | OrganizeCompositionV1 original_author item_id previous json \<Rightarrow>
           (case map_of items (original_author, item_id) of
             None \<Rightarrow> Inl (PayloadError ''organization refers to an unavailable retained item'')
           | Some entry \<Rightarrow>
               if oz_revision entry \<noteq> previous \<or> \<not> before previous (sg_operation x)
               then Inl (PayloadError ''conflicting or noncausal collection organization; explicit reconciliation required'')
               else and_then (composition_organization cp json) (\<lambda>g.
                 Inr (om_put (original_author, item_id) (entry\<lparr>oz_organization := g, oz_revision := sg_operation x\<rparr>) items,
                   total + length json)))
       | _ \<Rightarrow> Inr (items, total)) (\<lambda>(items, total).
     if total > max_bytes then Inl (PayloadError ''composition history exceeds byte limit'') else Inr (items, total)))"

definition organized_composition_with_cipher :: "('v, 'k, 'e) codec \<Rightarrow> ('r, 'm) composition_codec \<Rightarrow> causal_api \<Rightarrow> policy \<Rightarrow>
    stored_operation list \<Rightarrow> ('v, 'k) cipher \<Rightarrow> nat \<Rightarrow> nat \<Rightarrow> (sync_error, ('r, 'm) organized list \<times> nat) outcome" where
  "organized_composition_with_cipher codec cp causal policy records cipher max_items max_bytes =
     chain (composition_with_cipher codec cp causal policy records cipher max_items max_bytes) (\<lambda>original.
     chain (closed_history causal policy records cipher ''collection organization requires complete causal history'') (\<lambda>order.
     map_done (\<lambda>(items, total). (map snd items, total))
       (over_events codec cipher records (organize_event cp (ca_before causal records) max_bytes) order (unorganized original, 0))))"

record organize_composition =
  oc_author :: id32
  oc_item_id :: string
  oc_expected_revision :: id32
  oc_organization :: organization

text \<open>
  The event that a change or a new item is authored as, or the operation that has it already; \<open>encode\<close> is
  the JSON encoder.
\<close>

definition organize_request :: "('v, 'k, 'e) codec \<Rightarrow> ('r, 'm) composition_codec \<Rightarrow> causal_api \<Rightarrow> (organization \<Rightarrow> string + string) \<Rightarrow>
    policy \<Rightarrow> id32 \<Rightarrow> stored_operation list \<Rightarrow> ('v, 'k) cipher \<Rightarrow> organize_composition \<Rightarrow> nat \<Rightarrow> nat \<Rightarrow>
    (sync_error, id32 + sync_event) outcome" where
  "organize_request codec cp causal encode policy writer records cipher change max_items max_bytes =
     chain (of_result (require_cipher policy cipher)) (\<lambda>_.
     chain (of_result (require_admitted_writer policy writer)) (\<lambda>_.
     chain (of_result (map_error (\<lambda>e. PayloadError (show_collection_error e)) (validate_organization (oc_organization change)))) (\<lambda>_.
     chain (organized_composition_with_cipher codec cp causal policy records cipher max_items max_bytes) (\<lambda>(items, total).
     case find (\<lambda>e. oz_author e = oc_author change \<and> ci_id (oz_item e) = oc_item_id change) items of
       None \<Rightarrow> Raise (PayloadError ''retained item is unavailable'')
     | Some current \<Rightarrow>
         if oz_revision current \<noteq> oc_expected_revision change
         then Raise (PayloadError ''collection organization changed; refresh before editing'')
         else if oz_organization current = oc_organization change then Done (Inl (oz_revision current))
         else chain (of_result (map_error PayloadError (encode (oc_organization change)))) (\<lambda>json.
           if total + length json > max_bytes then Raise (PayloadError ''composition history byte limit reached'')
           else Done (Inr (OrganizeCompositionV1 (oc_author change) (oc_item_id change) (oc_expected_revision change) json)))))))"

definition retain_request :: "('v, 'k, 'e) codec \<Rightarrow> ('r, 'm) composition_codec \<Rightarrow> causal_api \<Rightarrow>
    (('r, 'm) collection_item \<Rightarrow> string + string) \<Rightarrow> policy \<Rightarrow> id32 \<Rightarrow> stored_operation list \<Rightarrow> ('v, 'k) cipher \<Rightarrow>
    ('r, 'm) collection_item \<Rightarrow> nat \<Rightarrow> nat \<Rightarrow> (sync_error, id32 + sync_event) outcome" where
  "retain_request codec cp causal encode policy writer records cipher item max_items max_bytes =
     chain (of_result (require_cipher policy cipher)) (\<lambda>_.
     chain (of_result (require_admitted_writer policy writer)) (\<lambda>_.
     chain (organized_composition_with_cipher codec cp causal policy records cipher max_items max_bytes) (\<lambda>(_, history_bytes).
     chain (composition_with_cipher codec cp causal policy records cipher max_items max_bytes) (\<lambda>existing.
     case find (\<lambda>(candidate, _, author). author = writer \<and> ci_id candidate = ci_id item) existing of
       Some (candidate, operation, _) \<Rightarrow>
         if candidate = item then Done (Inl operation)
         else Raise (PayloadError ''composition item id already retained with different content'')
     | None \<Rightarrow>
         if length existing \<ge> max_items then Raise (PayloadError ''composition item limit reached'')
         else chain (of_result (map_error PayloadError (encode item))) (\<lambda>json.
           chain (of_result (composition_item cp json)) (\<lambda>_.
           if history_bytes + length json > max_bytes then Raise (PayloadError ''composition byte limit reached'')
           else Done (Inr (RetainCompositionV1 json))))))))"

text \<open>A request that needs an operation authors it; the answer says whether it was there already.\<close>

definition author_request :: "('v, 'k, 'e) codec \<Rightarrow> ('r, 'm) composition_codec \<Rightarrow> causal_api \<Rightarrow> (operation \<Rightarrow> string + unit) \<Rightarrow>
    ('v, 'k, 'e) author_api \<Rightarrow> policy \<Rightarrow> nat option \<Rightarrow> bytes \<Rightarrow> ('v, 'k) cipher \<Rightarrow> (sync_error, id32 + sync_event) outcome \<Rightarrow>
    stored_operation list \<Rightarrow> (sync_error, id32 \<times> bool) outcome \<times> stored_operation list" where
  "author_request codec cp causal causality api policy clock seed cipher request records = (case request of
     Done (Inl i) \<Rightarrow> (Done (i, True), records)
   | Done (Inr event) \<Rightarrow> (case author_under_gate codec cp causal causality api policy clock seed cipher event Now records of
       (r, records') \<Rightarrow> (map_done (\<lambda>op. (op_hash op, False)) r, records'))
   | Raise e \<Rightarrow> (Raise e, records)
   | Halt h \<Rightarrow> (Halt h, records))"

definition organize_composition_with_cipher :: "('v, 'k, 'e) codec \<Rightarrow> ('r, 'm) composition_codec \<Rightarrow> causal_api \<Rightarrow>
    (operation \<Rightarrow> string + unit) \<Rightarrow> ('v, 'k, 'e) author_api \<Rightarrow> (organization \<Rightarrow> string + string) \<Rightarrow> policy \<Rightarrow> nat option \<Rightarrow> bytes \<Rightarrow>
    ('v, 'k) cipher \<Rightarrow> organize_composition \<Rightarrow> nat \<Rightarrow> nat \<Rightarrow> stored_operation list \<Rightarrow>
    (sync_error, id32 \<times> bool) outcome \<times> stored_operation list" where
  "organize_composition_with_cipher codec cp causal causality api encode policy clock seed cipher change max_items max_bytes records =
     author_request codec cp causal causality api policy clock seed cipher
       (organize_request codec cp causal encode policy (aa_key api seed) records cipher change max_items max_bytes) records"

definition retain_composition_with_cipher :: "('v, 'k, 'e) codec \<Rightarrow> ('r, 'm) composition_codec \<Rightarrow> causal_api \<Rightarrow>
    (operation \<Rightarrow> string + unit) \<Rightarrow> ('v, 'k, 'e) author_api \<Rightarrow> (('r, 'm) collection_item \<Rightarrow> string + string) \<Rightarrow> policy \<Rightarrow> nat option \<Rightarrow>
    bytes \<Rightarrow> ('v, 'k) cipher \<Rightarrow> ('r, 'm) collection_item \<Rightarrow> nat \<Rightarrow> nat \<Rightarrow> stored_operation list \<Rightarrow>
    (sync_error, id32 \<times> bool) outcome \<times> stored_operation list" where
  "retain_composition_with_cipher codec cp causal causality api encode policy clock seed cipher item max_items max_bytes records =
     author_request codec cp causal causality api policy clock seed cipher
       (retain_request codec cp causal encode policy (aa_key api seed) records cipher item max_items max_bytes) records"

section \<open>The pass is a fold over the decoded events\<close>

lemma over_events_Done: "over_events codec cipher records f order s = Done s' \<Longrightarrow>
    \<exists>es. decode_all codec cipher records order = Done es \<and> fold_events f es s = Inr s'"
proof (induction order arbitrary: s)
  case Nil
  then show ?case by (simp add: decode_all_def)
next
  case (Cons n order)
  then have n: "n < length records" by (auto split: if_splits)
  let ?op = "so_operation (records ! n)"
  from Cons.prems n obtain e s1 where e: "decode_event codec cipher ?op = Inr e" "f (signed_event_of ?op e) s = Inr s1"
    and rest: "over_events codec cipher records f order s1 = Done s'"
    by (auto simp: Let_def chain_Done of_result_Done)
  from Cons.IH [OF rest] obtain es where "decode_all codec cipher records order = Done es" "fold_events f es s1 = Inr s'" by blast
  with e n have "decode_all codec cipher records (n # order) = Done (signed_event_of ?op e # es) \<and>
      fold_events f (signed_event_of ?op e # es) s = Inr s'"
    by (auto simp: decode_all_def Let_def map_done_eq_Done)
  then show ?case by blast
qed

lemma fold_events_snoc: "fold_events f (xs @ [x]) s = and_then (fold_events f xs s) (f x)"
proof (induction xs arbitrary: s)
  case Nil
  show ?case by (cases "f x s") simp_all
next
  case (Cons y xs)
  then show ?case by (cases "f y s") simp_all
qed

lemma closed_history_Done: "closed_history causal policy records cipher reason = Done order \<longleftrightarrow>
    require_cipher policy cipher = Inr () \<and> ca_closed causal records = Inr (order, [])"
  by (auto simp: closed_history_def chain_Done of_result_Done map_error_Inr split: if_splits)

section \<open>Retained items\<close>

definition retained_item :: "('r, 'm) composition_codec \<Rightarrow> signed_event \<Rightarrow> ('r, 'm) collection_item option" where
  "retained_item cp x = (case sg_event x of
     RetainCompositionV1 json \<Rightarrow> (case composition_item cp json of Inr item \<Rightarrow> Some item | Inl _ \<Rightarrow> None)
   | _ \<Rightarrow> None)"

text \<open>The events by which the writer \<open>w\<close> retained an item named \<open>i\<close>.\<close>

definition retentions :: "('r, 'm) composition_codec \<Rightarrow> signed_event list \<Rightarrow> id32 \<times> string \<Rightarrow> signed_event set" where
  "retentions cp es k = {x \<in> set es. sg_author x = fst k \<and> (\<exists>item. retained_item cp x = Some item \<and> ci_id item = snd k)}"

definition retained_entry :: "('r, 'm) composition_codec \<Rightarrow> signed_event set \<Rightarrow> id32 \<Rightarrow>
    (('r, 'm) collection_item \<times> id32 \<times> id32) option \<Rightarrow> bool" where
  "retained_entry cp R w e \<longleftrightarrow> (case e of
     None \<Rightarrow> R = {}
   | Some (item, i, w') \<Rightarrow> w' = w \<and> R \<noteq> {} \<and> (\<forall>x \<in> R. retained_item cp x = Some item) \<and> i = Min (sg_operation ` R))"

definition retained_ok :: "('r, 'm) composition_codec \<Rightarrow> signed_event list \<Rightarrow> ('r, 'm) retained \<Rightarrow> bool" where
  "retained_ok cp es items \<longleftrightarrow> om_ok items \<and>
     (\<forall>k. retained_entry cp (retentions cp es k) (fst k) (map_of items k))"

lemma retentions_snoc: "retentions cp (es @ [x]) k = (case retained_item cp x of
    Some item \<Rightarrow> if k = (sg_author x, ci_id item) then insert x (retentions cp es k) else retentions cp es k
  | None \<Rightarrow> retentions cp es k)"
  by (cases k) (auto simp: retentions_def split: option.split)

lemma finite_retentions: "finite (retentions cp es k)"
  by (simp add: retentions_def)

lemma retain_event_other: "retained_item cp x = None \<Longrightarrow> retain_event cp m b x s = Inr s' \<Longrightarrow> s' = s"
  by (cases s) (auto simp: retain_event_def retained_item_def ok_iff split: sync_event.splits sum.splits)

lemma retain_event_Inr:
  assumes "retained_item cp x = Some item" and "retain_event cp m b x (items, t) = Inr (items', t')"
  shows "case map_of items (sg_author x, ci_id item) of
      None \<Rightarrow> items' = om_put (sg_author x, ci_id item) (item, sg_operation x, sg_author x) items
    | Some (previous, i, w) \<Rightarrow> previous = item \<and>
        items' = (if sg_operation x < i then om_put (sg_author x, ci_id item) (item, sg_operation x, w) items else items)"
  using assms by (auto simp: retain_event_def retained_item_def Let_def ok_iff split: sync_event.splits sum.splits option.splits if_splits)

lemma retained_step:
  assumes ok: "retained_ok cp es items" and run: "retain_event cp m b x (items, t) = Inr (items', t')"
  shows "retained_ok cp (es @ [x]) items'"
proof (cases "retained_item cp x")
  case None
  then have "retentions cp (es @ [x]) = retentions cp es" by (simp add: fun_eq_iff retentions_snoc)
  with retain_event_other [OF None run] ok show ?thesis by (simp add: retained_ok_def)
next
  case (Some item)
  let ?k = "(sg_author x, ci_id item)" and ?R = "retentions cp es (sg_author x, ci_id item)"
  have R: "retentions cp (es @ [x]) = (retentions cp es)(?k := insert x ?R)"
    using Some by (auto simp: fun_eq_iff retentions_snoc)
  from ok have old: "om_ok items" "\<And>k. retained_entry cp (retentions cp es k) (fst k) (map_of items k)"
    unfolding retained_ok_def by blast+
  have new: "om_ok items' \<and> (\<exists>e. retained_entry cp (insert x ?R) (sg_author x) (Some e) \<and> map_of items' = (map_of items)(?k \<mapsto> e))"
  proof (cases "map_of items ?k")
    case None
    with old(2) [of ?k] have "?R = {}" by (simp add: retained_entry_def)
    with Some retain_event_Inr [OF Some run] None old(1) show ?thesis
      by (auto simp: om_ok_put map_of_om_put retained_entry_def)
  next
    fix e assume "map_of items ?k = Some e"
    then obtain previous i w where e: "map_of items ?k = Some (previous, i, w)" by (cases e) auto
    from retain_event_Inr [OF Some run] e have prev: "previous = item"
      and items': "items' = (if sg_operation x < i then om_put ?k (item, sg_operation x, w) items else items)" by auto
    from old(2) [of ?k] e prev have R': "w = sg_author x" "?R \<noteq> {}" "\<forall>y \<in> ?R. retained_item cp y = Some item" "i = Min (sg_operation ` ?R)"
      by (simp_all add: retained_entry_def)
    have "Min (sg_operation ` insert x ?R) = (if sg_operation x < i then sg_operation x else i)"
    proof -
      have "Min (sg_operation ` insert x ?R) = min (sg_operation x) i"
        unfolding R'(4) image_insert by (rule Min_insert [OF finite_imageI [OF finite_retentions]]) (use R'(2) in blast)
      then show ?thesis by (auto simp: min_def)
    qed
    then have "retained_entry cp (insert x ?R) (sg_author x) (Some (item, if sg_operation x < i then sg_operation x else i, w))"
      using R' Some by (simp add: retained_entry_def)
    moreover have "map_of items' = (map_of items)(?k \<mapsto> (item, if sg_operation x < i then sg_operation x else i, w))"
      using e prev by (auto simp: items' map_of_om_put fun_eq_iff)
    moreover have "om_ok items'" using old(1) by (simp add: items' om_ok_put)
    ultimately show ?thesis by (intro conjI exI)
  qed
  then show ?thesis unfolding retained_ok_def R using old(2) by auto
qed

lemma retained_fold: "fold_events (retain_event cp m b) es ([], 0) = Inr (items, t) \<Longrightarrow> retained_ok cp es items"
proof (induction es arbitrary: items t rule: rev_induct)
  case Nil
  then show ?case by (simp add: retained_ok_def om_ok_def retentions_def retained_entry_def)
next
  case (snoc x es)
  then obtain s where s: "fold_events (retain_event cp m b) es ([], 0) = Inr s" "retain_event cp m b x s = Inr (items, t)"
    by (auto simp: fold_events_snoc ok_iff)
  obtain items1 t1 where "s = (items1, t1)" by force
  with s snoc.IH retained_step show ?case by metis
qed

section \<open>Organization\<close>

definition organizes :: "id32 \<times> string \<Rightarrow> signed_event \<Rightarrow> bool" where
  "organizes k x \<longleftrightarrow> (case sg_event x of
     OrganizeCompositionV1 author i _ _ \<Rightarrow> k = (author, i) | _ \<Rightarrow> False)"

text \<open>Each organization names the revision before it and has seen it.\<close>

fun organize_chain :: "(id32 \<Rightarrow> id32 \<Rightarrow> bool) \<Rightarrow> id32 \<Rightarrow> signed_event list \<Rightarrow> bool" where
  "organize_chain before revision [] \<longleftrightarrow> True"
| "organize_chain before revision (x # xs) \<longleftrightarrow> (case sg_event x of
     OrganizeCompositionV1 _ _ previous _ \<Rightarrow> previous = revision | _ \<Rightarrow> False) \<and>
     before revision (sg_operation x) \<and> organize_chain before (sg_operation x) xs"

definition organization_after :: "('r, 'm) composition_codec \<Rightarrow> organization \<Rightarrow> signed_event list \<Rightarrow> organization" where
  "organization_after cp g xs = fold (\<lambda>x g. case sg_event x of
     OrganizeCompositionV1 _ _ _ json \<Rightarrow> (case composition_organization cp json of Inr g' \<Rightarrow> g' | Inl _ \<Rightarrow> g) | _ \<Rightarrow> g) xs g"

definition organized_by :: "('r, 'm) composition_codec \<Rightarrow> (id32 \<Rightarrow> id32 \<Rightarrow> bool) \<Rightarrow> signed_event list \<Rightarrow> ('r, 'm) organized \<Rightarrow>
    ('r, 'm) organized \<Rightarrow> bool" where
  "organized_by cp before xs e e' \<longleftrightarrow> organize_chain before (oz_revision e) xs \<and>
     e' = e\<lparr>oz_organization := organization_after cp (oz_organization e) xs,
       oz_revision := last (oz_revision e # map sg_operation xs)\<rparr>"

lemma organize_event_Inr:
  assumes "organize_event cp before b x (items, t) = Inr (items', t')"
  shows "if \<exists>k. organizes k x
    then \<exists>k e e'. organizes k x \<and> map_of items k = Some e \<and> organized_by cp before [x] e e' \<and> items' = om_put k e' items
    else items' = items"
  using assms by (auto simp: organize_event_def organizes_def organized_by_def organization_after_def ok_iff
      split: sync_event.splits option.splits if_splits)

lemma organized_by_step:
  "organized_by cp before [x] e e1 \<Longrightarrow> organized_by cp before xs e1 e2 \<Longrightarrow> organized_by cp before (x # xs) e e2"
  by (auto simp: organized_by_def organization_after_def)

lemma organize_fold: "fold_events (organize_event cp before b) es (items, t) = Inr (items', t') \<Longrightarrow> om_ok items \<Longrightarrow>
    om_ok items' \<and> (\<forall>k. (map_of items k = None \<longrightarrow> map_of items' k = None) \<and> (\<forall>e. map_of items k = Some e \<longrightarrow>
      (\<exists>e'. map_of items' k = Some e' \<and> organized_by cp before (filter (organizes k) es) e e')))"
proof (induction es arbitrary: items t)
  case Nil
  then show ?case by (simp add: organized_by_def organization_after_def)
next
  case (Cons x es)
  obtain items1 t1 where step: "organize_event cp before b x (items, t) = Inr (items1, t1)"
    and rest: "fold_events (organize_event cp before b) es (items1, t1) = Inr (items', t')"
    using Cons.prems(1) by (auto simp: ok_iff)
  show ?case
  proof (cases "\<exists>k. organizes k x")
    case False
    with organize_event_Inr [OF step] Cons.IH [OF rest] Cons.prems(2) show ?thesis by simp
  next
    case True
    then obtain k e e1 where k: "organizes k x" "map_of items k = Some e" "organized_by cp before [x] e e1" "items1 = om_put k e1 items"
      using organize_event_Inr [OF step] by auto
    from k(1) have only: "organizes j x \<longleftrightarrow> j = k" for j by (auto simp: organizes_def split: sync_event.splits)
    from k(4) Cons.prems(2) have "om_ok items1" "map_of items1 = (map_of items)(k \<mapsto> e1)" by (simp_all add: om_ok_put map_of_om_put)
    note later = Cons.IH [OF rest this(1), unfolded this(2)]
    show ?thesis
    proof (intro conjI allI impI)
      have none: "map_of items' i = None" if "((map_of items)(k \<mapsto> e1)) i = None" for i using later that by blast
      have some: "\<exists>e'. map_of items' i = Some e' \<and> organized_by cp before (filter (organizes i) es) g e'"
        if "((map_of items)(k \<mapsto> e1)) i = Some g" for i g using later that by blast
      show "om_ok items'" using later by blast
      fix j
      show "map_of items' j = None" if "map_of items j = None"
        using none [of j] that k(2) by (cases "j = k") simp_all
      show "\<exists>e'. map_of items' j = Some e' \<and> organized_by cp before (filter (organizes j) (x # es)) f e'"
        if "map_of items j = Some f" for f
      proof (cases "j = k")
        case True
        with some [of k e1] obtain e' where "map_of items' j = Some e'" "organized_by cp before (filter (organizes k) es) e1 e'" by auto
        with organized_by_step [OF k(3)] k(1,2) that True show ?thesis by auto
      next
        case False
        with some [of j f] that have "\<exists>e'. map_of items' j = Some e' \<and> organized_by cp before (filter (organizes j) es) f e'" by simp
        with False show ?thesis by (simp add: only)
      qed
    qed
  qed
qed

lemma organized_chain_before:
  assumes trans: "\<And>a b c. before a b \<Longrightarrow> before b c \<Longrightarrow> before a c"
  shows "organize_chain before r xs \<Longrightarrow> sorted_wrt before (r # map sg_operation xs)"
proof (induction xs arbitrary: r)
  case (Cons x xs)
  then have r: "before r (sg_operation x)" and "organize_chain before (sg_operation x) xs" by simp_all
  from this(2) have rest: "sorted_wrt before (sg_operation x # map sg_operation xs)" by (rule Cons.IH)
  from rest have "\<forall>c \<in> set (map sg_operation xs). before r c" unfolding sorted_wrt.simps using trans [OF r] by blast
  with r rest show ?case by simp
qed simp

lemma unorganized_entries: "om_ok (unorganized original) \<and> (\<forall>k e. map_of (unorganized original) k = Some e \<longrightarrow>
    k = (oz_author e, ci_id (oz_item e)) \<and> oz_revision e = oz_operation e \<and> oz_organization e = organization_from_item (oz_item e) \<and>
    (oz_item e, oz_operation e, oz_author e) \<in> set original)"
proof (induction original rule: rev_induct)
  case Nil
  then show ?case by (simp add: unorganized_def om_ok_def)
next
  case (snoc x xs)
  obtain item i w where "x = (item, i, w)" by (cases x)
  with snoc show ?case by (auto simp: unorganized_def om_ok_put map_of_om_put)
qed

section \<open>What the projections return\<close>

lemma composition_Done:
  assumes "composition_with_cipher codec cp causal policy records cipher m b = Done items"
  shows "\<exists>order es kept t. ca_closed causal records = Inr (order, []) \<and> decode_all codec cipher records order = Done es \<and>
    fold_events (retain_event cp m b) es ([], 0) = Inr (kept, t) \<and> items = map snd kept"
proof -
  from assms obtain order kept t where o: "ca_closed causal records = Inr (order, [])" "items = map snd kept"
    and run: "over_events codec cipher records (retain_event cp m b) order ([], 0) = Done (kept, t)"
    by (auto simp: composition_with_cipher_def chain_Done closed_history_Done map_done_eq_Done)
  from over_events_Done [OF run] o show ?thesis by blast
qed

lemma organized_Done:
  assumes "organized_composition_with_cipher codec cp causal policy records cipher m b = Done (items, t)"
  shows "\<exists>order es original kept. ca_closed causal records = Inr (order, []) \<and> decode_all codec cipher records order = Done es \<and>
    composition_with_cipher codec cp causal policy records cipher m b = Done original \<and>
    fold_events (organize_event cp (ca_before causal records) b) es (unorganized original, 0) = Inr (kept, t) \<and>
    items = map snd kept"
proof -
  from assms obtain original order kept where o: "composition_with_cipher codec cp causal policy records cipher m b = Done original"
      "ca_closed causal records = Inr (order, [])" "items = map snd kept"
    and run: "over_events codec cipher records (organize_event cp (ca_before causal records) b) order (unorganized original, 0) = Done (kept, t)"
    by (auto simp: organized_composition_with_cipher_def chain_Done closed_history_Done map_done_eq_Done)
  from over_events_Done [OF run] o show ?thesis by blast
qed

lemma retained_entries:
  assumes "retained_ok cp es kept"
  shows "(item, i, w) \<in> set (map snd kept) \<longleftrightarrow>
    retained_entry cp (retentions cp es (w, ci_id item)) w (Some (item, i, w))" (is "?in \<longleftrightarrow> ?entry")
proof -
  from assms have ok: "om_ok kept" "\<And>k. retained_entry cp (retentions cp es k) (fst k) (map_of kept k)"
    unfolding retained_ok_def by blast+
  show ?thesis
  proof
    assume ?in
    then obtain k where "(k, item, i, w) \<in> set kept" by auto
    then have k: "map_of kept k = Some (item, i, w)" by (rule map_of_is_SomeI [OF om_distinct [OF ok(1)]])
    with ok(2) [of k] have e: "retained_entry cp (retentions cp es k) w (Some (item, i, w))" "fst k = w"
      by (auto simp: retained_entry_def)
    then have "snd k = ci_id item" by (auto simp: retained_entry_def retentions_def)
    with e have "k = (w, ci_id item)" by (cases k) simp
    with e(1) show ?entry by simp
  next
    assume r: ?entry
    then obtain e where e: "map_of kept (w, ci_id item) = Some e" using ok(2) [of "(w, ci_id item)"]
      by (cases "map_of kept (w, ci_id item)") (auto simp: retained_entry_def)
    obtain item' i' w' where e': "e = (item', i', w')" by (cases e)
    from ok(2) [of "(w, ci_id item)"] r have "e = (item, i, w)" by (auto simp: e e' retained_entry_def)
    with e have "((w, ci_id item), item, i, w) \<in> set kept" by (simp add: map_of_SomeD)
    then show ?in by force
  qed
qed

text \<open>The limits are enforced after each event.\<close>

definition retention_bytes :: "signed_event list \<Rightarrow> nat" where
  "retention_bytes es = sum_list (map (\<lambda>x. case sg_event x of RetainCompositionV1 json \<Rightarrow> length json | _ \<Rightarrow> 0) es)"

lemma retain_event_limits:
  assumes run: "retain_event cp m b x (items, t) = Inr (items', t')" and ok: "om_ok items" "length items \<le> m" "t \<le> b"
  shows "om_ok items' \<and> length items' \<le> m \<and> t' \<le> b \<and> t' = t + retention_bytes [x]"
proof (cases "\<exists>json. sg_event x = RetainCompositionV1 json")
  case False
  with run have "items' = items" "t' = t" "retention_bytes [x] = 0"
    by (auto simp: retain_event_def retention_bytes_def split: sync_event.splits)
  with ok show ?thesis by simp
next
  case True
  then obtain json where json: "sg_event x = RetainCompositionV1 json" by blast
  with run obtain item where item: "composition_item cp json = Inr item" by (auto simp: retain_event_def ok_iff)
  let ?k = "(sg_author x, ci_id item)"
  have bytes: "retention_bytes [x] = length json" by (simp add: retention_bytes_def json)
  show ?thesis
  proof (cases "map_of items ?k")
    case None
    with run ok(1) bytes show ?thesis
      by (auto simp: retain_event_def json item Let_def om_ok_put split: if_splits)
  next
    case (Some e)
    obtain previous i w where e: "e = (previous, i, w)" by (cases e)
    from Some have "?k \<in> set (map fst items)" by (metis map_of_eq_None_iff option.distinct(1) set_map)
    then have "length (om_put ?k v items) = length items" for v using length_om_put [OF ok(1)] by metis
    with run ok(1,2) Some e bytes show ?thesis
      by (auto simp: retain_event_def json item Let_def om_ok_put split: if_splits)
  qed
qed

lemma retention_limits: "fold_events (retain_event cp m b) es ([], 0) = Inr (items, t) \<Longrightarrow>
    om_ok items \<and> length items \<le> m \<and> t \<le> b \<and> t = retention_bytes es"
proof (induction es arbitrary: items t rule: rev_induct)
  case Nil
  then show ?case by (simp add: om_ok_def retention_bytes_def)
next
  case (snoc x es)
  then obtain items1 t1 where s: "fold_events (retain_event cp m b) es ([], 0) = Inr (items1, t1)"
      "retain_event cp m b x (items1, t1) = Inr (items, t)"
    by (auto simp: fold_events_snoc ok_iff)
  from snoc.IH [OF s(1)] retain_event_limits [OF s(2)] show ?case by (simp add: retention_bytes_def)
qed

lemma fold_events_cong:
  "(\<And>x s. x \<in> set es \<Longrightarrow> f x s = g x s) \<Longrightarrow> fold_events f es s = fold_events g es s"
proof (induction es arbitrary: s)
  case (Cons x es)
  then have "f x s = g x s" "fold_events f es = fold_events g es" by auto
  then show ?case by simp
qed simp

lemma organize_event_cong:
  "(\<And>a. before' a (sg_operation x) = before a (sg_operation x)) \<Longrightarrow> organize_event cp before' b x s = organize_event cp before b x s"
  by (cases s; cases "sg_event x") (simp_all add: organize_event_def split: option.split)

lemma organize_request_Inr:
  assumes "organize_request codec cp causal encode policy w records cipher change m b = Done (Inr event)"
  shows "\<exists>items t e json. organized_composition_with_cipher codec cp causal policy records cipher m b = Done (items, t) \<and>
    e \<in> set items \<and> oz_author e = oc_author change \<and> ci_id (oz_item e) = oc_item_id change \<and>
    oz_revision e = oc_expected_revision change \<and> t + length json \<le> b \<and>
    event = OrganizeCompositionV1 (oc_author change) (oc_item_id change) (oc_expected_revision change) json"
  using assms
  by (auto simp: organize_request_def chain_Done of_result_Done find_Some_iff split: option.splits if_splits) (metis nth_mem not_less)

lemma organized_keys:
  assumes "fold_events (organize_event cp before b) es (unorganized original, 0) = Inr (kept, t)" and "(k, e) \<in> set kept"
  shows "k = (oz_author e, ci_id (oz_item e)) \<and> map_of kept k = Some e \<and>
    (\<exists>g. map_of (unorganized original) k = Some g \<and> organized_by cp before (filter (organizes k) es) g e \<and>
      oz_item e = oz_item g \<and> oz_author e = oz_author g \<and> oz_operation e = oz_operation g)"
proof -
  note start = unorganized_entries [of original]
  note fold = organize_fold [OF assms(1) conjunct1 [OF start]]
  have e: "map_of kept k = Some e" by (rule map_of_is_SomeI [OF om_distinct [OF conjunct1 [OF fold]] assms(2)])
  then obtain g where g: "map_of (unorganized original) k = Some g" using fold by (cases "map_of (unorganized original) k") auto
  then obtain e' where "map_of kept k = Some e'" "organized_by cp before (filter (organizes k) es) g e'" using fold by blast
  with e have steps: "organized_by cp before (filter (organizes k) es) g e" by simp
  then have "oz_item e = oz_item g" "oz_author e = oz_author g" "oz_operation e = oz_operation g" by (simp_all add: organized_by_def)
  moreover from start g have "k = (oz_author g, ci_id (oz_item g))" by blast
  ultimately show ?thesis using e g steps by simp
qed

lemma find_entry:
  assumes "e \<in> set xs" and "P e" and "\<And>x. x \<in> set xs \<Longrightarrow> P x \<Longrightarrow> x = e"
  shows "find P xs = Some e"
proof (cases "find P xs")
  case None
  with assms(1,2) show ?thesis by (auto simp: find_None_iff)
next
  case (Some x)
  then have "x \<in> set xs" "P x" by (auto simp: find_Some_iff)
  with assms(3) Some show ?thesis by simp
qed

section \<open>Properties\<close>

text \<open>A replica on which one writer retained a note and another organized it.\<close>

definition shelf_item :: "(unit, unit) collection_item" where
  "shelf_item = new_item ''i'' NoteItem ''moor'' ''upland''"

definition shelf_organization :: organization where
  "shelf_organization = (organization_from_item shelf_item)\<lparr>og_collection := ''Heath''\<rparr>"

definition shelf_change :: organize_composition where
  "shelf_change = \<lparr>oc_author = ''A'', oc_item_id = ''i'', oc_expected_revision = ''2'',
     oc_organization = shelf_organization\<lparr>og_archived := True\<rparr>\<rparr>"

definition shelf_codec :: "(unit, unit) composition_codec" where
  "shelf_codec = sample_composition\<lparr>cp_item := (\<lambda>j. if j = ''I'' then Inr shelf_item else Inl ''none''),
     cp_organization := (\<lambda>j. if j = ''G'' then Inr shelf_organization
       else if j = ''H'' then Inr (oc_organization shelf_change) else Inl ''none'')\<rparr>"

definition shelf_events :: "(unit, unit, bytes) codec" where
  "shelf_events = sample_codec\<lparr>cd_event := (\<lambda>b. if b = ''1'' then Inr (RetainCompositionV1 ''I'')
     else if b = ''2'' then Inr (OrganizeCompositionV1 ''A'' ''i'' ''1'' ''G'') else Inl ''unknown variant'')\<rparr>"

definition shelf_records :: "stored_operation list" where
  "shelf_records = [sample_operation ''1'' ''A'', sample_operation ''2'' ''B'']"

definition shelf_history :: "signed_event list" where
  "shelf_history = [signed ''1'' ''A'' (RetainCompositionV1 ''I''), signed ''2'' ''B'' (OrganizeCompositionV1 ''A'' ''i'' ''1'' ''G'')]"

definition shelf_entry :: "(unit, unit) organized" where
  "shelf_entry = \<lparr>oz_item = shelf_item, oz_operation = ''1'', oz_author = ''A'', oz_organization = shelf_organization, oz_revision = ''2''\<rparr>"

lemmas shelf_bounds = bounded_nonempty_def MAX_ID_BYTES_def MAX_LABEL_BYTES_def MAX_TEXT_BYTES_def MAX_TAGS_def
  MAX_PACK_SOURCES_def MAX_STORE_BYTES_def

lemma shelf_text: "str_trim ''i'' = ''i''" "str_trim ''moor'' = ''moor''" "str_trim ''Commonplace'' = ''Commonplace''"
  "str_trim ''Heath'' = ''Heath''"
  by code_simp+

lemma shelf_items: "composition_item shelf_codec ''I'' = Inr shelf_item"
  by (simp add: composition_item_def shelf_codec_def sample_composition_def validate_item_def shelf_item_def new_item_def
      validate_metre_def validate_recipe_of_def map_error_def ensure_that_def if_some_def shelf_bounds shelf_text)

lemma shelf_organizations: "composition_organization shelf_codec ''G'' = Inr shelf_organization"
  by (simp add: composition_organization_def shelf_codec_def sample_composition_def validate_organization_def
      shelf_organization_def organization_from_item_def shelf_item_def new_item_def map_error_def ensure_that_def if_some_def shelf_bounds shelf_text)

lemma shelf_archived:
  "validate_organization (oc_organization shelf_change) = Inr ()"
  "composition_organization shelf_codec ''H'' = Inr (oc_organization shelf_change)"
  by (simp_all add: composition_organization_def shelf_codec_def sample_composition_def validate_organization_def shelf_change_def
      shelf_organization_def organization_from_item_def shelf_item_def new_item_def map_error_def ensure_that_def shelf_bounds shelf_text)

lemma shelf_closed: "closed_history sample_api sample_policy shelf_records (Personal ()) reason = Done [0, Suc 0]"
  by (simp add: closed_history_Done require_cipher_def ensure_that_def sample_policy_def sample_api_def shelf_records_def upt_rec)

lemma shelf_decodes: "decode_all shelf_events (Personal ()) shelf_records [0, Suc 0] = Done shelf_history"
  by (simp add: decode_all_def shelf_records_def sample_operation_def decode_event_def shelf_events_def sample_codec_def
      map_error_def shelf_history_def signed_event_of_def signed_def Let_def)

lemma shelf_pass: "over_events shelf_events (Personal ()) shelf_records f [0, Suc 0] s = of_result (fold_events f shelf_history s)"
proof -
  have read: "decode_event shelf_events (Personal ()) (so_operation (shelf_records ! 0)) = Inr (RetainCompositionV1 ''I'')"
    "decode_event shelf_events (Personal ()) (so_operation (shelf_records ! 1)) = Inr (OrganizeCompositionV1 ''A'' ''i'' ''1'' ''G'')"
    by (simp_all add: shelf_records_def sample_operation_def decode_event_def shelf_events_def sample_codec_def map_error_def)
  have signs: "signed_event_of (so_operation (shelf_records ! 0)) e = signed ''1'' ''A'' e"
    "signed_event_of (so_operation (shelf_records ! 1)) e = signed ''2'' ''B'' e" for e
    by (simp_all add: shelf_records_def sample_operation_def signed_event_of_def signed_def)
  have size: "length shelf_records = 2" by (simp add: shelf_records_def)
  show ?thesis
  proof (cases "f (signed ''1'' ''A'' (RetainCompositionV1 ''I'')) s")
    case (Inr s1)
    then show ?thesis
      by (cases "f (signed ''2'' ''B'' (OrganizeCompositionV1 ''A'' ''i'' ''1'' ''G'')) s1")
        (simp_all add: read [simplified] signs [simplified] size shelf_history_def of_result_def)
  qed (simp add: read [simplified] signs [simplified] size shelf_history_def of_result_def)
qed

lemma shelf_composition:
  "composition_with_cipher shelf_events shelf_codec sample_api sample_policy shelf_records (Personal ()) 5 5 = Done [(shelf_item, ''1'', ''A'')]"
  by (simp del: over_events.simps add: composition_with_cipher_def shelf_closed shelf_pass shelf_history_def signed_def retain_event_def shelf_items Let_def of_result_def)

lemma shelf_original: "unorganized [(shelf_item, ''1'', ''A'')] =
    [((''A'', ''i''), shelf_entry\<lparr>oz_organization := organization_from_item shelf_item, oz_revision := ''1''\<rparr>)]"
  by (simp add: unorganized_def shelf_entry_def shelf_item_def new_item_def)

lemma shelf_organized:
  "organized_composition_with_cipher shelf_events shelf_codec sample_api sample_policy shelf_records (Personal ()) 5 5 = Done ([shelf_entry], 2)"
  unfolding organized_composition_with_cipher_def shelf_composition chain.simps shelf_original shelf_closed shelf_pass
  by (simp add: shelf_history_def signed_def sample_api_def organize_event_def shelf_organizations shelf_entry_def of_result_def)

text \<open>
  C12: A replica shows an item exactly when some event of its closed history retains it, all events by
  which its writer retains the name agree on the content, and its operation is the least of theirs.
\<close>

theorem retained_items_exact:
  assumes "composition_with_cipher codec cp causal policy records cipher m b = Done items"
    and "ca_closed causal records = Inr (order, pending)" and "decode_all codec cipher records order = Done es"
  shows "(item, i, w) \<in> set items \<longleftrightarrow> (let R = retentions cp es (w, ci_id item) in
    R \<noteq> {} \<and> (\<forall>x \<in> R. retained_item cp x = Some item) \<and> i = Min (sg_operation ` R))"
proof -
  from composition_Done [OF assms(1)] assms(2,3) obtain kept t
    where "fold_events (retain_event cp m b) es ([], 0) = Inr (kept, t)" "items = map snd kept" by auto
  with retained_entries [OF retained_fold] show ?thesis by (simp add: retained_entry_def Let_def)
qed

lemma shelf_causal: "ca_closed sample_api shelf_records = Inr ([0, Suc 0], [])"
  by (simp add: sample_api_def shelf_records_def upt_rec)

theorem retained_items_exact_witness:
  "retentions shelf_codec shelf_history (''A'', ci_id shelf_item) \<noteq> {} \<and>
   ''1'' = Min (sg_operation ` retentions shelf_codec shelf_history (''A'', ci_id shelf_item))"
proof -
  have "(shelf_item, ''1'', ''A'') \<in> set [(shelf_item, ''1'', ''A'')]" by simp
  with retained_items_exact [OF shelf_composition shelf_causal shelf_decodes, of shelf_item "''1''" "''A''"]
  show ?thesis by (simp add: Let_def)
qed



text \<open>
  C11: The organizations of an item form one line in the closed history: the first names the operation
  that retained the item, each later one names the one before it and has seen it, and the replica shows
  what the last of them says.
\<close>

theorem organization_linear:
  assumes "organized_composition_with_cipher codec cp causal policy records cipher m b = Done (items, n)"
    and "ca_closed causal records = Inr (order, pending)" and "decode_all codec cipher records order = Done es"
    and "e \<in> set items"
  shows "let xs = filter (organizes (oz_author e, ci_id (oz_item e))) es in
    organize_chain (ca_before causal records) (oz_operation e) xs \<and>
    oz_revision e = last (oz_operation e # map sg_operation xs) \<and>
    oz_organization e = organization_after cp (organization_from_item (oz_item e)) xs"
proof -
  from organized_Done [OF assms(1)] assms(2,3) obtain original kept
    where kept: "fold_events (organize_event cp (ca_before causal records) b) es (unorganized original, 0) = Inr (kept, n)"
      and items: "items = map snd kept" by auto
  from items assms(4) obtain k where "(k, e) \<in> set kept" by auto
  from organized_keys [OF kept this] obtain g where k: "k = (oz_author e, ci_id (oz_item e))"
    and g: "map_of (unorganized original) k = Some g" and steps: "organized_by cp (ca_before causal records) (filter (organizes k) es) g e"
    and same: "oz_item e = oz_item g" "oz_operation e = oz_operation g" by blast
  from unorganized_entries [of original] g
  have "oz_revision g = oz_operation g" "oz_organization g = organization_from_item (oz_item g)" by blast+
  moreover from steps have "organize_chain (ca_before causal records) (oz_revision g) (filter (organizes k) es)"
    "oz_organization e = organization_after cp (oz_organization g) (filter (organizes k) es)"
    "oz_revision e = last (oz_revision g # map sg_operation (filter (organizes k) es))"
    by (simp_all add: organized_by_def)
  ultimately show ?thesis unfolding k [symmetric] Let_def unfolding same by simp
qed

theorem organization_linear_witness:
  "let xs = filter (organizes (''A'', ci_id shelf_item)) shelf_history in
    organize_chain (ca_before sample_api shelf_records) ''1'' xs \<and> ''2'' = last (''1'' # map sg_operation xs)"
  using organization_linear [OF shelf_organized shelf_causal shelf_decodes, of shelf_entry]
  by (simp add: shelf_entry_def Let_def)

text \<open>
  Retaining an item that the writer has retained already changes nothing: the answer is the operation
  that holds it.
\<close>

theorem retention_idempotent:
  assumes "composition_with_cipher codec cp causal policy records cipher m b = Done items"
    and "organized_composition_with_cipher codec cp causal policy records cipher m b = Done organized"
    and "require_admitted_writer policy (aa_key api seed) = Inr ()" and "(item, i, aa_key api seed) \<in> set items"
  shows "retain_composition_with_cipher codec cp causal causality api encode policy clock seed cipher item m b records =
    (Done (i, True), records)"
proof -
  let ?w = "aa_key api seed"
  from composition_Done [OF assms(1)] obtain es kept t
    where "fold_events (retain_event cp m b) es ([], 0) = Inr (kept, t)" "items = map snd kept" by blast
  note entries = retained_entries [OF retained_fold [OF this(1)], folded this(2)]
  have only: "x = (item, i, ?w)" if x: "x \<in> set items" and same: "(\<lambda>(candidate, _, author). author = ?w \<and> ci_id candidate = ci_id item) x" for x
  proof -
    obtain item' j where x': "x = (item', j, ?w)" "ci_id item' = ci_id item" using same by (cases x) auto
    from x x' entries [of item' j ?w] have "retained_entry cp (retentions cp es (?w, ci_id item)) ?w (Some (item', j, ?w))" by simp
    moreover from assms(4) entries [of item i ?w]
    have "retained_entry cp (retentions cp es (?w, ci_id item)) ?w (Some (item, i, ?w))" by simp
    ultimately show ?thesis unfolding x' retained_entry_def by (auto simp: ex_in_conv [symmetric])
  qed
  have found: "find (\<lambda>(candidate, _, author). author = ?w \<and> ci_id candidate = ci_id item) items = Some (item, i, ?w)"
    by (rule find_entry [OF assms(4) _ only]) simp_all
  have "require_cipher policy cipher = Inr ()"
    using assms(1) by (auto simp: composition_with_cipher_def chain_Done closed_history_Done)
  with assms(1-3) found show ?thesis
    by (cases organized) (simp add: retain_composition_with_cipher_def retain_request_def author_request_def of_result_def)
qed

definition shelf_author :: "(unit, unit, bytes) author_api" where
  "shelf_author = \<lparr>aa_key = (\<lambda>seed. seed), aa_head = (\<lambda>_ _. Inr (0, None)), aa_event = (\<lambda>_. Inl ''none''),
     aa_seal = (\<lambda>_ _ b. Inr b), aa_seal_random = (\<lambda>_ b. Inr b), aa_envelope = Inr, aa_sign = (\<lambda>_ op _. op),
     aa_process = (\<lambda>_ op records. (Inr True, records @ [\<lparr>so_operation = op, so_log_id = 0\<rparr>]))\<rparr>"

theorem retention_idempotent_witness:
  "retain_composition_with_cipher shelf_events shelf_codec sample_api (\<lambda>_. Inr ()) shelf_author (\<lambda>_. Inl ''none'') sample_policy
    None ''A'' (Personal ()) shelf_item 5 5 shelf_records = (Done (''1'', True), shelf_records)"
  by (rule retention_idempotent [OF shelf_composition shelf_organized])
    (simp_all add: shelf_author_def require_admitted_writer_def sample_policy_def ensure_that_def)

text \<open>
  C20: A change of the organization of an item, authored against the revision its writer saw, is accepted
  by every replica that adds its operation to the same history, and shown there.
\<close>

theorem authored_change_shown:
  assumes "organize_request codec cp causal encode policy w records cipher change m b =
      Done (Inr (OrganizeCompositionV1 author i previous json))"
    and "composition_with_cipher codec cp causal policy records cipher m b = Done original"
    and "ca_closed causal records = Inr (order, pending)" and "decode_all codec cipher records order = Done es"
    and "composition_organization cp json = Inr (oc_organization change)"
    and "sg_event x = OrganizeCompositionV1 author i previous json"
    and "\<forall>y \<in> set es. sg_operation y \<noteq> sg_operation x"
    and "appended (ca_before causal records) before' parents (sg_operation x)"
    and "frontier_observes (ca_before causal records) parents (oc_expected_revision change)"
  shows "\<exists>kept n e. fold_events (organize_event cp before' b) (es @ [x]) (unorganized original, 0) = Inr (kept, n) \<and>
    map_of kept (oc_author change, oc_item_id change) = Some e \<and> oz_organization e = oc_organization change \<and>
    oz_revision e = sg_operation x"
proof -
  let ?before = "ca_before causal records" and ?k = "(oc_author change, oc_item_id change)"
  from organize_request_Inr [OF assms(1)] obtain items t e
    where run: "organized_composition_with_cipher codec cp causal policy records cipher m b = Done (items, t)"
      and e: "e \<in> set items" "oz_author e = oc_author change" "ci_id (oz_item e) = oc_item_id change"
        "oz_revision e = oc_expected_revision change"
      and event: "t + length json \<le> b" "author = oc_author change" "i = oc_item_id change" "previous = oc_expected_revision change"
    by auto
  from organized_Done [OF run] assms(2-4) obtain kept
    where kept: "fold_events (organize_event cp ?before b) es (unorganized original, 0) = Inr (kept, t)" "items = map snd kept" by auto
  from kept(2) e(1) obtain k where "(k, e) \<in> set kept" by auto
  with organized_keys [OF kept(1) this] e(2,3) have here: "map_of kept ?k = Some e" by auto
  have "fold_events (organize_event cp before' b) es = fold_events (organize_event cp ?before b) es"
  proof (rule ext, rule fold_events_cong)
    fix y s assume "y \<in> set es"
    with assms(7,8) have "before' a (sg_operation y) = ?before a (sg_operation y)" for a by (simp add: appended_def)
    then show "organize_event cp before' b y s = organize_event cp ?before b y s" by (rule organize_event_cong)
  qed
  moreover have "before' (oc_expected_revision change) (sg_operation x)" using assms(8,9) by (simp add: appended_def)
  ultimately show ?thesis
    using kept(1) here e(4) event assms(5,6)
    by (simp add: fold_events_snoc organize_event_def map_of_om_put)
qed

lemma shelf_request:
  "organize_request shelf_events shelf_codec sample_api (\<lambda>_. Inr ''H'') sample_policy ''B'' shelf_records (Personal ()) shelf_change 5 5 =
    Done (Inr (OrganizeCompositionV1 ''A'' ''i'' ''2'' ''H''))"
proof -
  have "require_cipher sample_policy (Personal () :: (unit, unit) cipher) = Inr ()" "require_admitted_writer sample_policy ''B'' = Inr ()"
    by (simp_all add: require_cipher_def require_admitted_writer_def ensure_that_def sample_policy_def)
  moreover have "oz_author shelf_entry = oc_author shelf_change" "ci_id (oz_item shelf_entry) = oc_item_id shelf_change"
    "oz_revision shelf_entry = oc_expected_revision shelf_change" "oz_organization shelf_entry \<noteq> oc_organization shelf_change"
    "oc_author shelf_change = ''A''" "oc_item_id shelf_change = ''i''" "oc_expected_revision shelf_change = ''2''"
    by (simp_all add: shelf_entry_def shelf_change_def shelf_item_def new_item_def shelf_organization_def organization_from_item_def)
  ultimately show ?thesis
    by (simp add: organize_request_def shelf_organized shelf_archived(1) of_result_def map_error_def)
qed

theorem authored_change_shown_witness:
  "\<exists>before' kept n e. fold_events (organize_event shelf_codec before' 5)
      (shelf_history @ [signed ''9'' ''B'' (OrganizeCompositionV1 ''A'' ''i'' ''2'' ''H'')]) (unorganized [(shelf_item, ''1'', ''A'')], 0) =
      Inr (kept, n) \<and> map_of kept (oc_author shelf_change, oc_item_id shelf_change) = Some e \<and> og_archived (oz_organization e)"
proof -
  let ?before = "ca_before sample_api shelf_records" and ?parents = "[''1'', ''2'']"
  let ?later = "\<lambda>a b. if b = ''9'' then frontier_observes ?before ?parents a else ?before a b"
  let ?x = "signed ''9'' ''B'' (OrganizeCompositionV1 ''A'' ''i'' ''2'' ''H'')"
  have "\<exists>kept n e. fold_events (organize_event shelf_codec ?later 5) (shelf_history @ [?x]) (unorganized [(shelf_item, ''1'', ''A'')], 0) =
      Inr (kept, n) \<and> map_of kept (oc_author shelf_change, oc_item_id shelf_change) = Some e \<and>
      oz_organization e = oc_organization shelf_change \<and> oz_revision e = sg_operation ?x"
    by (rule authored_change_shown [OF shelf_request shelf_composition shelf_causal shelf_decodes shelf_archived(2), where parents = ?parents])
      (auto simp: signed_def shelf_history_def appended_def frontier_observes_def shelf_change_def)
  then obtain kept n e where shown: "fold_events (organize_event shelf_codec ?later 5) (shelf_history @ [?x])
      (unorganized [(shelf_item, ''1'', ''A'')], 0) = Inr (kept, n)"
    "map_of kept (oc_author shelf_change, oc_item_id shelf_change) = Some e" "oz_organization e = oc_organization shelf_change"
    by (elim exE conjE) (rule that)
  have "og_archived (oz_organization e)" unfolding shown(3) by (simp add: shelf_change_def)
  with shown(1,2) show ?thesis by (intro exI conjI)
qed

end
