(* ===== verification/Spec2Isabelle.thy ===== *)
theory Spec2Isabelle
  imports Source_Edit Text_Merge Hard_Wrap Reference_Registry Link_Scan Reading_Run Peer_Composition Key_Names
begin

text \<open>
  Verification library for the knot-editor repository: a text editor whose documents are ordinary
  files, with guarded saving, three-way merging of diverged copies, a catalog of durable file
  identities, a registry of reference data packs, and readings of the sound of a text.

  \<^bold>\<open>The program and its model.\<close> Each theory models the code of one component; a definition has the
  name of the function it models, and the records and datatypes have its fields and constructors.

    \<^item> \<open>Knot_Prelude\<close>: outcomes of operations (a value, an error, a death or a panic), the
      contracts of state machines that the components share, lemmas on lists and options.
    \<^item> \<open>Knot_Text\<close>: the parts of \<open>str\<close> that the code uses, over UTF-8 bytes.
    \<^item> \<open>Knot_FileSystem\<close>: the parts of \<open>std::fs\<close> that the code uses: a tree of entries and inodes, a
      schedule that makes any call fail, do part of its work, or be the last one, and lets other
      processes act between calls; a calculus for programs that use it.
    \<^item> \<open>Doc_Format\<close>, \<open>Doc_Writer\<close>, \<open>Doc_Editor\<close>: \<open>knot-document\<close>, the formats, the atomic writer
      (\<open>writer.rs\<close>) and the editor with its guarded save (\<open>editor.rs\<close>).
    \<^item> \<open>Doc_Session\<close>, \<open>Source_Edit\<close>: the session a host drives by intents (\<open>document_surface.rs\<close>,
      \<open>document_view.rs\<close>) and proposals against a source version (\<open>source_edit.rs\<close>).
    \<^item> \<open>Hard_Wrap\<close>: the detection of a hard-wrap column (\<open>hard_wrap.rs\<close>).
    \<^item> \<open>Text_Merge\<close>: the merges of \<open>knot-editor/src/djot_merge.rs\<close>.
    \<^item> \<open>File_Catalog\<close>: \<open>knot-file-catalog\<close>, its bindings and bounded captures.
    \<^item> \<open>Reference_Pack\<close>, \<open>Registry_Store\<close>, \<open>Reference_Registry\<close>: \<open>reference-data\<close>, the validation of
      packs (\<open>validation.rs\<close>), the files of the registry and its operations (\<open>registry.rs\<close>);
      \<open>Ordered_Map\<close>: the \<open>BTreeMap\<close> it keeps its sources in.
    \<^item> \<open>Mora_Sound\<close>, \<open>Mora_Verse\<close>, \<open>Mora_English\<close>: \<open>mora\<close> and \<open>mora-cmudict\<close>, from phones to
      syllables, morae, metre and the kinship of sounds, and the pronunciation dictionary.
    \<^item> \<open>Sound_Reading\<close>: \<open>knot-readings/src/sound.rs\<close>, which joins them over a selection.
    \<^item> \<open>Link_Scan\<close>, \<open>Reading_Run\<close>: the spans of links (\<open>links.rs\<close>), the bounded run of a reading
      script (\<open>lib.rs\<close>), the loading of scripts (\<open>scripts.rs\<close>) and the history of a metre draft
      (\<open>metre_alignment.rs\<close>) of \<open>knot-readings\<close>.
    \<^item> \<open>Key_Names\<close>, \<open>Peer_Relations\<close>: the names of peers (\<open>did_key.rs\<close>, base58), the relations
      between passages and the predicates that writers define (\<open>relations.rs\<close>, \<open>predicates.rs\<close>), with
      their wire form and the validation of their payloads.
    \<^item> \<open>Peer_Documents\<close>, \<open>Peer_Fold\<close>, \<open>Peer_Projection\<close>: the folds of \<open>knot-editor/src/sync.rs\<close> over
      the closed history of a note space (documents with their concurrent versions and resolutions,
      then relations, retractions and predicate definitions), the decoding of operations and the
      projection that joins them; \<open>Peer_Replay\<close> and \<open>Peer_View\<close> hold what they promise.
    \<^item> \<open>Composition_Item\<close>, \<open>Peer_Author\<close>, \<open>Peer_Admission\<close>, \<open>Peer_Composition\<close>: collected material
      (\<open>knot-composition\<close>: anchors, items, organizations, recipes), the local validation and authoring
      of events (\<open>validate_local_relation_event\<close> to \<open>author_under_gate\<close>), the agreement of the two
      checks, and the retention and organization of items in a note space.

  \<^bold>\<open>How they interact.\<close> A session owns an editor, an editor saves through the writer, and the
  writer is a program over the file system; a proposal is checked against the session's stamp
  before it reaches the editor. The catalog and the registry are other programs over the same file
  system; the registry validates a pack before it stores it and again when it is opened. A sound
  reading tokenizes a selection, looks its words up in the dictionary, and compares their
  syllables. A replica of a note space reads its signed operations in a causal order: each is
  decoded, the document fold keeps the versions that nothing has superseded, two of them go to the
  three-way merge or become a conflict, and the relation fold checks assertions against the
  documents that its author had seen. Authoring runs the same folds first, over what the writer
  has. The interfaces are locales: \<open>machine\<close>, \<open>ranked_machine\<close> and \<open>stamped_machine\<close> are the
  contract of a component driven by operations (instances: the session with its stamp, the
  catalog, the registry, the metre draft), \<open>table\<close> is that of a map kept in order, \<open>three_way\<close> is that of a merge (scalars, lines, Djot texts), \<open>kinship\<close> that of a relation
  of sounds.

  \<^bold>\<open>What the lemmas show.\<close> For the writer and the editor: whatever call fails and wherever the
  process dies, a save leaves the old or the new bytes, and never replaces what it has not seen.
  For the session: what a host sees is explained by what was done, a stamp determines the source,
  a read-only session is inert. For the merges: symmetry, exactness against the edits of both
  sides, and completeness. For the catalog: the invariant over any run, exact effects of binding
  and rebinding, bounded captures. For the registry: which bytes are a pack, that
  memory and disk agree after every run and every crash, that a reopened registry is the one that
  was closed, and what an import and a look-up do. For the sounds: refinement of the buffer algorithms to their
  specifications, exactness of the readings, absence of panics. For the peers: what a fold shows is described without
  mention of its order (\<open>live\<close>, \<open>relations_spec\<close>, \<open>catalog_of\<close>), so replicas with the same events
  agree; a conflict lists exactly the live versions and can be resolved; a kept quotation is a slice
  of its source; what passes the author's check is accepted everywhere; retained items are exact and
  bounded, and their organization is one causal line.

  \<^bold>\<open>Bounds and fuel.\<close> The writer tries 128 temporary names and the registry 100, as
  the code does. Symbolic links are
  followed at most 40 times, as the kernel does. The read loop of a capture gets \<open>max_bytes + 1\<close>
  turns, which are enough: every turn but the last adds a byte (\<open>read_file_bounded_returns\<close>). All
  other loops recurse on their data.

  \<^bold>\<open>Parameters of the peers.\<close> The causal index, the JSON and CBOR codecs, the ciphers, signatures
  and the store of operations belong to other packages. They are arguments (\<open>causal_api\<close>, \<open>codec\<close>,
  \<open>author_api\<close>, \<open>merge_api\<close>, \<open>composition_codec\<close>); what the lemmas need of the index is the
  hypothesis \<open>causal_events\<close>: the order is one of distinct operations in which causes come first and
  the operations of one writer follow each other. A sample replica satisfies it.

  \<^bold>\<open>Not modelled.\<close> The desktop application (widgets, scenes, windows); the parts of \<open>sync.rs\<close> for
  checkpoints, pruning, sessions and transport, \<open>endpoint.rs\<close> and publishing, which drive storage,
  network and signature packages that are not in the repository; the file store of collections and
  the WordNet import; the scripting engine behind readings; the Windows paths of the writer; and
  everything that only renders.
\<close>

end
